(* ===== verification/Prelude.thy ===== *)
theory Prelude
  imports Main "HOL-Library.Word"
begin

text \<open>
  What the components of the kernel model share: the machine types of the i386 kernel
  (\<^verbatim>\<open>natural_t\<close> is a 32-bit unsigned word), the kernel return codes
  (\<^verbatim>\<open>mach/kern_return.h\<close>), and generic lemmas on ascending association lists,
  on lists updated by index and on bit masks.
\<close>

unbundle bit_operations_syntax

named_theorems ipc_defs \<open>definitions of the capability code that a proof unfolds together\<close>
named_theorems bits_simps \<open>facts on the packed bit fields of capabilities\<close>

section \<open>Machine types\<close>

type_synonym natural_t = "32 word"
type_synonym mach_port_t = "32 word"
type_synonym vm_offset_t = "32 word"

datatype kern_return_t =
    KERN_SUCCESS
  | KERN_INVALID_ADDRESS
  | KERN_PROTECTION_FAILURE
  | KERN_NO_SPACE
  | KERN_INVALID_ARGUMENT
  | KERN_FAILURE
  | KERN_RESOURCE_SHORTAGE
  | KERN_NOT_RECEIVER
  | KERN_NO_ACCESS
  | KERN_MEMORY_FAILURE
  | KERN_MEMORY_ERROR
  | KERN_ALREADY_IN_SET
  | KERN_NOT_IN_SET
  | KERN_NAME_EXISTS
  | KERN_ABORTED
  | KERN_INVALID_NAME
  | KERN_INVALID_TASK
  | KERN_INVALID_RIGHT
  | KERN_INVALID_VALUE
  | KERN_UREFS_OVERFLOW
  | KERN_INVALID_CAPABILITY
  | KERN_RIGHT_EXISTS

section \<open>Ascending association lists\<close>

text \<open>
  The contents of a search tree read in symmetric order: an association list whose keys
  are strictly increasing.
\<close>

abbreviation ascending :: "('a::linorder \<times> 'b) list \<Rightarrow> bool" where
  "ascending xs \<equiv> sorted_wrt (<) (map fst xs)"

abbreviation keys :: "('a \<times> 'b) list \<Rightarrow> 'a set" where
  "keys xs \<equiv> fst ` set xs"

lemma ascending_append:
  "ascending (xs @ ys) \<longleftrightarrow>
     ascending xs \<and> ascending ys \<and> (\<forall>x \<in> set xs. \<forall>y \<in> set ys. fst x < fst y)"
  by (auto simp: sorted_wrt_append)

lemma ascending_distinct: "ascending xs \<Longrightarrow> distinct (map fst xs)"
  by (induction xs) auto

lemma ascending_filter: "ascending xs \<Longrightarrow> ascending (filter P xs)"
  by (induction xs) auto

lemma ascending_last: "ascending xs \<Longrightarrow> x \<in> set xs \<Longrightarrow> fst x \<le> fst (last xs)"
proof (induction xs)
  case (Cons y xs)
  then show ?case by (cases "xs = []") (auto simp: less_imp_le)
qed simp

lemma ascending_hd: "ascending xs \<Longrightarrow> x \<in> set xs \<Longrightarrow> fst (hd xs) \<le> fst x"
  by (cases xs) (auto simp: less_imp_le)

lemma ascending_map_of:
  "ascending xs \<Longrightarrow> (k, v) \<in> set xs \<Longrightarrow> map_of xs k = Some v"
  by (simp add: ascending_distinct)

lemma map_of_none_keys: "map_of xs k = None \<longleftrightarrow> k \<notin> keys xs"
  by (simp add: map_of_eq_None_iff)

lemma map_of_filter_key:
  "map_of (filter (\<lambda>x. P (fst x)) xs) k = (if P k then map_of xs k else None)"
  by (induction xs) auto

lemma filter_none [simp]: "(\<And>x. x \<in> set xs \<Longrightarrow> \<not> P x) \<Longrightarrow> filter P xs = []"
  by (induction xs) auto

lemma filter_all: "(\<And>x. x \<in> set xs \<Longrightarrow> P x) \<Longrightarrow> filter P xs = xs"
  by (induction xs) auto

text \<open>A key cuts an ascending list into the part below it and the part above it.\<close>

abbreviation below :: "'a::linorder \<Rightarrow> ('a \<times> 'b) list \<Rightarrow> ('a \<times> 'b) list" where
  "below k \<equiv> filter (\<lambda>x. fst x < k)"

abbreviation beyond :: "'a::linorder \<Rightarrow> ('a \<times> 'b) list \<Rightarrow> ('a \<times> 'b) list" where
  "beyond k \<equiv> filter (\<lambda>x. k < fst x)"

abbreviation through :: "'a::linorder \<Rightarrow> ('a \<times> 'b) list \<Rightarrow> ('a \<times> 'b) list" where
  "through k \<equiv> filter (\<lambda>x. fst x \<le> k)"

abbreviation onward :: "'a::linorder \<Rightarrow> ('a \<times> 'b) list \<Rightarrow> ('a \<times> 'b) list" where
  "onward k \<equiv> filter (\<lambda>x. k \<le> fst x)"

abbreviation without :: "'a \<Rightarrow> ('a \<times> 'b) list \<Rightarrow> ('a \<times> 'b) list" where
  "without k \<equiv> filter (\<lambda>x. fst x \<noteq> k)"

lemmas map_of_below = map_of_filter_key [where P = "\<lambda>x. x < k" for k]
lemmas map_of_beyond = map_of_filter_key [where P = "\<lambda>x. k < x" for k]
lemmas map_of_without = map_of_filter_key [where P = "\<lambda>x. x \<noteq> k" for k]

lemma below_append_beyond: "ascending xs \<Longrightarrow> below k xs @ beyond k xs = without k xs"
proof (induction xs)
  case (Cons x xs)
  have *: "below k xs = []" if "k \<le> fst x"
    using Cons.prems that by (intro filter_none) (auto dest: less_trans)
  show ?case using Cons * by (cases "fst x" k rule: linorder_cases) auto
qed simp

lemma below_append_from: "ascending xs \<Longrightarrow> below k xs @ onward k xs = xs"
proof (induction xs)
  case (Cons x xs)
  have *: "below k xs = []" "onward k xs = xs" if "k \<le> fst x"
    using Cons.prems that by (auto intro!: filter_none filter_all dest: less_trans)
  then show ?case using Cons by (cases "fst x < k") auto
qed simp

lemma without_absent: "k \<notin> keys xs \<Longrightarrow> without k xs = xs"
  by (induction xs) auto

lemma map_of_ascending_insert:
  "map_of (below k xs @ (k, v) # beyond k xs) = (map_of xs)(k \<mapsto> v)"
  by (rule ext) (auto simp: map_of_below map_of_beyond map_add_def split: option.splits)

section \<open>Lists updated by index\<close>

lemma nth_update_if:
  "i < length xs \<Longrightarrow> xs[i := v] ! j = (if i = j then v else xs ! j)"
  by simp

end
