(* ===== verification/IpcTable.thy ===== *)
theory IpcTable
  imports Capability
begin

text \<open>
  The sizes to which tables of capabilities and of dead-name requests grow:
  \<^verbatim>\<open>ipc_table_fill\<close> and \<^verbatim>\<open>ipc_table_init\<close> of \<^verbatim>\<open>ipc/ipc_table.c\<close>,
  and the contract \<^verbatim>\<open>ipc/ipc_table.h\<close> states of the resulting arrays.
\<close>

definition PAGE_SIZE :: nat where "PAGE_SIZE = 4096" \<comment> \<open>i386\<close>

section \<open>Filling an array of sizes\<close>

text \<open>
  The first loop: \<^verbatim>\<open>size\<close> runs through the powers of two below the page size, here
  \<open>2 ^ e\<close>.
\<close>

function fill_powers :: "nat \<Rightarrow> nat \<Rightarrow> nat \<Rightarrow> nat list \<Rightarrow> nat \<Rightarrow> nat \<Rightarrow> nat list \<times> nat \<times> nat" where
  "fill_powers num minsize elemsize its index e =
     (let sz = 2 ^ e
      in if index < num \<and> sz < PAGE_SIZE then
           if minsize \<le> sz
           then fill_powers num minsize elemsize (its[index := sz div elemsize]) (index + 1) (e + 1)
           else fill_powers num minsize elemsize its index (e + 1)
         else (its, index, sz))"
  by pat_completeness auto
termination
  by (relation "measure (\<lambda>(num, minsize, elemsize, its, index, e). PAGE_SIZE - 2 ^ e)")
     (auto simp: less_imp_diff_less intro!: diff_less_mono2)

declare fill_powers.simps [simp del]

text \<open>
  The inner loop of the second part: at most \<open>period\<close> further elements, \<^verbatim>\<open>incrsize\<close>
  apart.
\<close>

fun fill_period ::
  "nat \<Rightarrow> nat \<Rightarrow> nat \<Rightarrow> nat \<Rightarrow> nat \<Rightarrow> nat list \<Rightarrow> nat \<Rightarrow> nat \<Rightarrow> nat list \<times> nat \<times> nat" where
  "fill_period 0 num minsize elemsize incrsize its index sz = (its, index, sz)"
| "fill_period (Suc period) num minsize elemsize incrsize its index sz =
     (if index < num then
        if minsize \<le> sz
        then fill_period period num minsize elemsize incrsize
               (its[index := sz div elemsize]) (index + 1) (sz + incrsize)
        else fill_period period num minsize elemsize incrsize its index (sz + incrsize)
      else (its, index, sz))"

lemma fill_period_progress:
  assumes "fill_period (Suc period) num minsize elemsize incrsize its index sz = (its', index', sz')"
    and "index < num" and "0 < incrsize"
  shows "(num - index') + (minsize - sz') < (num - index) + (minsize - sz)"
  using assms
proof (induction period arbitrary: its index sz)
  case 0
  then show ?case by (auto split: if_splits)
next
  case (Suc period)
  show ?case
  proof (cases "minsize \<le> sz")
    case True
    show ?thesis
    proof (cases "index + 1 < num")
      case more: True
      then show ?thesis
        using Suc.IH [of "its[index := sz div elemsize]" "index + 1" "sz + incrsize"]
          Suc.prems True by simp
    next
      case False
      then show ?thesis using Suc.prems True by (auto split: if_splits)
    qed
  next
    case False
    then show ?thesis
      using Suc.IH [of its index "sz + incrsize"] Suc.prems by simp
  qed
qed

text \<open>
  The outer loop of the second part. \<^verbatim>\<open>incrsize\<close> starts at the page size and doubles
  up to eight pages, here \<open>PAGE_SIZE * 2 ^ k\<close>.
\<close>

function fill_pages ::
  "nat \<Rightarrow> nat \<Rightarrow> nat \<Rightarrow> nat list \<Rightarrow> nat \<Rightarrow> nat \<Rightarrow> nat \<Rightarrow> nat list" where
  "fill_pages num minsize elemsize its index sz k =
     (if index < num then
        let incrsize = PAGE_SIZE * 2 ^ k;
            (its, index, sz) = fill_period 15 num minsize elemsize incrsize its index sz
        in fill_pages num minsize elemsize its index sz
             (if incrsize < PAGE_SIZE * 2 ^ 3 then k + 1 else k)
      else its)"
  by pat_completeness auto
termination
proof (relation "measure (\<lambda>(num, minsize, elemsize, its, index, sz, k).
    (num - index) + (minsize - sz))", goal_cases)
  case (2 num minsize elemsize its index sz k incrsize filled its' rest index' sz')
  then show ?case
    using fill_period_progress [of 14 num minsize elemsize incrsize its index sz its' index' sz']
    by (simp add: PAGE_SIZE_def del: fill_period.simps)
qed simp

declare fill_pages.simps [simp del]

definition ipc_table_fill :: "nat list \<Rightarrow> nat \<Rightarrow> nat \<Rightarrow> nat \<Rightarrow> nat list" where
  "ipc_table_fill its num min_elems elemsize =
     (let minsize = min_elems * elemsize;
          (its, index, sz) = fill_powers num minsize elemsize its 0 0
      in fill_pages num minsize elemsize its index sz 0)"

section \<open>The two arrays\<close>

definition ipc_table_entries_size :: nat where "ipc_table_entries_size = 512"
definition ipc_table_dnrequests_size :: nat where "ipc_table_dnrequests_size = 64"

definition sizeof_ipc_entry :: nat where "sizeof_ipc_entry = 16"
definition sizeof_ipc_port_request :: nat where "sizeof_ipc_port_request = 8"

text \<open>
  \<^verbatim>\<open>ipc_table_init\<close>, on the memory \<^verbatim>\<open>kalloc\<close> returned for each array (whatever it
  holds).
\<close>

definition init_entries :: "nat list \<Rightarrow> nat list" where
  "init_entries its =
     (let its = ipc_table_fill its (ipc_table_entries_size - 1) 4 sizeof_ipc_entry
      in its[ipc_table_entries_size - 1 := its ! (ipc_table_entries_size - 2)])"

definition init_dnrequests :: "nat list \<Rightarrow> nat list" where
  "init_dnrequests its =
     (let its = ipc_table_fill its (ipc_table_dnrequests_size - 1) 2 sizeof_ipc_port_request
      in its[ipc_table_dnrequests_size - 1 := 0])"

definition ipc_table_init :: "nat list \<times> nat list \<Rightarrow> nat list \<times> nat list" where
  "ipc_table_init = map_prod init_entries init_dnrequests"

section \<open>The loops fill the array in strictly increasing order\<close>

definition filled :: "nat \<Rightarrow> nat \<Rightarrow> nat \<Rightarrow> nat list \<Rightarrow> nat \<Rightarrow> nat \<Rightarrow> bool" where
  "filled num min_elems elemsize its index sz \<longleftrightarrow>
     index \<le> num \<and> num \<le> length its \<and> sorted_wrt (<) (take index its) \<and>
     (\<forall>x \<in> set (take index its). min_elems \<le> x \<and> x < sz div elemsize) \<and>
     sz \<le> PAGE_SIZE * (1 + 8 * index)"

lemma filled_write:
  assumes "filled num min_elems elemsize its index sz" and "index < num"
    and "min_elems * elemsize \<le> sz" and "sz + elemsize \<le> sz'" and "0 < elemsize"
    and "sz' \<le> sz + 8 * PAGE_SIZE"
  shows "filled num min_elems elemsize (its[index := sz div elemsize]) (index + 1) sz'"
proof -
  have grows: "sz div elemsize < sz' div elemsize"
  proof -
    have "sz div elemsize + 1 = (sz + elemsize) div elemsize" using assms(5) by (simp add: div_add_self2)
    also have "\<dots> \<le> sz' div elemsize" by (rule div_le_mono) (rule assms(4))
    finally show ?thesis by simp
  qed
  have "min_elems \<le> sz div elemsize"
    using assms(3,5) by (simp add: less_eq_div_iff_mult_less_eq)
  moreover have "take (index + 1) (its[index := sz div elemsize]) = take index its @ [sz div elemsize]"
    using assms(1,2) by (simp add: filled_def take_Suc_conv_app_nth)
  ultimately show ?thesis
    using assms(1,2,6) grows by (auto simp: filled_def sorted_wrt_append distrib_left)
qed

lemma fill_powers_filled:
  assumes "filled num min_elems elemsize its index (2 ^ e)" and "2 ^ e \<le> PAGE_SIZE"
    and "0 < elemsize" and "0 < min_elems"
    and "fill_powers num (min_elems * elemsize) elemsize its index e = (its', index', sz')"
  shows "filled num min_elems elemsize its' index' sz' \<and> length its' = length its \<and>
    (index' < num \<longrightarrow> sz' = PAGE_SIZE)"
  using assms
proof (induction num "min_elems * elemsize" elemsize its index e rule: fill_powers.induct)
  case (1 num elemsize its index e)
  note loop = fill_powers.simps [of num "min_elems * elemsize" elemsize its index e]
  have double: "(2::nat) ^ (e + 1) \<le> PAGE_SIZE" if "(2::nat) ^ e < PAGE_SIZE"
  proof -
    have "(2::nat) ^ e < 2 ^ 12" using that by (simp add: PAGE_SIZE_def)
    then have "e < 12" by (rule power_less_imp_less_exp [rotated]) simp
    then have "(2::nat) ^ (e + 1) \<le> 2 ^ 12" by (intro power_increasing) auto
    then show ?thesis by (simp add: PAGE_SIZE_def)
  qed
  consider (stop) "\<not> (index < num \<and> 2 ^ e < PAGE_SIZE)"
    | (put) "index < num" "2 ^ e < PAGE_SIZE" "min_elems * elemsize \<le> 2 ^ e"
    | (skip) "index < num" "2 ^ e < PAGE_SIZE" "\<not> min_elems * elemsize \<le> 2 ^ e" by blast
  then show ?case
  proof cases
    case stop
    then show ?thesis using "1.prems" loop by (auto simp: Let_def)
  next
    case put
    have "elemsize \<le> min_elems * elemsize" using "1.prems"(4) by simp
    then have "elemsize \<le> 2 ^ e" using put(3) by (rule le_trans)
    then have "filled num min_elems elemsize (its[index := 2 ^ e div elemsize]) (index + 1) (2 ^ (e + 1))"
      using put "1.prems" by (intro filled_write) (auto simp: PAGE_SIZE_def)
    then show ?thesis
      using "1.hyps"(1) [OF refl] put "1.prems" loop double by (simp add: Let_def)
  next
    case skip
    then have "filled num min_elems elemsize its index (2 ^ (e + 1))"
      using "1.prems" double [OF skip(2)] div_le_mono [of "2 ^ e" "2 ^ (e + 1)" elemsize]
      by (fastforce simp: filled_def)
    then show ?thesis
      using "1.hyps"(2) [OF refl] skip "1.prems" loop double by (simp add: Let_def)
  qed
qed

lemma fill_period_filled:
  assumes "filled num min_elems elemsize its index sz" and "min_elems * elemsize \<le> sz"
    and "0 < elemsize" and "elemsize \<le> incrsize" and "incrsize \<le> 8 * PAGE_SIZE"
    and "fill_period period num (min_elems * elemsize) elemsize incrsize its index sz = (its', index', sz')"
  shows "filled num min_elems elemsize its' index' sz' \<and> length its' = length its \<and>
    min_elems * elemsize \<le> sz'"
  using assms
proof (induction period arbitrary: its index sz)
  case (Suc period)
  show ?case
  proof (cases "index < num")
    case True
    then have "filled num min_elems elemsize (its[index := sz div elemsize]) (index + 1) (sz + incrsize)"
      using Suc.prems by (intro filled_write) auto
    then show ?thesis
      using Suc.IH [of "its[index := sz div elemsize]" "index + 1" "sz + incrsize"] Suc.prems True
      by simp
  next
    case False
    then show ?thesis using Suc.prems by auto
  qed
qed auto

lemma fill_pages_filled:
  assumes "filled num min_elems elemsize its index sz"
    and "index < num \<longrightarrow> min_elems * elemsize \<le> sz"
    and "0 < elemsize" and "elemsize \<le> PAGE_SIZE" and "k \<le> 3"
  shows "\<exists>sz'. filled num min_elems elemsize
      (fill_pages num (min_elems * elemsize) elemsize its index sz k) num sz' \<and>
    length (fill_pages num (min_elems * elemsize) elemsize its index sz k) = length its"
  using assms
proof (induction num "min_elems * elemsize" elemsize its index sz k rule: fill_pages.induct)
  case (1 num elemsize its index sz k)
  note loop = fill_pages.simps [of num "min_elems * elemsize" elemsize its index sz k]
  show ?case
  proof (cases "index < num")
    case True
    obtain its' index' sz' where period: "fill_period 15 num (min_elems * elemsize) elemsize
        (PAGE_SIZE * 2 ^ k) its index sz = (its', index', sz')"
      by (metis prod_cases3)
    have incr: "(2::nat) ^ k \<le> 8" using power_increasing [OF "1.prems"(5), of "2::nat"] by simp
    have "PAGE_SIZE \<le> PAGE_SIZE * 2 ^ k" by simp
    with "1.prems"(4) have "elemsize \<le> PAGE_SIZE * 2 ^ k" by (rule le_trans)
    then have step: "filled num min_elems elemsize its' index' sz'" "length its' = length its"
        "min_elems * elemsize \<le> sz'"
      using fill_period_filled [OF "1.prems"(1) _ "1.prems"(3) _ _ period] True "1.prems" incr
      by auto
    let ?k = "if PAGE_SIZE * 2 ^ k < PAGE_SIZE * 2 ^ 3 then k + 1 else k"
    have "?k \<le> 3" using "1.prems"(5) by (cases "k = 3") auto
    moreover have "fill_pages num (min_elems * elemsize) elemsize its index sz k =
        fill_pages num (min_elems * elemsize) elemsize its' index' sz' ?k"
      using loop True period by (simp add: Let_def)
    ultimately show ?thesis
      using "1.hyps" [OF True refl period [symmetric] refl refl] step "1.prems" by simp
  next
    case False
    then show ?thesis using "1.prems" loop by (auto simp: filled_def)
  qed
qed


theorem ipc_table_fill_correct:
  assumes "num \<le> length its" and "0 < min_elems" and "0 < elemsize"
    and "min_elems * elemsize \<le> PAGE_SIZE"
  shows "\<exists>sz. filled num min_elems elemsize (ipc_table_fill its num min_elems elemsize) num sz \<and>
    length (ipc_table_fill its num min_elems elemsize) = length its"
proof -
  obtain its' index sz where powers:
    "fill_powers num (min_elems * elemsize) elemsize its 0 0 = (its', index, sz)"
    by (metis prod_cases3)
  have "filled num min_elems elemsize its 0 (2 ^ 0)"
    using assms by (simp add: filled_def PAGE_SIZE_def)
  then have step: "filled num min_elems elemsize its' index sz" "length its' = length its"
      "index < num \<longrightarrow> sz = PAGE_SIZE"
    using fill_powers_filled [OF _ _ assms(3,2) powers] by (auto simp: PAGE_SIZE_def)
  have "elemsize \<le> min_elems * elemsize" using assms(2) by simp
  then have "elemsize \<le> PAGE_SIZE" using assms(4) by (rule le_trans)
  then show ?thesis
    using fill_pages_filled [OF step(1) _ assms(3), of 0] step assms(4) powers
    by (simp add: ipc_table_fill_def Let_def)
qed

section \<open>What the arrays promise\<close>

text \<open>
  The contract of a table of sizes, for the code that grows a table: up to the terminator the
  sizes increase, so growing always gains room.
\<close>

locale growth_sizes =
  fixes its_size :: "nat \<Rightarrow> nat" and last_size :: nat
  assumes increasing: "i < j \<Longrightarrow> j \<le> last_size \<Longrightarrow> its_size i < its_size j"
    and not_empty: "0 < its_size 0"
begin

lemma size_positive: "i \<le> last_size \<Longrightarrow> 0 < its_size i"
  using increasing [of 0 i] not_empty by (cases "i = 0") auto

lemma size_injective: "i \<le> last_size \<Longrightarrow> j \<le> last_size \<Longrightarrow> its_size i = its_size j \<longleftrightarrow> i = j"
  using increasing [of i j] increasing [of j i] by (cases i j rule: linorder_cases) auto

lemma size_mono: "i \<le> j \<Longrightarrow> j \<le> last_size \<Longrightarrow> its_size i \<le> its_size j"
  using increasing [of i j] by (cases "i = j") auto

end

text \<open>The arrays as the kernel has them after \<^verbatim>\<open>ipc_table_init\<close>.\<close>

definition entries_sizes :: "nat \<Rightarrow> nat" where
  "entries_sizes i = init_entries (replicate ipc_table_entries_size 0) ! i"

definition dnrequests_sizes :: "nat \<Rightarrow> nat" where
  "dnrequests_sizes i = init_dnrequests (replicate ipc_table_dnrequests_size 0) ! i"

lemma filled_increasing:
  assumes "filled num min_elems elemsize its num sz" and "i < j" and "j < num"
  shows "its ! i < its ! j"
  using assms sorted_wrt_nth_less [of "(<)" "take num its" i j] by (simp add: filled_def)

lemma filled_bounds:
  assumes "filled num min_elems elemsize its num sz" and "i < num" and "0 < elemsize"
  shows "min_elems \<le> its ! i \<and> its ! i * elemsize < PAGE_SIZE * (1 + 8 * num)"
proof -
  have "its ! i \<in> set (take num its)"
    using assms by (auto simp: filled_def in_set_conv_nth)
  then have "min_elems \<le> its ! i" "its ! i < sz div elemsize" "sz \<le> PAGE_SIZE * (1 + 8 * num)"
    using assms(1) by (auto simp: filled_def)
  moreover from this(2) have "its ! i * elemsize < sz"
    using assms(3) mult_less_mono1 [of "its ! i" "sz div elemsize" elemsize] div_times_less_eq_dividend [of sz elemsize]
    by linarith
  ultimately show ?thesis by simp
qed

lemma init_entries_contract:
  assumes "length its = ipc_table_entries_size"
  shows "i < j \<Longrightarrow> j \<le> ipc_table_entries_size - 2 \<Longrightarrow> init_entries its ! i < init_entries its ! j"
    and "init_entries its ! (ipc_table_entries_size - 1) = init_entries its ! (ipc_table_entries_size - 2)"
    and "i < ipc_table_entries_size \<Longrightarrow> 4 \<le> init_entries its ! i \<and> init_entries its ! i < 2 ^ 21"
    and "length (init_entries its) = ipc_table_entries_size"
proof -
  let ?t = "ipc_table_fill its (ipc_table_entries_size - 1) 4 sizeof_ipc_entry"
  obtain sz where f: "filled 511 4 16 ?t 511 sz" and len: "length ?t = 512"
    using ipc_table_fill_correct [of 511 its 4 16] assms
    by (auto simp: ipc_table_entries_size_def sizeof_ipc_entry_def PAGE_SIZE_def)
  have t: "init_entries its = ?t[511 := ?t ! 510]"
    by (simp add: init_entries_def Let_def ipc_table_entries_size_def)
  show "i < j \<Longrightarrow> j \<le> ipc_table_entries_size - 2 \<Longrightarrow> init_entries its ! i < init_entries its ! j"
    using filled_increasing [OF f, of i j] by (simp add: t ipc_table_entries_size_def)
  show "init_entries its ! (ipc_table_entries_size - 1) = init_entries its ! (ipc_table_entries_size - 2)"
    using len by (simp add: t ipc_table_entries_size_def)
  show "length (init_entries its) = ipc_table_entries_size"
    using len by (simp add: t ipc_table_entries_size_def)
  show "4 \<le> init_entries its ! i \<and> init_entries its ! i < 2 ^ 21" if "i < ipc_table_entries_size"
    using filled_bounds [OF f, of "if i = 511 then 510 else i"] that len
    by (auto simp: t ipc_table_entries_size_def PAGE_SIZE_def nth_list_update split: if_splits)
qed

lemma init_dnrequests_contract:
  assumes "length its = ipc_table_dnrequests_size"
  shows "i < j \<Longrightarrow> j \<le> ipc_table_dnrequests_size - 2 \<Longrightarrow>
      init_dnrequests its ! i < init_dnrequests its ! j"
    and "init_dnrequests its ! (ipc_table_dnrequests_size - 1) = 0"
    and "i \<le> ipc_table_dnrequests_size - 2 \<Longrightarrow> 2 \<le> init_dnrequests its ! i"
    and "length (init_dnrequests its) = ipc_table_dnrequests_size"
proof -
  let ?t = "ipc_table_fill its (ipc_table_dnrequests_size - 1) 2 sizeof_ipc_port_request"
  obtain sz where f: "filled 63 2 8 ?t 63 sz" and len: "length ?t = 64"
    using ipc_table_fill_correct [of 63 its 2 8] assms
    by (auto simp: ipc_table_dnrequests_size_def sizeof_ipc_port_request_def PAGE_SIZE_def)
  have t: "init_dnrequests its = ?t[63 := 0]"
    by (simp add: init_dnrequests_def Let_def ipc_table_dnrequests_size_def)
  show "i < j \<Longrightarrow> j \<le> ipc_table_dnrequests_size - 2 \<Longrightarrow>
      init_dnrequests its ! i < init_dnrequests its ! j"
    using filled_increasing [OF f, of i j] by (simp add: t ipc_table_dnrequests_size_def)
  show "init_dnrequests its ! (ipc_table_dnrequests_size - 1) = 0"
    using len by (simp add: t ipc_table_dnrequests_size_def)
  show "length (init_dnrequests its) = ipc_table_dnrequests_size"
    using len by (simp add: t ipc_table_dnrequests_size_def)
  show "i \<le> ipc_table_dnrequests_size - 2 \<Longrightarrow> 2 \<le> init_dnrequests its ! i"
    using filled_bounds [OF f, of i] by (simp add: t ipc_table_dnrequests_size_def)
qed

interpretation entries_table: growth_sizes entries_sizes "ipc_table_entries_size - 2"
  using init_entries_contract(1) [of "replicate ipc_table_entries_size 0"]
    init_entries_contract(3) [of "replicate ipc_table_entries_size 0" 0]
  by unfold_locales (auto simp: entries_sizes_def ipc_table_entries_size_def)

interpretation dnrequests_table: growth_sizes dnrequests_sizes "ipc_table_dnrequests_size - 2"
  using init_dnrequests_contract(1) [of "replicate ipc_table_dnrequests_size 0"]
    init_dnrequests_contract(3) [of "replicate ipc_table_dnrequests_size 0" 0]
  by unfold_locales (auto simp: dnrequests_sizes_def ipc_table_dnrequests_size_def)

text \<open>The first sizes. Later rounds of the loops leave the elements already filled alone.\<close>

lemma fill_period_keeps:
  assumes "fill_period p num minsize elemsize incrsize its index sz = (its', index', sz')"
  shows "index \<le> index' \<and> (\<forall>i < index. its' ! i = its ! i)"
  using assms
proof (induction p arbitrary: its index sz)
  case (Suc p)
  show ?case
  proof (cases "index < num")
    case True
    show ?thesis
    proof (cases "minsize \<le> sz")
      case m: True
      then show ?thesis using Suc.IH [of "its[index := sz div elemsize]" "index + 1" "sz + incrsize"] Suc.prems True by auto
    next
      case False
      then show ?thesis using Suc.IH [of its index "sz + incrsize"] Suc.prems True by auto
    qed
  next
    case False
    then show ?thesis using Suc.prems by auto
  qed
qed simp

lemma fill_pages_keeps: "i < index \<Longrightarrow> fill_pages num minsize elemsize its index sz k ! i = its ! i"
proof (induction num minsize elemsize its index sz k rule: fill_pages.induct)
  case (1 num minsize elemsize its index sz k)
  show ?case
  proof (cases "index < num")
    case True
    obtain its' index' sz' where p:
        "fill_period 15 num minsize elemsize (PAGE_SIZE * 2 ^ k) its index sz = (its', index', sz')"
      using prod_cases3 by blast
    have "index \<le> index'" "its' ! i = its ! i" using fill_period_keeps [OF p] 1(2) by auto
    moreover have "fill_pages num minsize elemsize its index sz k =
        fill_pages num minsize elemsize its' index' sz' (if PAGE_SIZE * 2 ^ k < PAGE_SIZE * 2 ^ 3 then k + 1 else k)"
      by (subst fill_pages.simps) (simp only: True p Let_def if_True prod.case)
    ultimately show ?thesis using 1(1) [OF True refl p [symmetric] refl refl] 1(2) by simp
  next
    case False
    then show ?thesis by (simp add: fill_pages.simps)
  qed
qed
lemma dnrequests_sizes_small: "dnrequests_sizes 0 = 2" "dnrequests_sizes 1 = 4"
  by (simp_all add: dnrequests_sizes_def init_dnrequests_def ipc_table_fill_def fill_powers.simps PAGE_SIZE_def
   Let_def sizeof_ipc_port_request_def ipc_table_dnrequests_size_def fill_pages_keeps)
lemma entries_sizes_small: "entries_sizes 0 = 4" "entries_sizes 1 = 8"
  by (simp_all add: entries_sizes_def init_entries_def ipc_table_fill_def fill_powers.simps PAGE_SIZE_def
   Let_def sizeof_ipc_entry_def ipc_table_entries_size_def fill_pages_keeps)

section \<open>Properties of the size tables\<close>

text \<open>
  C37. Whatever the memory held before, \<^verbatim>\<open>ipc_table_init\<close> gives both arrays the shape
  \<^verbatim>\<open>ipc_table.h\<close> demands: \<^verbatim>\<open>ipc_table_entries\<close> increases strictly up to its
  last two elements, which are equal, and stays below the index of \<^verbatim>\<open>MACH_PORT_DEAD\<close>;
  \<^verbatim>\<open>ipc_table_dnrequests\<close> increases strictly up to a last element of zero.
\<close>

theorem ipc_table_init_contract:
  assumes "length its = ipc_table_entries_size" and "length dits = ipc_table_dnrequests_size"
    and "ipc_table_init (its, dits) = (entries, dnrequests)"
  shows "sorted_wrt (<) (butlast entries) \<and> last entries = last (butlast entries) \<and>
    (\<forall>n \<in> set entries. 4 \<le> n \<and> n < MACH_PORT_INDEX MACH_PORT_DEAD) \<and>
    sorted_wrt (<) (butlast dnrequests) \<and> last dnrequests = 0 \<and> (\<forall>n \<in> set (butlast dnrequests). 2 \<le> n)"
proof -
  have e: "entries = init_entries its" and d: "dnrequests = init_dnrequests dits"
    using assms(3) by (auto simp: ipc_table_init_def)
  note ec = init_entries_contract [OF assms(1), folded e]
  note dc = init_dnrequests_contract [OF assms(2), folded d]
  have le: "length entries = 512" and ld: "length dnrequests = 64"
    using ec(4) dc(4) by (auto simp: ipc_table_entries_size_def ipc_table_dnrequests_size_def)
  have top: "MACH_PORT_INDEX MACH_PORT_DEAD = 4294967295" by (rule index_dead)
  have "sorted_wrt (<) (butlast entries)" "sorted_wrt (<) (butlast dnrequests)"
    using ec(1) dc(1) le ld
    by (auto simp: sorted_wrt_iff_nth_less nth_butlast ipc_table_entries_size_def
        ipc_table_dnrequests_size_def)
  moreover have "last entries = last (butlast entries)" "last dnrequests = 0"
    using ec(2) dc(2) le ld last_conv_nth [of entries] last_conv_nth [of dnrequests]
      last_conv_nth [of "butlast entries"]
    by (auto simp: ipc_table_entries_size_def ipc_table_dnrequests_size_def nth_butlast
        simp flip: length_greater_0_conv)
  moreover have "\<forall>n \<in> set entries. 4 \<le> n \<and> n < MACH_PORT_INDEX MACH_PORT_DEAD"
  proof
    fix n assume "n \<in> set entries"
    then obtain i where "i < 512" "n = entries ! i" using le by (auto simp: in_set_conv_nth)
    then show "4 \<le> n \<and> n < MACH_PORT_INDEX MACH_PORT_DEAD"
      using ec(3) [of i] by (simp add: top ipc_table_entries_size_def)
  qed
  moreover have "\<forall>n \<in> set (butlast dnrequests). 2 \<le> n"
    using dc(3) ld by (auto simp: in_set_conv_nth nth_butlast ipc_table_dnrequests_size_def)
  ultimately show ?thesis by blast
qed

theorem ipc_table_init_contract_witness:
  "last (fst (ipc_table_init (replicate 512 7, replicate 64 7))) =
     last (butlast (fst (ipc_table_init (replicate 512 7, replicate 64 7)))) \<and>
   last (snd (ipc_table_init (replicate 512 7, replicate 64 7))) = 0"
  using ipc_table_init_contract [OF _ _ prod.collapse [symmetric], of "replicate 512 7" "replicate 64 7"]
  by (simp add: ipc_table_entries_size_def ipc_table_dnrequests_size_def)

end
