(* ===== verification/Probing.thy ===== *)
theory Probing
  imports Prelude
begin

text \<open>
  Linear probing around a circular table, without reference to what the table holds: the
  distance travelled from one slot to another, the first slot on a probe path that satisfies
  a condition, and the clump property that makes open addressing work (between the home of
  an entry and its slot there is no empty slot), also with one hole in it, as in the middle
  of a deletion.
\<close>

section \<open>Distances around the table\<close>

definition next_slot :: "nat \<Rightarrow> nat \<Rightarrow> nat" where
  "next_slot n h = (if h + 1 = n then 0 else h + 1)"

definition dist :: "nat \<Rightarrow> nat \<Rightarrow> nat \<Rightarrow> nat" where
  "dist n a b = (if a \<le> b then b - a else b + n - a)"

lemma next_slot_less: "h < n \<Longrightarrow> next_slot n h < n"
  by (auto simp: next_slot_def)

lemma dist_less: "a < n \<Longrightarrow> b < n \<Longrightarrow> dist n a b < n"
  by (auto simp: dist_def)

lemma dist_refl [simp]: "dist n a a = 0"
  by (simp add: dist_def)

lemma dist_eq: "a < n \<Longrightarrow> b < n \<Longrightarrow> c < n \<Longrightarrow> dist n a b = dist n a c \<longleftrightarrow> b = c"
  by (auto simp: dist_def split: if_splits)

lemma dist_zero: "a < n \<Longrightarrow> b < n \<Longrightarrow> dist n a b = 0 \<longleftrightarrow> a = b"
  by (auto simp: dist_def split: if_splits)

lemma dist_next: "h < n \<Longrightarrow> r < n \<Longrightarrow> r \<noteq> h \<Longrightarrow> dist n h r = Suc (dist n (next_slot n h) r)"
  by (auto simp: dist_def next_slot_def split: if_splits)

lemma dist_next_self: "h < n \<Longrightarrow> dist n (next_slot n h) h = n - 1"
  by (auto simp: dist_def next_slot_def split: if_splits)

text \<open>A path that avoids \<open>e\<close> is an interval when distances are measured from \<open>e\<close>.\<close>

lemma path_interval:
  assumes "a < n" and "b < n" and "e < n" and "t < n" and "dist n a b < dist n a e"
  shows "dist n e a \<le> dist n e b" and "e \<noteq> a"
    and "dist n a t \<le> dist n a b \<longleftrightarrow> dist n e a \<le> dist n e t \<and> dist n e t \<le> dist n e b"
  using assms by (auto simp: dist_def split: if_splits)

lemma interval_path:
  assumes "a < n" and "b < n" and "e < n" and "a \<noteq> e" and "dist n e a \<le> dist n e b"
  shows "dist n a b < dist n a e"
  using assms by (auto simp: dist_def split: if_splits)

text \<open>
  The circular comparison the deletion uses to decide whether an entry whose home is
  \<open>t\<close>, found at \<open>d\<close>, may be moved back to \<open>h\<close>.
\<close>

definition displaced :: "nat \<Rightarrow> nat \<Rightarrow> nat \<Rightarrow> bool" where
  "displaced h d t \<longleftrightarrow> (if d < h then d < t \<and> t \<le> h else d < t \<or> t \<le> h)"

lemma displaced_interval:
  assumes "h < n" and "d < n" and "t < n" and "e < n"
    and "dist n e h < dist n e d" and "dist n e t \<le> dist n e d"
  shows "displaced h d t \<longleftrightarrow> dist n e t \<le> dist n e h"
  using assms by (auto simp: displaced_def dist_def split: if_splits)

lemma dist_rotate:
  assumes "a < n" and "b < n" and "e < n"
  shows "dist n a b = (if dist n e a \<le> dist n e b then dist n e b - dist n e a
    else dist n e b + n - dist n e a)"
  using assms by (auto simp: dist_def)

lemma dist_to_next:
  assumes "h < n" and "e < n" and "next_slot n h \<noteq> e"
  shows "dist n e (next_slot n h) = Suc (dist n e h)"
  using assms by (auto simp: dist_def next_slot_def split: if_splits)

text \<open>Where a scan from \<open>h\<close> that stops before passing \<open>e\<close> has stopped.\<close>

lemma scan_ahead:
  assumes "h < n" and "d < n" and "e < n" and "h \<noteq> e"
    and le: "dist n (next_slot n h) d \<le> dist n (next_slot n h) e"
  shows "d = e \<or> dist n e h < dist n e d"
    and "r < n \<Longrightarrow> dist n e h < dist n e r \<Longrightarrow> d = e \<or> dist n e r < dist n e d \<Longrightarrow>
      dist n (next_slot n h) r < dist n (next_slot n h) d"
proof -
  have k: "next_slot n h < n" by (rule next_slot_less) fact
  have last: "dist n e h = n - 1" if "next_slot n h = e"
    using dist_next_self [OF assms(1)] that by simp
  have zero: "dist n e d = 0 \<longleftrightarrow> d = e" using dist_zero [OF assms(3,2)] by auto
  show "d = e \<or> dist n e h < dist n e d"
  proof (cases "next_slot n h = e")
    case True
    then show ?thesis using le zero by simp
  next
    case False
    note rot = dist_rotate [OF k _ assms(3)] and nxt = dist_to_next [OF assms(1,3) False]
    show ?thesis using le zero rot [OF assms(2)] rot [OF assms(3)] nxt dist_less [OF assms(3,1)] by (auto split: if_splits)
  qed
  show "dist n (next_slot n h) r < dist n (next_slot n h) d"
    if r: "r < n" "dist n e h < dist n e r" "d = e \<or> dist n e r < dist n e d"
  proof (cases "next_slot n h = e")
    case True
    then show ?thesis using last r dist_less [OF assms(3) r(1)] by simp
  next
    case False
    note rot = dist_rotate [OF k _ assms(3)] and nxt = dist_to_next [OF assms(1,3) False]
    show ?thesis
      using rot [OF assms(2)] rot [OF r(1)] nxt r dist_less [OF assms(3) r(1)] by (auto split: if_splits)
  qed
qed
section \<open>Probe sequences\<close>

fun probe :: "(nat \<Rightarrow> bool) \<Rightarrow> nat \<Rightarrow> nat \<Rightarrow> nat \<Rightarrow> nat option" where
  "probe P n 0 h = None"
| "probe P n (Suc fuel) h = (if P h then Some h else probe P n fuel (next_slot n h))"

lemma probe_first:
  assumes "h < n" and "s < n" and "P s" and "dist n h s < fuel"
  shows "\<exists>d. probe P n fuel h = Some d \<and> d < n \<and> P d \<and> dist n h d \<le> dist n h s \<and>
    (\<forall>r < n. dist n h r < dist n h d \<longrightarrow> \<not> P r)"
  using assms
proof (induction fuel arbitrary: h)
  case (Suc fuel)
  show ?case
  proof (cases "P h")
    case True
    then show ?thesis using Suc.prems by auto
  next
    case False
    then have sh: "s \<noteq> h" using Suc.prems(3) by blast
    then have "dist n (next_slot n h) s < fuel"
      using dist_next [OF Suc.prems(1,2)] Suc.prems(4) by simp
    then obtain d where d: "probe P n fuel (next_slot n h) = Some d" "d < n" "P d"
        "dist n (next_slot n h) d \<le> dist n (next_slot n h) s"
        "\<forall>r < n. dist n (next_slot n h) r < dist n (next_slot n h) d \<longrightarrow> \<not> P r"
      using Suc.IH [OF next_slot_less [OF Suc.prems(1)] Suc.prems(2,3)] by blast
    have dh: "d \<noteq> h" using False d(3) by blast
    have "\<not> P r" if "r < n" "dist n h r < dist n h d" for r
      using that False d(5) dist_next [OF Suc.prems(1) that(1)] dist_next [OF Suc.prems(1) d(2) dh]
      by (cases "r = h") auto
    then show ?thesis
      using d False dist_next [OF Suc.prems(1) d(2) dh] dist_next [OF Suc.prems(1,2) sh] by auto
  qed
qed simp

lemma probe_none:
  assumes "h < n" and "\<forall>s < n. \<not> P s"
  shows "probe P n fuel h = None"
  using assms by (induction fuel arbitrary: h) (auto simp: next_slot_less)

section \<open>Clumps\<close>

text \<open>
  \<open>H s\<close> is the index kept in slot \<open>s\<close> (0 when empty) and \<open>hm i\<close> the home slot of index
  \<open>i\<close>.
\<close>

definition clumped :: "nat \<Rightarrow> (nat \<Rightarrow> nat) \<Rightarrow> (nat \<Rightarrow> nat) \<Rightarrow> bool" where
  "clumped n H hm \<longleftrightarrow> (\<forall>s < n. H s \<noteq> 0 \<longrightarrow> H s < n \<and>
     (\<forall>r < n. dist n (hm (H s)) r \<le> dist n (hm (H s)) s \<longrightarrow> H r \<noteq> 0))"

definition one_each :: "nat \<Rightarrow> (nat \<Rightarrow> nat) \<Rightarrow> bool" where
  "one_each n H \<longleftrightarrow> (\<forall>s < n. \<forall>r < n. H s = H r \<longrightarrow> H s \<noteq> 0 \<longrightarrow> s = r)"

definition held :: "nat \<Rightarrow> (nat \<Rightarrow> nat) \<Rightarrow> nat set" where
  "held n H = {i. i \<noteq> 0 \<and> (\<exists>s < n. H s = i)}"

text \<open>As index 0 is never held, some slot is empty.\<close>

lemma empty_slot:
  assumes "clumped n H hm" and "one_each n H" and "0 < n"
  shows "\<exists>e < n. H e = 0"
proof (rule ccontr)
  assume "\<not> ?thesis"
  then have nz: "\<And>s. s < n \<Longrightarrow> H s \<noteq> 0" by auto
  have "inj_on H {..<n}" using assms(2) nz by (auto simp: one_each_def inj_on_def)
  moreover have "H ` {..<n} \<subseteq> {1..<n}" using assms(1) nz by (force simp: clumped_def)
  ultimately have "card {..<n} \<le> card {1..<n}" by (metis card_inj_on_le finite_atLeastLessThan)
  then show False using assms(3) by simp
qed

text \<open>
  The clump property with a hole at \<open>h\<close>, in the coordinates of an empty slot \<open>e\<close>.
\<close>

definition chained :: "nat \<Rightarrow> nat \<Rightarrow> nat \<Rightarrow> (nat \<Rightarrow> nat) \<Rightarrow> (nat \<Rightarrow> nat) \<Rightarrow> nat \<Rightarrow> bool" where
  "chained n e h H hm s \<longleftrightarrow> H s < n \<and> dist n e (hm (H s)) \<le> dist n e s \<and>
     (\<forall>r < n. dist n e (hm (H s)) \<le> dist n e r \<longrightarrow> dist n e r \<le> dist n e s \<longrightarrow> r \<noteq> h \<longrightarrow> H r \<noteq> 0)"

definition one_each_but :: "nat \<Rightarrow> nat \<Rightarrow> (nat \<Rightarrow> nat) \<Rightarrow> bool" where
  "one_each_but n h H \<longleftrightarrow>
     (\<forall>s < n. \<forall>r < n. s \<noteq> h \<longrightarrow> r \<noteq> h \<longrightarrow> H s = H r \<longrightarrow> H s \<noteq> 0 \<longrightarrow> s = r)"

definition held_but :: "nat \<Rightarrow> nat \<Rightarrow> (nat \<Rightarrow> nat) \<Rightarrow> nat set" where
  "held_but n h H = {i. i \<noteq> 0 \<and> (\<exists>s < n. s \<noteq> h \<and> H s = i)}"

definition holed :: "nat \<Rightarrow> nat \<Rightarrow> nat \<Rightarrow> (nat \<Rightarrow> nat) \<Rightarrow> (nat \<Rightarrow> nat) \<Rightarrow> bool" where
  "holed n e h H hm \<longleftrightarrow> e < n \<and> h < n \<and> e \<noteq> h \<and> H e = 0 \<and> H h \<noteq> 0 \<and>
     (\<forall>s < n. s \<noteq> h \<longrightarrow> H s \<noteq> 0 \<longrightarrow> chained n e h H hm s) \<and> one_each_but n h H"

lemma clumped_holed:
  assumes "clumped n H hm" and "one_each n H" and "h < n" and "H h \<noteq> 0" and "e < n" and "H e = 0"
    and hm: "\<And>i. hm i < n"
  shows "holed n e h H hm"
proof -
  have "chained n e h H hm s" if s: "s < n" "H s \<noteq> 0" for s
  proof -
    have path: "\<forall>r < n. dist n (hm (H s)) r \<le> dist n (hm (H s)) s \<longrightarrow> H r \<noteq> 0" and "H s < n"
      using assms(1) s by (auto simp: clumped_def)
    moreover have avoid: "dist n (hm (H s)) s < dist n (hm (H s)) e"
      using path assms(5,6) by (meson not_le)
    ultimately show ?thesis
      using path_interval [OF hm s(1) assms(5) _ avoid] assms(5) unfolding chained_def by blast
  qed
  moreover have "e \<noteq> h" using assms(4,6) by auto
  moreover have "one_each_but n h H" using assms(2) unfolding one_each_def one_each_but_def by blast
  ultimately show ?thesis using assms(3-6) unfolding holed_def by blast
qed

text \<open>
  Closing the hole: nothing beyond the end of the clump has its home before the hole, and
  everything between them was checked not to be displaced.
\<close>

lemma holed_close:
  assumes "holed n e h H hm" and hm: "\<And>i. hm i < n" and "d < n" and "H d = 0"
    and ahead: "d = e \<or> dist n e h < dist n e d"
    and kept: "\<forall>r < n. dist n e h < dist n e r \<longrightarrow> (d = e \<or> dist n e r < dist n e d) \<longrightarrow>
      dist n e h < dist n e (hm (H r))"
  shows "clumped n (H(h := 0)) hm" and "one_each n (H(h := 0))"
    and "held n (H(h := 0)) = held_but n h H"
proof -
  let ?H = "H(h := 0)"
  have eh: "e < n" "h < n" "e \<noteq> h" "H e = 0" "H h \<noteq> 0" using assms(1) by (auto simp: holed_def)
  show "clumped n ?H hm" unfolding clumped_def
  proof (intro allI impI)
    fix s assume s: "s < n" "?H s \<noteq> 0"
    then have sh: "s \<noteq> h" "H s \<noteq> 0" by (auto split: if_splits)
    define m where "m = hm (H s)"
    have m: "m < n" by (simp add: m_def hm)
    have chain: "chained n e h H hm s" using assms(1) s(1) sh unfolding holed_def by blast
    have lin: "H s < n" "dist n e m \<le> dist n e s"
        "\<forall>r < n. dist n e m \<le> dist n e r \<longrightarrow> dist n e r \<le> dist n e s \<longrightarrow> r \<noteq> h \<longrightarrow> H r \<noteq> 0"
      using chain unfolding chained_def m_def by blast+
    have me: "m \<noteq> e" using lin(3) eh by force
    note path = path_interval(3) [OF m s(1) eh(1) _ interval_path [OF m s(1) eh(1) me lin(2)]]
    have "\<not> (dist n e m \<le> dist n e h \<and> dist n e h \<le> dist n e s)"
    proof
      assume hole: "dist n e m \<le> dist n e h \<and> dist n e h \<le> dist n e s"
      then have hs: "dist n e h < dist n e s" using dist_eq [OF eh(1,2) s(1)] sh by (metis le_neq_implies_less)
      then have "\<not> (d = e \<or> dist n e s < dist n e d)" using kept hole s(1) m_def by (metis not_le)
      then have "d \<noteq> e" "dist n e d \<le> dist n e s" by auto
      moreover have "d \<noteq> h" using assms(4) eh by auto
      ultimately have "dist n e d < dist n e m" using lin(3) assms(3,4) by (metis not_le)
      then show False using hole ahead \<open>d \<noteq> e\<close> by simp
    qed
    then show "?H s < n \<and> (\<forall>r < n. dist n (hm (?H s)) r \<le> dist n (hm (?H s)) s \<longrightarrow> ?H r \<noteq> 0)"
      using lin path sh by (simp add: m_def)
  qed
  show "one_each n ?H" unfolding one_each_def
  proof (intro allI impI)
    fix s r assume sr: "s < n" "r < n" "?H s = ?H r" "?H s \<noteq> 0"
    then have "s \<noteq> h" "r \<noteq> h" by (auto split: if_splits)
    then show "s = r" using assms(1) sr unfolding holed_def one_each_but_def by (metis fun_upd_other)
  qed
  show "held n ?H = held_but n h H" by (auto simp: held_def held_but_def)
qed

text \<open>Moving a displaced entry back into the hole leaves a hole where it was.\<close>

lemma holed_move:
  assumes "holed n e h H hm" and "d < n" and "H d \<noteq> 0"
    and ahead: "dist n e h < dist n e d" and home: "dist n e (hm (H d)) \<le> dist n e h"
  shows "holed n e d (H(h := H d)) hm" and "held_but n d (H(h := H d)) = held_but n h H"
proof -
  let ?H = "H(h := H d)"
  have eh: "e < n" "h < n" "e \<noteq> h" "H e = 0" "H h \<noteq> 0" and one: "one_each_but n h H"
    and ch: "\<And>s. s < n \<Longrightarrow> s \<noteq> h \<Longrightarrow> H s \<noteq> 0 \<Longrightarrow> chained n e h H hm s"
    using assms(1) by (simp_all add: holed_def)
  have dh: "d \<noteq> h" using ahead by auto
  have "chained n e d ?H hm s" if s: "s < n" "s \<noteq> d" "?H s \<noteq> 0" for s
  proof (cases "s = h")
    case True
    have "H r \<noteq> 0" if "r < n" "dist n e (hm (H d)) \<le> dist n e r" "dist n e r \<le> dist n e h" "r \<noteq> h" for r
      using ch [OF assms(2) dh assms(3)] that ahead by (simp add: chained_def)
    then show ?thesis using True ch [OF assms(2) dh assms(3)] home assms(3) by (auto simp: chained_def)
  next
    case False
    then show ?thesis using ch [OF s(1)] s assms(3) by (auto simp: chained_def)
  qed
  moreover have "one_each_but n d ?H"
    unfolding one_each_but_def using one [unfolded one_each_but_def] assms(2,3) dh by (metis fun_upd_apply)
  moreover have "e \<noteq> d" using eh assms(3) by auto
  ultimately show "holed n e d ?H hm" using assms(2,3) eh dh unfolding holed_def by simp
  show "held_but n d ?H = held_but n h H"
  proof (intro set_eqI iffI)
    fix i assume "i \<in> held_but n d ?H"
    then show "i \<in> held_but n h H" using assms(2) dh by (auto simp: held_but_def split: if_splits)
  next
    fix i assume "i \<in> held_but n h H"
    then obtain s where s: "i \<noteq> 0" "s < n" "s \<noteq> h" "H s = i" by (auto simp: held_but_def)
    then show "i \<in> held_but n d ?H"
      using eh(2) dh unfolding held_but_def by (cases "s = d") auto
  qed
qed

lemma held_but_one_each:
  assumes "one_each n H" and "h < n" and "H h \<noteq> 0"
  shows "held_but n h H = held n H - {H h}"
  using assms unfolding held_but_def held_def one_each_def by auto

section \<open>Filling the first empty slot\<close>

lemma clumped_fill:
  assumes "clumped n H hm" and "one_each n H" and "i \<notin> held n H" and "i \<noteq> 0" and "i < n"
    and "s < n" and "H s = 0" and "\<forall>r < n. dist n (hm i) r < dist n (hm i) s \<longrightarrow> H r \<noteq> 0"
    and hm: "\<And>i. hm i < n"
  shows "clumped n (H(s := i)) hm" and "one_each n (H(s := i))" and "held n (H(s := i)) = insert i (held n H)"
proof -
  show "clumped n (H(s := i)) hm" unfolding clumped_def
  proof (intro allI impI)
    fix t assume t: "t < n" "(H(s := i)) t \<noteq> 0"
    show "(H(s := i)) t < n \<and> (\<forall>r < n. dist n (hm ((H(s := i)) t)) r \<le> dist n (hm ((H(s := i)) t)) t \<longrightarrow>
        (H(s := i)) r \<noteq> 0)"
    proof (cases "t = s")
      case True
      then show ?thesis using assms(4-6,8) dist_eq [OF hm _ assms(6)] by (auto simp: le_less)
    next
      case False
      then show ?thesis using assms(1,4) t by (auto simp: clumped_def)
    qed
  qed
  show "one_each n (H(s := i))" using assms(2,3,4) by (auto simp: one_each_def held_def)
  show "held n (H(s := i)) = insert i (held n H)"
    using assms(4,6,7) by (auto simp: held_def split: if_splits) (metis less_irrefl)
qed

end
