(* ===== verification/ReverseTable.thy ===== *)
theory ReverseTable
  imports Prelude
begin

text \<open>
  The contract of a reverse table, which converts an object back to the entry that holds a
  right for it: some entries are entered, no two of them for the same key, and an entry can be
  found by its key. Both tables of \<^verbatim>\<open>ipc/ipc_hash.c\<close>, the open-addressing table of a
  space and the global table of buckets, satisfy it, and the capability code uses no more.
\<close>

locale reverse_table =
  fixes rt_object :: "'t \<Rightarrow> 'i \<Rightarrow> 'o"
    and rt_entered :: "'t \<Rightarrow> 'i set"
    and rt_invar :: "'t \<Rightarrow> bool"
    and rt_valid :: "'t \<Rightarrow> 'i \<Rightarrow> bool"
    and rt_lookup :: "'t \<Rightarrow> 'o \<Rightarrow> 'i option"
    and rt_insert :: "'t \<Rightarrow> 'o \<Rightarrow> 'i \<Rightarrow> 't option"
    and rt_delete :: "'t \<Rightarrow> 'o \<Rightarrow> 'i \<Rightarrow> 't option"
  assumes entered_valid: "rt_invar t \<Longrightarrow> i \<in> rt_entered t \<Longrightarrow> rt_valid t i"
    and entered_once: "rt_invar t \<Longrightarrow> i \<in> rt_entered t \<Longrightarrow> j \<in> rt_entered t \<Longrightarrow>
      rt_object t i = rt_object t j \<Longrightarrow> i = j"
    and lookup_found: "rt_invar t \<Longrightarrow> i \<in> rt_entered t \<Longrightarrow> rt_lookup t (rt_object t i) = Some i"
    and lookup_absent: "rt_invar t \<Longrightarrow> \<forall>i \<in> rt_entered t. rt_object t i \<noteq> obj \<Longrightarrow> rt_lookup t obj = None"
    and insertion: "rt_invar t \<Longrightarrow> rt_valid t i \<Longrightarrow> i \<notin> rt_entered t \<Longrightarrow>
      \<forall>j \<in> rt_entered t. rt_object t j \<noteq> rt_object t i \<Longrightarrow>
      \<exists>t'. rt_insert t (rt_object t i) i = Some t' \<and> rt_invar t' \<and>
        rt_entered t' = insert i (rt_entered t) \<and> (\<forall>j. rt_valid t j \<longrightarrow> rt_object t' j = rt_object t j)"
    and deletion: "rt_invar t \<Longrightarrow> i \<in> rt_entered t \<Longrightarrow>
      \<exists>t'. rt_delete t (rt_object t i) i = Some t' \<and> rt_invar t' \<and>
        rt_entered t' = rt_entered t - {i} \<and> (\<forall>j. rt_valid t j \<longrightarrow> rt_object t' j = rt_object t j)"
begin

lemma lookup_iff:
  assumes "rt_invar t"
  shows "rt_lookup t obj = Some i \<longleftrightarrow> i \<in> rt_entered t \<and> rt_object t i = obj"
proof (cases "\<exists>j \<in> rt_entered t. rt_object t j = obj")
  case True
  then obtain j where "j \<in> rt_entered t" "rt_object t j = obj" by blast
  then show ?thesis using lookup_found [OF assms] entered_once [OF assms] by fastforce
next
  case False
  then show ?thesis using lookup_absent [OF assms] by force
qed

text \<open>A lookup after an insertion sees the new entry and the old ones.\<close>

lemma lookup_after_insertion:
  assumes "rt_invar t" and "rt_valid t i" and "rt_lookup t (rt_object t i) = None"
    and "rt_insert t (rt_object t i) i = Some t'"
  shows "rt_lookup t' obj = (if obj = rt_object t i then Some i else rt_lookup t obj)"
proof -
  have "i \<notin> rt_entered t" "\<forall>j \<in> rt_entered t. rt_object t j \<noteq> rt_object t i"
    using assms(3) lookup_iff [OF assms(1)] by (metis option.distinct(1))+
  then have t': "rt_invar t'" "rt_entered t' = insert i (rt_entered t)"
      "\<forall>j. rt_valid t j \<longrightarrow> rt_object t' j = rt_object t j"
    using insertion [OF assms(1,2)] assms(4) by auto
  have "rt_lookup t' obj = Some j \<longleftrightarrow> (if obj = rt_object t i then Some i else rt_lookup t obj) = Some j" for j
    using lookup_iff [OF t'(1), of obj j] lookup_iff [OF assms(1), of obj j] t'(2,3) assms(2,3)
      entered_valid [OF assms(1), of j] lookup_iff [OF assms(1), of "rt_object t i" j]
    by (cases "j = i") auto
  then show ?thesis by (metis option.exhaust)
qed

text \<open>A lookup after a deletion sees everything but the deleted entry.\<close>

lemma lookup_after_deletion:
  assumes "rt_invar t" and "i \<in> rt_entered t" and "rt_delete t (rt_object t i) i = Some t'"
  shows "rt_lookup t' obj = (if obj = rt_object t i then None else rt_lookup t obj)"
proof -
  have t': "rt_invar t'" "rt_entered t' = rt_entered t - {i}"
      "\<forall>j. rt_valid t j \<longrightarrow> rt_object t' j = rt_object t j"
    using deletion [OF assms(1,2)] assms(3) by auto
  have "rt_lookup t' obj = Some j \<longleftrightarrow> (if obj = rt_object t i then None else rt_lookup t obj) = Some j" for j
    using lookup_iff [OF t'(1), of obj j] lookup_iff [OF assms(1), of obj j] t'(2,3)
      entered_valid [OF assms(1), of j] entered_once [OF assms(1,2), of j]
    by auto
  then show ?thesis by (metis option.exhaust)
qed

end

end
