(* ===== verification/LocalHash.thy ===== *)
theory LocalHash
  imports Capability Probing ReverseTable
begin

text \<open>
  The reverse hash table of a space (second half of \<^verbatim>\<open>ipc/ipc_hash.c\<close>): open addressing
  with linear probing in the \<^verbatim>\<open>ie_index\<close> fields of the table of entries itself. A loop
  that goes round a table of \<open>n\<close> slots without stopping would go round for ever, so \<open>n\<close>
  rounds of fuel are exact: the result \<open>None\<close> stands for a loop that does not end, and the
  lemmas show that it does not occur.
\<close>

section \<open>The operations\<close>

definition IH_LOCAL_HASH :: "ipc_object_t \<Rightarrow> nat \<Rightarrow> nat" where
  "IH_LOCAL_HASH obj n = unat (drop_bit 6 obj) mod n"

abbreviation set_slot :: "ipc_entry list \<Rightarrow> nat \<Rightarrow> nat \<Rightarrow> ipc_entry list" where
  "set_slot table h i \<equiv> table[h := (table ! h)\<lparr>ie_index := i\<rparr>]"

fun local_lookup_loop :: "nat \<Rightarrow> ipc_entry list \<Rightarrow> ipc_object_t \<Rightarrow> nat \<Rightarrow> nat option option" where
  "local_lookup_loop 0 table obj hindex = None"
| "local_lookup_loop (Suc fuel) table obj hindex =
     (let index = ie_index (table ! hindex)
      in if index \<noteq> 0 then
           if ie_object (table ! index) = obj then Some (Some index)
           else local_lookup_loop fuel table obj
                  (if hindex + 1 = length table then 0 else hindex + 1)
         else Some None)"

definition ipc_hash_local_lookup ::
  "ipc_entry list \<Rightarrow> ipc_object_t \<Rightarrow> (mach_port_t \<times> nat) option option" where
  "ipc_hash_local_lookup table obj =
     map_option (map_option (\<lambda>index. (MACH_PORT_MAKEB index (ie_bits (table ! index)), index)))
       (local_lookup_loop (length table) table obj (IH_LOCAL_HASH obj (length table)))"

fun local_insert_loop :: "nat \<Rightarrow> ipc_entry list \<Rightarrow> nat \<Rightarrow> nat option" where
  "local_insert_loop 0 table hindex = None"
| "local_insert_loop (Suc fuel) table hindex =
     (if ie_index (table ! hindex) \<noteq> 0
      then local_insert_loop fuel table (if hindex + 1 = length table then 0 else hindex + 1)
      else Some hindex)"

definition ipc_hash_local_insert ::
  "ipc_entry list \<Rightarrow> ipc_object_t \<Rightarrow> nat \<Rightarrow> ipc_entry list option" where
  "ipc_hash_local_insert table obj index =
     (case local_insert_loop (length table) table (IH_LOCAL_HASH obj (length table)) of
        None \<Rightarrow> None
      | Some hindex \<Rightarrow> Some (set_slot table hindex index))"

text \<open>The search for the slot that holds \<^verbatim>\<open>index\<close>; \<open>Some None\<close> is the early return.\<close>

fun local_delete_find :: "nat \<Rightarrow> ipc_entry list \<Rightarrow> nat \<Rightarrow> nat \<Rightarrow> nat option option" where
  "local_delete_find 0 table index hindex = None"
| "local_delete_find (Suc fuel) table index hindex =
     (if ie_index (table ! hindex) \<noteq> index then
        if ie_index (table ! hindex) = 0 then Some None
        else local_delete_find fuel table index (if hindex + 1 = length table then 0 else hindex + 1)
      else Some (Some hindex))"

text \<open>The inner loop: the next slot that ends the clump or holds a displaced entry.\<close>

fun local_delete_scan :: "nat \<Rightarrow> ipc_entry list \<Rightarrow> nat \<Rightarrow> nat \<Rightarrow> nat option" where
  "local_delete_scan 0 table hindex dindex = None"
| "local_delete_scan (Suc fuel) table hindex dindex =
     (let dindex = (if dindex + 1 = length table then 0 else dindex + 1);
          index = ie_index (table ! dindex)
      in if index = 0 then Some dindex
         else let tobj = ie_object (table ! index);
                  tindex = IH_LOCAL_HASH tobj (length table)
              in if (if dindex < hindex then dindex < tindex \<and> tindex \<le> hindex
                     else dindex < tindex \<or> tindex \<le> hindex)
                 then Some dindex
                 else local_delete_scan fuel table hindex dindex)"

fun local_delete_loop :: "nat \<Rightarrow> ipc_entry list \<Rightarrow> nat \<Rightarrow> ipc_entry list option" where
  "local_delete_loop 0 table hindex = None"
| "local_delete_loop (Suc fuel) table hindex =
     (case local_delete_scan (length table) table hindex hindex of
        None \<Rightarrow> None
      | Some dindex \<Rightarrow>
          let index = ie_index (table ! dindex);
              table = set_slot table hindex index
          in if index \<noteq> 0 then local_delete_loop fuel table dindex else Some table)"

definition ipc_hash_local_delete ::
  "ipc_entry list \<Rightarrow> ipc_object_t \<Rightarrow> nat \<Rightarrow> ipc_entry list option" where
  "ipc_hash_local_delete table obj index =
     (case local_delete_find (length table) table index (IH_LOCAL_HASH obj (length table)) of
        None \<Rightarrow> None
      | Some None \<Rightarrow> Some table
      | Some (Some hindex) \<Rightarrow>
          if index \<noteq> 0 then local_delete_loop (length table) table hindex else Some table)"

section \<open>The loops are probe sequences\<close>

abbreviation slot :: "ipc_entry list \<Rightarrow> nat \<Rightarrow> nat" where
  "slot table \<equiv> \<lambda>s. ie_index (table ! s)"

definition home :: "ipc_entry list \<Rightarrow> nat \<Rightarrow> nat" where
  "home table = (\<lambda>i. IH_LOCAL_HASH (ie_object (table ! i)) (length table))"

lemma hash_less: "0 < n \<Longrightarrow> IH_LOCAL_HASH obj n < n"
  by (simp add: IH_LOCAL_HASH_def)

lemma home_less: "0 < length table \<Longrightarrow> home table i < length table"
  by (simp add: home_def hash_less)

lemma lookup_loop_probe:
  "local_lookup_loop fuel table obj h =
     map_option (\<lambda>s. if slot table s = 0 then None else Some (slot table s))
       (probe (\<lambda>s. slot table s = 0 \<or> ie_object (table ! slot table s) = obj) (length table) fuel h)"
  by (induction fuel arbitrary: h) (auto simp: Let_def next_slot_def)

lemma insert_loop_probe:
  "local_insert_loop fuel table h = probe (\<lambda>s. slot table s = 0) (length table) fuel h"
  by (induction fuel arbitrary: h) (auto simp: next_slot_def)

lemma delete_find_probe:
  assumes "i \<noteq> 0"
  shows "local_delete_find fuel table i h =
     map_option (\<lambda>s. if slot table s = i then Some s else None)
       (probe (\<lambda>s. slot table s = 0 \<or> slot table s = i) (length table) fuel h)"
  using assms by (induction fuel arbitrary: h) (auto simp: next_slot_def)

lemma delete_scan_probe:
  "local_delete_scan fuel table h d =
     probe (\<lambda>s. slot table s = 0 \<or> displaced h s (home table (slot table s)))
       (length table) fuel (next_slot (length table) d)"
  by (induction fuel arbitrary: d) (auto simp: Let_def next_slot_def displaced_def home_def)

section \<open>The invariant and the contents\<close>

definition hashed :: "ipc_entry list \<Rightarrow> nat set" where
  "hashed table = held (length table) (slot table)"

definition hash_invar :: "ipc_entry list \<Rightarrow> bool" where
  "hash_invar table \<longleftrightarrow> 0 < length table \<and> clumped (length table) (slot table) (home table) \<and>
     one_each (length table) (slot table) \<and> inj_on (\<lambda>i. ie_object (table ! i)) (hashed table)"

text \<open>Two tables that differ in the reverse hash table only.\<close>

definition same_entries :: "ipc_entry list \<Rightarrow> ipc_entry list \<Rightarrow> bool" where
  "same_entries table table' \<longleftrightarrow> map (ie_index_update (\<lambda>_. 0)) table' = map (ie_index_update (\<lambda>_. 0)) table"

lemma same_entries_refl [simp]: "same_entries table table"
  by (simp add: same_entries_def)

lemma same_entries_trans: "same_entries t t' \<Longrightarrow> same_entries t' t'' \<Longrightarrow> same_entries t t''"
  by (simp add: same_entries_def)

lemma same_entries_set_slot: "same_entries table (set_slot table h i)"
  by (cases "h < length table") (simp_all add: same_entries_def map_update list_update_same_conv list_update_beyond)

lemma same_entries_nth:
  assumes "same_entries table table'" and "i < length table"
  shows "ie_object (table' ! i) = ie_object (table ! i)" and "ie_bits (table' ! i) = ie_bits (table ! i)"
    and "ie_request (table' ! i) = ie_request (table ! i)"
proof -
  have "length table' = length table" using assms(1) unfolding same_entries_def by (rule map_eq_imp_length_eq)
  then have e: "ie_index_update (\<lambda>_. 0) (table' ! i) = ie_index_update (\<lambda>_. 0) (table ! i)"
    using assms unfolding same_entries_def by (metis nth_map)
  have "ie_object (ie_index_update (\<lambda>_. 0) (table' ! i)) = ie_object (ie_index_update (\<lambda>_. 0) (table ! i))"
    "ie_bits (ie_index_update (\<lambda>_. 0) (table' ! i)) = ie_bits (ie_index_update (\<lambda>_. 0) (table ! i))"
    "ie_request (ie_index_update (\<lambda>_. 0) (table' ! i)) = ie_request (ie_index_update (\<lambda>_. 0) (table ! i))"
    by (simp_all only: e)
  then show "ie_object (table' ! i) = ie_object (table ! i)" and "ie_bits (table' ! i) = ie_bits (table ! i)"
    and "ie_request (table' ! i) = ie_request (table ! i)" by simp_all
qed

lemma same_entries_length: "same_entries table table' \<Longrightarrow> length table' = length table"
  unfolding same_entries_def by (rule map_eq_imp_length_eq)

lemma slot_set_slot: "h < length table \<Longrightarrow> slot (set_slot table h i) = (slot table)(h := i)"
  by (auto simp: fun_eq_iff nth_list_update_eq)

lemma object_set_slot: "ie_object (set_slot table h i ! j) = ie_object (table ! j)"
  by (cases "j = h"; cases "h < length table") (simp_all add: list_update_beyond)

lemma home_set_slot: "home (set_slot table h i) = home table"
  by (simp add: home_def object_set_slot)

lemma hashed_less: "hash_invar table \<Longrightarrow> i \<in> hashed table \<Longrightarrow> 0 < i \<and> i < length table"
  by (auto simp: hash_invar_def hashed_def held_def clumped_def)

section \<open>Lookup\<close>

lemma local_lookup_found:
  assumes "hash_invar table" and "i \<in> hashed table" and "ie_object (table ! i) = obj"
  shows "ipc_hash_local_lookup table obj = Some (Some (MACH_PORT_MAKEB i (ie_bits (table ! i)), i))"
proof -
  let ?n = "length table" and ?h = "IH_LOCAL_HASH obj (length table)"
  let ?P = "\<lambda>s. slot table s = 0 \<or> ie_object (table ! slot table s) = obj"
  obtain s where s: "s < ?n" "slot table s = i" "i \<noteq> 0"
    using assms(2) by (auto simp: hashed_def held_def)
  have n: "0 < ?n" using assms(1) by (simp add: hash_invar_def)
  obtain d where d: "probe ?P ?n ?n ?h = Some d" "d < ?n" "?P d" "dist ?n ?h d \<le> dist ?n ?h s"
    using probe_first [of ?h ?n s ?P ?n] s assms(3) n dist_less [of ?h ?n s] hash_less by auto
  have "home table i = ?h" using assms(3) by (simp add: home_def)
  then have "slot table d \<noteq> 0"
    using assms(1) s d(2,4) unfolding hash_invar_def clumped_def by metis
  then have "slot table d \<in> hashed table" using d(2) by (auto simp: hashed_def held_def)
  moreover have "ie_object (table ! slot table d) = obj" using d(3) \<open>slot table d \<noteq> 0\<close> by simp
  ultimately have "slot table d = i"
    using assms by (auto simp: hash_invar_def inj_on_def)
  then show ?thesis
    using d(1) s(3) by (simp add: ipc_hash_local_lookup_def lookup_loop_probe)
qed

lemma local_lookup_absent:
  assumes "hash_invar table" and "\<forall>i \<in> hashed table. ie_object (table ! i) \<noteq> obj"
  shows "ipc_hash_local_lookup table obj = Some None"
proof -
  let ?n = "length table" and ?h = "IH_LOCAL_HASH obj (length table)"
  let ?P = "\<lambda>s. slot table s = 0 \<or> ie_object (table ! slot table s) = obj"
  have n: "0 < ?n" using assms(1) by (simp add: hash_invar_def)
  obtain e where e: "e < ?n" "slot table e = 0"
    using empty_slot assms(1) unfolding hash_invar_def by blast
  obtain d where d: "probe ?P ?n ?n ?h = Some d" "d < ?n" "?P d"
    using probe_first [of ?h ?n e ?P ?n] e n dist_less [of ?h ?n e] hash_less by auto
  then have "slot table d = 0" using assms(2) by (auto simp: hashed_def held_def)
  then show ?thesis using d(1) by (simp add: ipc_hash_local_lookup_def lookup_loop_probe)
qed

section \<open>Insertion\<close>

lemma hash_invar_set_slot:
  assumes "0 < length table" and "h < length table"
    and "clumped (length table) ((slot table)(h := v)) (home table)"
    and "one_each (length table) ((slot table)(h := v))"
    and "inj_on (\<lambda>i. ie_object (table ! i)) (held (length table) ((slot table)(h := v)))"
  shows "hash_invar (set_slot table h v)"
  using assms
  by (simp add: hash_invar_def hashed_def slot_set_slot home_set_slot object_set_slot del: fun_upd_apply)

lemma local_insert_correct:
  assumes inv: "hash_invar table" and "i \<notin> hashed table" and "0 < i" and "i < length table"
    and obj: "ie_object (table ! i) = obj" and fresh: "\<forall>j \<in> hashed table. ie_object (table ! j) \<noteq> obj"
  shows "\<exists>table'. ipc_hash_local_insert table obj i = Some table' \<and> hash_invar table' \<and>
    hashed table' = insert i (hashed table) \<and> same_entries table table'"
proof -
  let ?n = "length table" and ?h = "IH_LOCAL_HASH obj (length table)" and ?P = "\<lambda>s. slot table s = 0"
  have n: "0 < ?n" and cl: "clumped ?n (slot table) (home table)" and one: "one_each ?n (slot table)"
    using inv by (auto simp: hash_invar_def)
  obtain e where e: "e < ?n" "slot table e = 0" using empty_slot [OF cl one n] by blast
  obtain s where s: "probe ?P ?n ?n ?h = Some s" "s < ?n" "slot table s = 0"
      "\<forall>r < ?n. dist ?n ?h r < dist ?n ?h s \<longrightarrow> slot table r \<noteq> 0"
    using probe_first [of ?h ?n e ?P ?n] e n dist_less [of ?h ?n e] hash_less by auto
  have "home table i = ?h" using obj by (simp add: home_def)
  then have fill: "clumped ?n ((slot table)(s := i)) (home table)" "one_each ?n ((slot table)(s := i))"
      "held ?n ((slot table)(s := i)) = insert i (hashed table)"
    using clumped_fill [OF cl one _ _ _ s(2,3), of i] s(4) assms(2-4) home_less n
    by (auto simp: hashed_def)
  have "inj_on (\<lambda>i. ie_object (table ! i)) (insert i (hashed table))"
    using inv fresh obj by (auto simp: hash_invar_def inj_on_def)
  then have "hash_invar (set_slot table s i)"
    using hash_invar_set_slot [OF n s(2) fill(1,2)] fill(3) by simp
  then show ?thesis
    using s fill(3) same_entries_set_slot
    by (simp add: ipc_hash_local_insert_def insert_loop_probe hashed_def slot_set_slot del: fun_upd_apply)
qed

section \<open>Deletion\<close>

lemma delete_loop_correct:
  assumes "length table = n" and "0 < n" and "holed n e h (slot table) (home table)" and "n - dist n e h \<le> fuel"
  shows "\<exists>table'. local_delete_loop fuel table h = Some table' \<and>
    clumped n (slot table') (home table') \<and> one_each n (slot table') \<and>
    held n (slot table') = held_but n h (slot table) \<and> same_entries table table'"
  using assms
proof (induction fuel arbitrary: table h)
  case 0
  then show ?case using dist_less [of e n h] by (simp add: holed_def)
next
  case (Suc fuel)
  let ?P = "\<lambda>s. slot table s = 0 \<or> displaced h s (home table (slot table s))"
  have n: "length table = n" "0 < n" and hole: "holed n e h (slot table) (home table)" using Suc.prems by auto
  have eh: "e < n" "h < n" "e \<noteq> h" "h \<noteq> e" "slot table e = 0" using hole by (auto simp: holed_def)
  have hm: "home table i < n" for i using home_less [of table] n by simp
  obtain d where d: "probe ?P n n (next_slot n h) = Some d" "d < n" "?P d"
      "dist n (next_slot n h) d \<le> dist n (next_slot n h) e"
      "\<forall>r < n. dist n (next_slot n h) r < dist n (next_slot n h) d \<longrightarrow> \<not> ?P r"
    using probe_first [of "next_slot n h" n e ?P n] eh next_slot_less dist_less [of "next_slot n h" n e]
    by auto
  note ahead = scan_ahead [OF eh(2) d(2) eh(1,4) d(4)]
  have scan: "local_delete_scan (length table) table h h = Some d"
    using d(1) n by (simp add: delete_scan_probe)
  have chain: "dist n e (home table (slot table r)) \<le> dist n e r"
    if "r < n" "r \<noteq> h" "slot table r \<noteq> 0" for r
    using hole that unfolding holed_def chained_def by blast
  show ?case
  proof (cases "slot table d = 0")
    case True
    have "dist n e h < dist n e (home table (slot table r))"
      if r: "r < n" "dist n e h < dist n e r" "d = e \<or> dist n e r < dist n e d" for r
    proof -
      have "\<not> ?P r" using ahead(2) [OF r] d(5) r(1) by blast
      moreover have "r \<noteq> h" using r(2) by auto
      ultimately show ?thesis
        using displaced_interval [OF eh(2) r(1) hm eh(1) r(2)] chain [OF r(1)] by (meson not_le)
    qed
    then show ?thesis
      using holed_close [OF hole hm d(2) True ahead(1)] scan True n eh same_entries_set_slot
      by (auto simp: Let_def slot_set_slot home_set_slot simp del: fun_upd_apply)
  next
    case False
    then have "d \<noteq> e" using eh by auto
    then have hd: "dist n e h < dist n e d" using ahead(1) by blast
    then have "d \<noteq> h" by auto
    then have behind: "dist n e (home table (slot table d)) \<le> dist n e h"
      using displaced_interval [OF eh(2) d(2) hm eh(1) hd] chain [OF d(2)] d(3) False by blast
    let ?t = "set_slot table h (slot table d)"
    have "holed n e d (slot ?t) (home ?t)" and held: "held_but n d (slot ?t) = held_but n h (slot table)"
      using holed_move [OF hole d(2) False hd behind] n eh
      by (simp_all add: slot_set_slot home_set_slot del: fun_upd_apply)
    moreover have "n - dist n e d \<le> fuel" using Suc.prems(4) hd dist_less [OF eh(1) d(2)] by linarith
    ultimately obtain t' where t': "local_delete_loop fuel ?t d = Some t'" "clumped n (slot t') (home t')"
        "one_each n (slot t')" "held n (slot t') = held_but n d (slot ?t)" "same_entries ?t t'"
      using Suc.IH [of ?t d] n by auto
    then show ?thesis
      using scan False held same_entries_trans [OF same_entries_set_slot t'(5)] by (simp add: Let_def)
  qed
qed

lemma local_delete_correct:
  assumes inv: "hash_invar table" and i: "i \<in> hashed table" and obj: "ie_object (table ! i) = obj"
  shows "\<exists>table'. ipc_hash_local_delete table obj i = Some table' \<and> hash_invar table' \<and>
    hashed table' = hashed table - {i} \<and> same_entries table table'"
proof -
  let ?n = "length table" and ?h = "IH_LOCAL_HASH obj (length table)"
  let ?P = "\<lambda>s. slot table s = 0 \<or> slot table s = i"
  have n: "0 < ?n" and cl: "clumped ?n (slot table) (home table)" and one: "one_each ?n (slot table)"
    using inv by (auto simp: hash_invar_def)
  obtain s where s: "s < ?n" "slot table s = i" "i \<noteq> 0" using i by (auto simp: hashed_def held_def)
  obtain d where d: "probe ?P ?n ?n ?h = Some d" "d < ?n" "?P d" "dist ?n ?h d \<le> dist ?n ?h s"
    using probe_first [of ?h ?n s ?P ?n] s n dist_less [of ?h ?n s] hash_less by auto
  have "home table i = ?h" using obj by (simp add: home_def)
  then have "slot table d \<noteq> 0" using cl s d(2,4) unfolding clumped_def by metis
  then have di: "slot table d = i" using d(3) by simp
  have find: "local_delete_find ?n table i ?h = Some (Some d)"
    using d(1) di s(3) by (simp add: delete_find_probe)
  obtain e where e: "e < ?n" "slot table e = 0" using empty_slot [OF cl one n] by blast
  have "holed ?n e d (slot table) (home table)"
    using clumped_holed [OF cl one d(2) _ e] home_less n di s(3) by auto
  then obtain t' where t': "local_delete_loop ?n table d = Some t'" "clumped ?n (slot t') (home t')"
      "one_each ?n (slot t')" "held ?n (slot t') = held_but ?n d (slot table)" "same_entries table t'"
    using delete_loop_correct [OF refl n] by (metis diff_le_self)
  have len: "length t' = ?n" by (rule same_entries_length [OF t'(5)])
  have held: "hashed t' = hashed table - {i}"
    using t'(4) held_but_one_each [OF one d(2)] di s(3) len by (simp add: hashed_def)
  have "inj_on (\<lambda>i. ie_object (t' ! i)) (hashed t')"
  proof (rule inj_onI)
    fix x y assume xy: "x \<in> hashed t'" "y \<in> hashed t'" "ie_object (t' ! x) = ie_object (t' ! y)"
    then have m: "x \<in> hashed table" "y \<in> hashed table" using held by auto
    then have "ie_object (table ! x) = ie_object (table ! y)"
      using xy(3) same_entries_nth(1) [OF t'(5)] hashed_less [OF inv] by metis
    then show "x = y" using inv m unfolding hash_invar_def inj_on_def by blast
  qed
  then have "hash_invar t'" using n t'(2,3) len by (simp add: hash_invar_def)
  then show ?thesis
    using find t'(1,5) held s(3) by (simp add: ipc_hash_local_delete_def)
qed

text \<open>The table is left alone when the entry was never entered.\<close>

lemma local_delete_absent:
  assumes inv: "hash_invar table" and i: "i \<notin> hashed table" and "i \<noteq> 0"
  shows "ipc_hash_local_delete table obj i = Some table"
proof -
  let ?n = "length table" and ?h = "IH_LOCAL_HASH obj (length table)"
  let ?P = "\<lambda>s. slot table s = 0 \<or> slot table s = i"
  have n: "0 < ?n" using inv by (simp add: hash_invar_def)
  obtain e where e: "e < ?n" "slot table e = 0" using empty_slot inv unfolding hash_invar_def by blast
  obtain d where d: "probe ?P ?n ?n ?h = Some d" "d < ?n" "?P d"
    using probe_first [of ?h ?n e ?P ?n] e n dist_less [of ?h ?n e] hash_less by auto
  then have "slot table d \<noteq> i" using i assms(3) by (auto simp: hashed_def held_def)
  then show ?thesis using d(1) assms(3) by (simp add: ipc_hash_local_delete_def delete_find_probe)
qed

section \<open>The open-addressing table satisfies the contract\<close>

interpretation local_hash: reverse_table "\<lambda>table i. ie_object (table ! i)" hashed hash_invar
    "\<lambda>table i. 0 < i \<and> i < length table"
    "\<lambda>table obj. Option.bind (ipc_hash_local_lookup table obj) (map_option snd)"
    ipc_hash_local_insert ipc_hash_local_delete
proof (unfold_locales, goal_cases)
  case (1 t i)
  then show ?case by (rule hashed_less)
next
  case (2 t i j)
  then show ?case unfolding hash_invar_def inj_on_def by blast
next
  case (3 t i)
  then show ?case using local_lookup_found by simp
next
  case (4 t obj)
  then show ?case using local_lookup_absent by simp
next
  case (5 t i)
  then show ?case using local_insert_correct [of t i] same_entries_nth(1) by metis
next
  case (6 t i)
  then show ?case using local_delete_correct [of t i] same_entries_nth(1) by metis
qed

abbreviation local_index :: "ipc_entry list \<Rightarrow> ipc_object_t \<Rightarrow> nat option" where
  "local_index table obj \<equiv> Option.bind (ipc_hash_local_lookup table obj) (map_option snd)"

lemma local_lookup_total:
  assumes "hash_invar table"
  shows "ipc_hash_local_lookup table obj = Some (map_option (\<lambda>i. (of_nat i, i)) (local_index table obj))"
proof (cases "\<exists>i \<in> hashed table. ie_object (table ! i) = obj")
  case True
  then show ?thesis
    using local_lookup_found [OF assms] by (auto simp: MACH_PORT_MAKEB_def MACH_PORT_MAKE_def)
next
  case False
  then show ?thesis using local_lookup_absent [OF assms] by auto
qed

section \<open>Properties of the reverse hash table\<close>

text \<open>
  A table of four entries in which the entries 1, 2 and 3 form one clump: the objects of 1 and 2
  have the same home, and 3 is displaced by 2.
\<close>

definition sample_table :: "ipc_entry list" where
  "sample_table =
     [\<lparr>ie_bits = 0, ie_object = 0, ie_request = 0, ie_index = 1\<rparr>,
      \<lparr>ie_bits = 0x10001, ie_object = 0x100, ie_request = 0, ie_index = 2\<rparr>,
      \<lparr>ie_bits = 0x10001, ie_object = 0x200, ie_request = 0, ie_index = 3\<rparr>,
      \<lparr>ie_bits = 0x10001, ie_object = 0x240, ie_request = 0, ie_index = 0\<rparr>]"

lemma sample_table_slots:
  "slot sample_table 0 = 1" "slot sample_table 1 = 2" "slot sample_table 2 = 3"
  "slot sample_table 3 = 0" "length sample_table = 4"
  by (simp_all add: sample_table_def)

lemma sample_table_hashed: "hashed sample_table = {1, 2, 3}"
proof -
  have "s = 0 \<or> s = 1 \<or> s = 2 \<or> s = 3 \<longleftrightarrow> s < 4" for s :: nat by auto
  then have "hashed sample_table = {i. i \<noteq> 0 \<and> (\<exists>s \<in> {0, 1, 2, 3}. slot sample_table s = i)}"
    unfolding hashed_def held_def sample_table_slots(5) by (simp add: Bex_def)
  also have "\<dots> = {1, 2, 3}" unfolding bex_simps bex_empty sample_table_slots by auto
  finally show ?thesis .
qed

lemma sample_table_invar: "hash_invar sample_table"
proof -
  note slot = sample_table_slots
  have home: "home sample_table 1 = 0" "home sample_table 2 = 0" "home sample_table 3 = 1"
    by (simp_all add: sample_table_def home_def IH_LOCAL_HASH_def drop_bit_eq_div)
  have slots: "s = 0 \<or> s = 1 \<or> s = 2 \<or> s = 3" if "s < length sample_table" for s
    using that slot(5) by auto
  have "clumped (length sample_table) (slot sample_table) (home sample_table)"
    unfolding clumped_def
  proof (intro allI impI conjI)
    fix s assume "s < length sample_table" "slot sample_table s \<noteq> 0"
    then show "slot sample_table s < length sample_table" using slots [of s] slot by auto
  next
    fix s r assume "s < length sample_table" "slot sample_table s \<noteq> 0" "r < length sample_table"
      "dist (length sample_table) (home sample_table (slot sample_table s)) r
         \<le> dist (length sample_table) (home sample_table (slot sample_table s)) s"
    then show "slot sample_table r \<noteq> 0"
      using slots [of s] slots [of r] home slot by (auto simp: dist_def)
  qed
  moreover have "one_each (length sample_table) (slot sample_table)"
    unfolding one_each_def
  proof (intro allI impI)
    fix s r assume "s < length sample_table" "r < length sample_table"
      "slot sample_table s = slot sample_table r" "slot sample_table s \<noteq> 0"
    then show "s = r" using slots [of s] slots [of r] slot by auto
  qed
  moreover have "inj_on (\<lambda>i. ie_object (sample_table ! i)) (hashed sample_table)"
    unfolding sample_table_hashed by (simp add: sample_table_def)
  ultimately show ?thesis by (simp add: hash_invar_def slot)
qed

text \<open>
  C21. Entering an entry whose object is not yet entered always succeeds, keeps the table well
  formed, and makes the lookup find the entry by its object; for every other object the
  lookup returns what it returned before.
\<close>

theorem local_hash_insert_lookup:
  assumes "hash_invar table" and "0 < i" and "i < length table" and "ie_object (table ! i) = obj"
    and "ipc_hash_local_lookup table obj = Some None"
  shows "\<exists>table'. ipc_hash_local_insert table obj i = Some table' \<and> hash_invar table' \<and>
    same_entries table table' \<and>
    (\<forall>o'. ipc_hash_local_lookup table' o' =
       (if o' = obj then Some (Some (of_nat i, i)) else ipc_hash_local_lookup table o'))"
proof -
  have fresh: "i \<notin> hashed table" "\<forall>j \<in> hashed table. ie_object (table ! j) \<noteq> obj"
    using assms(4,5) local_lookup_found [OF assms(1)] by fastforce+
  obtain t' where t': "ipc_hash_local_insert table obj i = Some t'" "hash_invar t'" "same_entries table t'"
    using local_insert_correct [OF assms(1) fresh(1) assms(2-4) fresh(2)] by blast
  have "local_index t' o' = (if o' = obj then Some i else local_index table o')" for o'
    using local_hash.lookup_after_insertion [OF assms(1), of i t' o'] assms t'(1) by simp
  then have "ipc_hash_local_lookup t' o' =
      (if o' = obj then Some (Some (of_nat i, i)) else ipc_hash_local_lookup table o')" for o'
    using local_lookup_total [OF t'(2), of o'] local_lookup_total [OF assms(1), of o'] by simp
  then show ?thesis using t' by blast
qed

theorem local_hash_insert_lookup_witness:
  "\<exists>table'. ipc_hash_local_insert
       [\<lparr>ie_bits = 0, ie_object = 0, ie_request = 0, ie_index = 0\<rparr>,
        \<lparr>ie_bits = 0x10001, ie_object = 0x100, ie_request = 0, ie_index = 0\<rparr>] 0x100 1 = Some table' \<and>
     ipc_hash_local_lookup table' 0x100 = Some (Some (1, 1))"
proof -
  let ?t = "[\<lparr>ie_bits = 0, ie_object = 0, ie_request = 0, ie_index = 0\<rparr>,
    \<lparr>ie_bits = 0x10001, ie_object = 0x100, ie_request = 0, ie_index = 0\<rparr>]"
  have slot: "slot ?t s = 0" if "s < 2" for s using that by (auto simp: less_Suc_eq numeral_2_eq_2)
  then have held: "hashed ?t = {}" by (auto simp: hashed_def held_def)
  have "hash_invar ?t" using slot held by (simp add: hash_invar_def clumped_def one_each_def)
  then show ?thesis
    using local_hash_insert_lookup [of ?t 1 "0x100"] local_lookup_absent [of ?t "0x100"] held by force
qed

text \<open>
  C20. Deleting an entered entry always succeeds: the displaced entries of its clump are moved
  back so that the table stays well formed, the lookup of the deleted entry's object fails, and
  for every other object the lookup returns what it returned before.
\<close>

theorem local_hash_delete_lookup:
  assumes "hash_invar table" and "i \<in> hashed table" and "ie_object (table ! i) = obj"
  shows "\<exists>table'. ipc_hash_local_delete table obj i = Some table' \<and> hash_invar table' \<and>
    same_entries table table' \<and>
    (\<forall>o'. ipc_hash_local_lookup table' o' =
       (if o' = obj then Some None else ipc_hash_local_lookup table o'))"
proof -
  obtain t' where t': "ipc_hash_local_delete table obj i = Some t'" "hash_invar t'" "same_entries table t'"
    using local_delete_correct [OF assms] by blast
  have "local_index t' o' = (if o' = obj then None else local_index table o')" for o'
    using local_hash.lookup_after_deletion [OF assms(1,2), of t' o'] assms t'(1) by simp
  then have "ipc_hash_local_lookup t' o' =
      (if o' = obj then Some None else ipc_hash_local_lookup table o')" for o'
    using local_lookup_total [OF t'(2), of o'] local_lookup_total [OF assms(1), of o'] by simp
  then show ?thesis using t' by blast
qed

theorem local_hash_delete_lookup_witness:
  "\<exists>table'. ipc_hash_local_delete sample_table 0x100 1 = Some table' \<and>
     ipc_hash_local_lookup table' 0x100 = Some None \<and>
     ipc_hash_local_lookup table' 0x240 = ipc_hash_local_lookup sample_table 0x240"
proof -
  have "ie_object (sample_table ! 1) = 0x100" by (simp add: sample_table_def)
  then show ?thesis
    using local_hash_delete_lookup [OF sample_table_invar, of 1 "0x100"] by (force simp: sample_table_hashed)
qed

end
