(* ===== verification/Splay.thy ===== *)
theory Splay
  imports Prelude
begin

text \<open>
  The primitive splay tree operations of \<^verbatim>\<open>ipc/ipc_splay.c\<close>, which hold the
  capabilities of a space whose names do not fit its table.

  A tree entry is known by its name and its address (of any type \<open>'p\<close>); the child
  pointers are the shape of the datatype. The C code keeps the tree unassembled: a middle
  tree and two trees with an uninitialised hole, the \<open>rchild\<close> field of the largest
  entry on the left and the \<open>lchild\<close> field of the smallest entry on the right. The
  pair \<^verbatim>\<open>ist_ltree\<close>, \<^verbatim>\<open>ist_ltreep\<close> is modelled by the list of the
  entries from the hole up to the root, each with its \<open>lchild\<close>; storing through
  \<^verbatim>\<open>ist_ltreep\<close> is \<open>plug_left\<close>, and \<^verbatim>\<open>ist_ltreep == &ist_ltree\<close>
  is the empty list. The right side is symmetric. A traversal inverts child pointers; an
  inverted entry is a frame that records which of its two fields holds the parent.
\<close>

section \<open>The data structure\<close>

datatype 'p ipc_tree_entry =
    ITE_NULL
  | ITE (ite_lchild: "'p ipc_tree_entry") (ite_name: mach_port_t) (ite_addr: 'p)
        (ite_rchild: "'p ipc_tree_entry")
  where
    "ite_lchild ITE_NULL = ITE_NULL"
  | "ite_rchild ITE_NULL = ITE_NULL"

type_synonym 'p lspine = "('p ipc_tree_entry \<times> mach_port_t \<times> 'p) list"
type_synonym 'p rspine = "(mach_port_t \<times> 'p \<times> 'p ipc_tree_entry) list"

datatype 'p frame =
    LInv mach_port_t 'p "'p ipc_tree_entry" \<comment> \<open>\<open>ite_lchild\<close> holds the parent\<close>
  | RInv "'p ipc_tree_entry" mach_port_t 'p \<comment> \<open>\<open>ite_rchild\<close> holds the parent\<close>

text \<open>
  During a traversal the code keeps the current entry and its parent in the fields
  \<^verbatim>\<open>ist_ltree\<close> and \<^verbatim>\<open>ist_rtree\<close>, which have no other use then; the
  model gives them fields of their own.
\<close>

record 'p ipc_splay_tree =
  ist_name :: mach_port_t
  ist_root :: "'p ipc_tree_entry"
  ist_ltree :: "'p lspine"
  ist_rtree :: "'p rspine"
  ist_current :: "'p ipc_tree_entry"
  ist_parent :: "'p frame list"

definition MACH_PORT_SMALLEST :: mach_port_t where "MACH_PORT_SMALLEST = 0"
definition MACH_PORT_LARGEST :: mach_port_t where "MACH_PORT_LARGEST = - 1"

section \<open>Top-down splaying\<close>

fun plug_left :: "'p lspine \<Rightarrow> 'p ipc_tree_entry \<Rightarrow> 'p ipc_tree_entry" where
  "plug_left [] t = t"
| "plug_left ((lc, n, p) # l) t = plug_left l (ITE lc n p t)"

fun plug_right :: "'p rspine \<Rightarrow> 'p ipc_tree_entry \<Rightarrow> 'p ipc_tree_entry" where
  "plug_right [] t = t"
| "plug_right ((n, p, rc) # r) t = plug_right r (ITE t n p rc)"

fun rotate_left :: "'p ipc_tree_entry \<Rightarrow> 'p ipc_tree_entry" where
  "rotate_left (ITE a n p (ITE b m q c)) = ITE (ITE a n p b) m q c"
| "rotate_left t = t"

fun rotate_right :: "'p ipc_tree_entry \<Rightarrow> 'p ipc_tree_entry" where
  "rotate_right (ITE (ITE a n p b) m q c) = ITE a n p (ITE b m q c)"
| "rotate_right t = t"

fun link_left :: "'p ipc_tree_entry \<Rightarrow> 'p lspine \<Rightarrow> 'p ipc_tree_entry \<times> 'p lspine" where
  "link_left (ITE a n p b) l = (b, (a, n, p) # l)"
| "link_left ITE_NULL l = (ITE_NULL, l)"

fun link_right :: "'p ipc_tree_entry \<Rightarrow> 'p rspine \<Rightarrow> 'p ipc_tree_entry \<times> 'p rspine" where
  "link_right (ITE a n p b) r = (a, (n, p, b) # r)"
| "link_right ITE_NULL r = (ITE_NULL, r)"

function ipc_splay_prim_lookup ::
  "mach_port_t \<Rightarrow> 'p ipc_tree_entry \<Rightarrow> 'p lspine \<Rightarrow> 'p rspine
     \<Rightarrow> 'p ipc_tree_entry \<times> 'p lspine \<times> 'p rspine" where
  "ipc_splay_prim_lookup name ITE_NULL l r = (ITE_NULL, l, r)"
| "ipc_splay_prim_lookup name (ITE lchild tname p rchild) l r =
     (if name = tname then (ITE lchild tname p rchild, l, r)
      else if name < tname then
        if lchild = ITE_NULL then (ITE lchild tname p rchild, l, r)
        else
          let tree = (if name < ite_name lchild \<and> ite_lchild lchild \<noteq> ITE_NULL
                      then rotate_right (ITE lchild tname p rchild)
                      else ITE lchild tname p rchild);
              (tree, r) = link_right tree r;
              (tree, l) = (if ite_name lchild < name \<and> ite_rchild lchild \<noteq> ITE_NULL
                           then link_left tree l else (tree, l))
          in ipc_splay_prim_lookup name tree l r
      else
        if rchild = ITE_NULL then (ITE lchild tname p rchild, l, r)
        else
          let tree = (if ite_name rchild < name \<and> ite_rchild rchild \<noteq> ITE_NULL
                      then rotate_left (ITE lchild tname p rchild)
                      else ITE lchild tname p rchild);
              (tree, l) = link_left tree l;
              (tree, r) = (if name < ite_name rchild \<and> ite_lchild rchild \<noteq> ITE_NULL
                           then link_right tree r else (tree, r))
          in ipc_splay_prim_lookup name tree l r)"
  by pat_completeness auto
termination
proof (relation "measure (\<lambda>(name, tree, l, r). size tree)", goal_cases)
  case (2 name lchild tname p rchild l r x xa y xb xc ya)
  then show ?case by (cases lchild) (auto split: if_splits)
next
  case (3 name lchild tname p rchild l r x xa y xb xc ya)
  then show ?case by (cases rchild) (auto split: if_splits)
qed simp

fun ipc_splay_prim_assemble ::
  "'p ipc_tree_entry \<Rightarrow> 'p lspine \<Rightarrow> 'p rspine \<Rightarrow> 'p ipc_tree_entry" where
  "ipc_splay_prim_assemble (ITE lchild n p rchild) l r =
     ITE (plug_left l lchild) n p (plug_right r rchild)"
| "ipc_splay_prim_assemble ITE_NULL l r = ITE_NULL"


section \<open>The tree operations\<close>

definition ipc_splay_tree_init :: "'p ipc_splay_tree \<Rightarrow> 'p ipc_splay_tree" where
  "ipc_splay_tree_init splay = splay\<lparr>ist_root := ITE_NULL\<rparr>"

definition ipc_splay_tree_pick :: "'p ipc_splay_tree \<Rightarrow> (mach_port_t \<times> 'p) option" where
  "ipc_splay_tree_pick splay =
     (case ist_root splay of
        ITE_NULL \<Rightarrow> None
      | ITE lchild n p rchild \<Rightarrow> Some (n, p))"

text \<open>
  The block with which lookup, insert, delete, split and bounds begin: unless the last
  lookup was for the same name, the tree is assembled and splayed again.
\<close>

definition ist_resplay ::
  "'p ipc_splay_tree \<Rightarrow> mach_port_t \<Rightarrow> 'p ipc_tree_entry \<times> 'p lspine \<times> 'p rspine" where
  "ist_resplay splay name =
     (if ist_name splay \<noteq> name then
        ipc_splay_prim_lookup name
          (ipc_splay_prim_assemble (ist_root splay) (ist_ltree splay) (ist_rtree splay)) [] []
      else (ist_root splay, ist_ltree splay, ist_rtree splay))"

definition ipc_splay_tree_lookup ::
  "'p ipc_splay_tree \<Rightarrow> mach_port_t \<Rightarrow> 'p option \<times> 'p ipc_splay_tree" where
  "ipc_splay_tree_lookup splay name =
     (if ist_root splay = ITE_NULL then (None, splay)
      else
        let (root, l, r) = ist_resplay splay name;
            splay = splay\<lparr>ist_name := name, ist_root := root, ist_ltree := l, ist_rtree := r\<rparr>
        in (if name \<noteq> ite_name root then None else Some (ite_addr root), splay))"

definition ipc_splay_tree_insert ::
  "'p ipc_splay_tree \<Rightarrow> mach_port_t \<Rightarrow> 'p \<Rightarrow> 'p ipc_splay_tree" where
  "ipc_splay_tree_insert splay name entry =
     (let (lchild, rchild) =
        (if ist_root splay = ITE_NULL then (ITE_NULL, ITE_NULL)
         else
           let (root, l, r) = ist_resplay splay name
           in if name < ite_name root
              then (plug_left l ITE_NULL, plug_right r root)
              else (plug_left l root, plug_right r ITE_NULL))
      in splay\<lparr>ist_root := ITE lchild name entry rchild, ist_name := name,
               ist_ltree := [], ist_rtree := []\<rparr>)"

text \<open>
  \<open>set_rchild\<close> and \<open>set_lchild\<close> are the assignments to the child fields of an
  entry; \<open>ist_settle\<close> is the ending shared by delete, split and join, where a tree
  becomes the middle tree and the holes are reset.
\<close>

fun set_rchild :: "'p ipc_tree_entry \<Rightarrow> 'p ipc_tree_entry \<Rightarrow> 'p ipc_tree_entry" where
  "set_rchild (ITE lchild n p rchild) t = ITE lchild n p t"
| "set_rchild ITE_NULL t = ITE_NULL"

fun set_lchild :: "'p ipc_tree_entry \<Rightarrow> 'p ipc_tree_entry \<Rightarrow> 'p ipc_tree_entry" where
  "set_lchild (ITE lchild n p rchild) t = ITE t n p rchild"
| "set_lchild ITE_NULL t = ITE_NULL"

definition ist_settle :: "'p ipc_splay_tree \<Rightarrow> 'p ipc_tree_entry \<Rightarrow> 'p ipc_splay_tree" where
  "ist_settle splay root =
     (if root \<noteq> ITE_NULL
      then splay\<lparr>ist_root := root, ist_name := ite_name root, ist_ltree := [], ist_rtree := []\<rparr>
      else splay\<lparr>ist_root := root\<rparr>)"

definition ipc_splay_tree_delete ::
  "'p ipc_splay_tree \<Rightarrow> mach_port_t \<Rightarrow> 'p ipc_splay_tree" where
  "ipc_splay_tree_delete splay name =
     (let (root, l, r) = ist_resplay splay name;
          ltree = plug_left l (ite_lchild root);
          saved = plug_right r (ite_rchild root);
          root =
            (if ltree = ITE_NULL then saved
             else if saved \<noteq> ITE_NULL then
               let (root, l, r) = ipc_splay_prim_lookup MACH_PORT_LARGEST ltree [] []
               in set_rchild (ipc_splay_prim_assemble root l r) saved
             else ltree)
      in ist_settle splay root)"

text \<open>The pair of results is the tree itself and the new tree \<^verbatim>\<open>small\<close>.\<close>

definition ipc_splay_tree_split ::
  "'p ipc_splay_tree \<Rightarrow> mach_port_t \<Rightarrow> 'p ipc_splay_tree \<Rightarrow> 'p ipc_splay_tree \<times> 'p ipc_splay_tree"
  where
  "ipc_splay_tree_split splay name small =
     (let small = ipc_splay_tree_init small
      in if ist_root splay = ITE_NULL then (splay, small)
         else
           let (root, l, r) = ist_resplay splay name
           in if ite_name root < name then
                let ltree = plug_left l (ite_lchild root);
                    rtree = plug_right r ITE_NULL;
                    root = set_lchild root ltree
                in (ist_settle splay rtree,
                    small\<lparr>ist_root := root, ist_name := ite_name root,
                          ist_ltree := [], ist_rtree := []\<rparr>)
              else
                let ltree = plug_left l (ite_lchild root);
                    root = set_lchild root ITE_NULL
                in (splay\<lparr>ist_root := root, ist_name := name, ist_ltree := [], ist_rtree := r\<rparr>,
                    ist_settle small ltree))"

text \<open>The pair of results is the joined tree and the emptied tree \<^verbatim>\<open>small\<close>.\<close>

definition ipc_splay_tree_join ::
  "'p ipc_splay_tree \<Rightarrow> 'p ipc_splay_tree \<Rightarrow> 'p ipc_splay_tree \<times> 'p ipc_splay_tree" where
  "ipc_splay_tree_join splay small =
     (if ist_root small = ITE_NULL then (splay, small)
      else
        let sroot = ipc_splay_prim_assemble (ist_root small) (ist_ltree small) (ist_rtree small);
            small = small\<lparr>ist_root := ITE_NULL\<rparr>;
            root =
              (if ist_root splay = ITE_NULL then sroot
               else
                 let (root, l, r) = ist_resplay splay MACH_PORT_SMALLEST
                 in set_lchild (ipc_splay_prim_assemble root l r) sroot)
        in (splay\<lparr>ist_root := root, ist_name := ite_name root,
                  ist_ltree := [], ist_rtree := []\<rparr>, small))"

definition ipc_splay_tree_bounds ::
  "'p ipc_splay_tree \<Rightarrow> mach_port_t \<Rightarrow> mach_port_t \<times> mach_port_t \<times> 'p ipc_splay_tree" where
  "ipc_splay_tree_bounds splay name =
     (if ist_root splay = ITE_NULL then (MACH_PORT_LARGEST, MACH_PORT_SMALLEST, splay)
      else
        let (root, l, r) = ist_resplay splay name;
            splay = splay\<lparr>ist_name := name, ist_root := root, ist_ltree := l, ist_rtree := r\<rparr>;
            rname = ite_name root;
            lower = (if rname \<le> name then rname
                     else case l of [] \<Rightarrow> MACH_PORT_LARGEST | (lc, n, p) # l' \<Rightarrow> n);
            upper = (if name \<le> rname then rname
                     else case r of [] \<Rightarrow> MACH_PORT_SMALLEST | (n, p, rc) # r' \<Rightarrow> n)
        in (lower, upper, splay))"

section \<open>Contents and invariant\<close>

text \<open>
  The entries of a tree in symmetric order, as pairs of name and address: the abstraction
  of every structure of this theory.
\<close>

fun inorder :: "'p ipc_tree_entry \<Rightarrow> (mach_port_t \<times> 'p) list" where
  "inorder ITE_NULL = []"
| "inorder (ITE lchild n p rchild) = inorder lchild @ (n, p) # inorder rchild"

fun inorder_l :: "'p lspine \<Rightarrow> (mach_port_t \<times> 'p) list" where
  "inorder_l [] = []"
| "inorder_l ((lchild, n, p) # l) = inorder_l l @ inorder lchild @ [(n, p)]"

fun inorder_r :: "'p rspine \<Rightarrow> (mach_port_t \<times> 'p) list" where
  "inorder_r [] = []"
| "inorder_r ((n, p, rchild) # r) = (n, p) # inorder rchild @ inorder_r r"

definition ist_entries :: "'p ipc_splay_tree \<Rightarrow> (mach_port_t \<times> 'p) list" where
  "ist_entries splay =
     (if ist_root splay = ITE_NULL then []
      else inorder_l (ist_ltree splay) @ inorder (ist_root splay) @ inorder_r (ist_rtree splay))"

text \<open>
  What a lookup of \<open>name\<close> leaves: smaller names on the left, larger names on the right,
  and a middle tree on whose root the search for \<open>name\<close> ended.
\<close>

definition splayed_at ::
  "mach_port_t \<Rightarrow> 'p ipc_tree_entry \<Rightarrow> 'p lspine \<Rightarrow> 'p rspine \<Rightarrow> bool" where
  "splayed_at name root l r \<longleftrightarrow>
     root \<noteq> ITE_NULL \<and>
     (\<forall>k \<in> keys (inorder_l l). k < name) \<and> (\<forall>k \<in> keys (inorder_r r). name < k) \<and>
     (name < ite_name root \<longrightarrow> ite_lchild root = ITE_NULL) \<and>
     (ite_name root < name \<longrightarrow> ite_rchild root = ITE_NULL)"

definition ist_invar :: "'p ipc_splay_tree \<Rightarrow> bool" where
  "ist_invar splay \<longleftrightarrow>
     ist_root splay \<noteq> ITE_NULL \<longrightarrow>
       ascending (ist_entries splay) \<and>
       splayed_at (ist_name splay) (ist_root splay) (ist_ltree splay) (ist_rtree splay)"

lemma inorder_plug_left [simp]: "inorder (plug_left l t) = inorder_l l @ inorder t"
  by (induction l t rule: plug_left.induct) auto

lemma inorder_plug_right [simp]: "inorder (plug_right r t) = inorder t @ inorder_r r"
  by (induction r t rule: plug_right.induct) auto

lemma inorder_assemble [simp]:
  "inorder (ipc_splay_prim_assemble t l r) =
     (if t = ITE_NULL then [] else inorder_l l @ inorder t @ inorder_r r)"
  by (cases t) auto

lemma inorder_Nil_iff [simp]: "inorder t = [] \<longleftrightarrow> t = ITE_NULL"
  by (cases t) auto

lemma assemble_NULL_iff [simp]: "ipc_splay_prim_assemble t l r = ITE_NULL \<longleftrightarrow> t = ITE_NULL"
  by (cases t) auto

section \<open>Correctness of the top-down splay\<close>

text \<open>
  A loop rule for the search: a relation between the three trees that both rotations and
  both links keep holds when the loop ends, and there the search cannot go on.
\<close>

definition search_ended :: "mach_port_t \<Rightarrow> 'p ipc_tree_entry \<Rightarrow> bool" where
  "search_ended name t \<longleftrightarrow>
     (name < ite_name t \<longrightarrow> ite_lchild t = ITE_NULL) \<and>
     (ite_name t < name \<longrightarrow> ite_rchild t = ITE_NULL)"

definition loop_rules ::
  "mach_port_t \<Rightarrow> ('p ipc_tree_entry \<Rightarrow> 'p lspine \<Rightarrow> 'p rspine \<Rightarrow> bool) \<Rightarrow> bool" where
  "loop_rules name I \<longleftrightarrow>
     (\<forall>a n q b m p c l r. I (ITE (ITE a n q b) m p c) l r \<longrightarrow> I (ITE a n q (ITE b m p c)) l r) \<and>
     (\<forall>a n q b m p c l r. I (ITE a n q (ITE b m p c)) l r \<longrightarrow> I (ITE (ITE a n q b) m p c) l r) \<and>
     (\<forall>a n q b l r. I (ITE a n q b) l r \<longrightarrow> name < n \<longrightarrow> a \<noteq> ITE_NULL \<longrightarrow> I a l ((n, q, b) # r)) \<and>
     (\<forall>a n q b l r. I (ITE a n q b) l r \<longrightarrow> n < name \<longrightarrow> b \<noteq> ITE_NULL \<longrightarrow> I b ((a, n, q) # l) r)"

lemmas loop_rulesD =
  loop_rules_def [THEN iffD1, THEN conjunct1, rule_format]
  loop_rules_def [THEN iffD1, THEN conjunct2, THEN conjunct1, rule_format]
  loop_rules_def [THEN iffD1, THEN conjunct2, THEN conjunct2, THEN conjunct1, rule_format]
  loop_rules_def [THEN iffD1, THEN conjunct2, THEN conjunct2, THEN conjunct2, rule_format]

declare ipc_splay_prim_lookup.simps(2) [simp del]

text \<open>The body of the loop in its three shapes on each side.\<close>

lemma prim_lookup_descend_left:
  assumes "name < m" and "lc = ITE a n q b"
  shows "ipc_splay_prim_lookup name (ITE lc m p c) l r =
    (if name < n \<and> a \<noteq> ITE_NULL then ipc_splay_prim_lookup name a l ((n, q, ITE b m p c) # r)
     else if n < name \<and> b \<noteq> ITE_NULL
     then ipc_splay_prim_lookup name b ((a, n, q) # l) ((m, p, c) # r)
     else ipc_splay_prim_lookup name lc l ((m, p, c) # r))"
  using assms by (subst ipc_splay_prim_lookup.simps(2)) (auto simp: Let_def)

lemma prim_lookup_descend_right:
  assumes "m < name" and "rc = ITE a n q b"
  shows "ipc_splay_prim_lookup name (ITE c m p rc) l r =
    (if n < name \<and> b \<noteq> ITE_NULL then ipc_splay_prim_lookup name b ((ITE c m p a, n, q) # l) r
     else if name < n \<and> a \<noteq> ITE_NULL
     then ipc_splay_prim_lookup name a ((c, m, p) # l) ((n, q, b) # r)
     else ipc_splay_prim_lookup name rc ((c, m, p) # l) r)"
  using assms by (subst ipc_splay_prim_lookup.simps(2)) (auto simp: Let_def)

lemma prim_lookup_stop:
  "search_ended name t \<Longrightarrow> ipc_splay_prim_lookup name t l r = (t, l, r)"
  by (cases t) (auto simp: search_ended_def ipc_splay_prim_lookup.simps(2))

lemma prim_lookup_rule:
  assumes rules: "loop_rules name I" and "I t l r" and "t \<noteq> ITE_NULL"
    and "ipc_splay_prim_lookup name t l r = (t', l', r')"
  shows "I t' l' r' \<and> search_ended name t' \<and> t' \<noteq> ITE_NULL"
  using assms(2-)
proof (induction "size t" arbitrary: t l r rule: less_induct)
  case less
  note I = loop_rulesD
  from less.prems(2) obtain lc m p rc where t: "t = ITE lc m p rc" by (cases t) auto
  consider (stop) "search_ended name t"
    | (left) a n q b where "name < m" "lc = ITE a n q b"
    | (right) a n q b where "m < name" "rc = ITE a n q b"
    by (cases lc; cases rc) (auto simp: search_ended_def t)
  then show ?case
  proof cases
    case stop
    then show ?thesis using less.prems by (simp add: prim_lookup_stop)
  next
    case left
    note It = less.prems(1) [unfolded t]
    have Il: "I lc l ((m, p, rc) # r)"
      using left by (intro I(3) [OF rules It]) auto
    have Ia: "I a l ((n, q, ITE b m p rc) # r)" if "name < n" "a \<noteq> ITE_NULL"
      by (rule I(3) [OF rules I(1) [OF rules It [unfolded left(2)]] that])
    have Ib: "I b ((a, n, q) # l) ((m, p, rc) # r)" if "n < name" "b \<noteq> ITE_NULL"
      by (rule I(4) [OF rules Il [unfolded left(2)] that])
    show ?thesis
      using less.prems(3) prim_lookup_descend_left [OF left, of p rc l r]
        less.hyps [OF _ Ia] less.hyps [OF _ Ib] less.hyps [OF _ Il] left
      by (simp add: t split: if_splits)
  next
    case right
    note It = less.prems(1) [unfolded t]
    have Ir: "I rc ((lc, m, p) # l) r"
      using right by (intro I(4) [OF rules It]) auto
    have Ib: "I b ((ITE lc m p a, n, q) # l) r" if "n < name" "b \<noteq> ITE_NULL"
      by (rule I(4) [OF rules I(2) [OF rules It [unfolded right(2)]] that])
    have Ia: "I a ((lc, m, p) # l) ((n, q, b) # r)" if "name < n" "a \<noteq> ITE_NULL"
      by (rule I(3) [OF rules Ir [unfolded right(2)] that])
    show ?thesis
      using less.prems(3) prim_lookup_descend_right [OF right, of lc p l r]
        less.hyps [OF _ Ia] less.hyps [OF _ Ib] less.hyps [OF _ Ir] right
      by (simp add: t split: if_splits)
  qed
qed

lemma link_keeps:
  assumes "inorder_l l @ inorder (ITE a n q b) @ inorder_r r = es" and "ascending es"
  shows "\<forall>k \<in> keys (inorder_l l @ inorder a). k < n" and "\<forall>k \<in> keys (inorder b @ inorder_r r). n < k"
  using assms(2) unfolding assms(1) [symmetric] by (simp_all add: sorted_wrt_append ball_Un)

lemma prim_lookup_correct:
  assumes "ipc_splay_prim_lookup name t [] [] = (t', l', r')" and "t \<noteq> ITE_NULL"
    and asc: "ascending (inorder t)"
  shows "inorder_l l' @ inorder t' @ inorder_r r' = inorder t \<and> splayed_at name t' l' r'"
proof -
  let ?I = "\<lambda>s l r. inorder_l l @ inorder s @ inorder_r r = inorder t \<and>
     (\<forall>k \<in> keys (inorder_l l). k < name) \<and> (\<forall>k \<in> keys (inorder_r r). name < k)"
  have "loop_rules name ?I"
    unfolding loop_rules_def
  proof (intro conjI allI impI)
    fix a n q b l r
    assume I: "?I (ITE a n q b) l r"
    note ks = link_keeps [OF I [THEN conjunct1] asc]
    show "\<forall>k \<in> keys (inorder_r ((n, q, b) # r)). name < k" if "name < n"
      using ks(2) that by (auto intro: less_trans)
    show "\<forall>k \<in> keys (inorder_l ((a, n, q) # l)). k < name" if "n < name"
      using ks(1) that by (auto intro: less_trans)
  qed simp_all
  from prim_lookup_rule [OF this _ assms(2,1)] show ?thesis
    by (simp add: splayed_at_def search_ended_def)
qed


section \<open>Correctness of the operations\<close>

lemma ist_resplay_correct:
  assumes "ist_resplay splay name = (t, l, r)" and "ist_invar splay"
    and "ist_root splay \<noteq> ITE_NULL"
  shows "inorder_l l @ inorder t @ inorder_r r = ist_entries splay \<and> splayed_at name t l r"
proof (cases "ist_name splay = name")
  case True
  then show ?thesis using assms by (auto simp: ist_resplay_def ist_entries_def ist_invar_def)
next
  case False
  with assms show ?thesis
    using prim_lookup_correct [of name "ipc_splay_prim_assemble (ist_root splay)
      (ist_ltree splay) (ist_rtree splay)" t l r]
    by (simp add: ist_resplay_def ist_entries_def ist_invar_def)
qed

text \<open>How a splayed tree is cut at the name it was splayed for.\<close>

lemma splayed_parts:
  assumes "splayed_at name (ITE a n p b) l r"
    and "inorder_l l @ inorder (ITE a n p b) @ inorder_r r = es" and "ascending es"
  shows "below name es = inorder_l l @ inorder a @ (if n < name then [(n, p)] else [])"
    and "beyond name es = (if name < n then [(n, p)] else []) @ inorder b @ inorder_r r"
    and "through name es = inorder_l l @ inorder a @ (if n \<le> name then [(n, p)] else [])"
    and "onward name es = (if name \<le> n then [(n, p)] else []) @ inorder b @ inorder_r r"
    and "filter (\<lambda>x. fst x = name) es = (if n = name then [(n, p)] else [])"
proof -
  note ks = link_keeps [OF assms(2,3)]
  have l: "below name (inorder_l l) = inorder_l l" "beyond name (inorder_l l) = []"
    "through name (inorder_l l) = inorder_l l" "onward name (inorder_l l) = []"
    "filter (\<lambda>x. fst x = name) (inorder_l l) = []"
    using assms(1) by (auto simp: splayed_at_def intro!: filter_all filter_none)
  have r: "below name (inorder_r r) = []" "beyond name (inorder_r r) = inorder_r r"
    "through name (inorder_r r) = []" "onward name (inorder_r r) = inorder_r r"
    "filter (\<lambda>x. fst x = name) (inorder_r r) = []"
    using assms(1) by (auto simp: splayed_at_def intro!: filter_all filter_none)
  have a: "below name (inorder a) = inorder a" "beyond name (inorder a) = []"
    "through name (inorder a) = inorder a" "onward name (inorder a) = []"
    "filter (\<lambda>x. fst x = name) (inorder a) = []"
    using assms(1) ks by (auto simp: splayed_at_def ball_Un intro!: filter_all filter_none)
  have b: "below name (inorder b) = []" "beyond name (inorder b) = inorder b"
    "through name (inorder b) = []" "onward name (inorder b) = inorder b"
    "filter (\<lambda>x. fst x = name) (inorder b) = []"
    using assms(1) ks by (auto simp: splayed_at_def ball_Un intro!: filter_all filter_none)
  show "below name es = inorder_l l @ inorder a @ (if n < name then [(n, p)] else [])"
    and "beyond name es = (if name < n then [(n, p)] else []) @ inorder b @ inorder_r r"
    and "through name es = inorder_l l @ inorder a @ (if n \<le> name then [(n, p)] else [])"
    and "onward name es = (if name \<le> n then [(n, p)] else []) @ inorder b @ inorder_r r"
    and "filter (\<lambda>x. fst x = name) es = (if n = name then [(n, p)] else [])"
    by (simp_all add: assms(2) [symmetric] a b l r)
qed


text \<open>What the operations know after the block they begin with.\<close>

definition resplayed ::
  "'p ipc_splay_tree \<Rightarrow> mach_port_t \<Rightarrow> 'p ipc_tree_entry \<Rightarrow> mach_port_t \<Rightarrow> 'p \<Rightarrow>
     'p ipc_tree_entry \<Rightarrow> 'p lspine \<Rightarrow> 'p rspine \<Rightarrow> bool" where
  "resplayed splay name a n q b l r \<longleftrightarrow>
     ist_resplay splay name = (ITE a n q b, l, r) \<and> splayed_at name (ITE a n q b) l r \<and>
     inorder_l l @ inorder a @ (n, q) # inorder b @ inorder_r r = ist_entries splay \<and>
     below name (ist_entries splay) =
       inorder_l l @ inorder a @ (if n < name then [(n, q)] else []) \<and>
     beyond name (ist_entries splay) =
       (if name < n then [(n, q)] else []) @ inorder b @ inorder_r r \<and>
     through name (ist_entries splay) =
       inorder_l l @ inorder a @ (if n \<le> name then [(n, q)] else []) \<and>
     onward name (ist_entries splay) =
       (if name \<le> n then [(n, q)] else []) @ inorder b @ inorder_r r \<and>
     map_of (ist_entries splay) name = (if n = name then Some q else None)"

lemma resplayedE:
  assumes "ist_invar splay" and "ist_root splay \<noteq> ITE_NULL"
  obtains a n q b l r where "resplayed splay name a n q b l r"
proof -
  obtain t l r where res: "ist_resplay splay name = (t, l, r)" by (cases "ist_resplay splay name")
  note spl = ist_resplay_correct [OF res assms]
  obtain a n q b where t: "t = ITE a n q b" using spl by (cases t) (auto simp: splayed_at_def)
  have asc: "ascending (ist_entries splay)" using assms by (simp add: ist_invar_def)
  note parts = splayed_parts [OF _ _ asc, of name a n q b l r]
  have "map_of (ist_entries splay) name = map_of (filter (\<lambda>x. fst x = name) (ist_entries splay)) name"
    by (simp add: map_of_filter_key [where P = "\<lambda>x. x = name"])
  then have "resplayed splay name a n q b l r"
    using parts spl res by (simp add: t resplayed_def)
  then show ?thesis by (rule that)
qed

lemma ist_settle_correct:
  "ist_entries (ist_settle splay t) = inorder t \<and>
   (ascending (inorder t) \<longrightarrow> ist_invar (ist_settle splay t))"
  by (auto simp: ist_settle_def ist_entries_def ist_invar_def splayed_at_def)

lemma init_correct:
  "ist_entries (ipc_splay_tree_init splay) = [] \<and> ist_invar (ipc_splay_tree_init splay)"
  by (simp add: ipc_splay_tree_init_def ist_entries_def ist_invar_def)

lemma ist_entries_Nil_iff: "ist_entries splay = [] \<longleftrightarrow> ist_root splay = ITE_NULL"
  by (simp add: ist_entries_def)

lemma invar_ascending: "ist_invar splay \<Longrightarrow> ascending (ist_entries splay)"
  by (auto simp: ist_invar_def ist_entries_def)

lemma pick_correct:
  "ipc_splay_tree_pick splay =
     (if ist_entries splay = [] then None
      else Some (ite_name (ist_root splay), ite_addr (ist_root splay))) \<and>
   (\<forall>x. ipc_splay_tree_pick splay = Some x \<longrightarrow> x \<in> set (ist_entries splay))"
  by (auto simp: ipc_splay_tree_pick_def ist_entries_def split: ipc_tree_entry.splits)

lemma lookup_correct:
  assumes "ist_invar splay"
  shows "fst (ipc_splay_tree_lookup splay name) = map_of (ist_entries splay) name \<and>
         ist_entries (snd (ipc_splay_tree_lookup splay name)) = ist_entries splay \<and>
         ist_invar (snd (ipc_splay_tree_lookup splay name))"
proof (cases "ist_root splay = ITE_NULL")
  case True
  then show ?thesis using assms by (simp add: ipc_splay_tree_lookup_def ist_entries_def)
next
  case False
  then obtain a n q b l r where R: "resplayed splay name a n q b l r"
    using resplayedE assms by metis
  have L: "ipc_splay_tree_lookup splay name = (if name \<noteq> n then None else Some q,
     splay\<lparr>ist_name := name, ist_root := ITE a n q b, ist_ltree := l, ist_rtree := r\<rparr>)"
    using False R by (simp add: ipc_splay_tree_lookup_def resplayed_def)
  then have e: "ist_entries (snd (ipc_splay_tree_lookup splay name)) = ist_entries splay"
    using R False by (simp add: ist_entries_def resplayed_def)
  show ?thesis
    using e R invar_ascending [OF assms] by (simp add: L ist_invar_def resplayed_def)
qed

lemma ascending_insert:
  "ascending es \<Longrightarrow> ascending (below k es @ (k, v) # beyond k es)"
  by (auto simp: sorted_wrt_append ascending_filter intro: less_trans)

lemma insert_correct:
  assumes "ist_invar splay" and "name \<notin> keys (ist_entries splay)"
  shows "ist_entries (ipc_splay_tree_insert splay name p) =
           below name (ist_entries splay) @ (name, p) # beyond name (ist_entries splay) \<and>
         ist_invar (ipc_splay_tree_insert splay name p)"
proof -
  have e: "ist_entries (ipc_splay_tree_insert splay name p) =
           below name (ist_entries splay) @ (name, p) # beyond name (ist_entries splay)"
  proof (cases "ist_root splay = ITE_NULL")
    case True
    then show ?thesis by (simp add: ipc_splay_tree_insert_def ist_entries_def)
  next
    case False
    then obtain a n q b l r where R: "resplayed splay name a n q b l r"
      using resplayedE assms by metis
    have "n \<noteq> name" using R assms(2) by (auto simp: resplayed_def map_of_none_keys [symmetric])
    then consider "n < name" "b = ITE_NULL" | "name < n" "a = ITE_NULL"
      using R by (cases n name rule: linorder_cases) (auto simp: splayed_at_def resplayed_def)
    then show ?thesis
      using False R
      by cases (simp_all add: resplayed_def ipc_splay_tree_insert_def ist_entries_def)
  qed
  show ?thesis
    using e ascending_insert [OF invar_ascending [OF assms(1)]]
    by (auto simp: ist_invar_def splayed_at_def ipc_splay_tree_insert_def split: prod.splits)
qed


text \<open>
  Splaying for the largest (smallest) name leaves the largest (smallest) entry without a
  right (left) child, where delete and join hang the other tree.
\<close>

lemma not_beyond_largest: "\<not> MACH_PORT_LARGEST < k" and not_below_smallest: "\<not> k < MACH_PORT_SMALLEST"
  by (simp_all add: MACH_PORT_LARGEST_def MACH_PORT_SMALLEST_def)

lemma inorder_r_Nil_iff [simp]: "inorder_r r = [] \<longleftrightarrow> r = []"
  by (cases r rule: inorder_r.cases) auto

lemma inorder_l_Nil_iff [simp]: "inorder_l l = [] \<longleftrightarrow> l = []"
  by (cases l rule: inorder_l.cases) auto

lemma join_largest:
  assumes "ipc_splay_prim_lookup MACH_PORT_LARGEST t [] [] = (t', l, r)" and "t \<noteq> ITE_NULL"
    and "ascending (inorder t)"
  shows "inorder (set_rchild (ipc_splay_prim_assemble t' l r) s) = inorder t @ inorder s"
proof -
  note c = prim_lookup_correct [OF assms]
  obtain a n q b where t: "t' = ITE a n q b" using c by (cases t') (auto simp: splayed_at_def)
  have "beyond MACH_PORT_LARGEST (inorder t) = []" by (simp add: not_beyond_largest)
  then have "r = [] \<and> b = ITE_NULL"
    using c splayed_parts(2) [OF _ _ assms(3), of MACH_PORT_LARGEST a n q b l r] by (simp add: t)
  then show ?thesis using c by (simp add: t)
qed

lemma delete_correct:
  assumes "ist_invar splay" and "name \<in> keys (ist_entries splay)"
  shows "ist_entries (ipc_splay_tree_delete splay name) = without name (ist_entries splay) \<and>
         ist_invar (ipc_splay_tree_delete splay name)"
proof -
  note asc = invar_ascending [OF assms(1)]
  have root: "ist_root splay \<noteq> ITE_NULL" using assms(2) by (auto simp: ist_entries_def)
  then obtain a n q b l r where R: "resplayed splay name a n q b l r"
    using resplayedE assms by metis
  have n: "n = name"
    using R assms(2) by (auto simp: resplayed_def map_of_none_keys split: if_splits)
  define ltree where "ltree = plug_left l a"
  define saved where "saved = plug_right r b"
  define root' where "root' =
    (if ltree = ITE_NULL then saved
     else if saved \<noteq> ITE_NULL then
       let (root, l, r) = ipc_splay_prim_lookup MACH_PORT_LARGEST ltree [] []
       in set_rchild (ipc_splay_prim_assemble root l r) saved
     else ltree)"
  have parts: "inorder ltree = below name (ist_entries splay)"
    "inorder saved = beyond name (ist_entries splay)"
    using R n by (auto simp: resplayed_def ltree_def saved_def)
  have "inorder root' = inorder ltree @ inorder saved"
    using join_largest [of ltree] parts asc
    by (auto simp: root'_def ascending_filter split: prod.splits)
  then have e: "inorder root' = without name (ist_entries splay)"
    using parts below_append_beyond [OF asc] by simp
  moreover have "ipc_splay_tree_delete splay name = ist_settle splay root'"
    using R by (simp add: ipc_splay_tree_delete_def resplayed_def ltree_def saved_def root'_def)
  ultimately show ?thesis
    using ist_settle_correct [of splay root'] asc by (simp add: ascending_filter)
qed


lemma split_correct:
  assumes "ist_invar splay" and "ipc_splay_tree_split splay name small = (splay', small')"
  shows "ist_entries small' = below name (ist_entries splay) \<and>
         ist_entries splay' = onward name (ist_entries splay) \<and>
         ist_invar small' \<and> ist_invar splay'"
proof (cases "ist_root splay = ITE_NULL")
  case True
  then show ?thesis
    using assms init_correct [of small]
    by (auto simp: ipc_splay_tree_split_def ist_entries_def ist_invar_def)
next
  case False
  then obtain a n q b l r where R: "resplayed splay name a n q b l r"
    using resplayedE assms by metis
  note asc = invar_ascending [OF assms(1)]
  note asc_parts = ascending_filter [OF asc, of "\<lambda>x. fst x < name"]
    ascending_filter [OF asc, of "\<lambda>x. name \<le> fst x"]
  show ?thesis
  proof (cases "n < name")
    case True
    then have b: "b = ITE_NULL" using R by (simp add: resplayed_def splayed_at_def)
    have "splay' = ist_settle splay (plug_right r ITE_NULL)"
      and s': "small' = (ipc_splay_tree_init small)\<lparr>ist_root := ITE (plug_left l a) n q b,
         ist_name := n, ist_ltree := [], ist_rtree := []\<rparr>"
      using assms(2) False R True by (simp_all add: ipc_splay_tree_split_def resplayed_def)
    moreover have e: "below name (ist_entries splay) = inorder_l l @ inorder a @ [(n, q)]"
      "onward name (ist_entries splay) = inorder_r r"
      using R True b by (auto simp: resplayed_def)
    moreover have "ist_entries small' = below name (ist_entries splay)"
      using e by (simp add: s' ist_entries_def b)
    moreover have "ist_invar small'"
      using asc_parts(1) calculation(5) by (simp add: ist_invar_def) (simp add: s' splayed_at_def)
    ultimately show ?thesis
      using ist_settle_correct [of splay "plug_right r ITE_NULL"] asc_parts by simp
  next
    case nl: False
    have "small' = ist_settle (ipc_splay_tree_init small) (plug_left l a)"
      and s': "splay' = splay\<lparr>ist_root := ITE ITE_NULL n q b, ist_name := name,
         ist_ltree := [], ist_rtree := r\<rparr>"
      using assms(2) False R nl by (simp_all add: ipc_splay_tree_split_def resplayed_def)
    moreover have e: "below name (ist_entries splay) = inorder_l l @ inorder a"
      "onward name (ist_entries splay) = (n, q) # inorder b @ inorder_r r"
      using R nl by (auto simp: resplayed_def)
    moreover have e': "ist_entries splay' = onward name (ist_entries splay)"
      using e by (simp add: s' ist_entries_def)
    moreover have "ist_invar splay'"
      using asc_parts(2) R nl unfolding ist_invar_def e'
      by (simp add: s' splayed_at_def resplayed_def)
    ultimately show ?thesis
      using ist_settle_correct [of "ipc_splay_tree_init small" "plug_left l a"] asc_parts by simp
  qed
qed

lemma join_correct:
  assumes "ist_invar splay" and "ist_invar small"
    and "\<forall>x \<in> keys (ist_entries small). \<forall>y \<in> keys (ist_entries splay). x < y"
    and "ipc_splay_tree_join splay small = (splay', small')"
  shows "ist_entries splay' = ist_entries small @ ist_entries splay \<and> ist_entries small' = [] \<and>
         ist_invar splay' \<and> ist_invar small'"
proof (cases "ist_root small = ITE_NULL")
  case True
  then show ?thesis using assms by (auto simp: ipc_splay_tree_join_def ist_entries_def)
next
  case False
  define sroot where "sroot = ipc_splay_prim_assemble (ist_root small) (ist_ltree small) (ist_rtree small)"
  define root where "root = (if ist_root splay = ITE_NULL then sroot
      else let (root, l, r) = ist_resplay splay MACH_PORT_SMALLEST
           in set_lchild (ipc_splay_prim_assemble root l r) sroot)"
  have s': "splay' = splay\<lparr>ist_root := root, ist_name := ite_name root, ist_ltree := [], ist_rtree := []\<rparr>"
    "small' = small\<lparr>ist_root := ITE_NULL\<rparr>"
    using assms(4) False by (auto simp: ipc_splay_tree_join_def Let_def sroot_def root_def)
  have sr: "inorder sroot = ist_entries small" using False by (simp add: sroot_def ist_entries_def)
  have e: "inorder root = ist_entries small @ ist_entries splay"
  proof (cases "ist_root splay = ITE_NULL")
    case True
    then show ?thesis using sr by (simp add: root_def ist_entries_def)
  next
    case nn: False
    then obtain a n q b l r where R: "resplayed splay MACH_PORT_SMALLEST a n q b l r"
      using resplayedE assms by metis
    moreover have "below MACH_PORT_SMALLEST (ist_entries splay) = []"
      by (simp add: not_below_smallest)
    ultimately have "l = [] \<and> a = ITE_NULL" by (simp add: resplayed_def)
    then show ?thesis using R nn sr by (simp add: root_def resplayed_def)
  qed
  have "ascending (inorder root)"
    using assms(1-3) by (auto simp: e sorted_wrt_append invar_ascending)
  moreover have "root \<noteq> ITE_NULL" using e False by (auto simp: ist_entries_Nil_iff)
  ultimately show ?thesis
    using e by (simp add: s' ist_entries_def ist_invar_def splayed_at_def)
qed

definition name_bounds :: "mach_port_t \<Rightarrow> (mach_port_t \<times> 'p) list \<Rightarrow> mach_port_t \<times> mach_port_t" where
  "name_bounds name es =
     (let lo = through name es; up = onward name es
      in (if lo = [] then MACH_PORT_LARGEST else fst (last lo),
          if up = [] then MACH_PORT_SMALLEST else fst (hd up)))"

lemma bounds_correct:
  assumes "ist_invar splay" and "ipc_splay_tree_bounds splay name = (lower, upper, splay')"
  shows "(lower, upper) = name_bounds name (ist_entries splay) \<and>
         ist_entries splay' = ist_entries splay \<and> ist_invar splay'"
proof (cases "ist_root splay = ITE_NULL")
  case True
  then show ?thesis
    using assms by (auto simp: ipc_splay_tree_bounds_def ist_entries_def name_bounds_def)
next
  case False
  then obtain a n q b l r where R: "resplayed splay name a n q b l r"
    using resplayedE assms by metis
  have s': "splay' = splay\<lparr>ist_name := name, ist_root := ITE a n q b, ist_ltree := l, ist_rtree := r\<rparr>"
    and lo: "lower = (if n \<le> name then n else case l of [] \<Rightarrow> MACH_PORT_LARGEST | (lc, m, p) # l' \<Rightarrow> m)"
    and up: "upper = (if name \<le> n then n else case r of [] \<Rightarrow> MACH_PORT_SMALLEST | (m, p, rc) # r' \<Rightarrow> m)"
    using assms(2) False R by (auto simp: ipc_splay_tree_bounds_def resplayed_def)
  have e: "ist_entries splay' = ist_entries splay"
    using R False by (simp add: s' ist_entries_def resplayed_def)
  have "ist_invar splay'"
    using R invar_ascending [OF assms(1)] unfolding ist_invar_def e by (simp add: s' resplayed_def)
  moreover have "(lower, upper) = name_bounds name (ist_entries splay)"
  proof -
    have parts: "through name (ist_entries splay) = inorder_l l @ inorder a @ (if n \<le> name then [(n, q)] else [])"
      "onward name (ist_entries splay) = (if name \<le> n then [(n, q)] else []) @ inorder b @ inorder_r r"
      using R by (auto simp: resplayed_def)
    have "\<not> n \<le> name \<Longrightarrow> a = ITE_NULL" and "\<not> name \<le> n \<Longrightarrow> b = ITE_NULL"
      using R by (auto simp: resplayed_def splayed_at_def)
    then show ?thesis
      by (cases "n \<le> name"; cases "name \<le> n"; cases l rule: inorder_l.cases;
          cases r rule: inorder_r.cases) (simp_all add: lo up name_bounds_def Let_def parts)
  qed
  ultimately show ?thesis using e by simp
qed

end
