(* ===== verification/SplayTraverse.thy ===== *)
theory SplayTraverse
  imports Splay
begin

text \<open>
  The traversal of a splay tree by pointer inversion
  (\<^verbatim>\<open>ipc_splay_traverse_start\<close>, \<open>_next\<close>, \<open>_finish\<close> of
  \<^verbatim>\<open>ipc/ipc_splay.c\<close>): it visits the entries in ascending order of their names,
  removes exactly the entries its caller asks it to remove, and leaves every child pointer
  as it was.
\<close>

section \<open>Traversal by pointer inversion\<close>

text \<open>
  The outcome of a step of the traversal: the next entry with its parents, the end of the
  traversal with the root of the tree, or \<open>Trav_stuck\<close> where the comparison of names
  would follow a child field that does not hold the parent.
\<close>

datatype 'p trav =
    Trav_entry "'p ipc_tree_entry" "'p frame list"
  | Trav_done "'p ipc_tree_entry"
  | Trav_stuck

fun frame_name :: "'p frame \<Rightarrow> mach_port_t" where
  "frame_name (LInv n p rchild) = n"
| "frame_name (RInv lchild n p) = n"

function traverse_left :: "'p ipc_tree_entry \<Rightarrow> 'p frame list \<Rightarrow> 'p trav" where
  "traverse_left ITE_NULL ps = Trav_stuck"
| "traverse_left (ITE lchild n p rchild) ps =
     (if lchild \<noteq> ITE_NULL then traverse_left lchild (LInv n p rchild # ps)
      else Trav_entry (ITE lchild n p rchild) ps)"
  by pat_completeness auto
termination
  by (relation "measure (\<lambda>(t, ps). size t)") auto

fun traverse_back :: "'p ipc_tree_entry \<Rightarrow> 'p frame list \<Rightarrow> 'p trav" where
  "traverse_back cur [] = Trav_done cur"
| "traverse_back cur (f # ps) =
     (if ite_name cur < frame_name f
      then case f of
             LInv n p rchild \<Rightarrow> Trav_entry (ITE cur n p rchild) ps
           | RInv lchild n p \<Rightarrow> Trav_stuck
      else case f of
             LInv n p rchild \<Rightarrow> Trav_stuck
           | RInv lchild n p \<Rightarrow> traverse_back (ITE lchild n p cur) ps)"

fun traverse_right :: "'p ipc_tree_entry \<Rightarrow> 'p frame list \<Rightarrow> 'p trav" where
  "traverse_right ITE_NULL ps = Trav_stuck"
| "traverse_right (ITE lchild n p rchild) ps =
     (if rchild \<noteq> ITE_NULL then traverse_left rchild (RInv lchild n p # ps)
      else traverse_back (ITE lchild n p rchild) ps)"

text \<open>Deleting a leaf: its parent loses a child, on the side the names tell.\<close>

fun traverse_delete_leaf :: "mach_port_t \<Rightarrow> 'p frame list \<Rightarrow> 'p trav" where
  "traverse_delete_leaf n [] = Trav_done ITE_NULL"
| "traverse_delete_leaf n (f # ps) =
     (if n < frame_name f
      then case f of
             LInv m p rchild \<Rightarrow> Trav_entry (ITE ITE_NULL m p rchild) ps
           | RInv lchild m p \<Rightarrow> Trav_stuck
      else case f of
             LInv m p rchild \<Rightarrow> Trav_stuck
           | RInv lchild m p \<Rightarrow> traverse_back (ITE lchild m p ITE_NULL) ps)"

fun traverse_delete :: "'p ipc_tree_entry \<Rightarrow> 'p frame list \<Rightarrow> 'p trav" where
  "traverse_delete ITE_NULL ps = Trav_stuck"
| "traverse_delete (ITE lchild n p rchild) ps =
     (if lchild = ITE_NULL then
        if rchild = ITE_NULL then traverse_delete_leaf n ps
        else traverse_left rchild ps
      else
        if rchild = ITE_NULL then traverse_back lchild ps
        else
          let (root, l, r) = ipc_splay_prim_lookup MACH_PORT_LARGEST lchild [] []
          in traverse_right (set_rchild (ipc_splay_prim_assemble root l r) rchild) ps)"

text \<open>
  The functions on the splay structure; the current entry is returned, \<open>ITE_NULL\<close> at
  the end. A stuck traversal is \<open>None\<close>.
\<close>

definition trav_result ::
  "'p ipc_splay_tree \<Rightarrow> 'p trav \<Rightarrow> ('p ipc_tree_entry \<times> 'p ipc_splay_tree) option" where
  "trav_result splay t =
     (case t of
        Trav_entry cur ps \<Rightarrow> Some (cur, splay\<lparr>ist_current := cur, ist_parent := ps\<rparr>)
      | Trav_done root \<Rightarrow> Some (ITE_NULL, splay\<lparr>ist_root := root\<rparr>)
      | Trav_stuck \<Rightarrow> None)"

definition ipc_splay_traverse_start ::
  "'p ipc_splay_tree \<Rightarrow> ('p ipc_tree_entry \<times> 'p ipc_splay_tree) option" where
  "ipc_splay_traverse_start splay =
     (if ist_root splay = ITE_NULL then Some (ITE_NULL, splay)
      else trav_result splay
             (traverse_left
                (ipc_splay_prim_assemble (ist_root splay) (ist_ltree splay) (ist_rtree splay)) []))"

definition ipc_splay_traverse_next ::
  "'p ipc_splay_tree \<Rightarrow> bool \<Rightarrow> ('p ipc_tree_entry \<times> 'p ipc_splay_tree) option" where
  "ipc_splay_traverse_next splay del =
     trav_result splay
       (if del then traverse_delete (ist_current splay) (ist_parent splay)
        else traverse_right (ist_current splay) (ist_parent splay))"

definition ipc_splay_traverse_finish :: "'p ipc_splay_tree \<Rightarrow> 'p ipc_splay_tree" where
  "ipc_splay_traverse_finish splay = ist_settle splay (ist_root splay)"


section \<open>Where a traversal stands\<close>

fun frames_before :: "'p frame list \<Rightarrow> (mach_port_t \<times> 'p) list" where
  "frames_before [] = []"
| "frames_before (LInv n p rchild # ps) = frames_before ps"
| "frames_before (RInv lchild n p # ps) = frames_before ps @ inorder lchild @ [(n, p)]"

fun frames_after :: "'p frame list \<Rightarrow> (mach_port_t \<times> 'p) list" where
  "frames_after [] = []"
| "frames_after (LInv n p rchild # ps) = (n, p) # inorder rchild @ frames_after ps"
| "frames_after (RInv lchild n p # ps) = frames_after ps"

text \<open>
  \<open>yields t before after\<close>: the step \<open>t\<close> stands on the first entry of \<open>after\<close> with
  the entries \<open>before\<close> behind it, or ends the traversal with exactly those entries.
\<close>

fun yields :: "'p trav \<Rightarrow> (mach_port_t \<times> 'p) list \<Rightarrow> (mach_port_t \<times> 'p) list \<Rightarrow> bool" where
  "yields (Trav_entry (ITE a n p b) ps) before after \<longleftrightarrow>
     before = frames_before ps @ inorder a \<and> after = (n, p) # inorder b @ frames_after ps"
| "yields (Trav_done root) before after \<longleftrightarrow> before = inorder root \<and> after = []"
| "yields _ before after \<longleftrightarrow> False"

lemma left_yields:
  "t \<noteq> ITE_NULL \<Longrightarrow> yields (traverse_left t ps) (frames_before ps) (inorder t @ frames_after ps)"
proof (induction t ps rule: traverse_left.induct)
  case (2 lchild n p rchild ps)
  then show ?case by (cases "lchild = ITE_NULL") auto
qed simp

lemma back_yields:
  "cur \<noteq> ITE_NULL \<Longrightarrow> ascending (frames_before ps @ inorder cur @ frames_after ps) \<Longrightarrow>
     yields (traverse_back cur ps) (frames_before ps @ inorder cur) (frames_after ps)"
proof (induction cur ps rule: traverse_back.induct)
  case (2 cur f ps)
  from "2.prems"(1) obtain a m q b where cur: "cur = ITE a m q b" by (cases cur) auto
  show ?case
  proof (cases f)
    case (LInv n p rchild)
    then show ?thesis using "2.prems" by (simp add: sorted_wrt_append cur)
  next
    case (RInv lchild n p)
    then have "n < m" using "2.prems" by (simp add: sorted_wrt_append cur)
    then show ?thesis using RInv 2 by (simp add: cur)
  qed
qed simp

lemma right_yields:
  assumes "ascending (frames_before ps @ inorder (ITE a n p b) @ frames_after ps)"
  shows "yields (traverse_right (ITE a n p b) ps)
           (frames_before ps @ inorder a @ [(n, p)]) (inorder b @ frames_after ps)"
  using left_yields [of b "RInv a n p # ps"] back_yields [of "ITE a n p b" ps] assms
  by (cases "b = ITE_NULL") auto

lemma delete_leaf_yields:
  assumes "ascending (frames_before ps @ (n, p) # frames_after ps)"
  shows "yields (traverse_delete_leaf n ps) (frames_before ps) (frames_after ps)"
proof (cases ps)
  case (Cons f ps')
  show ?thesis
  proof (cases f)
    case (LInv m q rchild)
    then show ?thesis using assms Cons by (simp add: sorted_wrt_append)
  next
    case (RInv lchild m q)
    then have "m < n" and asc: "ascending (frames_before ps' @ inorder (ITE lchild m q ITE_NULL) @ frames_after ps')"
      using assms Cons by (auto simp: sorted_wrt_append)
    then show ?thesis
      using RInv Cons back_yields [of "ITE lchild m q ITE_NULL" ps'] by simp
  qed
qed simp

lemma delete_yields:
  assumes "ascending (frames_before ps @ inorder (ITE a n p b) @ frames_after ps)"
  shows "yields (traverse_delete (ITE a n p b) ps)
           (frames_before ps @ inorder a) (inorder b @ frames_after ps)"
proof (cases "a = ITE_NULL \<or> b = ITE_NULL")
  case True
  then show ?thesis
    using left_yields [of b ps] back_yields [of a ps] delete_leaf_yields [of ps n p] assms
    by (cases "a = ITE_NULL"; cases "b = ITE_NULL") (auto simp: sorted_wrt_append)
next
  case False
  obtain t l r where L: "ipc_splay_prim_lookup MACH_PORT_LARGEST a [] [] = (t, l, r)"
    by (cases "ipc_splay_prim_lookup MACH_PORT_LARGEST a [] []")
  define cur where "cur = set_rchild (ipc_splay_prim_assemble t l r) b"
  have asc: "ascending (inorder a)" using assms by (simp add: sorted_wrt_append)
  have e: "inorder cur = inorder a @ inorder b"
    unfolding cur_def using join_largest [OF L _ asc] False by simp
  have "cur \<noteq> ITE_NULL" using e False by auto
  have "ipc_splay_prim_assemble t l r \<noteq> ITE_NULL"
    using prim_lookup_correct [OF L _ asc] False by (simp add: splayed_at_def)
  then obtain a' n' p' where cur: "cur = ITE a' n' p' b"
    unfolding cur_def by (cases "ipc_splay_prim_assemble t l r") auto
  have "ascending (frames_before ps @ inorder cur @ frames_after ps)"
    using assms by (auto simp: e sorted_wrt_append)
  then have "yields (traverse_right cur ps)
      (frames_before ps @ inorder a' @ [(n', p')]) (inorder b @ frames_after ps)"
    unfolding cur by (rule right_yields)
  moreover have "inorder a' @ [(n', p')] = inorder a" using e by (simp add: cur)
  ultimately show ?thesis using False L by (simp add: cur_def)
qed


section \<open>The loop of a traversal\<close>

text \<open>
  The loop its callers write:
  \<^verbatim>\<open>for (e = start (); e != ITE_NULL; e = next (delete)) body; finish ();\<close>
  The body updates the state of the caller and says whether the entry is deleted. The loop
  ends on every tree, since each step takes the current entry off the entries that follow.
\<close>

definition pending :: "'p ipc_tree_entry \<Rightarrow> 'p frame list \<Rightarrow> nat" where
  "pending cur ps = length (inorder (ite_rchild cur)) + length (frames_after ps)"

lemma back_pending:
  "traverse_back cur ps = Trav_entry c qs \<Longrightarrow> Suc (pending c qs) = length (frames_after ps)"
  by (induction cur ps rule: traverse_back.induct)
    (auto simp: pending_def split: if_splits frame.splits)

lemma left_pending:
  "traverse_left t ps = Trav_entry c qs \<Longrightarrow>
     Suc (pending c qs) = length (inorder t) + length (frames_after ps)"
  by (induction t ps rule: traverse_left.induct) (auto simp: pending_def split: if_splits)

lemma right_pending:
  "traverse_right cur ps = Trav_entry c qs \<Longrightarrow> Suc (pending c qs) = pending cur ps"
  by (cases cur) (auto simp: pending_def [of "ITE _ _ _ _"] split: if_splits
      dest: back_pending left_pending)

lemma delete_pending:
  assumes "traverse_delete cur ps = Trav_entry c qs"
  shows "Suc (pending c qs) = pending cur ps"
proof (cases cur)
  case (ITE a n p b)
  have "pending (set_rchild (ipc_splay_prim_assemble t l r) b) ps = pending cur ps"
    if "ipc_splay_prim_lookup MACH_PORT_LARGEST a [] [] = (t, l, r)" "a \<noteq> ITE_NULL" for t l r
    using prim_lookup_rule [of MACH_PORT_LARGEST "\<lambda>_ _ _. True" a "[]" "[]" t l r] that
    by (cases t) (auto simp: loop_rules_def pending_def ITE)
  then show ?thesis
    using assms unfolding ITE
    by (cases ps)
      (auto simp: pending_def [of "ITE _ _ _ _"] split: if_splits prod.splits frame.splits
        dest!: back_pending left_pending right_pending)
qed (use assms in simp)

lemma next_pending:
  assumes "ipc_splay_traverse_next splay del = Some (entry, splay')" and "entry \<noteq> ITE_NULL"
  shows "pending (ist_current splay') (ist_parent splay') < pending (ist_current splay) (ist_parent splay)"
  using assms
  by (auto simp: ipc_splay_traverse_next_def trav_result_def split: trav.splits if_splits
      dest!: delete_pending right_pending)

function traverse_loop ::
  "('s \<Rightarrow> mach_port_t \<Rightarrow> 'p \<Rightarrow> 's \<times> bool) \<Rightarrow> 's \<Rightarrow> 'p ipc_tree_entry \<Rightarrow> 'p ipc_splay_tree
     \<Rightarrow> ('s \<times> 'p ipc_splay_tree) option" where
  "traverse_loop body st entry splay =
     (if entry = ITE_NULL then Some (st, ipc_splay_traverse_finish splay)
      else
        let (st', del) = body st (ite_name entry) (ite_addr entry)
        in case ipc_splay_traverse_next splay del of
             None \<Rightarrow> None
           | Some (entry', splay') \<Rightarrow> traverse_loop body st' entry' splay')"
  by pat_completeness auto
termination
  by (relation "measure (\<lambda>(body, st, entry, splay).
        if entry = ITE_NULL then 0 else Suc (pending (ist_current splay) (ist_parent splay)))")
     (auto dest: next_pending)

declare traverse_loop.simps [simp del]

definition ipc_splay_traverse ::
  "('s \<Rightarrow> mach_port_t \<Rightarrow> 'p \<Rightarrow> 's \<times> bool) \<Rightarrow> 's \<Rightarrow> 'p ipc_splay_tree
     \<Rightarrow> ('s \<times> 'p ipc_splay_tree) option" where
  "ipc_splay_traverse body st splay =
     (case ipc_splay_traverse_start splay of
        None \<Rightarrow> None
      | Some (entry, splay') \<Rightarrow> traverse_loop body st entry splay')"

text \<open>The specification: the body run down the list of entries, and the entries it keeps.\<close>

fun visit :: "('s \<Rightarrow> mach_port_t \<Rightarrow> 'p \<Rightarrow> 's \<times> bool) \<Rightarrow> 's \<Rightarrow> (mach_port_t \<times> 'p) list
     \<Rightarrow> 's \<times> (mach_port_t \<times> 'p) list" where
  "visit body st [] = (st, [])"
| "visit body st ((n, p) # es) =
     (let (st, del) = body st n p; (st, kept) = visit body st es
      in (st, if del then kept else (n, p) # kept))"

lemma visit_Cons:
  "body st n p = (st', del) \<Longrightarrow>
     visit body st ((n, p) # es) =
       (fst (visit body st' es),
        if del then snd (visit body st' es) else (n, p) # snd (visit body st' es))"
  by (simp split: prod.splits)

declare visit.simps(2) [simp del]

lemma visit_kept:
  "set (snd (visit body st es)) \<subseteq> set es \<and> (ascending es \<longrightarrow> ascending (snd (visit body st es)))"
proof (induction es arbitrary: st)
  case (Cons x es)
  obtain n p where x: "x = (n, p)" by (cases x)
  obtain st' del where b: "body st n p = (st', del)" by (cases "body st n p")
  have "set (snd (visit body st' es)) \<subseteq> set es" using Cons.IH by blast
  then show ?case using Cons.IH [of st'] by (auto simp: x b visit_Cons)
qed simp

lemma traverse_loop_correct:
  assumes "yields t before after" and "ascending (before @ after)"
    and "trav_result splay t = Some (entry, splay')"
  shows "\<exists>splay''. traverse_loop body st entry splay' = Some (fst (visit body st after), splay'') \<and>
     ist_entries splay'' = before @ snd (visit body st after) \<and> ist_invar splay''"
  using assms
proof (induction after arbitrary: t before st splay entry splay')
  case Nil
  then obtain root where "t = Trav_done root" "before = inorder root"
    by (cases "(t, before, [] :: (mach_port_t \<times> 'a) list)" rule: yields.cases) auto
  then show ?case
    using Nil ist_settle_correct [of "splay\<lparr>ist_root := root\<rparr>" root]
    by (auto simp: traverse_loop.simps trav_result_def ipc_splay_traverse_finish_def)
next
  case (Cons x after)
  then obtain a n p b ps where t: "t = Trav_entry (ITE a n p b) ps"
    and b: "before = frames_before ps @ inorder a"
    and x: "x = (n, p)" "after = inorder b @ frames_after ps"
    by (cases "(t, before, x # after)" rule: yields.cases) auto
  obtain st' del where body: "body st n p = (st', del)" by (cases "body st n p")
  define t' where "t' = (if del then traverse_delete (ITE a n p b) ps else traverse_right (ITE a n p b) ps)"
  define before' where "before' = (if del then before else before @ [(n, p)])"
  have asc: "ascending (frames_before ps @ inorder (ITE a n p b) @ frames_after ps)"
    using Cons.prems(2) by (simp add: b x)
  have y: "yields t' before' after"
    using right_yields [OF asc] delete_yields [OF asc]
    by (simp add: t'_def before'_def b x del: traverse_right.simps traverse_delete.simps)
  have "ascending (before' @ after)"
    using Cons.prems(2) by (auto simp: before'_def x sorted_wrt_append)
  moreover have s': "splay' = splay\<lparr>ist_current := ITE a n p b, ist_parent := ps\<rparr>" "entry = ITE a n p b"
    using Cons.prems(3) by (auto simp: t trav_result_def)
  moreover obtain e2 s2 where n2: "trav_result splay' t' = Some (e2, s2)"
    using y by (cases "(t', before', after)" rule: yields.cases) (auto simp: trav_result_def)
  ultimately obtain s3 where
    "traverse_loop body st' e2 s2 = Some (fst (visit body st' after), s3)"
    "ist_entries s3 = before' @ snd (visit body st' after)" "ist_invar s3"
    using Cons.IH [OF y] by blast
  moreover have "ipc_splay_traverse_next splay' del = Some (e2, s2)"
    using n2 by (simp add: ipc_splay_traverse_next_def s' t'_def del: traverse_right.simps traverse_delete.simps
        split: if_splits)
  ultimately show ?case
    by (subst traverse_loop.simps)
      (auto simp: s' body before'_def x visit_Cons)
qed


lemma traverse_correct:
  assumes "ist_invar splay"
  shows "\<exists>splay'. ipc_splay_traverse body st splay =
      Some (fst (visit body st (ist_entries splay)), splay') \<and>
      ist_entries splay' = snd (visit body st (ist_entries splay)) \<and> ist_invar splay'"
proof (cases "ist_root splay = ITE_NULL")
  case True
  then show ?thesis
    by (simp add: ipc_splay_traverse_def ipc_splay_traverse_start_def traverse_loop.simps
        ist_entries_def ipc_splay_traverse_finish_def ist_settle_def ist_invar_def)
next
  case False
  define t where "t = traverse_left
    (ipc_splay_prim_assemble (ist_root splay) (ist_ltree splay) (ist_rtree splay)) []"
  have y: "yields t [] (ist_entries splay)"
    unfolding t_def using left_yields [of "ipc_splay_prim_assemble (ist_root splay) (ist_ltree splay)
      (ist_rtree splay)" "[]"] False by (simp add: ist_entries_def)
  obtain e s' where r: "trav_result splay t = Some (e, s')"
    using y by (cases "(t, [] :: (mach_port_t \<times> 'a) list, ist_entries splay)" rule: yields.cases)
      (auto simp: trav_result_def)
  show ?thesis
    using traverse_loop_correct [OF y _ r] invar_ascending [OF assms] r False
    by (simp add: ipc_splay_traverse_def ipc_splay_traverse_start_def t_def)
qed

end
