(* ===== verification/NameTree.thy ===== *)
theory NameTree
  imports SplayTraverse
begin

text \<open>
  The contract of the tree that holds the large names of a space, as the rest of the
  capability code relies on it: an ordered map from names to entries that restructures
  itself on every call. The splay tree of \<^verbatim>\<open>ipc/ipc_splay.c\<close> is shown to satisfy
  it.
\<close>

locale name_tree =
  fixes nt_entries :: "'t \<Rightarrow> (mach_port_t \<times> 'p) list"
    and nt_invar :: "'t \<Rightarrow> bool"
    and nt_init :: "'t \<Rightarrow> 't"
    and nt_pick :: "'t \<Rightarrow> (mach_port_t \<times> 'p) option"
    and nt_lookup :: "'t \<Rightarrow> mach_port_t \<Rightarrow> 'p option \<times> 't"
    and nt_insert :: "'t \<Rightarrow> mach_port_t \<Rightarrow> 'p \<Rightarrow> 't"
    and nt_delete :: "'t \<Rightarrow> mach_port_t \<Rightarrow> 't"
    and nt_split :: "'t \<Rightarrow> mach_port_t \<Rightarrow> 't \<Rightarrow> 't \<times> 't"
    and nt_join :: "'t \<Rightarrow> 't \<Rightarrow> 't \<times> 't"
    and nt_bounds :: "'t \<Rightarrow> mach_port_t \<Rightarrow> mach_port_t \<times> mach_port_t \<times> 't"
  assumes entries_ascending: "nt_invar t \<Longrightarrow> ascending (nt_entries t)"
    and init: "nt_entries (nt_init t) = [] \<and> nt_invar (nt_init t)"
    and pick_none: "nt_pick t = None \<longleftrightarrow> nt_entries t = []"
    and pick_some: "nt_pick t = Some x \<Longrightarrow> x \<in> set (nt_entries t)"
    and lookup: "nt_invar t \<Longrightarrow> nt_lookup t k = (v, t') \<Longrightarrow>
      v = map_of (nt_entries t) k \<and> nt_entries t' = nt_entries t \<and> nt_invar t'"
    and insertion: "nt_invar t \<Longrightarrow> k \<notin> keys (nt_entries t) \<Longrightarrow>
      nt_entries (nt_insert t k p) = below k (nt_entries t) @ (k, p) # beyond k (nt_entries t) \<and>
      nt_invar (nt_insert t k p)"
    and deletion: "nt_invar t \<Longrightarrow> k \<in> keys (nt_entries t) \<Longrightarrow>
      nt_entries (nt_delete t k) = without k (nt_entries t) \<and> nt_invar (nt_delete t k)"
    and splitting: "nt_invar t \<Longrightarrow> nt_split t k s = (t', s') \<Longrightarrow>
      nt_entries s' = below k (nt_entries t) \<and> nt_entries t' = onward k (nt_entries t) \<and>
      nt_invar s' \<and> nt_invar t'"
    and joining: "nt_invar t \<Longrightarrow> nt_invar s \<Longrightarrow>
      \<forall>x \<in> keys (nt_entries s). \<forall>y \<in> keys (nt_entries t). x < y \<Longrightarrow> nt_join t s = (t', s') \<Longrightarrow>
      nt_entries t' = nt_entries s @ nt_entries t \<and> nt_entries s' = [] \<and> nt_invar t' \<and> nt_invar s'"
    and bounding: "nt_invar t \<Longrightarrow> nt_bounds t k = (lower, upper, t') \<Longrightarrow>
      (lower, upper) = name_bounds k (nt_entries t) \<and> nt_entries t' = nt_entries t \<and> nt_invar t'"
begin

lemma lookup_insertion:
  assumes "nt_invar t" and "k \<notin> keys (nt_entries t)"
  shows "fst (nt_lookup (nt_insert t k p) j) = (if j = k then Some p else fst (nt_lookup t j))"
proof -
  note i = insertion [OF assms, of p]
  have "fst (nt_lookup (nt_insert t k p) j) = map_of (nt_entries (nt_insert t k p)) j"
    using lookup [of "nt_insert t k p" j] i by (metis prod.collapse)
  also have "\<dots> = ((map_of (nt_entries t))(k \<mapsto> p)) j"
    using i map_of_ascending_insert [of k "nt_entries t" p] by metis
  also have "\<dots> = (if j = k then Some p else fst (nt_lookup t j))"
    using lookup [OF assms(1), of j] by (metis fun_upd_apply prod.collapse)
  finally show ?thesis .
qed

lemma lookup_deletion:
  assumes "nt_invar t" and "k \<in> keys (nt_entries t)"
  shows "fst (nt_lookup (nt_delete t k) j) = (if j = k then None else fst (nt_lookup t j))"
proof -
  note d = deletion [OF assms]
  have "fst (nt_lookup (nt_delete t k) j) = map_of (without k (nt_entries t)) j"
    using lookup [of "nt_delete t k" j] d by (metis prod.collapse)
  also have "\<dots> = (if j = k then None else map_of (nt_entries t) j)"
    using map_of_without [of k "nt_entries t" j] by simp
  also have "\<dots> = (if j = k then None else fst (nt_lookup t j))"
    using lookup [OF assms(1), of j] by (metis prod.collapse)
  finally show ?thesis .
qed

lemma split_join:
  assumes "nt_invar t" and "nt_split t k s = (t', s')" and "nt_join t' s' = (t'', s'')"
  shows "nt_entries t'' = nt_entries t \<and> nt_invar t'' \<and> nt_entries s'' = []"
proof -
  note sp = splitting [OF assms(1,2)]
  have "\<forall>x \<in> keys (nt_entries s'). \<forall>y \<in> keys (nt_entries t'). x < y"
    using sp by (auto dest: less_le_trans)
  from joining [OF _ _ this assms(3)] sp show ?thesis
    using below_append_from [OF entries_ascending [OF assms(1)]] by simp
qed

text \<open>
  Names are ordered first by index: if any name of the tree has the index of \<open>k\<close>, then a
  neighbour of \<open>k\<close> in the tree has it. This is why two neighbours are enough for the
  collision check.
\<close>

lemma neighbours_decide_collision:
  assumes "nt_invar t" and "nt_bounds t k = (lower, upper, t')" and "mono idx"
    and "MACH_PORT_LARGEST \<notin> keys (nt_entries t)" and "MACH_PORT_SMALLEST \<notin> keys (nt_entries t)"
  shows "(lower \<noteq> MACH_PORT_LARGEST \<and> idx lower = idx k \<or> upper \<noteq> MACH_PORT_SMALLEST \<and> idx upper = idx k)
     \<longleftrightarrow> (\<exists>j \<in> keys (nt_entries t). idx j = (idx k :: 'i :: linorder))"
proof -
  let ?es = "nt_entries t"
  note asc = entries_ascending [OF assms(1)]
  have b: "lower = (if through k ?es = [] then MACH_PORT_LARGEST else fst (last (through k ?es)))"
    "upper = (if onward k ?es = [] then MACH_PORT_SMALLEST else fst (hd (onward k ?es)))"
    using bounding [OF assms(1,2)] by (auto simp: name_bounds_def Let_def)
  have lo: "lower \<in> keys ?es \<and> lower \<le> k" if "lower \<noteq> MACH_PORT_LARGEST"
    using that last_in_set [of "through k ?es"] by (auto simp: b split: if_splits)
  have up: "upper \<in> keys ?es \<and> k \<le> upper" if "upper \<noteq> MACH_PORT_SMALLEST"
    using that hd_in_set [of "onward k ?es"] by (auto simp: b split: if_splits)
  have below: "idx lower = idx k \<and> lower \<noteq> MACH_PORT_LARGEST"
    if "x \<in> set ?es" "idx (fst x) = idx k" "fst x \<le> k" for x
  proof -
    have mem: "x \<in> set (through k ?es)" using that by simp
    then have ne: "through k ?es \<noteq> []" by (metis empty_iff list.set(1))
    have "fst x \<le> fst (last (through k ?es))"
      using mem ascending_filter [OF asc, of "\<lambda>x. fst x \<le> k"] ascending_last by blast
    then have "fst x \<le> lower" using ne by (simp add: b)
    moreover have L: "lower \<noteq> MACH_PORT_LARGEST"
      using ne last_in_set [OF ne] assms(4) by (auto simp: b image_iff)
    ultimately show ?thesis
      using lo [OF L] that(2) assms(3) by (metis antisym monoD)
  qed
  have beyond: "idx upper = idx k \<and> upper \<noteq> MACH_PORT_SMALLEST"
    if "x \<in> set ?es" "idx (fst x) = idx k" "k \<le> fst x" for x
  proof -
    have mem: "x \<in> set (onward k ?es)" using that by simp
    then have ne: "onward k ?es \<noteq> []" by (metis empty_iff list.set(1))
    have "fst (hd (onward k ?es)) \<le> fst x"
      using mem ascending_filter [OF asc, of "\<lambda>x. k \<le> fst x"] ascending_hd by blast
    then have "upper \<le> fst x" using ne by (simp add: b)
    moreover have U: "upper \<noteq> MACH_PORT_SMALLEST"
      using ne hd_in_set [OF ne] assms(5) by (auto simp: b image_iff)
    ultimately show ?thesis
      using up [OF U] that(2) assms(3) by (metis antisym monoD)
  qed
  show ?thesis (is "?L \<longleftrightarrow> ?R")
  proof
    assume ?L
    then show ?R using lo up by blast
  next
    assume ?R
    then obtain x where "x \<in> set ?es" "idx (fst x) = idx k" by auto
    then show ?L using below [of x] beyond [of x] linear [of "fst x" k] by blast
  qed
qed

end

interpretation splay_tree: name_tree ist_entries ist_invar ipc_splay_tree_init ipc_splay_tree_pick
  ipc_splay_tree_lookup ipc_splay_tree_insert ipc_splay_tree_delete ipc_splay_tree_split
  ipc_splay_tree_join ipc_splay_tree_bounds
proof (unfold_locales, goal_cases)
  case (1 t) then show ?case by (rule invar_ascending)
next
  case (2 t) then show ?case by (rule init_correct)
next
  case (3 t) then show ?case using pick_correct [of t] by simp
next
  case (4 t x) then show ?case using pick_correct [of t] by blast
next
  case (5 t k v t') then show ?case using lookup_correct [of t k] by simp
next
  case (6 t k p) then show ?case by (rule insert_correct)
next
  case (7 t k) then show ?case by (rule delete_correct)
next
  case (8 t k s t' s') then show ?case by (rule split_correct)
next
  case (9 t s t' s') then show ?case by (rule join_correct)
next
  case (10 t k lower upper t') then show ?case by (rule bounds_correct)
qed

section \<open>Properties of the splay tree\<close>

text \<open>A tree of three entries, at addresses 10, 20 and 30, after a lookup of its root.\<close>

definition sample_splay :: "nat ipc_splay_tree" where
  "sample_splay = \<lparr>ist_name = 300,
     ist_root = ITE (ITE ITE_NULL 200 20 ITE_NULL) 300 10 (ITE ITE_NULL 400 30 ITE_NULL),
     ist_ltree = [], ist_rtree = [], ist_current = ITE_NULL, ist_parent = []\<rparr>"

lemma sample_splay_invar: "ist_invar sample_splay"
  by (simp add: sample_splay_def ist_invar_def splayed_at_def ist_entries_def search_ended_def)

lemma sample_splay_entries: "ist_entries sample_splay = [(200, 20), (300, 10), (400, 30)]"
  by (simp add: sample_splay_def ist_entries_def)

text \<open>
  C18. Whatever restructuring the splaying lookup does, it finds exactly the entry the tree
  holds under the name, and it changes neither the entries nor the invariant.
\<close>

theorem splay_lookup_sound:
  assumes "ist_invar splay" and "ipc_splay_tree_lookup splay name = (entry, splay')"
  shows "entry = map_of (ist_entries splay) name \<and>
    ist_entries splay' = ist_entries splay \<and> ist_invar splay'"
  by (rule splay_tree.lookup [OF assms])

theorem splay_lookup_sound_witness:
  "fst (ipc_splay_tree_lookup sample_splay 400) = Some 30 \<and>
   ist_invar (snd (ipc_splay_tree_lookup sample_splay 400))"
  using splay_lookup_sound [OF sample_splay_invar prod.collapse [symmetric], of 400]
  by (simp add: sample_splay_entries)

text \<open>
  C19. After inserting an entry under a name the tree does not hold, a lookup returns that entry
  for that name and for every other name what it returned before.
\<close>

theorem splay_insert_lookup:
  assumes "ist_invar splay" and "name \<notin> keys (ist_entries splay)"
  shows "fst (ipc_splay_tree_lookup (ipc_splay_tree_insert splay name entry) other) =
    (if other = name then Some entry else fst (ipc_splay_tree_lookup splay other))"
  by (rule splay_tree.lookup_insertion [OF assms])

theorem splay_insert_lookup_witness:
  "fst (ipc_splay_tree_lookup (ipc_splay_tree_insert sample_splay 250 40) 250) = Some 40"
  using splay_insert_lookup [OF sample_splay_invar, of 250 40 250] by (simp add: sample_splay_entries)

text \<open>
  C17. Deleting a name the tree holds removes exactly that name: the entries are those of the
  tree without it, in order, and the tree is well formed.
\<close>

theorem splay_delete_exact:
  assumes "ist_invar splay" and "name \<in> keys (ist_entries splay)"
  shows "ist_entries (ipc_splay_tree_delete splay name) = without name (ist_entries splay) \<and>
    ist_invar (ipc_splay_tree_delete splay name)"
  by (rule splay_tree.deletion [OF assms])

theorem splay_delete_exact_witness:
  "ist_entries (ipc_splay_tree_delete sample_splay 300) = [(200, 20), (400, 30)]"
  using splay_delete_exact [OF sample_splay_invar, of 300] by (simp add: sample_splay_entries)

text \<open>
  C39. Splitting a tree at a name puts the smaller names into the second tree and the others into
  the first, and joining the two gives back the same entries.
\<close>

theorem splay_split_join:
  assumes "ist_invar splay" and "ipc_splay_tree_split splay name small = (splay', small')"
    and "ipc_splay_tree_join splay' small' = (joined, emptied)"
  shows "ist_entries small' = below name (ist_entries splay) \<and>
    ist_entries splay' = onward name (ist_entries splay) \<and>
    ist_entries joined = ist_entries splay \<and> ist_invar joined \<and> ist_entries emptied = []"
  using splay_tree.splitting [OF assms(1,2)] splay_tree.split_join [OF assms] by blast

theorem splay_split_join_witness:
  "ist_entries (fst (ipc_splay_tree_join
     (fst (ipc_splay_tree_split sample_splay 300 sample_splay))
     (snd (ipc_splay_tree_split sample_splay 300 sample_splay)))) = [(200, 20), (300, 10), (400, 30)]"
  using splay_split_join [OF sample_splay_invar prod.collapse [symmetric] prod.collapse [symmetric],
      of 300 sample_splay]
  by (simp add: sample_splay_entries)

text \<open>
  C16. A traversal, in which the loop body may have each entry deleted as it is passed, always
  comes to its end; it hands the body every entry once, in ascending order of names, and
  leaves a well-formed tree of exactly the entries the body did not have deleted.
\<close>

theorem splay_traverse_complete:
  assumes "ist_invar splay"
  shows "\<exists>splay'. ipc_splay_traverse body st splay =
      Some (fst (visit body st (ist_entries splay)), splay') \<and>
      ist_entries splay' = snd (visit body st (ist_entries splay)) \<and> ist_invar splay'"
  by (rule traverse_correct [OF assms])

theorem splay_traverse_complete_witness:
  "\<exists>splay'. ipc_splay_traverse (\<lambda>seen n p. (seen @ [p], n = 300)) [] sample_splay =
     Some ([20, 10, 30], splay') \<and> ist_entries splay' = [(200, 20), (400, 30)] \<and> ist_invar splay'"
  using splay_traverse_complete [OF sample_splay_invar, of "\<lambda>seen n p. (seen @ [p], n = 300)" "[]"]
  by (simp add: sample_splay_entries visit.simps Let_def)

end
