(* ===== verification/IpcSpace.thy ===== *)
theory IpcSpace
  imports LocalHash NameTree IpcTable
begin

text \<open>
  Spaces of capabilities (\<^verbatim>\<open>ipc/ipc_space.h\<close>) and the global reverse hash table (first
  half of \<^verbatim>\<open>ipc/ipc_hash.c\<close>). The state maps addresses of spaces to spaces and addresses of
  tree entries to their contents; a bucket's chain through \<^verbatim>\<open>ite_next\<close> is the list of the
  addresses on it. Locks are not modelled: every operation here runs with the space
  write-locked.
\<close>

section \<open>State\<close>

type_synonym ipc_space_t = "32 word" \<comment> \<open>the address of a space\<close>
type_synonym ite_t = "32 word" \<comment> \<open>the address of a tree entry\<close>

abbreviation IS_NULL :: ipc_space_t where "IS_NULL \<equiv> 0"

record ipc_tree_data =
  te_entry :: ipc_entry
  te_name :: mach_port_t
  te_space :: ipc_space_t

text \<open>\<^verbatim>\<open>is_table_size\<close> is the length of the table; \<^verbatim>\<open>is_table_next\<close> is an index
  into \<^verbatim>\<open>ipc_table_entries\<close>.\<close>

record ipc_space =
  is_references :: nat
  is_active :: bool
  is_growing :: bool
  is_table :: "ipc_entry list"
  is_table_next :: nat
  is_tree :: "ite_t ipc_splay_tree"
  is_tree_total :: nat
  is_tree_small :: nat
  is_tree_hash :: nat
  is_notify :: "32 word"

abbreviation is_table_size :: "ipc_space \<Rightarrow> nat" where "is_table_size s \<equiv> length (is_table s)"

record ipc_state =
  st_space :: "ipc_space_t \<Rightarrow> ipc_space"
  st_ite :: "ite_t \<Rightarrow> ipc_tree_data"
  st_bucket :: "nat \<Rightarrow> ite_t list"
  ipc_hash_global_mask :: "32 word"

abbreviation te_object :: "ipc_tree_data \<Rightarrow> ipc_object_t" where "te_object t \<equiv> ie_object (te_entry t)"
abbreviation te_bits :: "ipc_tree_data \<Rightarrow> ipc_entry_bits_t" where "te_bits t \<equiv> ie_bits (te_entry t)"
abbreviation te_request :: "ipc_tree_data \<Rightarrow> nat" where "te_request t \<equiv> ie_request (te_entry t)"

text \<open>A pointer to an entry points into the table of a space or to a tree entry.\<close>

datatype ipc_entry_t = Table nat | Tree ite_t

definition upd_space :: "ipc_space_t \<Rightarrow> (ipc_space \<Rightarrow> ipc_space) \<Rightarrow> 'a ipc_state_scheme \<Rightarrow> 'a ipc_state_scheme" where
  "upd_space space f st = st\<lparr>st_space := (st_space st)(space := f (st_space st space))\<rparr>"

definition upd_ite :: "ite_t \<Rightarrow> (ipc_tree_data \<Rightarrow> ipc_tree_data) \<Rightarrow> 'a ipc_state_scheme \<Rightarrow> 'a ipc_state_scheme" where
  "upd_ite a f st = st\<lparr>st_ite := (st_ite st)(a := f (st_ite st a))\<rparr>"

fun get_entry :: "'a ipc_state_scheme \<Rightarrow> ipc_space_t \<Rightarrow> ipc_entry_t \<Rightarrow> ipc_entry" where
  "get_entry st space (Table i) = is_table (st_space st space) ! i"
| "get_entry st space (Tree a) = te_entry (st_ite st a)"

fun upd_entry :: "ipc_space_t \<Rightarrow> ipc_entry_t \<Rightarrow> (ipc_entry \<Rightarrow> ipc_entry) \<Rightarrow> 'a ipc_state_scheme \<Rightarrow> 'a ipc_state_scheme" where
  "upd_entry space (Table i) f = upd_space space (\<lambda>s. s\<lparr>is_table := (is_table s)[i := f (is_table s ! i)]\<rparr>)"
| "upd_entry space (Tree a) f = upd_ite a (\<lambda>t. t\<lparr>te_entry := f (te_entry t)\<rparr>)"

section \<open>The global reverse hash table\<close>

definition IH_GLOBAL_HASH :: "32 word \<Rightarrow> ipc_space_t \<Rightarrow> ipc_object_t \<Rightarrow> nat" where
  "IH_GLOBAL_HASH hmask space obj = unat ((drop_bit 4 space + drop_bit 6 obj) AND hmask)"

definition upd_bucket :: "nat \<Rightarrow> (ite_t list \<Rightarrow> ite_t list) \<Rightarrow> 'a ipc_state_scheme \<Rightarrow> 'a ipc_state_scheme" where
  "upd_bucket h f st = st\<lparr>st_bucket := (st_bucket st)(h := f (st_bucket st h))\<rparr>"

text \<open>An entry found behind others is moved to the front of its bucket.\<close>

definition ipc_hash_global_lookup ::
  "'a ipc_state_scheme \<Rightarrow> ipc_space_t \<Rightarrow> ipc_object_t
     \<Rightarrow> (mach_port_t \<times> ite_t) option \<times> 'a ipc_state_scheme" where
  "ipc_hash_global_lookup st space obj =
     (let h = IH_GLOBAL_HASH (ipc_hash_global_mask st) space obj;
          other = (\<lambda>a. \<not> (te_object (st_ite st a) = obj \<and> te_space (st_ite st a) = space))
      in case dropWhile other (st_bucket st h) of
           [] \<Rightarrow> (None, st)
         | this # rest \<Rightarrow>
             (Some (te_name (st_ite st this), this),
              upd_bucket h (\<lambda>b. this # takeWhile other b @ rest) st))"

definition ipc_hash_global_insert ::
  "'a ipc_state_scheme \<Rightarrow> ipc_space_t \<Rightarrow> ipc_object_t \<Rightarrow> ite_t \<Rightarrow> 'a ipc_state_scheme" where
  "ipc_hash_global_insert st space obj entry =
     (let st = upd_space space (\<lambda>s. s\<lparr>is_tree_hash := is_tree_hash s + 1\<rparr>) st
      in upd_bucket (IH_GLOBAL_HASH (ipc_hash_global_mask st) space obj) (\<lambda>b. entry # b) st)"

definition ipc_hash_global_delete ::
  "'a ipc_state_scheme \<Rightarrow> ipc_space_t \<Rightarrow> ipc_object_t \<Rightarrow> ite_t \<Rightarrow> 'a ipc_state_scheme" where
  "ipc_hash_global_delete st space obj entry =
     (let st = upd_space space (\<lambda>s. s\<lparr>is_tree_hash := is_tree_hash s - 1\<rparr>) st
      in upd_bucket (IH_GLOBAL_HASH (ipc_hash_global_mask st) space obj) (remove1 entry) st)"

section \<open>The two tables together\<close>

text \<open>
  \<open>None\<close> is a local loop that does not end.
\<close>

definition local_hash_insert ::
  "'a ipc_state_scheme \<Rightarrow> ipc_space_t \<Rightarrow> ipc_object_t \<Rightarrow> nat \<Rightarrow> 'a ipc_state_scheme option" where
  "local_hash_insert st space obj index =
     map_option (\<lambda>table. upd_space space (\<lambda>s. s\<lparr>is_table := table\<rparr>) st)
       (ipc_hash_local_insert (is_table (st_space st space)) obj index)"

definition local_hash_delete ::
  "'a ipc_state_scheme \<Rightarrow> ipc_space_t \<Rightarrow> ipc_object_t \<Rightarrow> nat \<Rightarrow> 'a ipc_state_scheme option" where
  "local_hash_delete st space obj index =
     map_option (\<lambda>table. upd_space space (\<lambda>s. s\<lparr>is_table := table\<rparr>) st)
       (ipc_hash_local_delete (is_table (st_space st space)) obj index)"

definition ipc_hash_lookup ::
  "'a ipc_state_scheme \<Rightarrow> ipc_space_t \<Rightarrow> ipc_object_t
     \<Rightarrow> ((mach_port_t \<times> ipc_entry_t) option \<times> 'a ipc_state_scheme) option" where
  "ipc_hash_lookup st space obj =
     (case ipc_hash_local_lookup (is_table (st_space st space)) obj of
        None \<Rightarrow> None
      | Some (Some (name, index)) \<Rightarrow> Some (Some (name, Table index), st)
      | Some None \<Rightarrow>
          if is_tree_hash (st_space st space) > 0 then
            Some (map_prod (map_option (map_prod id Tree)) id (ipc_hash_global_lookup st space obj))
          else Some (None, st))"

definition in_table :: "ipc_space \<Rightarrow> mach_port_t \<Rightarrow> ipc_entry_t \<Rightarrow> bool" where
  "in_table s name entry \<longleftrightarrow>
     MACH_PORT_INDEX name < is_table_size s \<and> entry = Table (MACH_PORT_INDEX name)"

text \<open>An entry that is not in the table is cast to a tree entry.\<close>

fun as_tree :: "ipc_entry_t \<Rightarrow> ite_t" where
  "as_tree (Tree a) = a"
| "as_tree (Table i) = 0"

definition ipc_hash_insert ::
  "'a ipc_state_scheme \<Rightarrow> ipc_space_t \<Rightarrow> ipc_object_t \<Rightarrow> mach_port_t \<Rightarrow> ipc_entry_t
     \<Rightarrow> 'a ipc_state_scheme option" where
  "ipc_hash_insert st space obj name entry =
     (if in_table (st_space st space) name entry
      then local_hash_insert st space obj (MACH_PORT_INDEX name)
      else Some (ipc_hash_global_insert st space obj (as_tree entry)))"

definition ipc_hash_delete ::
  "'a ipc_state_scheme \<Rightarrow> ipc_space_t \<Rightarrow> ipc_object_t \<Rightarrow> mach_port_t \<Rightarrow> ipc_entry_t
     \<Rightarrow> 'a ipc_state_scheme option" where
  "ipc_hash_delete st space obj name entry =
     (if in_table (st_space st space) name entry
      then local_hash_delete st space obj (MACH_PORT_INDEX name)
      else Some (ipc_hash_global_delete st space obj (as_tree entry)))"

section \<open>Reading an updated state\<close>

lemma upd_space_simps [simp]:
  "st_space (upd_space space f st) = (st_space st)(space := f (st_space st space))"
  "st_ite (upd_space space f st) = st_ite st"
  "st_bucket (upd_space space f st) = st_bucket st"
  "ipc_hash_global_mask (upd_space space f st) = ipc_hash_global_mask st"
  by (simp_all add: upd_space_def)

lemma upd_ite_simps [simp]:
  "st_space (upd_ite a g st) = st_space st"
  "st_ite (upd_ite a g st) = (st_ite st)(a := g (st_ite st a))"
  "st_bucket (upd_ite a g st) = st_bucket st"
  "ipc_hash_global_mask (upd_ite a g st) = ipc_hash_global_mask st"
  by (simp_all add: upd_ite_def)

lemma upd_bucket_simps [simp]:
  "st_space (upd_bucket h b st) = st_space st"
  "st_ite (upd_bucket h b st) = st_ite st"
  "st_bucket (upd_bucket h b st) = (st_bucket st)(h := b (st_bucket st h))"
  "ipc_hash_global_mask (upd_bucket h b st) = ipc_hash_global_mask st"
  by (simp_all add: upd_bucket_def)

section \<open>The global table satisfies the contract\<close>

definition ghash_key :: "'a ipc_state_scheme \<Rightarrow> ite_t \<Rightarrow> ipc_space_t \<times> ipc_object_t" where
  "ghash_key st a = (te_space (st_ite st a), te_object (st_ite st a))"

definition ghash_entered :: "'a ipc_state_scheme \<Rightarrow> ite_t set" where
  "ghash_entered st = {a. \<exists>h. a \<in> set (st_bucket st h)}"

definition key_hash :: "32 word \<Rightarrow> ipc_space_t \<times> ipc_object_t \<Rightarrow> nat" where
  "key_hash hmask k = IH_GLOBAL_HASH hmask (fst k) (snd k)"

definition ghash_invar :: "'a ipc_state_scheme \<Rightarrow> bool" where
  "ghash_invar st \<longleftrightarrow> (\<forall>h. distinct (st_bucket st h)) \<and>
     (\<forall>h. \<forall>a \<in> set (st_bucket st h). h = key_hash (ipc_hash_global_mask st) (ghash_key st a)) \<and>
     inj_on (ghash_key st) (ghash_entered st)"

definition global_index :: "'a ipc_state_scheme \<Rightarrow> ipc_space_t \<times> ipc_object_t \<Rightarrow> ite_t option" where
  "global_index st k = map_option snd (fst (ipc_hash_global_lookup st (fst k) (snd k)))"

lemma global_lookup_find:
  "global_index st k =
     (case dropWhile (\<lambda>a. ghash_key st a \<noteq> k) (st_bucket st (key_hash (ipc_hash_global_mask st) k)) of
        [] \<Rightarrow> None | a # _ \<Rightarrow> Some a)"
proof -
  let ?b = "st_bucket st (IH_GLOBAL_HASH (ipc_hash_global_mask st) (fst k) (snd k))"
  have same: "(\<lambda>a. \<not> (te_object (st_ite st a) = snd k \<and> te_space (st_ite st a) = fst k)) = (\<lambda>a. ghash_key st a \<noteq> k)"
    by (auto simp: ghash_key_def fun_eq_iff prod_eq_iff)
  show ?thesis
    unfolding global_index_def ipc_hash_global_lookup_def key_hash_def Let_def same
    by (cases "dropWhile (\<lambda>a. ghash_key st a \<noteq> k) ?b") (simp_all del: dropWhile_eq_Nil_conv)
qed

lemma global_lookup_iff:
  assumes "ghash_invar st"
  shows "global_index st k = Some a \<longleftrightarrow> a \<in> ghash_entered st \<and> ghash_key st a = k"
proof -
  let ?b = "st_bucket st (key_hash (ipc_hash_global_mask st) k)" and ?P = "\<lambda>a. ghash_key st a \<noteq> k"
  have mem: "a \<in> ghash_entered st \<and> ghash_key st a = k \<longleftrightarrow> a \<in> set ?b \<and> ghash_key st a = k" for a
    using assms by (auto simp: ghash_invar_def ghash_entered_def)
  show ?thesis
  proof (cases "dropWhile ?P ?b")
    case Nil
    then have "\<forall>a \<in> set ?b. ghash_key st a \<noteq> k" by (simp add: dropWhile_eq_Nil_conv)
    then show ?thesis
      unfolding global_lookup_find Nil using mem by auto
  next
    case (Cons c rest)
    have "ghash_key st c = k" using Cons hd_dropWhile [of ?P ?b] by simp
    moreover have "c \<in> set ?b" using Cons set_dropWhileD [of c ?P ?b] by simp
    ultimately have c: "c \<in> ghash_entered st" "ghash_key st c = k" using mem by auto
    then have "a = c" if "a \<in> ghash_entered st" "ghash_key st a = k" for a
      using assms that by (auto simp: ghash_invar_def inj_on_def)
    then show ?thesis unfolding global_lookup_find Cons list.case using c by (metis option.inject)
  qed
qed

lemma ghash_invar_absent:
  assumes "ghash_invar st" and "a \<notin> ghash_entered st"
  shows "a \<notin> set (st_bucket st h)"
  using assms by (auto simp: ghash_entered_def)

interpretation global_hash: reverse_table ghash_key ghash_entered ghash_invar "\<lambda>_ _. True" global_index
    "\<lambda>st k a. Some (ipc_hash_global_insert st (fst k) (snd k) a)"
    "\<lambda>st k a. Some (ipc_hash_global_delete st (fst k) (snd k) a)"
proof (unfold_locales, goal_cases)
  case (2 t i j)
  then show ?case unfolding ghash_invar_def inj_on_def by blast
next
  case (3 t i)
  then show ?case by (simp add: global_lookup_iff)
next
  case (4 t obj)
  then show ?case using global_lookup_iff [OF 4(1), of obj] by (cases "global_index t obj") auto
next
  case (5 t i)
  let ?t = "ipc_hash_global_insert t (fst (ghash_key t i)) (snd (ghash_key t i)) i"
  have key: "ghash_key ?t = ghash_key t" by (simp add: ghash_key_def ipc_hash_global_insert_def Let_def fun_eq_iff)
  have bucket: "st_bucket ?t h = (if h = key_hash (ipc_hash_global_mask t) (ghash_key t i) then i # st_bucket t h
      else st_bucket t h)" for h
    by (simp add: ipc_hash_global_insert_def Let_def key_hash_def)
  have gmask: "ipc_hash_global_mask ?t = ipc_hash_global_mask t"
    by (simp add: ipc_hash_global_insert_def Let_def)
  have entered: "ghash_entered ?t = insert i (ghash_entered t)"
    by (auto simp: ghash_entered_def bucket split: if_splits) metis
  have "ghash_invar ?t"
    unfolding ghash_invar_def key entered gmask
    using 5 ghash_invar_absent [OF 5(1,3)] by (auto simp: ghash_invar_def bucket inj_on_def)
  then show ?case using key entered by simp
next
  case (6 t i)
  let ?t = "ipc_hash_global_delete t (fst (ghash_key t i)) (snd (ghash_key t i)) i"
  have key: "ghash_key ?t = ghash_key t" by (simp add: ghash_key_def ipc_hash_global_delete_def Let_def fun_eq_iff)
  have bucket: "st_bucket ?t h = (if h = key_hash (ipc_hash_global_mask t) (ghash_key t i)
      then remove1 i (st_bucket t h) else st_bucket t h)" for h
    by (simp add: ipc_hash_global_delete_def Let_def key_hash_def)
  have gmask: "ipc_hash_global_mask ?t = ipc_hash_global_mask t"
    by (simp add: ipc_hash_global_delete_def Let_def)
  have inv: "\<And>h. distinct (st_bucket t h)"
      "\<And>h a. a \<in> set (st_bucket t h) \<Longrightarrow> h = key_hash (ipc_hash_global_mask t) (ghash_key t a)"
    using 6(1) by (auto simp: ghash_invar_def)
  have rem: "set (st_bucket ?t h) = set (st_bucket t h) - {i}" for h
    using inv(1) [of h] inv(2) [of i h] by (auto simp: bucket)
  have entered: "ghash_entered ?t = ghash_entered t - {i}" by (auto simp: ghash_entered_def rem)
  have "distinct (st_bucket ?t h)" for h using inv(1) by (simp add: bucket distinct_remove1)
  then have "ghash_invar ?t"
    unfolding ghash_invar_def key entered gmask
    using 6(1) rem inv(2) by (auto simp: ghash_invar_def inj_on_def)
  then show ?case using key entered by simp
qed simp

text \<open>A lookup in the global table may reorder a bucket but changes nothing that can be observed.\<close>

lemma global_lookup_state:
  assumes "ghash_invar st" and "ipc_hash_global_lookup st space obj = (r, st')"
  shows "ghash_invar st' \<and> ghash_entered st' = ghash_entered st \<and> st_space st' = st_space st \<and>
    st_ite st' = st_ite st \<and> ipc_hash_global_mask st' = ipc_hash_global_mask st"
proof -
  let ?h = "IH_GLOBAL_HASH (ipc_hash_global_mask st) space obj"
  let ?P = "\<lambda>a. \<not> (te_object (st_ite st a) = obj \<and> te_space (st_ite st a) = space)"
  show ?thesis
  proof (cases "dropWhile ?P (st_bucket st ?h)")
    case Nil
    then show ?thesis using assms by (simp add: ipc_hash_global_lookup_def Let_def del: dropWhile_eq_Nil_conv)
  next
    case (Cons this rest)
    have st': "st' = upd_bucket ?h (\<lambda>b. this # takeWhile ?P b @ rest) st"
      using assms(2) Cons by (simp add: ipc_hash_global_lookup_def Let_def)
    have split: "st_bucket st ?h = takeWhile ?P (st_bucket st ?h) @ this # rest"
      using takeWhile_dropWhile_id [of ?P "st_bucket st ?h"] unfolding Cons by (rule sym)
    have same: "set (st_bucket st' h) = set (st_bucket st h)" for h
      using arg_cong [OF split, of set] by (auto simp: st')
    have d: "distinct (st_bucket st' h)" for h
    proof (cases "h = ?h")
      case True
      have "distinct (takeWhile ?P (st_bucket st ?h) @ this # rest)"
        using assms(1) split unfolding ghash_invar_def by metis
      then show ?thesis using True by (auto simp: st')
    next
      case False
      then show ?thesis using assms(1) by (simp add: st' ghash_invar_def)
    qed
    have key: "ghash_key st' = ghash_key st" by (simp add: ghash_key_def fun_eq_iff st')
    have "ghash_entered st' = ghash_entered st" by (simp add: ghash_entered_def same)
    moreover have "ipc_hash_global_mask st' = ipc_hash_global_mask st" by (simp add: st')
    ultimately show ?thesis
      using assms(1) d same by (simp add: ghash_invar_def key) (simp add: st')
  qed
qed

end
