(* ===== verification/IpcEntry.thy ===== *)
theory IpcEntry
  imports IpcSpace
begin

text \<open>
  Allocation of entries in a space: \<^verbatim>\<open>ipc/ipc_entry.c\<close>. Small names are indices into the
  table, whose free entries form a list through \<^verbatim>\<open>ie_next\<close> headed by entry 0; larger
  names are kept in the splay tree, and growing the table moves entries from the tree.

  The code drops the lock of the space while it allocates or frees memory. What other threads do
  to the state meanwhile, and whether the allocation succeeds, are parameters of the operations
  that do so.
\<close>

section \<open>Lookup and allocation from the free list\<close>

definition blank_splay :: "'p ipc_splay_tree" where
  "blank_splay = \<lparr>ist_name = 0, ist_root = ITE_NULL, ist_ltree = [], ist_rtree = [],
     ist_current = ITE_NULL, ist_parent = []\<rparr>"

definition set_tree :: "ipc_space_t \<Rightarrow> ite_t ipc_splay_tree \<Rightarrow> 'a ipc_state_scheme \<Rightarrow> 'a ipc_state_scheme" where
  "set_tree space t = upd_space space (\<lambda>s. s\<lparr>is_tree := t\<rparr>)"

definition set_table :: "ipc_space_t \<Rightarrow> ipc_entry list \<Rightarrow> 'a ipc_state_scheme \<Rightarrow> 'a ipc_state_scheme" where
  "set_table space t = upd_space space (\<lambda>s. s\<lparr>is_table := t\<rparr>)"

definition ipc_entry_tree_collision ::
  "'a ipc_state_scheme \<Rightarrow> ipc_space_t \<Rightarrow> mach_port_t \<Rightarrow> bool \<times> 'a ipc_state_scheme" where
  "ipc_entry_tree_collision st space name =
     (let (lower, upper, tree) = ipc_splay_tree_bounds (is_tree (st_space st space)) name;
          index = MACH_PORT_INDEX name
      in (lower \<noteq> - 1 \<and> MACH_PORT_INDEX lower = index \<or> upper \<noteq> 0 \<and> MACH_PORT_INDEX upper = index,
          set_tree space tree st))"

definition tree_lookup ::
  "'a ipc_state_scheme \<Rightarrow> ipc_space_t \<Rightarrow> mach_port_t \<Rightarrow> ipc_entry_t option \<times> 'a ipc_state_scheme" where
  "tree_lookup st space name =
     (let (a, tree) = ipc_splay_tree_lookup (is_tree (st_space st space)) name
      in (map_option Tree a, set_tree space tree st))"

definition ipc_entry_lookup ::
  "'a ipc_state_scheme \<Rightarrow> ipc_space_t \<Rightarrow> mach_port_t \<Rightarrow> ipc_entry_t option \<times> 'a ipc_state_scheme" where
  "ipc_entry_lookup st space name =
     (let s = st_space st space; index = MACH_PORT_INDEX name
      in if index < is_table_size s then
           let entry = is_table s ! index
           in if IE_BITS_GEN (ie_bits entry) \<noteq> MACH_PORT_GEN name then
                if ie_bits entry AND IE_BITS_COLLISION \<noteq> 0 then tree_lookup st space name
                else (None, st)
              else if IE_BITS_TYPE (ie_bits entry) = MACH_PORT_TYPE_NONE then (None, st)
              else (Some (Table index), st)
         else if is_tree_total s = 0 then (None, st)
         else tree_lookup st space name)"

definition ipc_entry_get ::
  "'a ipc_state_scheme \<Rightarrow> ipc_space_t
     \<Rightarrow> (kern_return_t + mach_port_t \<times> ipc_entry_t) \<times> 'a ipc_state_scheme" where
  "ipc_entry_get st space =
     (let table = is_table (st_space st space);
          first_free = ie_next (table ! 0)
      in if first_free = 0 then (Inl KERN_NO_SPACE, st)
         else
           let free_entry = table ! first_free;
               table = table[0 := (table ! 0)\<lparr>ie_request := ie_next free_entry\<rparr>];
               gen = ie_bits free_entry + IE_BITS_GEN_ONE;
               table = table[first_free := (table ! first_free)\<lparr>ie_bits := gen, ie_request := 0\<rparr>]
           in (Inr (MACH_PORT_MAKE first_free gen, Table first_free), set_table space table st))"

section \<open>Growing the table\<close>

definition zero_entry :: ipc_entry where
  "zero_entry = \<lparr>ie_bits = 0, ie_object = IO_NULL, ie_request = 0, ie_index = 0\<rparr>"

text \<open>
  The new table: the old entries, copied or remapped, with their \<^verbatim>\<open>ie_index\<close> fields
  cleared, and zeroed entries up to the new size.
\<close>

definition grow_copy :: "ipc_entry list \<Rightarrow> nat \<Rightarrow> nat \<Rightarrow> ipc_entry list" where
  "grow_copy otable osize sz =
     map (ie_index_update (\<lambda>_. 0)) (take osize otable) @ replicate (sz - osize) zero_entry"

text \<open>The old entries are put into the new reverse hash table.\<close>

fun grow_rehash :: "nat list \<Rightarrow> ipc_entry list \<Rightarrow> ipc_entry list option" where
  "grow_rehash [] table = Some table"
| "grow_rehash (i # is) table =
     (if IE_BITS_TYPE (ie_bits (table ! i)) = MACH_PORT_TYPE_SEND then
        case ipc_hash_local_insert table (ie_object (table ! i)) i of
          None \<Rightarrow> None
        | Some table \<Rightarrow> grow_rehash is table
      else grow_rehash is table)"

text \<open>
  The body of the loop that moves entries from the tree into the table; the second result tells
  the traversal to delete the tree entry.
\<close>

definition grow_move ::
  "ipc_space_t \<Rightarrow> 'a ipc_state_scheme option \<Rightarrow> mach_port_t \<Rightarrow> ite_t \<Rightarrow> 'a ipc_state_scheme option \<times> bool" where
  "grow_move space ost name tentry =
     (case ost of
        None \<Rightarrow> (None, False)
      | Some st \<Rightarrow>
          let gen = MACH_PORT_GEN name;
              index = MACH_PORT_INDEX name;
              bits = ie_bits (get_entry st space (Table index))
          in if bits \<noteq> 0 then
               (Some (upd_entry space (Table index) (\<lambda>e. e\<lparr>ie_bits := bits OR IE_BITS_COLLISION\<rparr>) st), False)
             else
               let t = st_ite st tentry;
                   bits = te_bits t;
                   obj = te_object t;
                   st = upd_entry space (Table index)
                     (\<lambda>e. e\<lparr>ie_bits := bits OR gen, ie_object := obj, ie_request := te_request t\<rparr>) st;
                   ost = (if IE_BITS_TYPE bits = MACH_PORT_TYPE_SEND
                          then local_hash_insert (ipc_hash_global_delete st space obj tentry) space obj index
                          else Some st)
               in (map_option (upd_space space (\<lambda>s. s\<lparr>is_tree_total := is_tree_total s - 1\<rparr>)) ost, True))"

text \<open>The body of the loop that counts the distinct indices among the next entries to move.\<close>

definition grow_count :: "nat \<times> nat \<Rightarrow> mach_port_t \<Rightarrow> ite_t \<Rightarrow> (nat \<times> nat) \<times> bool" where
  "grow_count = (\<lambda>(nosmall, index) name tentry.
     let nindex = MACH_PORT_INDEX name
     in if nindex \<noteq> index then ((nosmall + 1, nindex), False) else ((nosmall, index), False))"

definition grow_tree ::
  "'a ipc_state_scheme \<Rightarrow> ipc_space_t \<Rightarrow> nat \<Rightarrow> nat \<Rightarrow> nat \<Rightarrow> 'a ipc_state_scheme option" where
  "grow_tree st space osize sz nsize =
     (let (tree, small) = ipc_splay_tree_split (is_tree (st_space st space)) (MACH_PORT_MAKE nsize 0) blank_splay;
          (small, move) = ipc_splay_tree_split small (MACH_PORT_MAKE sz 0) blank_splay;
          (move, ignore) = ipc_splay_tree_split move (MACH_PORT_MAKE osize 0) blank_splay
      in case ipc_splay_traverse (grow_move space) (Some st) move of
           None \<Rightarrow> None
         | Some (None, move) \<Rightarrow> None
         | Some (Some st, move) \<Rightarrow>
             (case ipc_splay_traverse grow_count (0, 0) small of
               None \<Rightarrow> None
             | Some ((nosmall, index), small) \<Rightarrow>
                 let (tree, _) = ipc_splay_tree_join tree small;
                     (tree, _) = ipc_splay_tree_join tree move;
                     (tree, _) = ipc_splay_tree_join tree ignore
                 in Some (upd_space space (\<lambda>s. s\<lparr>is_tree_small := nosmall, is_tree := tree\<rparr>) st)))"

text \<open>The loop that adds the unused new entries to the free list, from the last down.\<close>

fun grow_free :: "nat list \<Rightarrow> ipc_entry list \<Rightarrow> nat \<Rightarrow> ipc_entry list \<times> nat" where
  "grow_free [] table free_index = (table, free_index)"
| "grow_free (i # is) table free_index =
     (if ie_bits (table ! i) = 0
      then grow_free is (table[i := (table ! i)\<lparr>ie_bits := IE_BITS_GEN_MASK, ie_request := free_index\<rparr>]) i
      else grow_free is table free_index)"

text \<open>What is done with the space locked again: the new table is installed.\<close>

definition grow_install ::
  "'a ipc_state_scheme \<Rightarrow> ipc_space_t \<Rightarrow> ipc_entry list \<Rightarrow> nat \<Rightarrow> nat \<Rightarrow> nat \<Rightarrow> nat \<Rightarrow> 'a ipc_state_scheme option" where
  "grow_install st space otable osize sz nsize nits =
     (case grow_rehash [0..<osize] (grow_copy otable osize sz) of
        None \<Rightarrow> None
      | Some table \<Rightarrow>
          let st = upd_space space (\<lambda>s. s\<lparr>is_table := table, is_table_next := nits\<rparr>) st
          in (case (if is_tree_total (st_space st space) > 0 then grow_tree st space osize sz nsize else Some st) of
               None \<Rightarrow> None
             | Some st \<Rightarrow>
                 let table = is_table (st_space st space);
                     (table, free_index) = grow_free (rev [osize..<sz]) table (ie_next (table ! 0));
                     table = table[0 := (table ! 0)\<lparr>ie_request := free_index\<rparr>]
                 in Some (set_table space table st)))"

text \<open>
  A window is a time during which the space is unlocked: what the memory allocation of that time
  returns (whether a table could be allocated, the address of the tree entry or 0), and what the
  other threads do before it returns and while the old table is freed.
\<close>

record 'a window =
  win_table :: bool
  win_ite :: ite_t
  win_other :: "'a ipc_state_scheme \<Rightarrow> 'a ipc_state_scheme"
  win_freed :: "'a ipc_state_scheme \<Rightarrow> 'a ipc_state_scheme"

definition sizeof_ipc_tree_entry :: nat where "sizeof_ipc_tree_entry = 32"

text \<open>
  The second component of the result is the windows that are left. \<open>None\<close> is a call that needs
  more windows than are given, or a local hash loop that does not end.
\<close>

fun ipc_entry_grow_table ::
  "'a window list \<Rightarrow> 'a ipc_state_scheme \<Rightarrow> ipc_space_t
     \<Rightarrow> (kern_return_t \<times> 'a ipc_state_scheme \<times> 'a window list) option" where
  "ipc_entry_grow_table [] st space = None"
| "ipc_entry_grow_table (w # ws) st space =
     (let s = st_space st space
      in if is_growing s then Some (KERN_SUCCESS, win_other w st, ws)
         else
           let its = is_table_next s;
               sz = entries_sizes its;
               osize = entries_sizes (its - 1);
               nits = its + 1;
               nsize = entries_sizes nits
           in if osize = sz then Some (KERN_NO_SPACE, st, ws)
              else
                let st = win_other w (upd_space space (\<lambda>s. s\<lparr>is_growing := True\<rparr>) st);
                    st = upd_space space (\<lambda>s. s\<lparr>is_growing := False\<rparr>) st
                in if \<not> win_table w then Some (KERN_RESOURCE_SHORTAGE, st, ws)
                   else if \<not> is_active (st_space st space) then Some (KERN_SUCCESS, win_freed w st, ws)
                   else
                     (case grow_install st space (is_table (st_space st space)) osize sz nsize nits of
                        None \<Rightarrow> None
                      | Some st \<Rightarrow>
                          let st = win_freed w st;
                              s = st_space st space
                          in if \<not> is_active s \<or> is_table_next s \<noteq> nits then Some (KERN_SUCCESS, st, ws)
                             else if is_tree_small s > 0 \<and>
                                     (nsize - sz) * sizeof_ipc_entry < is_tree_small s * sizeof_ipc_tree_entry
                             then ipc_entry_grow_table ws st space
                             else Some (KERN_SUCCESS, st, ws)))"

lemma grow_table_windows:
  "ipc_entry_grow_table ws st space = Some (kr, st', ws') \<Longrightarrow> length ws' < length ws"
  by (induction ws st space arbitrary: kr st' ws' rule: ipc_entry_grow_table.induct)
     (fastforce simp: Let_def split: if_splits option.splits)+

section \<open>Allocation\<close>

function ipc_entry_alloc ::
  "'a window list \<Rightarrow> 'a ipc_state_scheme \<Rightarrow> ipc_space_t
     \<Rightarrow> ((kern_return_t + mach_port_t \<times> ipc_entry_t) \<times> 'a ipc_state_scheme \<times> 'a window list) option" where
  "ipc_entry_alloc ws st space =
     (if \<not> is_active (st_space st space) then Some (Inl KERN_INVALID_TASK, st, ws)
      else
        case ipc_entry_get st space of
          (Inr r, st) \<Rightarrow> Some (Inr r, st, ws)
        | (Inl _, st) \<Rightarrow>
            (case ipc_entry_grow_table ws st space of
               None \<Rightarrow> None
             | Some (kr, st, ws) \<Rightarrow>
                 if kr \<noteq> KERN_SUCCESS then Some (Inl kr, st, ws) else ipc_entry_alloc ws st space))"
  by pat_completeness auto
termination
  by (relation "measure (\<lambda>(ws, st, space). length ws)") (auto dest: grow_table_windows)

declare ipc_entry_alloc.simps [simp del]

text \<open>The search for the entry before \<^verbatim>\<open>index\<close> on the free list.\<close>

fun free_list_before :: "nat \<Rightarrow> ipc_entry list \<Rightarrow> nat \<Rightarrow> nat \<Rightarrow> nat option" where
  "free_list_before 0 table index free_index = None"
| "free_list_before (Suc fuel) table index free_index =
     (let next_index = ie_next (table ! free_index)
      in if next_index \<noteq> index then free_list_before fuel table index next_index
         else Some free_index)"

definition take_free_entry :: "ipc_entry list \<Rightarrow> nat \<Rightarrow> natural_t \<Rightarrow> ipc_entry list option" where
  "take_free_entry table index gen =
     (case free_list_before (length table) table index 0 of
        None \<Rightarrow> None
      | Some free_index \<Rightarrow>
          let next_index = ie_next (table ! free_index);
              table = table[free_index := (table ! free_index)\<lparr>ie_request := ie_next (table ! next_index)\<rparr>]
          in Some (table[index := (table ! index)\<lparr>ie_bits := gen, ie_request := 0\<rparr>]))"

definition alloc_tree_entry ::
  "'a ipc_state_scheme \<Rightarrow> ipc_space_t \<Rightarrow> mach_port_t \<Rightarrow> ite_t \<Rightarrow> 'a ipc_state_scheme" where
  "alloc_tree_entry st space name tree_entry =
     (let index = MACH_PORT_INDEX name;
          its = is_table_next (st_space st space);
          st = upd_space space (\<lambda>s. s\<lparr>is_tree_total := is_tree_total s + 1\<rparr>) st;
          st = (if index < is_table_size (st_space st space)
                then upd_entry space (Table index) (\<lambda>e. e\<lparr>ie_bits := ie_bits e OR IE_BITS_COLLISION\<rparr>) st
                else if index < entries_sizes its then
                  let (collision, st) = ipc_entry_tree_collision st space name
                  in if \<not> collision then upd_space space (\<lambda>s. s\<lparr>is_tree_small := is_tree_small s + 1\<rparr>) st
                     else st
                else st);
          st = set_tree space (ipc_splay_tree_insert (is_tree (st_space st space)) name tree_entry) st
      in upd_ite tree_entry
           (\<lambda>t. t\<lparr>te_entry := (te_entry t)\<lparr>ie_bits := 0, ie_object := IO_NULL, ie_request := 0\<rparr>,
                  te_name := name, te_space := space\<rparr>) st)"

definition wants_growth :: "ipc_space \<Rightarrow> nat \<Rightarrow> bool" where
  "wants_growth s index \<longleftrightarrow>
     (let its_size = entries_sizes (is_table_next s)
      in is_table_size s \<le> index \<and> index < its_size \<and>
         (its_size - is_table_size s) * sizeof_ipc_entry < (is_tree_small s + 1) * sizeof_ipc_tree_entry)"

text \<open>
  The loop of \<^verbatim>\<open>ipc_entry_alloc_name\<close>; \<open>tree_entry\<close> is the entry allocated by an earlier
  round, 0 if there is none.
\<close>

function alloc_name_loop ::
  "'a window list \<Rightarrow> 'a ipc_state_scheme \<Rightarrow> ipc_space_t \<Rightarrow> mach_port_t \<Rightarrow> ite_t
     \<Rightarrow> ((kern_return_t + ipc_entry_t) \<times> 'a ipc_state_scheme \<times> 'a window list) option" where
  "alloc_name_loop ws st space name tree_entry =
     (let index = MACH_PORT_INDEX name; gen = MACH_PORT_GEN name; s = st_space st space
      in if \<not> is_active s then Some (Inl KERN_INVALID_TASK, st, ws)
         else if 0 < index \<and> index < is_table_size s \<and>
                 IE_BITS_TYPE (ie_bits (is_table s ! index)) \<noteq> 0 \<and>
                 IE_BITS_GEN (ie_bits (is_table s ! index)) = gen
         then Some (Inr (Table index), st, ws)
         else if 0 < index \<and> index < is_table_size s \<and>
                 IE_BITS_TYPE (ie_bits (is_table s ! index)) = 0
         then (case take_free_entry (is_table s) index gen of
                 None \<Rightarrow> None
               | Some table \<Rightarrow> Some (Inr (Table index), set_table space table st, ws))
         else
           (case (if is_tree_total s > 0 then tree_lookup st space name else (None, st)) of
              (Some tentry, st) \<Rightarrow> Some (Inr tentry, st, ws)
            | (None, st) \<Rightarrow>
                if wants_growth (st_space st space) index then
                  (case ipc_entry_grow_table ws st space of
                     None \<Rightarrow> None
                   | Some (kr, st, ws) \<Rightarrow>
                       if kr \<noteq> KERN_SUCCESS then Some (Inl kr, st, ws)
                       else alloc_name_loop ws st space name tree_entry)
                else if tree_entry \<noteq> 0 then
                  Some (Inr (Tree tree_entry), alloc_tree_entry st space name tree_entry, ws)
                else
                  (case ws of
                     [] \<Rightarrow> None
                   | w # ws \<Rightarrow>
                       if win_ite w = 0 then Some (Inl KERN_RESOURCE_SHORTAGE, win_other w st, ws)
                       else alloc_name_loop ws (win_other w st) space name (win_ite w))))"
  by pat_completeness auto
termination
  by (relation "measure (\<lambda>(ws, st, space, name, tree_entry). length ws)") (auto dest: grow_table_windows)

declare alloc_name_loop.simps [simp del]

definition ipc_entry_alloc_name ::
  "'a window list \<Rightarrow> 'a ipc_state_scheme \<Rightarrow> ipc_space_t \<Rightarrow> mach_port_t
     \<Rightarrow> ((kern_return_t + ipc_entry_t) \<times> 'a ipc_state_scheme \<times> 'a window list) option" where
  "ipc_entry_alloc_name ws st space name = alloc_name_loop ws st space name 0"

section \<open>Deallocation\<close>

text \<open>
  A table entry with the collision bit set is replaced by one of the tree entries with the same
  index.
\<close>

definition dealloc_collision ::
  "'a ipc_state_scheme \<Rightarrow> ipc_space_t \<Rightarrow> nat \<Rightarrow> 'a ipc_state_scheme option" where
  "dealloc_collision st space index =
     (let (tree, collisions) =
            ipc_splay_tree_split (is_tree (st_space st space)) (MACH_PORT_MAKE (index + 1) 0) blank_splay;
          (collisions, small) = ipc_splay_tree_split collisions (MACH_PORT_MAKE index 0) blank_splay
      in case ipc_splay_tree_pick collisions of
           None \<Rightarrow> None
         | Some (tname, tentry) \<Rightarrow>
             let t = st_ite st tentry;
                 bits = te_bits t;
                 obj = te_object t;
                 st = upd_entry space (Table index)
                   (\<lambda>e. e\<lparr>ie_bits := bits OR MACH_PORT_GEN tname, ie_object := obj,
                          ie_request := te_request t\<rparr>) st
             in (case (if IE_BITS_TYPE bits = MACH_PORT_TYPE_SEND
                       then local_hash_insert (ipc_hash_global_delete st space obj tentry) space obj index
                       else Some st) of
                   None \<Rightarrow> None
                 | Some st \<Rightarrow>
                     let collisions = ipc_splay_tree_delete collisions tname;
                         st = upd_space space (\<lambda>s. s\<lparr>is_tree_total := is_tree_total s - 1\<rparr>) st;
                         (st, tree) =
                           (if ipc_splay_tree_pick collisions \<noteq> None then
                              (upd_entry space (Table index)
                                 (\<lambda>e. e\<lparr>ie_bits := ie_bits e OR IE_BITS_COLLISION\<rparr>) st,
                               fst (ipc_splay_tree_join tree collisions))
                            else (st, tree));
                         tree = fst (ipc_splay_tree_join tree small)
                     in Some (set_tree space tree st)))"

definition dealloc_free ::
  "'a ipc_state_scheme \<Rightarrow> ipc_space_t \<Rightarrow> nat \<Rightarrow> 'a ipc_state_scheme" where
  "dealloc_free st space index =
     (let table = is_table (st_space st space);
          table = table[index := (table ! index)\<lparr>ie_bits := ie_bits (table ! index) AND IE_BITS_GEN_MASK,
                                  ie_request := ie_next (table ! 0)\<rparr>];
          table = table[0 := (table ! 0)\<lparr>ie_request := index\<rparr>]
      in set_table space table st)"

definition dealloc_tree ::
  "'a ipc_state_scheme \<Rightarrow> ipc_space_t \<Rightarrow> mach_port_t \<Rightarrow> 'a ipc_state_scheme" where
  "dealloc_tree st space name =
     (let index = MACH_PORT_INDEX name;
          st = set_tree space (ipc_splay_tree_delete (is_tree (st_space st space)) name) st;
          st = upd_space space (\<lambda>s. s\<lparr>is_tree_total := is_tree_total s - 1\<rparr>) st
      in if index < is_table_size (st_space st space) then
           let (collision, st) = ipc_entry_tree_collision st space name
           in if \<not> collision
              then upd_entry space (Table index) (\<lambda>e. e\<lparr>ie_bits := ie_bits e AND NOT IE_BITS_COLLISION\<rparr>) st
              else st
         else if index < entries_sizes (is_table_next (st_space st space)) then
           let (collision, st) = ipc_entry_tree_collision st space name
           in if \<not> collision
              then upd_space space (\<lambda>s. s\<lparr>is_tree_small := is_tree_small s - 1\<rparr>) st
              else st
         else st)"

definition ipc_entry_dealloc ::
  "'a ipc_state_scheme \<Rightarrow> ipc_space_t \<Rightarrow> mach_port_t \<Rightarrow> ipc_entry_t \<Rightarrow> 'a ipc_state_scheme option" where
  "ipc_entry_dealloc st space name entry =
     (let index = MACH_PORT_INDEX name
      in if in_table (st_space st space) name entry then
           if ie_bits (get_entry st space entry) AND IE_BITS_COLLISION \<noteq> 0
           then dealloc_collision st space index
           else Some (dealloc_free st space index)
         else Some (dealloc_tree st space name))"

end
