(* ===== verification/IpcMqueue.thy ===== *)
theory IpcMqueue
  imports IpcEntry
begin

text \<open>
  The state of ports, port sets, message queues and waiting threads
  (\<^verbatim>\<open>ipc/ipc_port.h\<close>, \<^verbatim>\<open>ipc/ipc_pset.h\<close>, \<^verbatim>\<open>ipc/ipc_mqueue.h\<close>), the operations on
  message queues of \<^verbatim>\<open>ipc/ipc_mqueue.c\<close> and the port sets of \<^verbatim>\<open>ipc/ipc_pset.c\<close>.

  Ports, port sets, threads and requests are known by their addresses; queues are lists, first
  element first. What the code hands to other parts of the kernel (a thread to run, a
  notification or a kernel message to dispose of) is appended to a log.
\<close>

section \<open>State\<close>

type_synonym ipc_port_t = "32 word"
type_synonym ipc_pset_t = "32 word"
type_synonym ipc_thread_t = "32 word"
type_synonym ipc_marequest_t = "32 word"

abbreviation IP_NULL :: ipc_port_t where "IP_NULL \<equiv> 0"
abbreviation IP_DEAD :: ipc_port_t where "IP_DEAD \<equiv> - 1"
abbreviation IPS_NULL :: ipc_pset_t where "IPS_NULL \<equiv> 0"
abbreviation IMAR_NULL :: ipc_marequest_t where "IMAR_NULL \<equiv> 0"

definition IP_VALID :: "ipc_port_t \<Rightarrow> bool" where
  "IP_VALID port \<longleftrightarrow> port \<noteq> IP_NULL \<and> port \<noteq> IP_DEAD"

datatype mach_msg_return_t =
    MACH_MSG_SUCCESS
  | MACH_SEND_IN_PROGRESS
  | MACH_SEND_INVALID_DEST
  | MACH_SEND_TIMED_OUT
  | MACH_SEND_INTERRUPTED
  | MACH_SEND_INVALID_REPLY
  | MACH_SEND_INVALID_NOTIFY
  | MACH_SEND_NOTIFY_IN_PROGRESS
  | MACH_SEND_NO_NOTIFY
  | MACH_SEND_INVALID_HEADER
  | MACH_RCV_IN_PROGRESS
  | MACH_RCV_INVALID_NAME
  | MACH_RCV_TIMED_OUT
  | MACH_RCV_TOO_LARGE
  | MACH_RCV_INTERRUPTED
  | MACH_RCV_PORT_CHANGED
  | MACH_RCV_IN_SET
  | MACH_RCV_PORT_DIED

text \<open>
  Of a kernel message the code here looks at the destination, the size, whether it is circular,
  whether it goes to a send-once right, and its msg-accepted request.
\<close>

record ipc_kmsg =
  ikm_id :: nat
  msgh_remote_port :: ipc_port_t
  msgh_size :: nat
  ikm_circular :: bool
  ikm_send_once :: bool
  ikm_marequest :: ipc_marequest_t

record ipc_mqueue =
  imq_messages :: "ipc_kmsg list"
  imq_threads :: "ipc_thread_t list"

record ipc_thread =
  ith_state :: mach_msg_return_t
  ith_msize :: nat
  ith_kmsg :: "ipc_kmsg option"
  ith_seqno :: "32 word"

text \<open>
  In an element of a table of dead-name requests the send-once right and the index of the next
  free element are members of one union. The first element holds the head of the free list and,
  in place of a name, the size of the table (an index into \<^verbatim>\<open>ipc_table_dnrequests\<close>), which
  is a field of the table here.
\<close>

record ipc_port_request =
  ipr_soright :: "32 word"
  ipr_name :: mach_port_t

abbreviation ipr_next :: "ipc_port_request \<Rightarrow> nat" where "ipr_next r \<equiv> unat (ipr_soright r)"

record ipc_dnrequests =
  ipr_size :: nat
  ipr_table :: "ipc_port_request list"

text \<open>The receiver, the destination and the timestamp of a port share the word \<open>ip_data\<close>.\<close>

record ipc_port =
  ip_references :: nat
  ip_active :: bool
  ip_kotype :: nat
  ip_receiver_name :: mach_port_t
  ip_data :: "32 word"
  ip_mscount :: "32 word"
  ip_srights :: nat
  ip_sorights :: nat
  ip_nsrequest :: ipc_port_t
  ip_pdrequest :: ipc_port_t
  ip_dnrequests :: "ipc_dnrequests option"
  ip_pset :: ipc_pset_t
  ip_seqno :: "32 word"
  ip_msgcount :: nat
  ip_qlimit :: nat
  ip_blocked :: "ipc_thread_t list"
  ip_messages :: ipc_mqueue

abbreviation ip_receiver :: "ipc_port \<Rightarrow> ipc_space_t" where "ip_receiver \<equiv> ip_data"
abbreviation ip_destination :: "ipc_port \<Rightarrow> ipc_port_t" where "ip_destination \<equiv> ip_data"
abbreviation ip_timestamp :: "ipc_port \<Rightarrow> 32 word" where "ip_timestamp \<equiv> ip_data"

record ipc_pset =
  ips_references :: nat
  ips_active :: bool
  ips_local_name :: mach_port_t
  ips_messages :: ipc_mqueue

record ipc_marequest =
  imar_space :: ipc_space_t
  imar_name :: mach_port_t
  imar_soright :: ipc_port_t

datatype ipc_event =
    Thread_go ipc_thread_t
  | Kmsg_destroy ipc_kmsg
  | Kobject_destroy ipc_port_t
  | Notify_no_senders ipc_port_t "32 word"
  | Notify_send_once ipc_port_t
  | Notify_dead_name ipc_port_t mach_port_t
  | Notify_port_deleted ipc_port_t mach_port_t
  | Notify_port_deleted_compat ipc_port_t mach_port_t
  | Notify_port_destroyed ipc_port_t ipc_port_t
  | Notify_port_destroyed_compat ipc_port_t ipc_port_t
  | Notify_msg_accepted ipc_port_t mach_port_t
  | Notify_msg_accepted_compat ipc_port_t mach_port_t

record ipc_kernel = ipc_state +
  st_port :: "ipc_port_t \<Rightarrow> ipc_port"
  st_pset :: "ipc_pset_t \<Rightarrow> ipc_pset"
  st_thread :: "ipc_thread_t \<Rightarrow> ipc_thread"
  st_marequest :: "ipc_marequest_t \<Rightarrow> ipc_marequest"
  ipc_marequest_table :: "nat \<Rightarrow> ipc_marequest_t list"
  ipc_marequest_mask :: "32 word"
  ipc_port_timestamp_data :: "32 word"
  st_events :: "ipc_event list"

definition upd_port :: "ipc_port_t \<Rightarrow> (ipc_port \<Rightarrow> ipc_port) \<Rightarrow> ipc_kernel \<Rightarrow> ipc_kernel" where
  "upd_port p f st = st\<lparr>st_port := (st_port st)(p := f (st_port st p))\<rparr>"

definition upd_pset :: "ipc_pset_t \<Rightarrow> (ipc_pset \<Rightarrow> ipc_pset) \<Rightarrow> ipc_kernel \<Rightarrow> ipc_kernel" where
  "upd_pset p f st = st\<lparr>st_pset := (st_pset st)(p := f (st_pset st p))\<rparr>"

definition upd_thread :: "ipc_thread_t \<Rightarrow> (ipc_thread \<Rightarrow> ipc_thread) \<Rightarrow> ipc_kernel \<Rightarrow> ipc_kernel" where
  "upd_thread t f st = st\<lparr>st_thread := (st_thread st)(t := f (st_thread st t))\<rparr>"

definition emit :: "ipc_event \<Rightarrow> ipc_kernel \<Rightarrow> ipc_kernel" where
  "emit e st = st\<lparr>st_events := st_events st @ [e]\<rparr>"

definition ip_reference :: "ipc_port_t \<Rightarrow> ipc_kernel \<Rightarrow> ipc_kernel" where
  "ip_reference p = upd_port p (\<lambda>q. q\<lparr>ip_references := ip_references q + 1\<rparr>)"

definition ip_release :: "ipc_port_t \<Rightarrow> ipc_kernel \<Rightarrow> ipc_kernel" where
  "ip_release p = upd_port p (\<lambda>q. q\<lparr>ip_references := ip_references q - 1\<rparr>)"

definition ips_reference :: "ipc_pset_t \<Rightarrow> ipc_kernel \<Rightarrow> ipc_kernel" where
  "ips_reference p = upd_pset p (\<lambda>q. q\<lparr>ips_references := ips_references q + 1\<rparr>)"

definition ips_release :: "ipc_pset_t \<Rightarrow> ipc_kernel \<Rightarrow> ipc_kernel" where
  "ips_release p = upd_pset p (\<lambda>q. q\<lparr>ips_references := ips_references q - 1\<rparr>)"

section \<open>Message queues\<close>

datatype ipc_mqueue_t = Port_mq ipc_port_t | Pset_mq ipc_pset_t

fun get_mq :: "ipc_kernel \<Rightarrow> ipc_mqueue_t \<Rightarrow> ipc_mqueue" where
  "get_mq st (Port_mq p) = ip_messages (st_port st p)"
| "get_mq st (Pset_mq s) = ips_messages (st_pset st s)"

fun upd_mq :: "ipc_mqueue_t \<Rightarrow> (ipc_mqueue \<Rightarrow> ipc_mqueue) \<Rightarrow> ipc_kernel \<Rightarrow> ipc_kernel" where
  "upd_mq (Port_mq p) f = upd_port p (\<lambda>q. q\<lparr>ip_messages := f (ip_messages q)\<rparr>)"
| "upd_mq (Pset_mq s) f = upd_pset s (\<lambda>q. q\<lparr>ips_messages := f (ips_messages q)\<rparr>)"

definition ipc_mqueue_init :: "ipc_mqueue_t \<Rightarrow> ipc_kernel \<Rightarrow> ipc_kernel" where
  "ipc_mqueue_init mq = upd_mq mq (\<lambda>_. \<lparr>imq_messages = [], imq_threads = []\<rparr>)"

text \<open>
  Offering a message to the threads waiting in a queue, first come first served: a thread that
  cannot take a message of this size is woken with an error and the next is tried. The result is
  the thread that took the message, the threads left waiting and those woken.
\<close>

fun offer :: "ipc_kmsg \<Rightarrow> 32 word \<Rightarrow> ipc_thread_t list \<Rightarrow> ipc_kernel
    \<Rightarrow> ipc_thread_t option \<times> ipc_thread_t list \<times> ipc_kernel" where
  "offer kmsg seqno [] st = (None, [], st)"
| "offer kmsg seqno (th # ths) st =
     (if msgh_size kmsg \<le> ith_msize (st_thread st th)
      then (Some th, ths,
            emit (Thread_go th)
              (upd_thread th (\<lambda>t. t\<lparr>ith_state := MACH_MSG_SUCCESS, ith_kmsg := Some kmsg, ith_seqno := seqno\<rparr>) st))
      else offer kmsg seqno ths
             (emit (Thread_go th)
               (upd_thread th (\<lambda>t. t\<lparr>ith_state := MACH_RCV_TOO_LARGE, ith_msize := msgh_size kmsg\<rparr>) st)))"

text \<open>
  Handing a message for \<open>port\<close> to a queue: to a waiting thread, which uses up a sequence
  number of the port, or else to the end of the list of messages.
\<close>

definition deliver :: "ipc_mqueue_t \<Rightarrow> ipc_port_t \<Rightarrow> ipc_kmsg \<Rightarrow> ipc_kernel \<Rightarrow> ipc_kernel" where
  "deliver mq port kmsg st =
     (case offer kmsg (ip_seqno (st_port st port)) (imq_threads (get_mq st mq)) st of
        (Some th, ths, st) \<Rightarrow>
          upd_port port (\<lambda>p. p\<lparr>ip_seqno := ip_seqno p + 1\<rparr>) (upd_mq mq (\<lambda>q. q\<lparr>imq_threads := ths\<rparr>) st)
      | (None, ths, st) \<Rightarrow>
          upd_mq mq (\<lambda>q. q\<lparr>imq_threads := ths, imq_messages := imq_messages q @ [kmsg]\<rparr>) st)"

text \<open>The messages for \<open>port\<close> leave the source queue one by one, in order.\<close>

definition ipc_mqueue_move :: "ipc_mqueue_t \<Rightarrow> ipc_mqueue_t \<Rightarrow> ipc_port_t \<Rightarrow> ipc_kernel \<Rightarrow> ipc_kernel" where
  "ipc_mqueue_move dest source port st =
     fold (\<lambda>kmsg st. deliver dest port kmsg
              (upd_mq source (\<lambda>q. q\<lparr>imq_messages := remove1 kmsg (imq_messages q)\<rparr>) st))
       (filter (\<lambda>kmsg. msgh_remote_port kmsg = port) (imq_messages (get_mq st source))) st"

definition wake :: "mach_msg_return_t \<Rightarrow> ipc_thread_t \<Rightarrow> ipc_kernel \<Rightarrow> ipc_kernel" where
  "wake mr th st = emit (Thread_go th) (upd_thread th (\<lambda>t. t\<lparr>ith_state := mr\<rparr>) st)"

definition ipc_mqueue_changed :: "ipc_mqueue_t \<Rightarrow> mach_msg_return_t \<Rightarrow> ipc_kernel \<Rightarrow> ipc_kernel" where
  "ipc_mqueue_changed mq mr st =
     upd_mq mq (\<lambda>q. q\<lparr>imq_threads := []\<rparr>) (fold (wake mr) (imq_threads (get_mq st mq)) st)"

section \<open>Port sets\<close>

definition ipc_pset_add :: "ipc_pset_t \<Rightarrow> ipc_port_t \<Rightarrow> ipc_kernel \<Rightarrow> ipc_kernel" where
  "ipc_pset_add pset port st =
     (let st = upd_port port (\<lambda>p. p\<lparr>ip_pset := pset\<rparr>) st;
          st = ips_reference pset st;
          st = ipc_mqueue_move (Pset_mq pset) (Port_mq port) port st
      in ipc_mqueue_changed (Port_mq port) MACH_RCV_PORT_CHANGED st)"

definition ipc_pset_remove :: "ipc_pset_t \<Rightarrow> ipc_port_t \<Rightarrow> ipc_kernel \<Rightarrow> ipc_kernel" where
  "ipc_pset_remove pset port st =
     (let st = upd_port port (\<lambda>p. p\<lparr>ip_pset := IPS_NULL\<rparr>) st;
          st = ips_release pset st
      in ipc_mqueue_move (Port_mq port) (Pset_mq pset) port st)"

definition ipc_pset_move :: "ipc_port_t \<Rightarrow> ipc_pset_t \<Rightarrow> ipc_kernel \<Rightarrow> kern_return_t \<times> ipc_kernel" where
  "ipc_pset_move port nset st =
     (let oset = ip_pset (st_port st port);
          (oset, st) =
            (if oset = nset then (oset, st)
             else if oset = IPS_NULL then (oset, ipc_pset_add nset port st)
             else if nset = IPS_NULL then
               let st = ipc_pset_remove oset port st
               in (if ips_active (st_pset st oset) then oset else IPS_NULL, st)
             else (oset, ipc_pset_add nset port (ipc_pset_remove oset port st)))
      in (if nset = IPS_NULL \<and> oset = IPS_NULL then KERN_NOT_IN_SET else KERN_SUCCESS, st))"

definition ipc_pset_destroy :: "ipc_pset_t \<Rightarrow> ipc_kernel \<Rightarrow> ipc_kernel" where
  "ipc_pset_destroy pset st =
     (let st = upd_pset pset (\<lambda>s. s\<lparr>ips_active := False\<rparr>) st;
          st = ipc_mqueue_changed (Pset_mq pset) MACH_RCV_PORT_DIED st
      in ips_release pset st)"

end
