(* ===== verification/IpcPort.thy ===== *)
theory IpcPort
  imports IpcMqueue "HOL-Library.Monad_Syntax"
begin

text \<open>
  Operations on ports (\<^verbatim>\<open>ipc/ipc_port.c\<close>): timestamps, dead-name requests, the other
  notification requests, queue limits, naked rights, and the check that keeps ports in transit
  from forming a circle. The destruction of a port follows in the theory of rights, which it
  uses.
\<close>

section \<open>Timestamps\<close>

definition ipc_port_timestamp :: "ipc_kernel \<Rightarrow> 32 word \<times> ipc_kernel" where
  "ipc_port_timestamp st =
     (ipc_port_timestamp_data st, st\<lparr>ipc_port_timestamp_data := ipc_port_timestamp_data st + 1\<rparr>)"

definition IP_TIMESTAMP_ORDER :: "32 word \<Rightarrow> 32 word \<Rightarrow> bool" where
  "IP_TIMESTAMP_ORDER one two \<longleftrightarrow> sint (one - two) < 0"

section \<open>Dead-name requests\<close>

text \<open>Tagged pointers: the low bit marks a send right or a space.\<close>

definition ip_pdsendp :: "32 word \<Rightarrow> bool" where "ip_pdsendp soright \<longleftrightarrow> soright AND 1 \<noteq> 0"
definition ip_pdsend :: "32 word \<Rightarrow> ipc_port_t" where "ip_pdsend soright = soright AND NOT 1"
definition ip_pdsendm :: "ipc_port_t \<Rightarrow> 32 word" where "ip_pdsendm sright = sright OR 1"
definition ipr_spacep :: "32 word \<Rightarrow> bool" where "ipr_spacep soright \<longleftrightarrow> soright AND 1 \<noteq> 0"
definition ipr_space :: "32 word \<Rightarrow> ipc_space_t" where "ipr_space soright = soright AND NOT 1"
definition ipr_spacem :: "ipc_space_t \<Rightarrow> 32 word" where "ipr_spacem space = space OR 1"

text \<open>The operations on a table of requests.\<close>

definition dn_request ::
  "ipc_dnrequests \<Rightarrow> mach_port_t \<Rightarrow> ipc_port_t \<Rightarrow> (nat \<times> ipc_dnrequests) option" where
  "dn_request t name soright =
     (let table = ipr_table t;
          index = ipr_next (table ! 0)
      in if index = 0 then None
         else
           let ipr = table ! index;
               table = table[0 := (table ! 0)\<lparr>ipr_soright := ipr_soright ipr\<rparr>];
               table = table[index := \<lparr>ipr_soright = soright, ipr_name = name\<rparr>]
           in Some (index, t\<lparr>ipr_table := table\<rparr>))"

definition dn_cancel :: "ipc_dnrequests \<Rightarrow> nat \<Rightarrow> ipc_port_t \<times> ipc_dnrequests" where
  "dn_cancel t index =
     (let table = ipr_table t;
          dnrequest = ipr_soright (table ! index);
          table = table[index := \<lparr>ipr_soright = ipr_soright (table ! 0), ipr_name = MACH_PORT_NULL\<rparr>];
          table = table[0 := (table ! 0)\<lparr>ipr_soright := of_nat index\<rparr>]
      in (dnrequest, t\<lparr>ipr_table := table\<rparr>))"

definition dn_rename :: "ipc_dnrequests \<Rightarrow> nat \<Rightarrow> mach_port_t \<Rightarrow> ipc_dnrequests" where
  "dn_rename t index nname =
     t\<lparr>ipr_table := (ipr_table t)[index := (ipr_table t ! index)\<lparr>ipr_name := nname\<rparr>]\<rparr>"

text \<open>The loop that puts the new elements of a table on its free list.\<close>

fun dn_free_loop :: "nat list \<Rightarrow> ipc_port_request list \<Rightarrow> nat \<Rightarrow> ipc_port_request list \<times> nat" where
  "dn_free_loop [] table free = (table, free)"
| "dn_free_loop (i # is) table free =
     dn_free_loop is (table[i := \<lparr>ipr_soright = of_nat free, ipr_name = MACH_PORT_NULL\<rparr>]) i"

text \<open>
  The new table: element 0 to be filled in, the old elements after it, and the rest as the
  allocator left it.
\<close>

definition dn_grow :: "ipc_dnrequests option \<Rightarrow> nat \<Rightarrow> ipc_port_request list \<Rightarrow> ipc_dnrequests" where
  "dn_grow otable its ntable =
     (let nsize = dnrequests_sizes its;
          (osize, free, ntable) =
            (case otable of
               None \<Rightarrow> (1, 0, ntable)
             | Some t \<Rightarrow>
                 let osize = dnrequests_sizes (ipr_size t)
                 in (osize, ipr_next (ipr_table t ! 0),
                     take 1 ntable @ take (osize - 1) (drop 1 (ipr_table t)) @ drop osize ntable));
          (ntable, free) = dn_free_loop [osize..<nsize] ntable free
      in \<lparr>ipr_size = its, ipr_table = ntable[0 := (ntable ! 0)\<lparr>ipr_soright := of_nat free\<rparr>]\<rparr>)"

definition ipc_port_dnrequest ::
  "ipc_port_t \<Rightarrow> mach_port_t \<Rightarrow> ipc_port_t \<Rightarrow> ipc_kernel \<Rightarrow> (kern_return_t + nat) \<times> ipc_kernel" where
  "ipc_port_dnrequest port name soright st =
     (case ip_dnrequests (st_port st port) of
        None \<Rightarrow> (Inl KERN_NO_SPACE, st)
      | Some t \<Rightarrow>
          (case dn_request t name soright of
             None \<Rightarrow> (Inl KERN_NO_SPACE, st)
           | Some (index, t) \<Rightarrow> (Inr index, upd_port port (\<lambda>p. p\<lparr>ip_dnrequests := Some t\<rparr>) st)))"

definition ipc_port_dncancel :: "ipc_port_t \<Rightarrow> nat \<Rightarrow> ipc_kernel \<Rightarrow> ipc_port_t \<times> ipc_kernel" where
  "ipc_port_dncancel port index st =
     (case ip_dnrequests (st_port st port) of
        None \<Rightarrow> (IP_NULL, st)
      | Some t \<Rightarrow>
          let (dnrequest, t) = dn_cancel t index
          in (dnrequest, upd_port port (\<lambda>p. p\<lparr>ip_dnrequests := Some t\<rparr>) st))"

definition ipc_port_dnrename :: "ipc_port_t \<Rightarrow> nat \<Rightarrow> mach_port_t \<Rightarrow> ipc_kernel \<Rightarrow> ipc_kernel" where
  "ipc_port_dnrename port index nname =
     upd_port port (\<lambda>p. p\<lparr>ip_dnrequests := map_option (\<lambda>t. dn_rename t index nname) (ip_dnrequests p)\<rparr>)"

text \<open>
  The port is unlocked while the new table is allocated: \<open>other\<close> is what happens meanwhile and
  \<open>alloc\<close> the memory obtained, if any. The old table is still in use if nobody grew it.
\<close>

definition ipc_port_dngrow ::
  "ipc_port_request list option \<Rightarrow> (ipc_kernel \<Rightarrow> ipc_kernel) \<Rightarrow> ipc_port_t \<Rightarrow> ipc_kernel
     \<Rightarrow> kern_return_t \<times> ipc_kernel" where
  "ipc_port_dngrow alloc other port st =
     (let otable = ip_dnrequests (st_port st port);
          its = (case otable of None \<Rightarrow> 0 | Some t \<Rightarrow> ipr_size t + 1);
          st = other (ip_reference port st)
      in if dnrequests_sizes its = 0 then (KERN_RESOURCE_SHORTAGE, ip_release port st)
         else
           (case alloc of
              None \<Rightarrow> (KERN_RESOURCE_SHORTAGE, ip_release port st)
            | Some ntable \<Rightarrow>
                let st = ip_release port st;
                    cur = ip_dnrequests (st_port st port)
                in if ip_active (st_port st port) \<and> map_option ipr_size cur = map_option ipr_size otable
                   then (KERN_SUCCESS, upd_port port (\<lambda>p. p\<lparr>ip_dnrequests := Some (dn_grow cur its ntable)\<rparr>) st)
                   else (KERN_SUCCESS, st)))"

section \<open>Other requests and limits\<close>

definition ipc_port_pdrequest :: "ipc_port_t \<Rightarrow> ipc_port_t \<Rightarrow> ipc_kernel \<Rightarrow> ipc_port_t \<times> ipc_kernel" where
  "ipc_port_pdrequest port notify st =
     (ip_pdrequest (st_port st port), upd_port port (\<lambda>p. p\<lparr>ip_pdrequest := notify\<rparr>) st)"

definition ipc_port_nsrequest ::
  "ipc_port_t \<Rightarrow> 32 word \<Rightarrow> ipc_port_t \<Rightarrow> ipc_kernel \<Rightarrow> ipc_port_t \<times> ipc_kernel" where
  "ipc_port_nsrequest port sync notify st =
     (let previous = ip_nsrequest (st_port st port);
          mscount = ip_mscount (st_port st port)
      in if ip_srights (st_port st port) = 0 \<and> sync \<le> mscount \<and> notify \<noteq> IP_NULL
         then (previous, emit (Notify_no_senders notify mscount) (upd_port port (\<lambda>p. p\<lparr>ip_nsrequest := IP_NULL\<rparr>) st))
         else (previous, upd_port port (\<lambda>p. p\<lparr>ip_nsrequest := notify\<rparr>) st))"

text \<open>At most \<open>qlimit - ip_qlimit\<close> blocked senders are woken, first come first served.\<close>

definition ipc_port_set_qlimit :: "ipc_port_t \<Rightarrow> nat \<Rightarrow> ipc_kernel \<Rightarrow> ipc_kernel" where
  "ipc_port_set_qlimit port qlimit st =
     (let p = st_port st port;
          wakeup = (if qlimit > ip_qlimit p then qlimit - ip_qlimit p else 0);
          st = fold (wake MACH_MSG_SUCCESS) (take wakeup (ip_blocked p)) st
      in upd_port port (\<lambda>p. p\<lparr>ip_blocked := drop wakeup (ip_blocked p), ip_qlimit := qlimit\<rparr>) st)"

definition ipc_port_lock_mqueue :: "ipc_port_t \<Rightarrow> ipc_kernel \<Rightarrow> ipc_mqueue_t \<times> ipc_kernel" where
  "ipc_port_lock_mqueue port st =
     (let pset = ip_pset (st_port st port)
      in if pset \<noteq> IPS_NULL then
           if ips_active (st_pset st pset) then (Pset_mq pset, st)
           else (Port_mq port, ipc_pset_remove pset port st)
         else (Port_mq port, st))"

definition ipc_port_set_seqno :: "ipc_port_t \<Rightarrow> 32 word \<Rightarrow> ipc_kernel \<Rightarrow> ipc_kernel" where
  "ipc_port_set_seqno port seqno st =
     upd_port port (\<lambda>p. p\<lparr>ip_seqno := seqno\<rparr>) (snd (ipc_port_lock_mqueue port st))"

definition ipc_port_clear_receiver :: "ipc_port_t \<Rightarrow> ipc_kernel \<Rightarrow> ipc_kernel" where
  "ipc_port_clear_receiver port st =
     (let pset = ip_pset (st_port st port);
          st = (if pset \<noteq> IPS_NULL then ipc_pset_remove pset port st
                else ipc_mqueue_changed (Port_mq port) MACH_RCV_PORT_DIED st)
      in upd_port port (\<lambda>p. p\<lparr>ip_mscount := 0, ip_seqno := 0\<rparr>) st)"

definition MACH_PORT_QLIMIT_DEFAULT :: nat where "MACH_PORT_QLIMIT_DEFAULT = 5"
definition MACH_PORT_QLIMIT_MAX :: nat where "MACH_PORT_QLIMIT_MAX = 16"

definition ipc_target_init_port :: "ipc_port_t \<Rightarrow> mach_port_t \<Rightarrow> ipc_kernel \<Rightarrow> ipc_kernel" where
  "ipc_target_init_port port name st =
     ipc_mqueue_init (Port_mq port) (upd_port port (\<lambda>p. p\<lparr>ip_receiver_name := name\<rparr>) st)"

definition ipc_target_init_pset :: "ipc_pset_t \<Rightarrow> mach_port_t \<Rightarrow> ipc_kernel \<Rightarrow> ipc_kernel" where
  "ipc_target_init_pset pset name st =
     ipc_mqueue_init (Pset_mq pset) (upd_pset pset (\<lambda>p. p\<lparr>ips_local_name := name\<rparr>) st)"

definition ipc_port_init :: "ipc_port_t \<Rightarrow> ipc_space_t \<Rightarrow> mach_port_t \<Rightarrow> ipc_kernel \<Rightarrow> ipc_kernel" where
  "ipc_port_init port space name st =
     (let st = ipc_target_init_port port name st;
          st = upd_port port
            (\<lambda>p. p\<lparr>ip_data := space, ip_mscount := 0, ip_srights := 0, ip_sorights := 0,
                   ip_nsrequest := IP_NULL, ip_pdrequest := IP_NULL, ip_dnrequests := None,
                   ip_pset := IPS_NULL, ip_seqno := 0, ip_msgcount := 0,
                   ip_qlimit := MACH_PORT_QLIMIT_DEFAULT\<rparr>) st;
          st = ipc_mqueue_init (Port_mq port) st
      in upd_port port (\<lambda>p. p\<lparr>ip_blocked := []\<rparr>) st)"

section \<open>Naked rights\<close>

definition ipc_port_make_send :: "ipc_port_t \<Rightarrow> ipc_kernel \<Rightarrow> ipc_port_t \<times> ipc_kernel" where
  "ipc_port_make_send port st =
     (port, ip_reference port
        (upd_port port (\<lambda>p. p\<lparr>ip_mscount := ip_mscount p + 1, ip_srights := ip_srights p + 1\<rparr>) st))"

definition ipc_port_copy_send :: "ipc_port_t \<Rightarrow> ipc_kernel \<Rightarrow> ipc_port_t \<times> ipc_kernel" where
  "ipc_port_copy_send port st =
     (if \<not> IP_VALID port then (port, st)
      else if ip_active (st_port st port)
      then (port, upd_port port (\<lambda>p. p\<lparr>ip_srights := ip_srights p + 1\<rparr>) (ip_reference port st))
      else (IP_DEAD, st))"

text \<open>
  The block that drops one send right of a port; the result is the no-senders request that must be
  sent, with the make-send count it is to carry.
\<close>

definition drop_send :: "ipc_port_t \<Rightarrow> ipc_kernel \<Rightarrow> ipc_port_t \<times> 32 word \<times> ipc_kernel" where
  "drop_send port st =
     (let st = upd_port port (\<lambda>p. p\<lparr>ip_srights := ip_srights p - 1\<rparr>) st
      in if ip_srights (st_port st port) = 0 then
           let nsrequest = ip_nsrequest (st_port st port)
           in if nsrequest \<noteq> IP_NULL
              then (nsrequest, ip_mscount (st_port st port), upd_port port (\<lambda>p. p\<lparr>ip_nsrequest := IP_NULL\<rparr>) st)
              else (IP_NULL, 0, st)
         else (IP_NULL, 0, st))"

definition notify_no_senders :: "ipc_port_t \<Rightarrow> 32 word \<Rightarrow> ipc_kernel \<Rightarrow> ipc_kernel" where
  "notify_no_senders nsrequest mscount st =
     (if nsrequest \<noteq> IP_NULL then emit (Notify_no_senders nsrequest mscount) st else st)"

definition notify_port_deleted :: "ipc_port_t \<Rightarrow> mach_port_t \<Rightarrow> ipc_kernel \<Rightarrow> ipc_kernel" where
  "notify_port_deleted dnrequest name st =
     (if dnrequest \<noteq> IP_NULL then emit (Notify_port_deleted dnrequest name) st else st)"

definition ipc_port_release_send :: "ipc_port_t \<Rightarrow> ipc_kernel \<Rightarrow> ipc_kernel" where
  "ipc_port_release_send port st =
     (let st = ip_release port st
      in if \<not> ip_active (st_port st port) then st
         else
           let (nsrequest, mscount, st) = drop_send port st
           in notify_no_senders nsrequest mscount st)"

definition ipc_port_make_sonce :: "ipc_port_t \<Rightarrow> ipc_kernel \<Rightarrow> ipc_port_t \<times> ipc_kernel" where
  "ipc_port_make_sonce port st =
     (port, ip_reference port (upd_port port (\<lambda>p. p\<lparr>ip_sorights := ip_sorights p + 1\<rparr>) st))"

definition ipc_port_release_sonce :: "ipc_port_t \<Rightarrow> ipc_kernel \<Rightarrow> ipc_kernel" where
  "ipc_port_release_sonce port st =
     ip_release port (upd_port port (\<lambda>p. p\<lparr>ip_sorights := ip_sorights p - 1\<rparr>) st)"

definition ipc_port_lookup_notify ::
  "ipc_space_t \<Rightarrow> mach_port_t \<Rightarrow> ipc_kernel \<Rightarrow> ipc_port_t \<times> ipc_kernel" where
  "ipc_port_lookup_notify space name st =
     (case ipc_entry_lookup st space name of
        (None, st) \<Rightarrow> (IP_NULL, st)
      | (Some entry, st) \<Rightarrow>
          let e = get_entry st space entry
          in if ie_bits e AND MACH_PORT_TYPE_RECEIVE = 0 then (IP_NULL, st)
             else
               let port = ie_object e
               in (port, upd_port port (\<lambda>p. p\<lparr>ip_sorights := ip_sorights p + 1\<rparr>) (ip_reference port st)))"

section \<open>Circularity\<close>

definition in_transit :: "ipc_port \<Rightarrow> bool" where
  "in_transit p \<longleftrightarrow> ip_active p \<and> ip_receiver_name p = MACH_PORT_NULL \<and> ip_destination p \<noteq> IP_NULL"

text \<open>
  The search for the end of the chain of destinations. It does not return (\<open>None\<close>) if the chain
  is circular.
\<close>

partial_function (option) find_base :: "(ipc_port_t \<Rightarrow> ipc_port) \<Rightarrow> ipc_port_t \<Rightarrow> ipc_port_t option" where
  "find_base ports base =
     (if in_transit (ports base) then find_base ports (ip_destination (ports base)) else Some base)"

text \<open>
  \<open>locked\<close> is whether the lock of \<open>dest\<close> could be taken for the quick check. The result tells
  whether a circle was found; if not, the port is in transit to \<open>dest\<close> afterwards.
\<close>

definition ipc_port_check_circularity ::
  "bool \<Rightarrow> ipc_port_t \<Rightarrow> ipc_port_t \<Rightarrow> ipc_kernel \<Rightarrow> (bool \<times> ipc_kernel) option" where
  "ipc_port_check_circularity locked port dest st =
     (if port = dest then Some (True, st)
      else
        let not_circular = upd_port port (\<lambda>p. p\<lparr>ip_data := dest\<rparr>) (ip_reference dest st)
        in if locked \<and> \<not> in_transit (st_port st dest) then Some (False, not_circular)
           else do {
             base \<leftarrow> find_base (st_port st) dest;
             Some (if port = base then (True, st) else (False, not_circular))
           })"

end
