(* ===== verification/IpcMarequest.thy ===== *)
theory IpcMarequest
  imports IpcPort
begin

text \<open>
  Lookup of rights by name and by object (first part of \<^verbatim>\<open>ipc/ipc_right.c\<close>) and
  msg-accepted requests (\<^verbatim>\<open>ipc/ipc_marequest.c\<close>). A bucket's chain through
  \<^verbatim>\<open>imar_next\<close> is a list of addresses. From here on \<open>None\<close> as the result of an operation
  stands for a loop that does not end, a null pointer that is followed, or a panic.
\<close>

section \<open>Looking up rights\<close>

definition ipc_right_lookup_write ::
  "ipc_space_t \<Rightarrow> mach_port_t \<Rightarrow> ipc_kernel \<Rightarrow> (kern_return_t + ipc_entry_t) \<times> ipc_kernel" where
  "ipc_right_lookup_write space name st =
     (if \<not> is_active (st_space st space) then (Inl KERN_INVALID_TASK, st)
      else
        (case ipc_entry_lookup st space name of
           (None, st) \<Rightarrow> (Inl KERN_INVALID_NAME, st)
         | (Some entry, st) \<Rightarrow> (Inr entry, st)))"

text \<open>The receiver's own name is found through the port, a pure send right through the hash tables.\<close>

definition ipc_right_reverse ::
  "ipc_space_t \<Rightarrow> ipc_port_t \<Rightarrow> ipc_kernel \<Rightarrow> ((mach_port_t \<times> ipc_entry_t) option \<times> ipc_kernel) option" where
  "ipc_right_reverse space port st =
     (let p = st_port st port
      in if \<not> ip_active p then Some (None, st)
         else if ip_receiver p = space then
           let name = ip_receiver_name p;
               (entry, st) = ipc_entry_lookup st space name
           in Some (map_option (Pair name) entry, st)
         else ipc_hash_lookup st space port)"

definition ipc_space_make_notify :: "ipc_space_t \<Rightarrow> ipc_kernel \<Rightarrow> ipc_port_t \<times> ipc_kernel" where
  "ipc_space_make_notify space st = ipc_port_copy_send (is_notify (st_space st space)) st"

definition is_reference :: "ipc_space_t \<Rightarrow> ipc_kernel \<Rightarrow> ipc_kernel" where
  "is_reference space = upd_space space (\<lambda>s. s\<lparr>is_references := is_references s + 1\<rparr>)"

definition is_release :: "ipc_space_t \<Rightarrow> ipc_kernel \<Rightarrow> ipc_kernel" where
  "is_release space = upd_space space (\<lambda>s. s\<lparr>is_references := is_references s - 1\<rparr>)"

section \<open>Msg-accepted requests\<close>

definition IMAR_HASH :: "32 word \<Rightarrow> ipc_space_t \<Rightarrow> mach_port_t \<Rightarrow> nat" where
  "IMAR_HASH hmask space name = unat ((drop_bit 4 space + name + MACH_PORT_MAKE 0 (MACH_PORT_GEN name)) AND hmask)"

definition upd_marequest ::
  "ipc_marequest_t \<Rightarrow> (ipc_marequest \<Rightarrow> ipc_marequest) \<Rightarrow> ipc_kernel \<Rightarrow> ipc_kernel" where
  "upd_marequest m f st = st\<lparr>st_marequest := (st_marequest st)(m := f (st_marequest st m))\<rparr>"

definition upd_marb :: "nat \<Rightarrow> (ipc_marequest_t list \<Rightarrow> ipc_marequest_t list) \<Rightarrow> ipc_kernel \<Rightarrow> ipc_kernel" where
  "upd_marb h f st = st\<lparr>ipc_marequest_table := (ipc_marequest_table st)(h := f (ipc_marequest_table st h))\<rparr>"

text \<open>The loop that looks for a request and unlinks it from its bucket.\<close>

definition marequest_unlink ::
  "ipc_space_t \<Rightarrow> mach_port_t \<Rightarrow> ipc_kernel \<Rightarrow> (ipc_marequest_t \<times> ipc_kernel) option" where
  "marequest_unlink space name st =
     (let h = IMAR_HASH (ipc_marequest_mask st) space name;
          other = (\<lambda>m. \<not> (imar_space (st_marequest st m) = space \<and> imar_name (st_marequest st m) = name))
      in case dropWhile other (ipc_marequest_table st h) of
           [] \<Rightarrow> None
         | marequest # rest \<Rightarrow> Some (marequest, upd_marb h (\<lambda>b. takeWhile other b @ rest) st))"

definition ipc_marequest_cancel :: "ipc_space_t \<Rightarrow> mach_port_t \<Rightarrow> ipc_kernel \<Rightarrow> ipc_kernel option" where
  "ipc_marequest_cancel space name st = do {
     (marequest, st) \<leftarrow> marequest_unlink space name st;
     Some (upd_marequest marequest (\<lambda>m. m\<lparr>imar_name := MACH_PORT_NULL\<rparr>) st)
   }"

definition ipc_marequest_rename ::
  "ipc_space_t \<Rightarrow> mach_port_t \<Rightarrow> mach_port_t \<Rightarrow> ipc_kernel \<Rightarrow> ipc_kernel option" where
  "ipc_marequest_rename space old new st = do {
     (marequest, st) \<leftarrow> marequest_unlink space old st;
     let st = upd_marequest marequest (\<lambda>m. m\<lparr>imar_name := new\<rparr>) st;
     Some (upd_marb (IMAR_HASH (ipc_marequest_mask st) space new) (\<lambda>b. marequest # b) st)
   }"

text \<open>\<open>marequest\<close> is the request the zone allocator returned.\<close>

definition ipc_marequest_create ::
  "ipc_marequest_t \<Rightarrow> ipc_space_t \<Rightarrow> ipc_port_t \<Rightarrow> mach_port_t \<Rightarrow> ipc_kernel
     \<Rightarrow> (mach_msg_return_t \<times> ipc_kernel) option" where
  "ipc_marequest_create marequest space port notify st =
     (if marequest = IMAR_NULL then Some (MACH_SEND_NO_NOTIFY, st)
      else if \<not> is_active (st_space st space) then Some (MACH_SEND_INVALID_NOTIFY, st)
      else do {
        (found, st) \<leftarrow> ipc_right_reverse space port st;
        (case found of
           Some (name, entry) \<Rightarrow>
             let bits = ie_bits (get_entry st space entry)
             in if bits AND IE_BITS_MAREQUEST \<noteq> 0 then Some (MACH_SEND_NOTIFY_IN_PROGRESS, st)
                else
                  let (soright, st) = (if notify = MACH_PORT_NULL then (IP_NULL, st)
                                       else ipc_port_lookup_notify space notify st)
                  in if notify \<noteq> MACH_PORT_NULL \<and> soright = IP_NULL then Some (MACH_SEND_INVALID_NOTIFY, st)
                     else
                       let st = upd_entry space entry (\<lambda>e. e\<lparr>ie_bits := bits OR IE_BITS_MAREQUEST\<rparr>) st;
                           st = is_reference space st;
                           st = upd_marequest marequest
                             (\<lambda>_. \<lparr>imar_space = space, imar_name = name, imar_soright = soright\<rparr>) st
                       in Some (MACH_MSG_SUCCESS,
                                upd_marb (IMAR_HASH (ipc_marequest_mask st) space name) (\<lambda>b. marequest # b) st)
         | None \<Rightarrow>
             let (soright, st) = (if notify = MACH_PORT_NULL then (IP_NULL, st)
                                  else ipc_port_lookup_notify space notify st)
             in if notify \<noteq> MACH_PORT_NULL \<and> soright = IP_NULL then Some (MACH_SEND_INVALID_NOTIFY, st)
                else Some (MACH_MSG_SUCCESS,
                           upd_marequest marequest
                             (\<lambda>_. \<lparr>imar_space = space, imar_name = MACH_PORT_NULL, imar_soright = soright\<rparr>)
                             (is_reference space st)))
      })"

definition ipc_marequest_destroy :: "ipc_marequest_t \<Rightarrow> ipc_kernel \<Rightarrow> ipc_kernel option" where
  "ipc_marequest_destroy marequest st =
     (let m = st_marequest st marequest;
          space = imar_space m;
          soright = imar_soright m
      in do {
        (name, sright, st) \<leftarrow>
          (if imar_name m \<noteq> MACH_PORT_NULL then do {
             (_, st) \<leftarrow> marequest_unlink space (imar_name m) st;
             if is_active (st_space st space) then
               (case ipc_entry_lookup st space (imar_name m) of
                  (None, st) \<Rightarrow> None
                | (Some entry, st) \<Rightarrow>
                    let st = upd_entry space entry (\<lambda>e. e\<lparr>ie_bits := ie_bits e AND NOT IE_BITS_MAREQUEST\<rparr>) st;
                        (sright, st) = (if soright = IP_NULL then ipc_space_make_notify space st
                                        else (IP_NULL, st))
                    in Some (imar_name m, sright, st))
             else Some (MACH_PORT_NULL, IP_NULL, st)
           } else Some (MACH_PORT_NULL, IP_NULL, st));
        let st = is_release space st;
        Some (if soright = IP_NULL
              then if IP_VALID sright then emit (Notify_msg_accepted_compat sright name) st else st
              else emit (Notify_msg_accepted soright name) st)
      })"

end
