(* ===== verification/HashSize.thy ===== *)
theory HashSize
  imports IpcMarequest
begin

text \<open>
  The sizes of the global hash tables: the computation that \<^verbatim>\<open>ipc_hash_init\<close>
  (\<^verbatim>\<open>ipc/ipc_hash.c\<close>) and \<^verbatim>\<open>ipc_marequest_init\<close> (\<^verbatim>\<open>ipc/ipc_marequest.c\<close>)
  share, in 32-bit words.
\<close>

text \<open>
  The loop that rounds up to a power of two, with the size and the mask as results. Every round
  sets the next bit of the mask, so it ends after 32 rounds at the latest.
\<close>

fun round_up :: "nat \<Rightarrow> 32 word \<Rightarrow> 32 word \<Rightarrow> (32 word \<times> 32 word) option" where
  "round_up 0 hmask b = None"
| "round_up (Suc fuel) hmask b =
     (let hmask = hmask OR b; sz = hmask + 1
      in if sz AND hmask = 0 then Some (sz, hmask) else round_up fuel hmask (push_bit 1 b))"

definition power_of_two :: "32 word \<Rightarrow> (32 word \<times> 32 word) option" where
  "power_of_two sz =
     (let hmask = sz - 1 in if sz AND hmask \<noteq> 0 then round_up 32 hmask 1 else Some (sz, hmask))"

text \<open>\<open>sz\<close> is the configured size, 0 if there is none, and \<open>max_entries\<close> the limit of the zone, a signed integer.\<close>

definition ipc_hash_init :: "32 word \<Rightarrow> 32 word \<Rightarrow> (32 word \<times> 32 word) option" where
  "ipc_hash_init sz max_entries =
     power_of_two (if sz = 0 then max 32 (signed_drop_bit 8 max_entries) else sz)"

definition ipc_marequest_init :: "32 word \<Rightarrow> 32 word \<Rightarrow> (32 word \<times> 32 word) option" where
  "ipc_marequest_init sz max_entries =
     power_of_two (if sz = 0 then max 16 (signed_drop_bit 8 max_entries) else sz)"

section \<open>Powers of two\<close>

lemma nat_and_Suc_power:
  "n AND Suc n = (0::nat) \<Longrightarrow> \<exists>j. Suc n = 2 ^ j"
proof (induction n rule: less_induct)
  case (less n)
  show ?case
  proof (cases "even n")
    case True
    then obtain m where n: "n = 2 * m" by (elim evenE)
    have "n AND Suc n = 2 * (m AND m)" unfolding n by (subst and_rec) simp
    then have "n = 0" using less.prems n by simp
    then show ?thesis by (intro exI [of _ 0]) simp
  next
    case False
    then obtain m where n: "n = Suc (2 * m)" by (metis oddE Suc_eq_plus1)
    have "n AND Suc n = 2 * (m AND Suc m)" unfolding n by (subst and_rec) simp
    then obtain j where "Suc m = 2 ^ j" using less.prems less.IH [of m] n by auto
    then show ?thesis unfolding n by (intro exI [of _ "Suc j"]) simp
  qed
qed

lemma mask_and_Suc: "(mask j + 1) AND mask j = (0 :: 32 word)"
proof -
  have "mask j + 1 = (2 ^ j :: 32 word)" by (simp add: mask_eq_exp_minus_1)
  moreover have "2 ^ j AND mask j = (0 :: 32 word)" by (rule bit_eqI) (auto simp: bit_simps)
  ultimately show ?thesis by simp
qed

lemma unat_mask: "j \<le> 32 \<Longrightarrow> unat (mask j :: 32 word) = 2 ^ j - 1"
proof -
  assume "j \<le> 32"
  then have "uint (mask j :: 32 word) = mask j" by (simp add: uint_mask_eq min_def)
  also have "\<dots> = int (2 ^ j - 1)" by (simp add: mask_eq_exp_minus_1 of_nat_diff)
  finally have "uint (mask j :: 32 word) = int (2 ^ j - 1)" .
  then show ?thesis by (metis of_nat_eq_iff uint_nat)
qed

lemma word_and_Suc_mask:
  fixes w :: "32 word"
  assumes "(w + 1) AND w = 0"
  shows "\<exists>j\<le>32. w = mask j"
proof (cases "w = - 1")
  case True
  then show ?thesis by (intro exI [of _ 32]) (simp add: mask_eq_exp_minus_1)
next
  case False
  then have suc: "unat (w + 1) = Suc (unat w)" by (simp add: add.commute add_eq_0_iff unatSuc)
  have "unat ((w + 1) AND w) = 0" using assms by simp
  then have "unat w AND Suc (unat w) = 0" by (simp add: unsigned_and_eq suc and.commute)
  then obtain j where j: "Suc (unat w) = 2 ^ j" using nat_and_Suc_power by blast
  have "unat w < 2 ^ 32" by (rule order_less_le_trans [OF unsigned_less]) simp
  then have "2 ^ j \<le> (2 ^ 32 :: nat)" using j by linarith
  then have "j \<le> 32" by (simp only: power_increasing_iff one_less_numeral_iff semiring_norm)
  moreover have "unat w = 2 ^ j - 1" using j by simp
  ultimately show ?thesis using unat_mask by (metis word_eq_iff_unsigned)
qed

lemma fits_iff: "unat (m :: 32 word) < 2 ^ k \<longleftrightarrow> take_bit k m = m"
  by (metis take_bit_nat_eq_self_iff unsigned_take_bit_eq word_eq_iff_unsigned)

lemma or_mask_fits: "unat (m :: 32 word) < 2 ^ k \<Longrightarrow> i \<le> k \<Longrightarrow> unat (m OR mask i) < 2 ^ k"
  unfolding fits_iff
  by (rule bit_eqI) (metis (no_types, lifting) bit_mask_iff bit_or_iff bit_take_bit_iff order_less_le_trans)

lemma or_mask_covers: "unat (m :: 32 word) < 2 ^ i \<Longrightarrow> m OR mask i = mask i"
  unfolding fits_iff by (rule bit_eqI) (metis bit_mask_iff bit_or_iff bit_take_bit_iff)

text \<open>The number of binary digits of a word.\<close>

definition digits_of :: "32 word \<Rightarrow> nat \<Rightarrow> bool" where
  "digits_of m k \<longleftrightarrow> unat m < 2 ^ k \<and> 2 ^ k \<le> 2 * unat m + 1"

lemma digits_of_exists: "\<exists>k\<le>32. digits_of m k"
proof -
  have m: "unat m < 2 ^ 32" by (rule order_less_le_trans [OF unsigned_less]) simp
  define k where "k = (LEAST k. unat m < 2 ^ k)"
  have lt: "unat m < 2 ^ k" unfolding k_def by (rule LeastI [of _ 32]) (rule m)
  have le: "k \<le> 32" unfolding k_def by (rule Least_le) (rule m)
  have "2 ^ k \<le> 2 * unat m + 1"
  proof (cases k)
    case (Suc n)
    then have "\<not> unat m < 2 ^ n" using not_less_Least [of n "\<lambda>k. unat m < 2 ^ k"] k_def by simp
    then show ?thesis using Suc by simp
  qed simp
  then show ?thesis using lt le by (auto simp: digits_of_def)
qed

lemma or_mask_is_mask:
  assumes "digits_of m k" and "i \<le> k" and "j \<le> 32" and "m OR mask i = mask j"
  shows "j = k"
proof -
  have "2 ^ j - 1 = unat (m OR mask i)" using assms(3,4) unat_mask by simp
  moreover have "unat (m OR mask i) < 2 ^ k"
    using assms(1,2) or_mask_fits by (simp add: digits_of_def)
  moreover have "unat m \<le> unat (m OR mask i)" by (metis word_le_nat_alt le_word_or2)
  moreover have "(1 :: nat) \<le> 2 ^ j" by simp
  moreover have "2 ^ k \<le> 2 * unat m + 1" using assms(1) by (simp add: digits_of_def)
  ultimately have "(2 :: nat) ^ j < 2 ^ k + 1" and "(2 :: nat) ^ k \<le> 2 * 2 ^ j - 1" by linarith+
  then have "(2 :: nat) ^ j \<le> 2 ^ k" and "(2 :: nat) ^ k < 2 ^ Suc j"
    using zero_less_power [of "2 :: nat" j] unfolding power_Suc by linarith+
  then show ?thesis by (metis less_Suc_eq_le one_less_numeral_iff order_antisym power_increasing_iff
        power_strict_increasing_iff semiring_norm(76))
qed

lemma round_up_correct:
  assumes "digits_of m k" and "i < k" and "k \<le> i + fuel"
  shows "round_up fuel (m OR mask i) (2 ^ i) = Some (2 ^ k, mask k)"
  using assms(2,3)
proof (induction fuel arbitrary: i)
  case (Suc fuel)
  have step: "m OR mask i OR 2 ^ i = m OR mask (Suc i)" by (simp add: mask_Suc_exp or.commute)
  have exp: "mask k + 1 = (2 ^ k :: 32 word)" by (simp add: mask_eq_exp_minus_1)
  show ?case
  proof (cases "((m OR mask (Suc i)) + 1) AND (m OR mask (Suc i)) = 0")
    case True
    then obtain j where j: "j \<le> 32" "m OR mask (Suc i) = mask j" using word_and_Suc_mask by blast
    then have "j = k" using or_mask_is_mask assms(1) Suc.prems(1) by (meson Suc_leI)
    then show ?thesis using True j by (simp add: step Let_def exp or.assoc)
  next
    case False
    have "Suc i \<noteq> k"
      using False assms(1) or_mask_covers mask_and_Suc by (metis digits_of_def)
    then have "Suc i < k" using Suc.prems(1) by simp
    then have "round_up fuel (m OR mask (Suc i)) (2 ^ Suc i) = Some (2 ^ k, mask k)"
      using Suc.IH [of "Suc i"] Suc.prems(2) by simp
    moreover have "push_bit (Suc 0) (2 ^ i) = (2 ^ Suc i :: 32 word)" by (simp add: push_bit_eq_mult)
    ultimately show ?thesis using False by (simp add: step Let_def or.assoc mult.commute)
  qed
qed simp

lemma power_of_two_correct:
  assumes "0 < sz"
  shows "\<exists>k\<le>32. power_of_two sz = Some (2 ^ k, mask k) \<and> unat sz \<le> 2 ^ k \<and> 2 ^ k < 2 * unat sz"
proof -
  define m where "m = sz - 1"
  have sz: "unat sz = Suc (unat m)" "m + 1 = sz"
    using assms(1) unatSuc [of m] by (auto simp: m_def word_neq_0_conv [symmetric] add.commute)
  obtain k where k: "k \<le> 32" "digits_of m k" using digits_of_exists by blast
  have bounds: "unat sz \<le> 2 ^ k" "2 ^ k < 2 * unat sz" using k(2) sz(1) by (auto simp: digits_of_def)
  show ?thesis
  proof (cases "sz AND m = 0")
    case True
    then obtain j where j: "j \<le> 32" "m = mask j" using word_and_Suc_mask sz(2) by metis
    then have "j = k" using or_mask_is_mask [OF k(2), of 0 j] by simp
    then have "power_of_two sz = Some (2 ^ k, mask k)"
      using True j sz(2) by (simp add: power_of_two_def m_def Let_def mask_eq_exp_minus_1)
    then show ?thesis using k(1) bounds by blast
  next
    case False
    then have "m \<noteq> 0" by auto
    then have "0 < k" using k(2) by (cases k) (auto simp: digits_of_def unat_eq_zero)
    then have "round_up 32 (m OR mask 0) (2 ^ 0) = Some (2 ^ k, mask k)"
      using round_up_correct [OF k(2), of 0 32] k(1) by simp
    then have "power_of_two sz = Some (2 ^ k, mask k)"
      using False by (simp add: power_of_two_def m_def Let_def)
    then show ?thesis using k(1) bounds by blast
  qed
qed

text \<open>The largest size that has a power of two above it.\<close>

lemma power_representable:
  fixes sz :: "32 word"
  assumes "k \<le> 32" and "unat sz \<le> 2 ^ k" and "2 ^ k < 2 * unat sz"
  shows "k \<le> 31 \<longleftrightarrow> sz \<le> 0x80000000"
proof -
  have iff: "sz \<le> 0x80000000 \<longleftrightarrow> unat sz \<le> 2 ^ 31" by (simp add: word_le_nat_alt)
  show ?thesis
  proof
    assume "k \<le> 31"
    then have "(2 :: nat) ^ k \<le> 2 ^ 31" by (intro power_increasing) auto
    then show "sz \<le> 0x80000000" unfolding iff using assms(2) by linarith
  next
    assume "sz \<le> 0x80000000"
    then have "(2 :: nat) ^ k < 2 ^ 32" unfolding iff using assms(3) by simp
    then show "k \<le> 31" by (simp only: power_strict_increasing_iff one_less_numeral_iff semiring_norm)
  qed
qed

section \<open>Every hash is an index into its table\<close>

lemma and_mask_index: "k \<le> 31 \<Longrightarrow> unat ((x :: 32 word) AND mask k) < unat (2 ^ k :: 32 word)"
proof -
  assume k: "k \<le> 31"
  have "unat (x AND mask k) \<le> unat (mask k :: 32 word)" by (rule iffD1 [OF word_le_nat_alt word_and_le1])
  moreover have "(2 :: nat) ^ k < 2 ^ 32" using k by (intro power_strict_increasing) auto
  then have "unat (of_nat (2 ^ k) :: 32 word) = 2 ^ k" unfolding unat_of_nat by simp
  then have "unat (2 ^ k :: 32 word) = 2 ^ k" by simp
  moreover have "unat (mask k :: 32 word) = 2 ^ k - 1" using unat_mask k by simp
  ultimately show ?thesis using zero_less_power [of "2 :: nat" k] by linarith
qed

text \<open>The size the tables are asked to have: the configured one, or one that is derived from the zone.\<close>

lemma default_size_positive: "0 < (if sz = 0 then max least n else sz)" if "0 < (least :: 32 word)"
  using that by (auto simp: less_max_iff_disj word_neq_0_conv)

lemma all_ones: "mask 32 = (- 1 :: 32 word)" and no_size: "(2 :: 32 word) ^ 32 = 0"
  by (simp_all add: mask_eq_exp_minus_1)

lemma table_size:
  fixes sz :: "32 word"
  assumes "0 < sz"
  shows "(if sz \<le> 0x80000000
          then \<exists>k\<le>31. power_of_two sz = Some (2 ^ k, mask k) \<and> unat sz \<le> 2 ^ k \<and> 2 ^ k < 2 * unat sz \<and>
                 (\<forall>x :: 32 word. unat (x AND mask k) < unat (2 ^ k :: 32 word))
          else power_of_two sz = Some (0, - 1))"
proof -
  obtain k where k: "k \<le> 32" "power_of_two sz = Some (2 ^ k, mask k)" "unat sz \<le> 2 ^ k" "2 ^ k < 2 * unat sz"
    using power_of_two_correct [OF assms] by blast
  have small: "k \<le> 31 \<longleftrightarrow> sz \<le> 0x80000000" using power_representable k by blast
  have "power_of_two sz = Some (0, - 1)" if "\<not> k \<le> 31"
  proof -
    have "k = 32" using that k(1) by simp
    then show ?thesis using k(2) by (simp only: all_ones no_size)
  qed
  moreover have "\<forall>x :: 32 word. unat (x AND mask k) < unat (2 ^ k :: 32 word)" if "k \<le> 31" using and_mask_index [OF that] by blast
  ultimately show ?thesis using small k by auto
qed

text \<open>
  C38. The sizes of the two global hash tables, for every configured size and every zone limit. The
  loop always ends. A size of up to the largest power of two of a word is rounded up to a power
  of two, at least that size and less than twice it, and every hash is then an index into the
  table. A larger size, which has no power of two in a word above it, gives a table of size 0 with
  a mask of all ones. The size is the configured one or, where none is configured, the 256th part
  of the zone limit and at least 32 or 16.
\<close>

theorem hash_tables_indexed:
  "(let n = (if sz = 0 then max 32 (signed_drop_bit 8 max_entries) else sz)
    in if n \<le> 0x80000000
       then \<exists>k\<le>31. ipc_hash_init sz max_entries = Some (2 ^ k, mask k) \<and> unat n \<le> 2 ^ k \<and> 2 ^ k < 2 * unat n \<and>
              (\<forall>space obj. IH_GLOBAL_HASH (mask k) space obj < unat (2 ^ k :: 32 word))
       else ipc_hash_init sz max_entries = Some (0, - 1)) \<and>
   (let n = (if sz = 0 then max 16 (signed_drop_bit 8 max_entries) else sz)
    in if n \<le> 0x80000000
       then \<exists>k\<le>31. ipc_marequest_init sz max_entries = Some (2 ^ k, mask k) \<and> unat n \<le> 2 ^ k \<and> 2 ^ k < 2 * unat n \<and>
              (\<forall>space name. IMAR_HASH (mask k) space name < unat (2 ^ k :: 32 word))
       else ipc_marequest_init sz max_entries = Some (0, - 1))"
proof -
  define d where "d = signed_drop_bit 8 max_entries"
  define n1 where "n1 = (if sz = 0 then max 32 d else sz)"
  define n2 where "n2 = (if sz = 0 then max 16 d else sz)"
  have "0 < n1" "0 < n2" unfolding n1_def n2_def by (rule default_size_positive, simp)+
  note t = this [THEN table_size]
  show ?thesis
    unfolding ipc_hash_init_def ipc_marequest_init_def IH_GLOBAL_HASH_def IMAR_HASH_def Let_def
      d_def [symmetric] n1_def [symmetric] n2_def [symmetric]
    using t(1) t(2) by (auto split: if_splits)
qed

theorem hash_tables_indexed_witness:
  "ipc_hash_init 100 1024 = Some (128, 127) \<and> ipc_hash_init 0x80000001 1024 = Some (0, - 1) \<and>
   (\<exists>k\<le>31. ipc_hash_init 100 1024 = Some (2 ^ k, mask k) \<and>
      (\<forall>space obj. IH_GLOBAL_HASH (mask k) space obj < unat (2 ^ k :: 32 word)))"
proof -
  have "ipc_hash_init 100 1024 = Some (128, 127)" by code_simp
  moreover have "ipc_hash_init 0x80000001 1024 = Some (0, - 1)"
    using hash_tables_indexed [of "0x80000001" 1024] by (simp add: Let_def)
  moreover have "\<exists>k\<le>31. ipc_hash_init 100 1024 = Some (2 ^ k, mask k) \<and>
      (\<forall>space obj. IH_GLOBAL_HASH (mask k) space obj < unat (2 ^ k :: 32 word))"
    using hash_tables_indexed [of 100 1024] by (auto simp: Let_def)
  ultimately show ?thesis by blast
qed

end
