(* ===== verification/KernelState.thy ===== *)
theory KernelState
  imports IpcMqueue
begin

text \<open>
  Reading an updated state of the kernel: what each elementary update changes and what it leaves
  alone. The proofs about ports, queues and rights rewrite with these rules.
\<close>

lemma upd_port_simps [simp]:
  "st_port (upd_port p f st) = (st_port st)(p := f (st_port st p))"
  "st_pset (upd_port p f st) = st_pset st"
  "st_thread (upd_port p f st) = st_thread st"
  "st_space (upd_port p f st) = st_space st"
  "st_ite (upd_port p f st) = st_ite st"
  "st_bucket (upd_port p f st) = st_bucket st"
  "ipc_hash_global_mask (upd_port p f st) = ipc_hash_global_mask st"
  "st_marequest (upd_port p f st) = st_marequest st"
  "ipc_marequest_table (upd_port p f st) = ipc_marequest_table st"
  "ipc_marequest_mask (upd_port p f st) = ipc_marequest_mask st"
  "ipc_port_timestamp_data (upd_port p f st) = ipc_port_timestamp_data st"
  "st_events (upd_port p f st) = st_events st"
  by (simp_all add: upd_port_def)

lemma upd_pset_simps [simp]:
  "st_pset (upd_pset p f st) = (st_pset st)(p := f (st_pset st p))"
  "st_port (upd_pset p f st) = st_port st"
  "st_thread (upd_pset p f st) = st_thread st"
  "st_space (upd_pset p f st) = st_space st"
  "st_ite (upd_pset p f st) = st_ite st"
  "st_bucket (upd_pset p f st) = st_bucket st"
  "ipc_hash_global_mask (upd_pset p f st) = ipc_hash_global_mask st"
  "st_events (upd_pset p f st) = st_events st"
  by (simp_all add: upd_pset_def)

lemma upd_thread_simps [simp]:
  "st_thread (upd_thread t f st) = (st_thread st)(t := f (st_thread st t))"
  "st_port (upd_thread t f st) = st_port st"
  "st_pset (upd_thread t f st) = st_pset st"
  "st_space (upd_thread t f st) = st_space st"
  "st_ite (upd_thread t f st) = st_ite st"
  "st_bucket (upd_thread t f st) = st_bucket st"
  "ipc_hash_global_mask (upd_thread t f st) = ipc_hash_global_mask st"
  "st_events (upd_thread t f st) = st_events st"
  by (simp_all add: upd_thread_def)

lemma emit_simps [simp]:
  "st_events (emit e st) = st_events st @ [e]"
  "st_port (emit e st) = st_port st"
  "st_pset (emit e st) = st_pset st"
  "st_thread (emit e st) = st_thread st"
  "st_space (emit e st) = st_space st"
  "st_ite (emit e st) = st_ite st"
  "st_bucket (emit e st) = st_bucket st"
  "ipc_hash_global_mask (emit e st) = ipc_hash_global_mask st"
  "st_marequest (emit e st) = st_marequest st"
  "ipc_marequest_table (emit e st) = ipc_marequest_table st"
  "ipc_marequest_mask (emit e st) = ipc_marequest_mask st"
  by (simp_all add: emit_def)

lemma space_update_simps [simp]:
  "st_port (upd_space space g st) = st_port st"
  "st_pset (upd_space space g st) = st_pset st"
  "st_thread (upd_space space g st) = st_thread st"
  "st_events (upd_space space g st) = st_events st"
  "st_marequest (upd_space space g st) = st_marequest st"
  "ipc_marequest_table (upd_space space g st) = ipc_marequest_table st"
  "ipc_marequest_mask (upd_space space g st) = ipc_marequest_mask st"
  "st_port (upd_ite a k st) = st_port st"
  "st_pset (upd_ite a k st) = st_pset st"
  "st_thread (upd_ite a k st) = st_thread st"
  "st_events (upd_ite a k st) = st_events st"
  "st_port (upd_bucket h b st) = st_port st"
  "st_pset (upd_bucket h b st) = st_pset st"
  "st_thread (upd_bucket h b st) = st_thread st"
  "st_events (upd_bucket h b st) = st_events st"
  by (simp_all add: upd_space_def upd_ite_def upd_bucket_def)

lemma upd_entry_simps [simp]:
  "st_port (upd_entry space entry g st) = st_port st"
  "st_pset (upd_entry space entry g st) = st_pset st"
  "st_thread (upd_entry space entry g st) = st_thread st"
  "st_events (upd_entry space entry g st) = st_events st"
  "st_bucket (upd_entry space entry g st) = st_bucket st"
  "ipc_hash_global_mask (upd_entry space entry g st) = ipc_hash_global_mask st"
  by (cases entry; simp)+

text \<open>Reference counts change nothing but themselves.\<close>

lemma reference_simps [simp]:
  "st_port (ip_reference p st) =
     (st_port st)(p := (st_port st p)\<lparr>ip_references := ip_references (st_port st p) + 1\<rparr>)"
  "st_port (ip_release p st) =
     (st_port st)(p := (st_port st p)\<lparr>ip_references := ip_references (st_port st p) - 1\<rparr>)"
  "st_space (ip_reference p st) = st_space st" "st_space (ip_release p st) = st_space st"
  "st_ite (ip_reference p st) = st_ite st" "st_ite (ip_release p st) = st_ite st"
  "st_bucket (ip_reference p st) = st_bucket st" "st_bucket (ip_release p st) = st_bucket st"
  "st_pset (ip_reference p st) = st_pset st" "st_pset (ip_release p st) = st_pset st"
  "st_thread (ip_reference p st) = st_thread st" "st_thread (ip_release p st) = st_thread st"
  "st_events (ip_reference p st) = st_events st" "st_events (ip_release p st) = st_events st"
  "ipc_hash_global_mask (ip_reference p st) = ipc_hash_global_mask st"
  "ipc_hash_global_mask (ip_release p st) = ipc_hash_global_mask st"
  by (simp_all add: ip_reference_def ip_release_def)

lemma pset_reference_simps [simp]:
  "st_port (ips_reference p st) = st_port st" "st_port (ips_release p st) = st_port st"
  "st_thread (ips_reference p st) = st_thread st" "st_thread (ips_release p st) = st_thread st"
  "st_events (ips_reference p st) = st_events st" "st_events (ips_release p st) = st_events st"
  "st_space (ips_reference p st) = st_space st" "st_space (ips_release p st) = st_space st"
  "st_pset (ips_reference p st) =
     (st_pset st)(p := (st_pset st p)\<lparr>ips_references := ips_references (st_pset st p) + 1\<rparr>)"
  "st_pset (ips_release p st) =
     (st_pset st)(p := (st_pset st p)\<lparr>ips_references := ips_references (st_pset st p) - 1\<rparr>)"
  by (simp_all add: ips_reference_def ips_release_def)

section \<open>A first state\<close>

text \<open>
  The kernel before any port, port set or space exists; concrete states are built from it.
\<close>

definition boot_port :: ipc_port where
  "boot_port = \<lparr>ip_references = 0, ip_active = False, ip_kotype = 0, ip_receiver_name = 0, ip_data = 0,
     ip_mscount = 0, ip_srights = 0, ip_sorights = 0, ip_nsrequest = 0, ip_pdrequest = 0, ip_dnrequests = None,
     ip_pset = 0, ip_seqno = 0, ip_msgcount = 0, ip_qlimit = 0, ip_blocked = [],
     ip_messages = \<lparr>imq_messages = [], imq_threads = []\<rparr>\<rparr>"

definition boot_pset :: ipc_pset where
  "boot_pset = \<lparr>ips_references = 0, ips_active = False, ips_local_name = 0,
     ips_messages = \<lparr>imq_messages = [], imq_threads = []\<rparr>\<rparr>"

definition boot_space :: ipc_space where
  "boot_space = \<lparr>is_references = 0, is_active = False, is_growing = False, is_table = [], is_table_next = 0,
     is_tree = \<lparr>ist_name = 0, ist_root = ITE_NULL, ist_ltree = [], ist_rtree = [], ist_current = ITE_NULL, ist_parent = []\<rparr>,
     is_tree_total = 0, is_tree_small = 0, is_tree_hash = 0, is_notify = 0\<rparr>"

definition null_entry :: ipc_entry where
  "null_entry = \<lparr>ie_bits = 0, ie_object = 0, ie_request = 0, ie_index = 0\<rparr>"

definition boot_kernel :: ipc_kernel where
  "boot_kernel = \<lparr>st_space = (\<lambda>_. boot_space),
     st_ite = (\<lambda>_. \<lparr>te_entry = null_entry, te_name = 0, te_space = 0\<rparr>), st_bucket = (\<lambda>_. []), ipc_hash_global_mask = 31,
     st_port = (\<lambda>_. boot_port), st_pset = (\<lambda>_. boot_pset),
     st_thread = (\<lambda>_. \<lparr>ith_state = MACH_MSG_SUCCESS, ith_msize = 0, ith_kmsg = None, ith_seqno = 0\<rparr>),
     st_marequest = (\<lambda>_. \<lparr>imar_space = 0, imar_name = 0, imar_soright = 0\<rparr>), ipc_marequest_table = (\<lambda>_. []),
     ipc_marequest_mask = 15, ipc_port_timestamp_data = 0, st_events = []\<rparr>"

lemmas boot_defs = boot_kernel_def boot_port_def boot_pset_def boot_space_def null_entry_def

end
