(* ===== verification/Circularity.thy ===== *)
theory Circularity
  imports IpcPort KernelState
begin

text \<open>
  Ports in transit: a receive right in a message leads to the port the message is queued at. A
  circle of such ports could never be received, so \<^verbatim>\<open>ipc_port_check_circularity\<close>
  (\<^verbatim>\<open>ipc/ipc_port.c\<close>) refuses to close one. Its own search for the end of a chain ends only
  because there are no circles.
\<close>

definition transit :: "(ipc_port_t \<Rightarrow> ipc_port) \<Rightarrow> (ipc_port_t \<times> ipc_port_t) set" where
  "transit ports = {(p, ip_destination (ports p)) |p. in_transit (ports p)}"

lemma transit_iff: "(p, q) \<in> transit ports \<longleftrightarrow> in_transit (ports p) \<and> q = ip_destination (ports p)"
  by (auto simp: transit_def)

lemma find_base_reaches:
  assumes "(p, q) \<in> (transit ports)\<^sup>*" and "\<not> in_transit (ports q)"
  shows "find_base ports p = Some q"
  using assms(1)
proof (induction rule: converse_rtrancl_induct)
  case base
  then show ?case using assms(2) by (simp add: find_base.simps)
next
  case (step y z)
  then show ?case by (subst find_base.simps) (simp add: transit_iff)
qed

lemma chain_ends:
  assumes "acyclic (transit ports)"
  shows "\<exists>q. (p, q) \<in> (transit ports)\<^sup>* \<and> \<not> in_transit (ports q)"
proof -
  have "wf ((transit ports)\<inverse>)" by (rule finite_acyclic_wf_converse [OF finite assms])
  then show ?thesis
  proof (induction p rule: wf_induct_rule)
    case (less p)
    show ?case
    proof (cases "in_transit (ports p)")
      case True
      then have "(p, ip_destination (ports p)) \<in> transit ports" by (simp add: transit_iff)
      then show ?thesis using less [of "ip_destination (ports p)"] by (auto intro: converse_rtrancl_into_rtrancl)
    qed auto
  qed
qed

lemma base_decides:
  assumes "acyclic (transit ports)" and "\<not> in_transit (ports port)"
  shows "\<exists>base. find_base ports dest = Some base \<and> (port = base \<longleftrightarrow> (dest, port) \<in> (transit ports)\<^sup>*)"
proof -
  obtain q where q: "(dest, q) \<in> (transit ports)\<^sup>*" "\<not> in_transit (ports q)" using chain_ends [OF assms(1)] by blast
  then have "find_base ports dest = Some q" by (rule find_base_reaches)
  moreover have "port = q" if "(dest, port) \<in> (transit ports)\<^sup>*"
    using find_base_reaches [OF that assms(2)] calculation by simp
  ultimately show ?thesis using q(1) by blast
qed

definition sent_to :: "ipc_port_t \<Rightarrow> ipc_port_t \<Rightarrow> ipc_kernel \<Rightarrow> ipc_kernel" where
  "sent_to port dest st = upd_port port (\<lambda>p. p\<lparr>ip_data := dest\<rparr>) (ip_reference dest st)"

lemma check_circularity_decides:
  assumes "acyclic (transit (st_port st))" and "\<not> in_transit (st_port st port)"
  shows "ipc_port_check_circularity locked port dest st =
    Some (if (dest, port) \<in> (transit (st_port st))\<^sup>* then (True, st) else (False, sent_to port dest st))"
proof -
  obtain base where b: "find_base (st_port st) dest = Some base"
      "port = base \<longleftrightarrow> (dest, port) \<in> (transit (st_port st))\<^sup>*"
    using base_decides [OF assms] by blast
  have "base = dest" if "\<not> in_transit (st_port st dest)"
    using b(1) that by (simp add: find_base.simps)
  then show ?thesis using b by (auto simp: ipc_port_check_circularity_def sent_to_def Let_def)
qed

lemma sent_to_transit: "transit (st_port (sent_to port dest st)) \<subseteq> insert (port, dest) (transit (st_port st))"
  by (auto simp: sent_to_def transit_def in_transit_def)

lemma sent_to_acyclic:
  assumes "acyclic (transit (st_port st))" and "(dest, port) \<notin> (transit (st_port st))\<^sup>*"
  shows "acyclic (transit (st_port (sent_to port dest st)))"
  using assms acyclic_subset [OF _ sent_to_transit] by (simp add: acyclic_insert)

text \<open>
  C12. Among ports in transit that form no circle, the check always returns. It reports a circle
  exactly if following the destinations from \<open>dest\<close> leads to the port, whether or not the lock
  for the quick check could be taken, and then changes nothing. Otherwise the port is in transit to
  \<open>dest\<close>, which has gained a reference, and there is still no circle.
\<close>

theorem check_circularity_correct:
  assumes "acyclic (transit (st_port st))" and "\<not> in_transit (st_port st port)"
  shows "\<exists>circular st'. ipc_port_check_circularity locked port dest st = Some (circular, st') \<and>
    (circular \<longleftrightarrow> (dest, port) \<in> (transit (st_port st))\<^sup>*) \<and> (circular \<longrightarrow> st' = st) \<and>
    (\<not> circular \<longrightarrow> ip_destination (st_port st' port) = dest \<and>
       ip_references (st_port st' dest) = ip_references (st_port st dest) + 1) \<and>
    acyclic (transit (st_port st'))"
proof (cases "(dest, port) \<in> (transit (st_port st))\<^sup>*")
  case True
  then show ?thesis using check_circularity_decides [OF assms] assms(1) by auto
next
  case False
  then have "port \<noteq> dest" by auto
  then show ?thesis
    using False check_circularity_decides [OF assms] sent_to_acyclic [OF assms(1) False] by (auto simp: sent_to_def)
qed

definition transit_kernel :: ipc_kernel where
  "transit_kernel = boot_kernel\<lparr>st_port := (\<lambda>_. boot_port)
     (64 := boot_port\<lparr>ip_active := True\<rparr>, 128 := boot_port\<lparr>ip_active := True, ip_data := 64\<rparr>,
      192 := boot_port\<lparr>ip_active := True, ip_data := 128\<rparr>)\<rparr>"

lemma transit_kernel_transit: "transit (st_port transit_kernel) = {(128, 64), (192, 128)}"
  by (auto simp: set_eq_iff transit_iff transit_kernel_def in_transit_def boot_port_def MACH_PORT_NULL_def)

theorem check_circularity_correct_witness:
  "acyclic (transit (st_port transit_kernel)) \<and>
   (\<exists>st'. ipc_port_check_circularity False 64 192 transit_kernel = Some (True, st') \<and> st' = transit_kernel)"
proof -
  have r: "(192, 64) \<in> (transit (st_port transit_kernel))\<^sup>*"
    unfolding transit_kernel_transit by (meson insertI1 insertI2 converse_rtrancl_into_rtrancl r_into_rtrancl)
  have a: "acyclic (transit (st_port transit_kernel))"
    unfolding transit_kernel_transit by (rule acyclicI_order [where f = "\<lambda>p. unat p"]) auto
  have "\<not> in_transit (st_port transit_kernel 64)" by (simp add: transit_kernel_def in_transit_def boot_port_def)
  then show ?thesis using check_circularity_correct [OF a, of 64 False 192] r a by auto
qed

end
