(* ===== verification/IpcRight.thy ===== *)
theory IpcRight
  imports IpcMarequest
begin

text \<open>
  Rights of a space (\<^verbatim>\<open>ipc/ipc_right.c\<close>, up to \<^verbatim>\<open>ipc_right_info\<close>) and the destruction
  of ports (\<^verbatim>\<open>ipc_port_destroy\<close> of \<^verbatim>\<open>ipc/ipc_port.c\<close>), which are mutually
  dependent. The kernel is built with \<^verbatim>\<open>MACH_IPC_COMPAT\<close> and without assertions.
\<close>

section \<open>Dead-name requests and dead ports\<close>

definition ipc_right_dncancel ::
  "ipc_space_t \<Rightarrow> ipc_port_t \<Rightarrow> mach_port_t \<Rightarrow> ipc_entry_t \<Rightarrow> ipc_kernel \<Rightarrow> ipc_port_t \<times> ipc_kernel" where
  "ipc_right_dncancel space port name entry st =
     (let (dnrequest, st) = ipc_port_dncancel port (ie_request (get_entry st space entry)) st;
          st = upd_entry space entry (\<lambda>e. e\<lparr>ie_request := 0\<rparr>) st
      in if ie_bits (get_entry st space entry) AND IE_BITS_COMPAT \<noteq> 0
         then (IP_NULL, is_release space st)
         else (dnrequest, st))"

definition ipc_right_dncancel_macro ::
  "ipc_space_t \<Rightarrow> ipc_port_t \<Rightarrow> mach_port_t \<Rightarrow> ipc_entry_t \<Rightarrow> ipc_kernel \<Rightarrow> ipc_port_t \<times> ipc_kernel" where
  "ipc_right_dncancel_macro space port name entry st =
     (if ie_request (get_entry st space entry) = 0 then (IP_NULL, st)
      else ipc_right_dncancel space port name entry st)"

text \<open>The first result tells whether the entry is in use.\<close>

definition ipc_right_inuse ::
  "ipc_space_t \<Rightarrow> mach_port_t \<Rightarrow> ipc_entry_t \<Rightarrow> ipc_kernel \<Rightarrow> (bool \<times> ipc_kernel) option" where
  "ipc_right_inuse space name entry st =
     (let e = get_entry st space entry;
          bits = ie_bits e;
          type = IE_BITS_TYPE bits;
          port = ie_object e
      in if type = MACH_PORT_TYPE_NONE then Some (False, st)
         else if bits AND IE_BITS_COMPAT \<noteq> 0 \<and>
                 (type = MACH_PORT_TYPE_SEND \<or> type = MACH_PORT_TYPE_SEND_ONCE) \<and>
                 \<not> ip_active (st_port st port)
         then do {
           st \<leftarrow> (if type = MACH_PORT_TYPE_SEND then do {
                     st \<leftarrow> (if bits AND IE_BITS_MAREQUEST \<noteq> 0 then ipc_marequest_cancel space name st else Some st);
                     ipc_hash_delete st space port name entry
                   } else Some st);
           let st = ip_release port st;
           Some (False,
             upd_entry space entry
               (\<lambda>e. e\<lparr>ie_request := 0, ie_object := IO_NULL,
                      ie_bits := ie_bits e AND NOT IE_BITS_RIGHT_MASK\<rparr>) st)
         }
         else Some (True, st))"

text \<open>The first result tells whether the port has died.\<close>

definition ipc_right_check ::
  "ipc_space_t \<Rightarrow> ipc_port_t \<Rightarrow> mach_port_t \<Rightarrow> ipc_entry_t \<Rightarrow> ipc_kernel \<Rightarrow> (bool \<times> ipc_kernel) option" where
  "ipc_right_check space port name entry st =
     (if ip_active (st_port st port) then Some (False, st)
      else
        let bits = ie_bits (get_entry st space entry)
        in do {
          (bits, st) \<leftarrow>
            (if bits AND MACH_PORT_TYPE_SEND \<noteq> 0 then do {
               (bits, st) \<leftarrow>
                 (if bits AND IE_BITS_MAREQUEST \<noteq> 0 then do {
                    st \<leftarrow> ipc_marequest_cancel space name st;
                    Some (bits AND NOT IE_BITS_MAREQUEST, st)
                  } else Some (bits, st));
               st \<leftarrow> ipc_hash_delete st space port name entry;
               Some (bits, st)
             } else Some (bits, st));
          let st = ip_release port st;
          if bits AND IE_BITS_COMPAT \<noteq> 0 then do {
            let st = upd_entry space entry (\<lambda>e. e\<lparr>ie_request := 0, ie_object := IO_NULL\<rparr>) st;
            st \<leftarrow> ipc_entry_dealloc st space name entry;
            Some (True, st)
          } else
            let bits = (bits AND NOT IE_BITS_TYPE_MASK) OR MACH_PORT_TYPE_DEAD_NAME;
                bits = (if ie_request (get_entry st space entry) \<noteq> 0 then bits + 1 else bits)
            in Some (True,
                 upd_entry space entry (\<lambda>e. e\<lparr>ie_request := 0, ie_bits := bits, ie_object := IO_NULL\<rparr>) st)
        })"

section \<open>Destroying rights and ports\<close>

text \<open>
  The last part of destroying a right of a live port, after its entry is gone. \<open>destroy\<close> is
  \<^verbatim>\<open>ipc_port_destroy\<close>.
\<close>

definition drop_right ::
  "(ipc_port_t \<Rightarrow> ipc_kernel \<Rightarrow> ipc_kernel option) \<Rightarrow> ipc_port_t \<Rightarrow> mach_port_type_t \<Rightarrow> ipc_port_t \<Rightarrow> mach_port_t
     \<Rightarrow> ipc_kernel \<Rightarrow> ipc_kernel option" where
  "drop_right destroy port type dnrequest name st =
     (let (nsrequest, mscount, st) =
            (if type AND MACH_PORT_TYPE_SEND \<noteq> 0 then drop_send port st else (IP_NULL, 0, st))
      in do {
        st \<leftarrow> (if type AND MACH_PORT_TYPE_RECEIVE \<noteq> 0 then destroy port (ipc_port_clear_receiver port st)
               else if type AND MACH_PORT_TYPE_SEND_ONCE \<noteq> 0 then Some (emit (Notify_send_once port) st)
               else Some (ip_release port st));
        Some (notify_port_deleted dnrequest name (notify_no_senders nsrequest mscount st))
      })"

definition is_port_type :: "mach_port_type_t \<Rightarrow> bool" where
  "is_port_type type \<longleftrightarrow> type = MACH_PORT_TYPE_SEND \<or> type = MACH_PORT_TYPE_RECEIVE \<or>
     type = MACH_PORT_TYPE_SEND_RECEIVE \<or> type = MACH_PORT_TYPE_SEND_ONCE"

text \<open>The case of \<^verbatim>\<open>ipc_right_destroy\<close> for the rights of a port.\<close>

definition destroy_port_right ::
  "(ipc_port_t \<Rightarrow> ipc_kernel \<Rightarrow> ipc_kernel option) \<Rightarrow> ipc_space_t \<Rightarrow> mach_port_t \<Rightarrow> ipc_entry_t
     \<Rightarrow> ipc_kernel \<Rightarrow> (kern_return_t \<times> ipc_kernel) option" where
  "destroy_port_right destroy space name entry st =
     (let e = get_entry st space entry;
          bits = ie_bits e;
          type = IE_BITS_TYPE bits;
          port = ie_object e
      in do {
        st \<leftarrow> (if bits AND IE_BITS_MAREQUEST \<noteq> 0 then ipc_marequest_cancel space name st else Some st);
        st \<leftarrow> (if type = MACH_PORT_TYPE_SEND then ipc_hash_delete st space port name entry else Some st);
        if \<not> ip_active (st_port st port) then do {
          let st = ip_release port st;
          let st = upd_entry space entry (\<lambda>e. e\<lparr>ie_request := 0, ie_object := IO_NULL\<rparr>) st;
          st \<leftarrow> ipc_entry_dealloc st space name entry;
          Some (if bits AND IE_BITS_COMPAT \<noteq> 0 then KERN_INVALID_NAME else KERN_SUCCESS, st)
        } else do {
          let (dnrequest, st) = ipc_right_dncancel_macro space port name entry st;
          let st = upd_entry space entry (\<lambda>e. e\<lparr>ie_object := IO_NULL\<rparr>) st;
          st \<leftarrow> ipc_entry_dealloc st space name entry;
          st \<leftarrow> drop_right destroy port type dnrequest name st;
          Some (KERN_SUCCESS, st)
        }
      })"

definition right_destroy ::
  "(ipc_port_t \<Rightarrow> ipc_kernel \<Rightarrow> ipc_kernel option) \<Rightarrow> ipc_space_t \<Rightarrow> mach_port_t \<Rightarrow> ipc_entry_t
     \<Rightarrow> ipc_kernel \<Rightarrow> (kern_return_t \<times> ipc_kernel) option" where
  "right_destroy destroy space name entry st =
     (let e = get_entry st space entry;
          type = IE_BITS_TYPE (ie_bits e)
      in if type = MACH_PORT_TYPE_DEAD_NAME then do {
           st \<leftarrow> ipc_entry_dealloc st space name entry;
           Some (KERN_SUCCESS, st)
         }
         else if type = MACH_PORT_TYPE_PORT_SET then do {
           let pset = ie_object e;
           let st = upd_entry space entry (\<lambda>e. e\<lparr>ie_object := IO_NULL\<rparr>) st;
           st \<leftarrow> ipc_entry_dealloc st space name entry;
           Some (KERN_SUCCESS, ipc_pset_destroy pset st)
         }
         else if is_port_type type then destroy_port_right destroy space name entry st
         else None)"

text \<open>
  A compat entry for a dead port is destroyed. The port is dead, so the destruction of its right
  cannot reach \<^verbatim>\<open>ipc_port_destroy\<close> again; the call is therefore made with a
  destruction that fails.
\<close>

definition ipc_port_delete_compat ::
  "ipc_port_t \<Rightarrow> ipc_space_t \<Rightarrow> mach_port_t \<Rightarrow> ipc_kernel \<Rightarrow> ipc_kernel option" where
  "ipc_port_delete_compat port space name st = do {
     st \<leftarrow> (case ipc_right_lookup_write space name st of
              (Inl _, st) \<Rightarrow> Some st
            | (Inr entry, st) \<Rightarrow>
                if ie_object (get_entry st space entry) = port then do {
                  let (sright, st) = ipc_space_make_notify space st;
                  (kr, st) \<leftarrow> right_destroy (\<lambda>_ _. None) space name entry st;
                  Some (if IP_VALID sright then emit (Notify_port_deleted_compat sright name) st else st)
                } else Some st);
     Some (is_release space st)
   }"

text \<open>The dead-name notifications of a port, for the elements of its table from the first on.\<close>

fun dead_name_loop :: "ipc_port_t \<Rightarrow> ipc_port_request list \<Rightarrow> ipc_kernel \<Rightarrow> ipc_kernel option" where
  "dead_name_loop port [] st = Some st"
| "dead_name_loop port (ipr # iprs) st =
     (if ipr_name ipr = MACH_PORT_NULL then dead_name_loop port iprs st
      else if ipr_spacep (ipr_soright ipr) then do {
        st \<leftarrow> ipc_port_delete_compat port (ipr_space (ipr_soright ipr)) (ipr_name ipr) st;
        dead_name_loop port iprs st
      } else dead_name_loop port iprs (emit (Notify_dead_name (ipr_soright ipr) (ipr_name ipr)) st))"

text \<open>The messages queued in a dead port are destroyed, each with its reference for the port.\<close>

definition destroy_kmsgs :: "ipc_port_t \<Rightarrow> ipc_kernel \<Rightarrow> ipc_kernel" where
  "destroy_kmsgs port st =
     fold (\<lambda>kmsg st. emit (Kmsg_destroy (kmsg\<lparr>msgh_remote_port := MACH_PORT_NULL\<rparr>)) (ip_release port st))
       (imq_messages (ip_messages (st_port st port)))
       (upd_mq (Port_mq port) (\<lambda>q. q\<lparr>imq_messages := []\<rparr>) st)"

definition port_dies :: "ipc_port_t \<Rightarrow> ipc_kernel \<Rightarrow> ipc_kernel option" where
  "port_dies port st =
     (let st = fold (wake MACH_MSG_SUCCESS) (ip_blocked (st_port st port)) st;
          (timestamp, st) = ipc_port_timestamp st;
          st = upd_port port (\<lambda>p. p\<lparr>ip_blocked := [], ip_active := False, ip_data := timestamp\<rparr>) st;
          nsrequest = ip_nsrequest (st_port st port);
          st = (if nsrequest \<noteq> IP_NULL then emit (Notify_send_once nsrequest) st else st);
          st = destroy_kmsgs port st
      in do {
        st \<leftarrow> (case ip_dnrequests (st_port st port) of
                 None \<Rightarrow> Some st
               | Some t \<Rightarrow>
                   dead_name_loop port (drop 1 (take (dnrequests_sizes (ipr_size t)) (ipr_table t))) st);
        let st = (if ip_kotype (st_port st port) \<noteq> 0 then emit (Kobject_destroy port) st else st);
        Some (ip_release port st)
      })"

text \<open>
  A port with a backup is sent to the backup instead, unless that would create a circle.
  \<open>locked\<close> is the outcome of the quick check's attempt to lock.
\<close>

definition ipc_port_destroy :: "bool \<Rightarrow> ipc_port_t \<Rightarrow> ipc_kernel \<Rightarrow> ipc_kernel option" where
  "ipc_port_destroy locked port st =
     (let pdrequest = ip_pdrequest (st_port st port)
      in if pdrequest \<noteq> IP_NULL then
           let st = upd_port port
                 (\<lambda>p. p\<lparr>ip_pdrequest := IP_NULL, ip_receiver_name := MACH_PORT_NULL, ip_data := IP_NULL\<rparr>) st
           in if ip_pdsendp pdrequest then do {
                let sright = ip_pdsend pdrequest;
                (circular, st) \<leftarrow> ipc_port_check_circularity locked port sright st;
                if \<not> circular then Some (emit (Notify_port_destroyed_compat sright port) st)
                else port_dies port (ipc_port_release_send sright st)
              } else do {
                (circular, st) \<leftarrow> ipc_port_check_circularity locked port pdrequest st;
                if \<not> circular then Some (emit (Notify_port_destroyed pdrequest port) st)
                else port_dies port (ipc_port_release_sonce pdrequest st)
              }
         else port_dies port st)"

definition ipc_right_destroy ::
  "bool \<Rightarrow> ipc_space_t \<Rightarrow> mach_port_t \<Rightarrow> ipc_entry_t \<Rightarrow> ipc_kernel \<Rightarrow> (kern_return_t \<times> ipc_kernel) option" where
  "ipc_right_destroy locked = right_destroy (ipc_port_destroy locked)"

definition ipc_port_release_receive :: "bool \<Rightarrow> ipc_port_t \<Rightarrow> ipc_kernel \<Rightarrow> ipc_kernel option" where
  "ipc_port_release_receive locked port st = do {
     let dest = ip_destination (st_port st port);
     st \<leftarrow> ipc_port_destroy locked port st;
     Some (if dest \<noteq> IP_NULL then ip_release dest st else st)
   }"

definition ipc_port_dealloc_special :: "bool \<Rightarrow> ipc_port_t \<Rightarrow> ipc_kernel \<Rightarrow> ipc_kernel option" where
  "ipc_port_dealloc_special locked port st =
     ipc_port_destroy locked port
       (ipc_port_clear_receiver port
         (upd_port port (\<lambda>p. p\<lparr>ip_receiver_name := MACH_PORT_NULL, ip_data := IS_NULL\<rparr>) st))"

definition ipc_right_clean ::
  "bool \<Rightarrow> ipc_space_t \<Rightarrow> mach_port_t \<Rightarrow> ipc_entry_t \<Rightarrow> ipc_kernel \<Rightarrow> ipc_kernel option" where
  "ipc_right_clean locked space name entry st =
     (let e = get_entry st space entry;
          type = IE_BITS_TYPE (ie_bits e);
          port = ie_object e
      in if type = MACH_PORT_TYPE_DEAD_NAME then Some st
         else if type = MACH_PORT_TYPE_PORT_SET then Some (ipc_pset_destroy port st)
         else if is_port_type type then
           if \<not> ip_active (st_port st port) then Some (ip_release port st)
           else
             let (dnrequest, st) = ipc_right_dncancel_macro space port name entry st
             in drop_right (ipc_port_destroy locked) port type dnrequest name st
         else None)"

section \<open>User references\<close>

definition MACH_PORT_UREFS_MAX :: "32 word" where "MACH_PORT_UREFS_MAX = 0xffff"

text \<open>\<^verbatim>\<open>delta\<close> is a signed 32-bit integer, kept as a word.\<close>

definition MACH_PORT_UREFS_OVERFLOW :: "32 word \<Rightarrow> 32 word \<Rightarrow> bool" where
  "MACH_PORT_UREFS_OVERFLOW urefs delta \<longleftrightarrow>
     0 < sint delta \<and> (urefs + delta \<le> urefs \<or> MACH_PORT_UREFS_MAX < urefs + delta)"

definition MACH_PORT_UREFS_UNDERFLOW :: "32 word \<Rightarrow> 32 word \<Rightarrow> bool" where
  "MACH_PORT_UREFS_UNDERFLOW urefs delta \<longleftrightarrow> sint delta < 0 \<and> urefs < - delta"

section \<open>Requests for dead-name notifications\<close>

text \<open>
  Whenever the table of requests is full it is grown with the port unlocked, and everything is
  tried again; the list gives for each time the memory obtained and what happens meanwhile.
\<close>

fun ipc_right_dnrequest ::
  "(ipc_port_request list option \<times> (ipc_kernel \<Rightarrow> ipc_kernel)) list \<Rightarrow> ipc_space_t \<Rightarrow> mach_port_t \<Rightarrow> bool
     \<Rightarrow> ipc_port_t \<Rightarrow> ipc_kernel \<Rightarrow> ((kern_return_t + ipc_port_t) \<times> ipc_kernel) option" where
  "ipc_right_dnrequest ws space name immediate notify st =
     (case ipc_right_lookup_write space name st of
        (Inl kr, st) \<Rightarrow> Some (Inl kr, st)
      | (Inr entry, st) \<Rightarrow>
          let e = get_entry st space entry;
              bits = ie_bits e;
              port = ie_object e;
              dead = (\<lambda>bits st.
                if bits AND MACH_PORT_TYPE_DEAD_NAME \<noteq> 0 \<and> immediate \<and> notify \<noteq> IP_NULL then
                  if MACH_PORT_UREFS_OVERFLOW (IE_BITS_UREFS bits) 1
                  then Some (Inl KERN_UREFS_OVERFLOW, st)
                  else Some (Inr IP_NULL,
                         emit (Notify_dead_name notify name)
                           (upd_entry space entry (\<lambda>e. e\<lparr>ie_bits := bits + 1\<rparr>) st))
                else if bits AND MACH_PORT_TYPE_PORT_OR_DEAD \<noteq> 0 then Some (Inl KERN_INVALID_ARGUMENT, st)
                else Some (Inl KERN_INVALID_RIGHT, st))
          in if bits AND MACH_PORT_TYPE_PORT_RIGHTS \<noteq> 0 then do {
               (died, st) \<leftarrow> ipc_right_check space port name entry st;
               if \<not> died then
                 if notify = IP_NULL then
                   if bits AND IE_BITS_COMPAT \<noteq> 0 then Some (Inr IP_NULL, st)
                   else let (previous, st) = ipc_right_dncancel_macro space port name entry st
                        in Some (Inr previous, st)
                 else
                   let (previous, st) = ipc_right_dncancel_macro space port name entry st
                   in (case ipc_port_dnrequest port name notify st of
                         (Inr request, st) \<Rightarrow>
                           Some (Inr previous,
                             upd_entry space entry
                               (\<lambda>e. e\<lparr>ie_request := request, ie_bits := bits AND NOT IE_BITS_COMPAT\<rparr>) st)
                       | (Inl _, st) \<Rightarrow>
                           (case ws of
                              [] \<Rightarrow> None
                            | (alloc, other) # ws \<Rightarrow>
                                (case ipc_port_dngrow alloc other port st of
                                   (kr, st) \<Rightarrow>
                                     if kr \<noteq> KERN_SUCCESS then Some (Inl kr, st)
                                     else ipc_right_dnrequest ws space name immediate notify st)))
               else if bits AND IE_BITS_COMPAT \<noteq> 0 then Some (Inl KERN_INVALID_NAME, st)
               else dead (ie_bits (get_entry st space entry)) st
             }
             else dead bits st)"

declare ipc_right_dnrequest.simps [simp del]

text \<open>Releasing a user reference of a dead name.\<close>

definition dealloc_dead_name ::
  "ipc_space_t \<Rightarrow> mach_port_t \<Rightarrow> ipc_entry_t \<Rightarrow> ipc_kernel \<Rightarrow> (kern_return_t \<times> ipc_kernel) option" where
  "dealloc_dead_name space name entry st =
     (let bits = ie_bits (get_entry st space entry)
      in do {
        st \<leftarrow> (if IE_BITS_UREFS bits = 1 then ipc_entry_dealloc st space name entry
               else Some (upd_entry space entry (\<lambda>e. e\<lparr>ie_bits := bits - 1\<rparr>) st));
        Some (KERN_SUCCESS, st)
      })"

text \<open>Giving up a send-once right of a live port.\<close>

definition dealloc_send_once ::
  "ipc_space_t \<Rightarrow> mach_port_t \<Rightarrow> ipc_entry_t \<Rightarrow> ipc_port_t \<Rightarrow> ipc_kernel \<Rightarrow> (kern_return_t \<times> ipc_kernel) option" where
  "dealloc_send_once space name entry port st = do {
     let (dnrequest, st) = ipc_right_dncancel_macro space port name entry st;
     let st = upd_entry space entry (\<lambda>e. e\<lparr>ie_object := IO_NULL\<rparr>) st;
     st \<leftarrow> ipc_entry_dealloc st space name entry;
     Some (KERN_SUCCESS, notify_port_deleted dnrequest name (emit (Notify_send_once port) st))
   }"

text \<open>Giving up the last user reference of a pure send right of a live port.\<close>

definition dealloc_last_send ::
  "ipc_space_t \<Rightarrow> mach_port_t \<Rightarrow> ipc_entry_t \<Rightarrow> ipc_port_t \<Rightarrow> ipc_kernel \<Rightarrow> ipc_kernel option" where
  "dealloc_last_send space name entry port st = do {
     let bits = ie_bits (get_entry st space entry);
     let (nsrequest, mscount, st) = drop_send port st;
     let (dnrequest, st) = ipc_right_dncancel_macro space port name entry st;
     st \<leftarrow> ipc_hash_delete st space port name entry;
     st \<leftarrow> (if bits AND IE_BITS_MAREQUEST \<noteq> 0 then ipc_marequest_cancel space name st else Some st);
     let st = ip_release port st;
     let st = upd_entry space entry (\<lambda>e. e\<lparr>ie_object := IO_NULL\<rparr>) st;
     st \<leftarrow> ipc_entry_dealloc st space name entry;
     Some (notify_port_deleted dnrequest name (notify_no_senders nsrequest mscount st))
   }"

text \<open>Giving up the last user reference of the send right of a send-and-receive right.\<close>

definition drop_send_of_receive ::
  "ipc_space_t \<Rightarrow> ipc_entry_t \<Rightarrow> ipc_port_t \<Rightarrow> ipc_kernel \<Rightarrow> ipc_kernel" where
  "drop_send_of_receive space entry port st =
     (let (nsrequest, mscount, st) = drop_send port st;
          st = upd_entry space entry
            (\<lambda>e. e\<lparr>ie_bits := ie_bits e AND NOT (IE_BITS_UREFS_MASK OR MACH_PORT_TYPE_SEND)\<rparr>) st
      in notify_no_senders nsrequest mscount st)"

definition ipc_right_dealloc ::
  "ipc_space_t \<Rightarrow> mach_port_t \<Rightarrow> ipc_entry_t \<Rightarrow> ipc_kernel \<Rightarrow> (kern_return_t \<times> ipc_kernel) option" where
  "ipc_right_dealloc space name entry st =
     (let e = get_entry st space entry;
          bits = ie_bits e;
          type = IE_BITS_TYPE bits;
          port = ie_object e
      in if type = MACH_PORT_TYPE_DEAD_NAME then dealloc_dead_name space name entry st
         else if type = MACH_PORT_TYPE_SEND_ONCE then do {
           (died, st) \<leftarrow> ipc_right_check space port name entry st;
           if died then
             if bits AND IE_BITS_COMPAT \<noteq> 0 then Some (KERN_INVALID_NAME, st)
             else dealloc_dead_name space name entry st
           else dealloc_send_once space name entry port st
         }
         else if type = MACH_PORT_TYPE_SEND then do {
           (died, st) \<leftarrow> ipc_right_check space port name entry st;
           if died then
             if bits AND IE_BITS_COMPAT \<noteq> 0 then Some (KERN_INVALID_NAME, st)
             else dealloc_dead_name space name entry st
           else if IE_BITS_UREFS bits = 1 then do {
             st \<leftarrow> dealloc_last_send space name entry port st;
             Some (KERN_SUCCESS, st)
           }
           else Some (KERN_SUCCESS, upd_entry space entry (\<lambda>e. e\<lparr>ie_bits := bits - 1\<rparr>) st)
         }
         else if type = MACH_PORT_TYPE_SEND_RECEIVE then
           if IE_BITS_UREFS bits = 1 then Some (KERN_SUCCESS, drop_send_of_receive space entry port st)
           else Some (KERN_SUCCESS, upd_entry space entry (\<lambda>e. e\<lparr>ie_bits := bits - 1\<rparr>) st)
         else Some (KERN_INVALID_RIGHT, st))"

section \<open>Changing the user-reference count\<close>

text \<open>One definition for each kind of right.\<close>

definition delta_port_set ::
  "ipc_space_t \<Rightarrow> mach_port_t \<Rightarrow> ipc_entry_t \<Rightarrow> 32 word \<Rightarrow> ipc_kernel \<Rightarrow> (kern_return_t \<times> ipc_kernel) option" where
  "delta_port_set space name entry delta st =
     (let e = get_entry st space entry
      in if ie_bits e AND MACH_PORT_TYPE_PORT_SET = 0 then Some (KERN_INVALID_RIGHT, st)
         else if delta = 0 then Some (KERN_SUCCESS, st)
         else if delta \<noteq> - 1 then Some (KERN_INVALID_VALUE, st)
         else do {
           let pset = ie_object e;
           let st = upd_entry space entry (\<lambda>e. e\<lparr>ie_object := IO_NULL\<rparr>) st;
           st \<leftarrow> ipc_entry_dealloc st space name entry;
           Some (KERN_SUCCESS, ipc_pset_destroy pset st)
         })"

definition delta_receive ::
  "bool \<Rightarrow> ipc_space_t \<Rightarrow> mach_port_t \<Rightarrow> ipc_entry_t \<Rightarrow> 32 word \<Rightarrow> ipc_kernel
     \<Rightarrow> (kern_return_t \<times> ipc_kernel) option" where
  "delta_receive locked space name entry delta st =
     (let e = get_entry st space entry;
          bits = ie_bits e;
          port = ie_object e
      in if bits AND MACH_PORT_TYPE_RECEIVE = 0 then Some (KERN_INVALID_RIGHT, st)
         else if delta = 0 then Some (KERN_SUCCESS, st)
         else if delta \<noteq> - 1 then Some (KERN_INVALID_VALUE, st)
         else do {
           (bits, st) \<leftarrow> (if bits AND IE_BITS_MAREQUEST \<noteq> 0 then do {
               st \<leftarrow> ipc_marequest_cancel space name st;
               Some (bits AND NOT IE_BITS_MAREQUEST, st)
             } else Some (bits, st));
           (dnrequest, st) \<leftarrow>
             (if bits AND IE_BITS_COMPAT \<noteq> 0 then do {
                let (dnrequest, st) = ipc_right_dncancel space port name entry st;
                let st = upd_entry space entry (\<lambda>e. e\<lparr>ie_object := IO_NULL\<rparr>) st;
                st \<leftarrow> ipc_entry_dealloc st space name entry;
                Some (dnrequest, st)
              } else if bits AND MACH_PORT_TYPE_SEND \<noteq> 0 then
                let bits = (bits AND NOT IE_BITS_TYPE_MASK) OR MACH_PORT_TYPE_DEAD_NAME;
                    bits = (if ie_request (get_entry st space entry) \<noteq> 0 then bits + 1 else bits)
                in Some (IP_NULL,
                     upd_entry space entry (\<lambda>e. e\<lparr>ie_request := 0, ie_bits := bits, ie_object := IO_NULL\<rparr>) st)
              else do {
                let (dnrequest, st) = ipc_right_dncancel_macro space port name entry st;
                let st = upd_entry space entry (\<lambda>e. e\<lparr>ie_object := IO_NULL\<rparr>) st;
                st \<leftarrow> ipc_entry_dealloc st space name entry;
                Some (dnrequest, st)
              });
           st \<leftarrow> ipc_port_destroy locked port (ipc_port_clear_receiver port st);
           Some (KERN_SUCCESS, notify_port_deleted dnrequest name st)
         })"

definition delta_send_once ::
  "ipc_space_t \<Rightarrow> mach_port_t \<Rightarrow> ipc_entry_t \<Rightarrow> 32 word \<Rightarrow> ipc_kernel \<Rightarrow> (kern_return_t \<times> ipc_kernel) option" where
  "delta_send_once space name entry delta st =
     (let e = get_entry st space entry;
          bits = ie_bits e;
          port = ie_object e
      in if bits AND MACH_PORT_TYPE_SEND_ONCE = 0 then Some (KERN_INVALID_RIGHT, st)
         else if 0 < sint delta \<or> sint delta < - 1 then Some (KERN_INVALID_VALUE, st)
         else do {
           (died, st) \<leftarrow> ipc_right_check space port name entry st;
           if died then
             Some (if bits AND IE_BITS_COMPAT \<noteq> 0 then KERN_INVALID_NAME else KERN_INVALID_RIGHT, st)
           else if delta = 0 then Some (KERN_SUCCESS, st)
           else dealloc_send_once space name entry port st
         })"

definition delta_dead_name ::
  "ipc_space_t \<Rightarrow> mach_port_t \<Rightarrow> ipc_entry_t \<Rightarrow> 32 word \<Rightarrow> ipc_kernel \<Rightarrow> (kern_return_t \<times> ipc_kernel) option" where
  "delta_dead_name space name entry delta st =
     (let e = get_entry st space entry;
          bits = ie_bits e;
          change = (\<lambda>bits st.
            let urefs = IE_BITS_UREFS bits
            in if MACH_PORT_UREFS_UNDERFLOW urefs delta then Some (KERN_INVALID_VALUE, st)
               else if MACH_PORT_UREFS_OVERFLOW urefs delta then Some (KERN_UREFS_OVERFLOW, st)
               else if urefs + delta = 0 then do {
                 st \<leftarrow> ipc_entry_dealloc st space name entry;
                 Some (KERN_SUCCESS, st)
               } else Some (KERN_SUCCESS, upd_entry space entry (\<lambda>e. e\<lparr>ie_bits := bits + delta\<rparr>) st))
      in if bits AND MACH_PORT_TYPE_SEND_RIGHTS \<noteq> 0 then do {
           (died, st) \<leftarrow> ipc_right_check space (ie_object e) name entry st;
           if \<not> died then Some (KERN_INVALID_RIGHT, st)
           else if bits AND IE_BITS_COMPAT \<noteq> 0 then Some (KERN_INVALID_NAME, st)
           else change (ie_bits (get_entry st space entry)) st
         }
         else if bits AND MACH_PORT_TYPE_DEAD_NAME = 0 then Some (KERN_INVALID_RIGHT, st)
         else change bits st)"

definition delta_send ::
  "ipc_space_t \<Rightarrow> mach_port_t \<Rightarrow> ipc_entry_t \<Rightarrow> 32 word \<Rightarrow> ipc_kernel \<Rightarrow> (kern_return_t \<times> ipc_kernel) option" where
  "delta_send space name entry delta st =
     (let e = get_entry st space entry;
          bits = ie_bits e;
          port = ie_object e;
          urefs = IE_BITS_UREFS bits
      in if bits AND MACH_PORT_TYPE_SEND = 0 then Some (KERN_INVALID_RIGHT, st)
         else if MACH_PORT_UREFS_UNDERFLOW urefs delta then Some (KERN_INVALID_VALUE, st)
         else if MACH_PORT_UREFS_OVERFLOW (urefs + 1) delta then Some (KERN_UREFS_OVERFLOW, st)
         else do {
           (died, st) \<leftarrow> ipc_right_check space port name entry st;
           if died then
             Some (if bits AND IE_BITS_COMPAT \<noteq> 0 then KERN_INVALID_NAME else KERN_INVALID_RIGHT, st)
           else if urefs + delta = 0 then
             if bits AND MACH_PORT_TYPE_RECEIVE \<noteq> 0
             then Some (KERN_SUCCESS, drop_send_of_receive space entry port st)
             else do {
               st \<leftarrow> dealloc_last_send space name entry port st;
               Some (KERN_SUCCESS, st)
             }
           else Some (KERN_SUCCESS, upd_entry space entry (\<lambda>e. e\<lparr>ie_bits := bits + delta\<rparr>) st)
         })"

definition ipc_right_delta ::
  "bool \<Rightarrow> ipc_space_t \<Rightarrow> mach_port_t \<Rightarrow> ipc_entry_t \<Rightarrow> nat \<Rightarrow> 32 word \<Rightarrow> ipc_kernel
     \<Rightarrow> (kern_return_t \<times> ipc_kernel) option" where
  "ipc_right_delta locked space name entry right delta st =
     (if right = MACH_PORT_RIGHT_PORT_SET then delta_port_set space name entry delta st
      else if right = MACH_PORT_RIGHT_RECEIVE then delta_receive locked space name entry delta st
      else if right = MACH_PORT_RIGHT_SEND_ONCE then delta_send_once space name entry delta st
      else if right = MACH_PORT_RIGHT_DEAD_NAME then delta_dead_name space name entry delta st
      else if right = MACH_PORT_RIGHT_SEND then delta_send space name entry delta st
      else None)"

abbreviation MACH_PORT_TYPE_DNREQUEST :: mach_port_type_t where "MACH_PORT_TYPE_DNREQUEST \<equiv> 0x80000000"
abbreviation MACH_PORT_TYPE_MAREQUEST :: mach_port_type_t where "MACH_PORT_TYPE_MAREQUEST \<equiv> 0x40000000"
abbreviation MACH_PORT_TYPE_COMPAT :: mach_port_type_t where "MACH_PORT_TYPE_COMPAT \<equiv> 0x20000000"

definition ipc_right_info ::
  "ipc_space_t \<Rightarrow> mach_port_t \<Rightarrow> ipc_entry_t \<Rightarrow> ipc_kernel
     \<Rightarrow> ((kern_return_t + mach_port_type_t \<times> 32 word) \<times> ipc_kernel) option" where
  "ipc_right_info space name entry st =
     (let e = get_entry st space entry;
          bits = ie_bits e;
          info = (\<lambda>bits st.
            let type = IE_BITS_TYPE bits;
                request = ie_request (get_entry st space entry);
                type = (if bits AND IE_BITS_COMPAT \<noteq> 0 then type OR MACH_PORT_TYPE_COMPAT
                        else if request \<noteq> 0 then type OR MACH_PORT_TYPE_DNREQUEST else type);
                type = (if bits AND IE_BITS_MAREQUEST \<noteq> 0 then type OR MACH_PORT_TYPE_MAREQUEST else type)
            in (Inr (type, IE_BITS_UREFS bits), st))
      in if bits AND MACH_PORT_TYPE_SEND_RIGHTS \<noteq> 0 then do {
           (died, st) \<leftarrow> ipc_right_check space (ie_object e) name entry st;
           Some (if died then
                   if bits AND IE_BITS_COMPAT \<noteq> 0 then (Inl KERN_INVALID_NAME, st)
                   else info (ie_bits (get_entry st space entry)) st
                 else info bits st)
         }
         else Some (info bits st))"

end
