(* ===== verification/IpcCopy.thy ===== *)
theory IpcCopy
  imports IpcRight
begin

text \<open>
  Rights in motion (\<^verbatim>\<open>ipc/ipc_right.c\<close> from \<^verbatim>\<open>ipc_right_copyin_check\<close> on):
  taking a right out of a space, undoing that, putting a right into a space, renaming it, and the
  two operations for old messages. The cases of a switch statement that are longer than a few
  lines have definitions of their own.
\<close>

section \<open>Names of rights in messages\<close>

type_synonym mach_msg_type_name_t = "32 word"

abbreviation MACH_MSG_TYPE_MOVE_RECEIVE :: mach_msg_type_name_t where "MACH_MSG_TYPE_MOVE_RECEIVE \<equiv> 16"
abbreviation MACH_MSG_TYPE_MOVE_SEND :: mach_msg_type_name_t where "MACH_MSG_TYPE_MOVE_SEND \<equiv> 17"
abbreviation MACH_MSG_TYPE_MOVE_SEND_ONCE :: mach_msg_type_name_t where "MACH_MSG_TYPE_MOVE_SEND_ONCE \<equiv> 18"
abbreviation MACH_MSG_TYPE_COPY_SEND :: mach_msg_type_name_t where "MACH_MSG_TYPE_COPY_SEND \<equiv> 19"
abbreviation MACH_MSG_TYPE_MAKE_SEND :: mach_msg_type_name_t where "MACH_MSG_TYPE_MAKE_SEND \<equiv> 20"
abbreviation MACH_MSG_TYPE_MAKE_SEND_ONCE :: mach_msg_type_name_t where "MACH_MSG_TYPE_MAKE_SEND_ONCE \<equiv> 21"
abbreviation MACH_MSG_TYPE_PORT_RECEIVE :: mach_msg_type_name_t where "MACH_MSG_TYPE_PORT_RECEIVE \<equiv> 16"
abbreviation MACH_MSG_TYPE_PORT_SEND :: mach_msg_type_name_t where "MACH_MSG_TYPE_PORT_SEND \<equiv> 17"
abbreviation MACH_MSG_TYPE_PORT_SEND_ONCE :: mach_msg_type_name_t where "MACH_MSG_TYPE_PORT_SEND_ONCE \<equiv> 18"
abbreviation MSG_TYPE_PORT_ALL :: mach_msg_type_name_t where "MSG_TYPE_PORT_ALL \<equiv> 5"
abbreviation MSG_TYPE_PORT :: mach_msg_type_name_t where "MSG_TYPE_PORT \<equiv> 6"

text \<open>A copyin returns an object and, if not null, a send-once right for a port-deleted notification.\<close>

type_synonym copyin_result = "((kern_return_t + ipc_object_t \<times> ipc_port_t) \<times> ipc_kernel) option"

section \<open>Taking a right out of a space\<close>

definition ipc_right_copyin_check ::
  "ipc_space_t \<Rightarrow> mach_port_t \<Rightarrow> ipc_entry_t \<Rightarrow> mach_msg_type_name_t \<Rightarrow> ipc_kernel \<Rightarrow> bool option" where
  "ipc_right_copyin_check space name entry msgt_name st =
     (let e = get_entry st space entry;
          bits = ie_bits e
      in if msgt_name = MACH_MSG_TYPE_MAKE_SEND \<or> msgt_name = MACH_MSG_TYPE_MAKE_SEND_ONCE \<or>
            msgt_name = MACH_MSG_TYPE_MOVE_RECEIVE
         then Some (bits AND MACH_PORT_TYPE_RECEIVE \<noteq> 0)
         else if msgt_name = MACH_MSG_TYPE_COPY_SEND \<or> msgt_name = MACH_MSG_TYPE_MOVE_SEND \<or>
                 msgt_name = MACH_MSG_TYPE_MOVE_SEND_ONCE
         then
           if bits AND MACH_PORT_TYPE_DEAD_NAME \<noteq> 0 then Some True
           else if bits AND MACH_PORT_TYPE_SEND_RIGHTS = 0 then Some False
           else if \<not> ip_active (st_port st (ie_object e)) then Some (bits AND IE_BITS_COMPAT = 0)
           else if msgt_name = MACH_MSG_TYPE_MOVE_SEND_ONCE
           then Some (bits AND MACH_PORT_TYPE_SEND_ONCE \<noteq> 0)
           else Some (bits AND MACH_PORT_TYPE_SEND \<noteq> 0)
         else None)"

definition copyin_make_send :: "ipc_space_t \<Rightarrow> ipc_entry_t \<Rightarrow> ipc_kernel \<Rightarrow> copyin_result" where
  "copyin_make_send space entry st =
     (let e = get_entry st space entry;
          port = ie_object e
      in if ie_bits e AND MACH_PORT_TYPE_RECEIVE = 0 then Some (Inl KERN_INVALID_RIGHT, st)
         else Some (Inr (port, IP_NULL),
                ip_reference port
                  (upd_port port (\<lambda>p. p\<lparr>ip_mscount := ip_mscount p + 1, ip_srights := ip_srights p + 1\<rparr>) st)))"

definition copyin_make_send_once :: "ipc_space_t \<Rightarrow> ipc_entry_t \<Rightarrow> ipc_kernel \<Rightarrow> copyin_result" where
  "copyin_make_send_once space entry st =
     (let e = get_entry st space entry;
          port = ie_object e
      in if ie_bits e AND MACH_PORT_TYPE_RECEIVE = 0 then Some (Inl KERN_INVALID_RIGHT, st)
         else Some (Inr (port, IP_NULL),
                ip_reference port (upd_port port (\<lambda>p. p\<lparr>ip_sorights := ip_sorights p + 1\<rparr>) st)))"

text \<open>The port is in limbo: it has no receiver and no destination.\<close>

definition in_limbo :: "ipc_port_t \<Rightarrow> ipc_kernel \<Rightarrow> ipc_kernel" where
  "in_limbo port st =
     upd_port port (\<lambda>p. p\<lparr>ip_receiver_name := MACH_PORT_NULL, ip_data := IP_NULL\<rparr>)
       (ipc_port_clear_receiver port st)"

definition copyin_move_receive ::
  "ipc_space_t \<Rightarrow> mach_port_t \<Rightarrow> ipc_entry_t \<Rightarrow> ipc_kernel \<Rightarrow> copyin_result" where
  "copyin_move_receive space name entry st =
     (let e = get_entry st space entry;
          bits = ie_bits e;
          port = ie_object e
      in if bits AND MACH_PORT_TYPE_RECEIVE = 0 then Some (Inl KERN_INVALID_RIGHT, st)
         else do {
           (dnrequest, st) \<leftarrow>
             (if bits AND MACH_PORT_TYPE_SEND \<noteq> 0 then do {
                st \<leftarrow> ipc_hash_insert st space port name entry;
                Some (IP_NULL, ip_reference port st)
              } else do {
                let (dnrequest, st) = ipc_right_dncancel_macro space port name entry st;
                st \<leftarrow> (if bits AND IE_BITS_MAREQUEST \<noteq> 0 then ipc_marequest_cancel space name st else Some st);
                Some (dnrequest, upd_entry space entry (\<lambda>e. e\<lparr>ie_object := IO_NULL\<rparr>) st)
              });
           let st = upd_entry space entry (\<lambda>e. e\<lparr>ie_bits := bits AND NOT MACH_PORT_TYPE_RECEIVE\<rparr>) st;
           Some (Inr (port, dnrequest), in_limbo port st)
         })"

text \<open>
  The common beginning of the cases for send rights: dead names and send and send-once rights for
  dead ports go to \<open>dead\<close>, with the bits of the entry.
\<close>

definition copyin_send_rights ::
  "ipc_space_t \<Rightarrow> mach_port_t \<Rightarrow> ipc_entry_t \<Rightarrow> (ipc_entry_bits_t \<Rightarrow> ipc_kernel \<Rightarrow> copyin_result)
     \<Rightarrow> (ipc_kernel \<Rightarrow> copyin_result) \<Rightarrow> ipc_kernel \<Rightarrow> copyin_result" where
  "copyin_send_rights space name entry dead alive st =
     (let e = get_entry st space entry;
          bits = ie_bits e
      in if bits AND MACH_PORT_TYPE_DEAD_NAME \<noteq> 0 then dead bits st
         else if bits AND MACH_PORT_TYPE_SEND_RIGHTS = 0 then Some (Inl KERN_INVALID_RIGHT, st)
         else do {
           (died, st) \<leftarrow> ipc_right_check space (ie_object e) name entry st;
           if \<not> died then alive st
           else if bits AND IE_BITS_COMPAT \<noteq> 0 then Some (Inl KERN_INVALID_NAME, st)
           else dead (ie_bits (get_entry st space entry)) st
         })"

definition copy_dead :: "bool \<Rightarrow> ipc_entry_bits_t \<Rightarrow> ipc_kernel \<Rightarrow> copyin_result" where
  "copy_dead deadok bits st =
     (if \<not> deadok then Some (Inl KERN_INVALID_RIGHT, st) else Some (Inr (IO_DEAD, IP_NULL), st))"

definition move_dead ::
  "bool \<Rightarrow> ipc_space_t \<Rightarrow> ipc_entry_t \<Rightarrow> ipc_entry_bits_t \<Rightarrow> ipc_kernel \<Rightarrow> copyin_result" where
  "move_dead deadok space entry bits st =
     (if \<not> deadok then Some (Inl KERN_INVALID_RIGHT, st)
      else
        let bits = (if IE_BITS_UREFS bits = 1 then bits AND NOT MACH_PORT_TYPE_DEAD_NAME else bits - 1)
        in Some (Inr (IO_DEAD, IP_NULL), upd_entry space entry (\<lambda>e. e\<lparr>ie_bits := bits\<rparr>) st))"

definition copyin_copy_send :: "ipc_space_t \<Rightarrow> ipc_entry_t \<Rightarrow> ipc_kernel \<Rightarrow> copyin_result" where
  "copyin_copy_send space entry st =
     (let e = get_entry st space entry;
          port = ie_object e
      in if ie_bits e AND MACH_PORT_TYPE_SEND = 0 then Some (Inl KERN_INVALID_RIGHT, st)
         else Some (Inr (port, IP_NULL),
                ip_reference port (upd_port port (\<lambda>p. p\<lparr>ip_srights := ip_srights p + 1\<rparr>) st)))"

definition copyin_move_send ::
  "ipc_space_t \<Rightarrow> mach_port_t \<Rightarrow> ipc_entry_t \<Rightarrow> ipc_kernel \<Rightarrow> copyin_result" where
  "copyin_move_send space name entry st =
     (let e = get_entry st space entry;
          bits = ie_bits e;
          port = ie_object e
      in if bits AND MACH_PORT_TYPE_SEND = 0 then Some (Inl KERN_INVALID_RIGHT, st)
         else if IE_BITS_UREFS bits = 1 then do {
           (dnrequest, st) \<leftarrow>
             (if bits AND MACH_PORT_TYPE_RECEIVE \<noteq> 0 then Some (IP_NULL, ip_reference port st)
              else do {
                let (dnrequest, st) = ipc_right_dncancel_macro space port name entry st;
                st \<leftarrow> ipc_hash_delete st space port name entry;
                st \<leftarrow> (if bits AND IE_BITS_MAREQUEST \<noteq> 0 then ipc_marequest_cancel space name st else Some st);
                Some (dnrequest, upd_entry space entry (\<lambda>e. e\<lparr>ie_object := IO_NULL\<rparr>) st)
              });
           Some (Inr (port, dnrequest),
             upd_entry space entry
               (\<lambda>e. e\<lparr>ie_bits := bits AND NOT (IE_BITS_UREFS_MASK OR MACH_PORT_TYPE_SEND)\<rparr>) st)
         }
         else Some (Inr (port, IP_NULL),
                upd_entry space entry (\<lambda>e. e\<lparr>ie_bits := bits - 1\<rparr>)
                  (ip_reference port (upd_port port (\<lambda>p. p\<lparr>ip_srights := ip_srights p + 1\<rparr>) st))))"

definition copyin_move_send_once ::
  "ipc_space_t \<Rightarrow> mach_port_t \<Rightarrow> ipc_entry_t \<Rightarrow> ipc_kernel \<Rightarrow> copyin_result" where
  "copyin_move_send_once space name entry st =
     (let e = get_entry st space entry;
          bits = ie_bits e;
          port = ie_object e
      in if bits AND MACH_PORT_TYPE_SEND_ONCE = 0 then Some (Inl KERN_INVALID_RIGHT, st)
         else
           let (dnrequest, st) = ipc_right_dncancel_macro space port name entry st
           in Some (Inr (port, dnrequest),
                upd_entry space entry
                  (\<lambda>e. e\<lparr>ie_object := IO_NULL, ie_bits := bits AND NOT MACH_PORT_TYPE_SEND_ONCE\<rparr>) st))"

definition ipc_right_copyin ::
  "ipc_space_t \<Rightarrow> mach_port_t \<Rightarrow> ipc_entry_t \<Rightarrow> mach_msg_type_name_t \<Rightarrow> bool \<Rightarrow> ipc_kernel \<Rightarrow> copyin_result" where
  "ipc_right_copyin space name entry msgt_name deadok st =
     (if msgt_name = MACH_MSG_TYPE_MAKE_SEND then copyin_make_send space entry st
      else if msgt_name = MACH_MSG_TYPE_MAKE_SEND_ONCE then copyin_make_send_once space entry st
      else if msgt_name = MACH_MSG_TYPE_MOVE_RECEIVE then copyin_move_receive space name entry st
      else if msgt_name = MACH_MSG_TYPE_COPY_SEND then
        copyin_send_rights space name entry (copy_dead deadok) (copyin_copy_send space entry) st
      else if msgt_name = MACH_MSG_TYPE_MOVE_SEND then
        copyin_send_rights space name entry (move_dead deadok space entry) (copyin_move_send space name entry) st
      else if msgt_name = MACH_MSG_TYPE_MOVE_SEND_ONCE then
        copyin_send_rights space name entry (move_dead deadok space entry) (copyin_move_send_once space name entry) st
      else None)"

definition ipc_right_copyin_undo ::
  "ipc_space_t \<Rightarrow> mach_port_t \<Rightarrow> ipc_entry_t \<Rightarrow> mach_msg_type_name_t \<Rightarrow> ipc_object_t \<Rightarrow> ipc_port_t
     \<Rightarrow> ipc_kernel \<Rightarrow> ipc_kernel option" where
  "ipc_right_copyin_undo space name entry msgt_name object soright st =
     (let bits = ie_bits (get_entry st space entry);
          set_bits = (\<lambda>bits. upd_entry space entry (\<lambda>e. e\<lparr>ie_bits := bits\<rparr>))
      in do {
        st \<leftarrow> (if soright \<noteq> IP_NULL then
                 Some (set_bits ((bits AND NOT IE_BITS_RIGHT_MASK) OR MACH_PORT_TYPE_DEAD_NAME OR 2) st)
               else if IE_BITS_TYPE bits = MACH_PORT_TYPE_NONE then
                 Some (set_bits ((bits AND NOT IE_BITS_RIGHT_MASK) OR MACH_PORT_TYPE_DEAD_NAME OR 1) st)
               else if IE_BITS_TYPE bits = MACH_PORT_TYPE_DEAD_NAME then
                 Some (if msgt_name \<noteq> MACH_MSG_TYPE_COPY_SEND then set_bits (bits + 1) st else st)
               else do {
                 let st = (if msgt_name \<noteq> MACH_MSG_TYPE_COPY_SEND then set_bits (bits + 1) st else st);
                 (died, st) \<leftarrow> ipc_right_check space object name entry st;
                 Some st
               });
        Some (if object \<noteq> IO_DEAD then ip_release object st else st)
      })"

definition ipc_right_copyin_two ::
  "ipc_space_t \<Rightarrow> mach_port_t \<Rightarrow> ipc_entry_t \<Rightarrow> ipc_kernel \<Rightarrow> copyin_result" where
  "ipc_right_copyin_two space name entry st =
     (let e = get_entry st space entry;
          bits = ie_bits e;
          urefs = IE_BITS_UREFS bits;
          port = ie_object e
      in if bits AND MACH_PORT_TYPE_SEND = 0 then Some (Inl KERN_INVALID_RIGHT, st)
         else if urefs < 2 then Some (Inl KERN_INVALID_RIGHT, st)
         else do {
           (died, st) \<leftarrow> ipc_right_check space port name entry st;
           if died then
             Some (Inl (if bits AND IE_BITS_COMPAT \<noteq> 0 then KERN_INVALID_NAME else KERN_INVALID_RIGHT), st)
           else if urefs = 2 then do {
             (dnrequest, st) \<leftarrow>
               (if bits AND MACH_PORT_TYPE_RECEIVE \<noteq> 0 then
                  Some (IP_NULL,
                    ip_reference port (ip_reference port
                      (upd_port port (\<lambda>p. p\<lparr>ip_srights := ip_srights p + 1\<rparr>) st)))
                else do {
                  let (dnrequest, st) = ipc_right_dncancel_macro space port name entry st;
                  st \<leftarrow> ipc_hash_delete st space port name entry;
                  st \<leftarrow> (if bits AND IE_BITS_MAREQUEST \<noteq> 0 then ipc_marequest_cancel space name st else Some st);
                  let st = ip_reference port (upd_port port (\<lambda>p. p\<lparr>ip_srights := ip_srights p + 1\<rparr>) st);
                  Some (dnrequest, upd_entry space entry (\<lambda>e. e\<lparr>ie_object := IO_NULL\<rparr>) st)
                });
             Some (Inr (port, dnrequest),
               upd_entry space entry
                 (\<lambda>e. e\<lparr>ie_bits := bits AND NOT (IE_BITS_UREFS_MASK OR MACH_PORT_TYPE_SEND)\<rparr>) st)
           }
           else Some (Inr (port, IP_NULL),
                  upd_entry space entry (\<lambda>e. e\<lparr>ie_bits := bits - 2\<rparr>)
                    (ip_reference port (ip_reference port
                      (upd_port port (\<lambda>p. p\<lparr>ip_srights := ip_srights p + 2\<rparr>) st))))
         })"

section \<open>Putting a right into a space\<close>

definition copyout_send ::
  "ipc_space_t \<Rightarrow> mach_port_t \<Rightarrow> ipc_entry_t \<Rightarrow> bool \<Rightarrow> ipc_port_t \<Rightarrow> ipc_kernel
     \<Rightarrow> (kern_return_t \<times> ipc_kernel) option" where
  "copyout_send space name entry overflow port st =
     (let bits = ie_bits (get_entry st space entry);
          urefs = IE_BITS_UREFS bits;
          drop = (\<lambda>st. ip_release port (upd_port port (\<lambda>p. p\<lparr>ip_srights := ip_srights p - 1\<rparr>) st));
          give = upd_entry space entry (\<lambda>e. e\<lparr>ie_bits := (bits OR MACH_PORT_TYPE_SEND) + 1\<rparr>)
      in if bits AND MACH_PORT_TYPE_SEND \<noteq> 0 then
           if urefs + 1 = MACH_PORT_UREFS_MAX then
             if overflow then Some (KERN_SUCCESS, drop st) else Some (KERN_UREFS_OVERFLOW, st)
           else Some (KERN_SUCCESS, give (drop st))
         else if bits AND MACH_PORT_TYPE_RECEIVE \<noteq> 0 then Some (KERN_SUCCESS, give (ip_release port st))
         else do {
           st \<leftarrow> ipc_hash_insert st space port name entry;
           Some (KERN_SUCCESS, give st)
         })"

definition copyout_receive ::
  "ipc_space_t \<Rightarrow> mach_port_t \<Rightarrow> ipc_entry_t \<Rightarrow> ipc_port_t \<Rightarrow> ipc_kernel \<Rightarrow> (kern_return_t \<times> ipc_kernel) option" where
  "copyout_receive space name entry port st =
     (let bits = ie_bits (get_entry st space entry);
          dest = ip_destination (st_port st port);
          st = upd_port port (\<lambda>p. p\<lparr>ip_receiver_name := name, ip_data := space\<rparr>) st
      in do {
        st \<leftarrow> (if bits AND MACH_PORT_TYPE_SEND \<noteq> 0
               then ipc_hash_delete (ip_release port st) space port name entry else Some st);
        let st = upd_entry space entry (\<lambda>e. e\<lparr>ie_bits := bits OR MACH_PORT_TYPE_RECEIVE\<rparr>) st;
        Some (KERN_SUCCESS, if dest \<noteq> IP_NULL then ip_release dest st else st)
      })"

definition ipc_right_copyout ::
  "ipc_space_t \<Rightarrow> mach_port_t \<Rightarrow> ipc_entry_t \<Rightarrow> mach_msg_type_name_t \<Rightarrow> bool \<Rightarrow> ipc_object_t \<Rightarrow> ipc_kernel
     \<Rightarrow> (kern_return_t \<times> ipc_kernel) option" where
  "ipc_right_copyout space name entry msgt_name overflow object st =
     (if msgt_name = MACH_MSG_TYPE_PORT_SEND_ONCE then
        Some (KERN_SUCCESS,
          upd_entry space entry (\<lambda>e. e\<lparr>ie_bits := ie_bits e OR (MACH_PORT_TYPE_SEND_ONCE OR 1)\<rparr>) st)
      else if msgt_name = MACH_MSG_TYPE_PORT_SEND then copyout_send space name entry overflow object st
      else if msgt_name = MACH_MSG_TYPE_PORT_RECEIVE then copyout_receive space name entry object st
      else None)"

section \<open>Renaming a right\<close>

text \<open>The switch on the type: what has to follow the entry to its new name.\<close>

definition rename_object ::
  "ipc_space_t \<Rightarrow> mach_port_type_t \<Rightarrow> ipc_object_t \<Rightarrow> mach_port_t \<Rightarrow> ipc_entry_t \<Rightarrow> mach_port_t \<Rightarrow> ipc_entry_t
     \<Rightarrow> ipc_kernel \<Rightarrow> ipc_kernel option" where
  "rename_object space type object oname oentry nname nentry st =
     (if type = MACH_PORT_TYPE_SEND then do {
        st \<leftarrow> ipc_hash_delete st space object oname oentry;
        ipc_hash_insert st space object nname nentry
      }
      else if type = MACH_PORT_TYPE_RECEIVE \<or> type = MACH_PORT_TYPE_SEND_RECEIVE then
        Some (upd_port object (\<lambda>p. p\<lparr>ip_receiver_name := nname\<rparr>) st)
      else if type = MACH_PORT_TYPE_PORT_SET then
        Some (upd_pset object (\<lambda>p. p\<lparr>ips_local_name := nname\<rparr>) st)
      else if type = MACH_PORT_TYPE_SEND_ONCE \<or> type = MACH_PORT_TYPE_DEAD_NAME then Some st
      else None)"

definition rename_entry ::
  "ipc_space_t \<Rightarrow> ipc_entry_bits_t \<Rightarrow> nat \<Rightarrow> ipc_object_t \<Rightarrow> mach_port_t \<Rightarrow> ipc_entry_t \<Rightarrow> mach_port_t
     \<Rightarrow> ipc_entry_t \<Rightarrow> ipc_kernel \<Rightarrow> (kern_return_t \<times> ipc_kernel) option" where
  "rename_entry space bits request object oname oentry nname nentry st = do {
     st \<leftarrow> (if bits AND IE_BITS_MAREQUEST \<noteq> 0 then ipc_marequest_rename space oname nname st else Some st);
     let st = upd_entry space nentry
           (\<lambda>e. e\<lparr>ie_bits := ie_bits e OR (bits AND IE_BITS_RIGHT_MASK), ie_request := request,
                  ie_object := object\<rparr>) st;
     st \<leftarrow> rename_object space (IE_BITS_TYPE bits) object oname oentry nname nentry st;
     let st = upd_entry space oentry (\<lambda>e. e\<lparr>ie_object := IO_NULL\<rparr>) st;
     st \<leftarrow> ipc_entry_dealloc st space oname oentry;
     Some (KERN_SUCCESS, st)
   }"

definition ipc_right_rename ::
  "ipc_space_t \<Rightarrow> mach_port_t \<Rightarrow> ipc_entry_t \<Rightarrow> mach_port_t \<Rightarrow> ipc_entry_t \<Rightarrow> ipc_kernel
     \<Rightarrow> (kern_return_t \<times> ipc_kernel) option" where
  "ipc_right_rename space oname oentry nname nentry st =
     (let e = get_entry st space oentry;
          bits = ie_bits e;
          request = ie_request e;
          object = ie_object e
      in if request \<noteq> 0 then do {
           (died, st) \<leftarrow> ipc_right_check space object oname oentry st;
           if died then
             if bits AND IE_BITS_COMPAT \<noteq> 0 then do {
               st \<leftarrow> ipc_entry_dealloc st space nname nentry;
               Some (KERN_INVALID_NAME, st)
             }
             else rename_entry space (ie_bits (get_entry st space oentry)) 0 IO_NULL oname oentry nname nentry st
           else
             rename_entry space bits request object oname oentry nname nentry
               (upd_entry space oentry (\<lambda>e. e\<lparr>ie_request := 0\<rparr>) (ipc_port_dnrename object request nname st))
         }
         else rename_entry space bits request object oname oentry nname nentry st)"

section \<open>Rights in old messages\<close>

definition compat_move_send ::
  "ipc_space_t \<Rightarrow> mach_port_t \<Rightarrow> ipc_entry_t \<Rightarrow> ipc_kernel
     \<Rightarrow> ((kern_return_t + ipc_object_t) \<times> ipc_kernel) option" where
  "compat_move_send space name entry st =
     (let e = get_entry st space entry;
          bits = ie_bits e;
          port = ie_object e
      in if IE_BITS_TYPE bits \<noteq> MACH_PORT_TYPE_SEND then Some (Inl KERN_INVALID_RIGHT, st)
         else do {
           (died, st) \<leftarrow> ipc_right_check space port name entry st;
           if died then
             Some (Inl (if bits AND IE_BITS_COMPAT \<noteq> 0 then KERN_INVALID_NAME else KERN_INVALID_RIGHT), st)
           else do {
             let (dnrequest, st) = ipc_right_dncancel_macro space port name entry st;
             st \<leftarrow> (if bits AND IE_BITS_MAREQUEST \<noteq> 0 then ipc_marequest_cancel space name st else Some st);
             let st = upd_entry space entry (\<lambda>e. e\<lparr>ie_object := IO_NULL\<rparr>) st;
             st \<leftarrow> ipc_entry_dealloc st space name entry;
             Some (Inr port, notify_port_deleted dnrequest name st)
           }
         })"

definition compat_copy_send ::
  "ipc_space_t \<Rightarrow> mach_port_t \<Rightarrow> ipc_entry_t \<Rightarrow> ipc_kernel
     \<Rightarrow> ((kern_return_t + ipc_object_t) \<times> ipc_kernel) option" where
  "compat_copy_send space name entry st =
     (let e = get_entry st space entry;
          bits = ie_bits e;
          port = ie_object e
      in if bits AND MACH_PORT_TYPE_SEND_RECEIVE = 0 then Some (Inl KERN_INVALID_RIGHT, st)
         else do {
           (died, st) \<leftarrow> ipc_right_check space port name entry st;
           if died then
             Some (Inl (if bits AND IE_BITS_COMPAT \<noteq> 0 then KERN_INVALID_NAME else KERN_INVALID_RIGHT), st)
           else
             let st = (if bits AND MACH_PORT_TYPE_SEND = 0
                       then upd_port port (\<lambda>p. p\<lparr>ip_mscount := ip_mscount p + 1\<rparr>) st else st)
             in Some (Inr port,
                  ip_reference port (upd_port port (\<lambda>p. p\<lparr>ip_srights := ip_srights p + 1\<rparr>) st))
         })"

definition compat_move_all ::
  "ipc_space_t \<Rightarrow> mach_port_t \<Rightarrow> ipc_entry_t \<Rightarrow> ipc_kernel
     \<Rightarrow> ((kern_return_t + ipc_object_t) \<times> ipc_kernel) option" where
  "compat_move_all space name entry st =
     (let e = get_entry st space entry;
          bits = ie_bits e;
          port = ie_object e
      in if bits AND MACH_PORT_TYPE_RECEIVE = 0 then Some (Inl KERN_INVALID_RIGHT, st)
         else do {
           let (dnrequest, st) = ipc_right_dncancel_macro space port name entry st;
           st \<leftarrow> (if bits AND IE_BITS_MAREQUEST \<noteq> 0 then ipc_marequest_cancel space name st else Some st);
           let st = upd_entry space entry (\<lambda>e. e\<lparr>ie_object := IO_NULL\<rparr>) st;
           st \<leftarrow> ipc_entry_dealloc st space name entry;
           let (nsrequest, mscount, st) =
             (if bits AND MACH_PORT_TYPE_SEND \<noteq> 0 then drop_send port st else (IP_NULL, 0, st));
           Some (Inr port,
             notify_port_deleted dnrequest name (notify_no_senders nsrequest mscount (in_limbo port st)))
         })"

definition compat_copy_all ::
  "ipc_space_t \<Rightarrow> mach_port_t \<Rightarrow> ipc_entry_t \<Rightarrow> ipc_kernel
     \<Rightarrow> ((kern_return_t + ipc_object_t) \<times> ipc_kernel) option" where
  "compat_copy_all space name entry st =
     (let e = get_entry st space entry;
          bits = ie_bits e;
          port = ie_object e
      in if bits AND MACH_PORT_TYPE_RECEIVE = 0 then Some (Inl KERN_INVALID_RIGHT, st)
         else do {
           let (bits, st) =
             (if bits AND MACH_PORT_TYPE_SEND = 0
              then (bits OR (MACH_PORT_TYPE_SEND OR 1),
                    upd_port port (\<lambda>p. p\<lparr>ip_srights := ip_srights p + 1\<rparr>) st)
              else (bits, st));
           st \<leftarrow> ipc_hash_insert st space port name entry;
           let st = upd_entry space entry (\<lambda>e. e\<lparr>ie_bits := bits AND NOT MACH_PORT_TYPE_RECEIVE\<rparr>) st;
           Some (Inr port, ip_reference port (in_limbo port st))
         })"

definition ipc_right_copyin_compat ::
  "ipc_space_t \<Rightarrow> mach_port_t \<Rightarrow> ipc_entry_t \<Rightarrow> mach_msg_type_name_t \<Rightarrow> bool \<Rightarrow> ipc_kernel
     \<Rightarrow> ((kern_return_t + ipc_object_t) \<times> ipc_kernel) option" where
  "ipc_right_copyin_compat space name entry msgt_name dealloc st =
     (if msgt_name = MSG_TYPE_PORT then
        if dealloc then compat_move_send space name entry st else compat_copy_send space name entry st
      else if msgt_name = MSG_TYPE_PORT_ALL then
        if dealloc then compat_move_all space name entry st else compat_copy_all space name entry st
      else None)"

text \<open>The results are the object and the type of the right.\<close>

definition ipc_right_copyin_header ::
  "ipc_space_t \<Rightarrow> mach_port_t \<Rightarrow> ipc_entry_t \<Rightarrow> ipc_kernel
     \<Rightarrow> ((kern_return_t + ipc_object_t \<times> mach_msg_type_name_t) \<times> ipc_kernel) option" where
  "ipc_right_copyin_header space name entry st =
     (let e = get_entry st space entry;
          bits = ie_bits e;
          type = IE_BITS_TYPE bits;
          port = ie_object e;
          dead = (if bits AND IE_BITS_COMPAT \<noteq> 0 then KERN_INVALID_NAME else KERN_INVALID_RIGHT)
      in if type = MACH_PORT_TYPE_PORT_SET \<or> type = MACH_PORT_TYPE_DEAD_NAME then
           Some (Inl KERN_INVALID_RIGHT, st)
         else if type = MACH_PORT_TYPE_RECEIVE then
           Some (Inr (port, MACH_MSG_TYPE_PORT_SEND),
             ip_reference port
               (upd_port port (\<lambda>p. p\<lparr>ip_mscount := ip_mscount p + 1, ip_srights := ip_srights p + 1\<rparr>) st))
         else if type = MACH_PORT_TYPE_SEND \<or> type = MACH_PORT_TYPE_SEND_RECEIVE then do {
           (died, st) \<leftarrow> ipc_right_check space port name entry st;
           if died then Some (Inl dead, st)
           else Some (Inr (port, MACH_MSG_TYPE_PORT_SEND),
                  ip_reference port (upd_port port (\<lambda>p. p\<lparr>ip_srights := ip_srights p + 1\<rparr>) st))
         }
         else if type = MACH_PORT_TYPE_SEND_ONCE then do {
           (died, st) \<leftarrow> ipc_right_check space port name entry st;
           if died then Some (Inl dead, st)
           else do {
             let (dnrequest, st) = ipc_right_dncancel_macro space port name entry st;
             let st = upd_entry space entry (\<lambda>e. e\<lparr>ie_object := IO_NULL\<rparr>) st;
             st \<leftarrow> ipc_entry_dealloc st space name entry;
             let (notify, st) = ipc_space_make_notify space st;
             let st = notify_port_deleted dnrequest name st;
             Some (Inr (port, MACH_MSG_TYPE_PORT_SEND_ONCE),
               if IP_VALID notify then emit (Notify_port_deleted_compat notify name) st else st)
           }
         }
         else None)"

end
