(* ===== verification/IpcObject.thy ===== *)
theory IpcObject
  imports IpcCopy
begin

text \<open>
  Operations on named and naked objects (\<^verbatim>\<open>ipc/ipc_object.c\<close>), allocation of ports and port
  sets (\<^verbatim>\<open>ipc/ipc_port.c\<close>, \<^verbatim>\<open>ipc/ipc_pset.c\<close>) and creation and destruction of spaces
  (\<^verbatim>\<open>ipc/ipc_space.c\<close>). The address of a new object is a parameter, 0 if none could be
  allocated. An operation that may drop the lock of the space takes the windows in which that
  happens and returns those it did not use.
\<close>

type_synonym kernel_window = "unit ipc_kernel_ext window"

text \<open>The windows of \<^verbatim>\<open>ipc_port_dngrow\<close>: the memory obtained and what happens meanwhile.\<close>

type_synonym dn_window = "ipc_port_request list option \<times> (ipc_kernel \<Rightarrow> ipc_kernel)"

section \<open>Looking up objects\<close>

definition ipc_object_translate ::
  "ipc_space_t \<Rightarrow> mach_port_t \<Rightarrow> nat \<Rightarrow> ipc_kernel \<Rightarrow> (kern_return_t + ipc_object_t) \<times> ipc_kernel" where
  "ipc_object_translate space name right st =
     (case ipc_right_lookup_write space name st of
        (Inl kr, st) \<Rightarrow> (Inl kr, st)
      | (Inr entry, st) \<Rightarrow>
          let e = get_entry st space entry
          in if ie_bits e AND MACH_PORT_TYPE right = 0 then (Inl KERN_INVALID_RIGHT, st)
             else (Inr (ie_object e), st))"

section \<open>Allocation\<close>

definition ipc_object_alloc_dead ::
  "kernel_window list \<Rightarrow> ipc_space_t \<Rightarrow> ipc_kernel
     \<Rightarrow> ((kern_return_t + mach_port_t) \<times> ipc_kernel \<times> kernel_window list) option" where
  "ipc_object_alloc_dead ws space st =
     (case ipc_entry_alloc ws st space of
        None \<Rightarrow> None
      | Some (Inl kr, st, ws) \<Rightarrow> Some (Inl kr, st, ws)
      | Some (Inr (name, entry), st, ws) \<Rightarrow>
          Some (Inr name,
            upd_entry space entry (\<lambda>e. e\<lparr>ie_bits := ie_bits e OR (MACH_PORT_TYPE_DEAD_NAME OR 1)\<rparr>) st, ws))"

definition ipc_object_alloc_dead_name ::
  "kernel_window list \<Rightarrow> ipc_space_t \<Rightarrow> mach_port_t \<Rightarrow> ipc_kernel
     \<Rightarrow> (kern_return_t \<times> ipc_kernel \<times> kernel_window list) option" where
  "ipc_object_alloc_dead_name ws space name st =
     (case ipc_entry_alloc_name ws st space name of
        None \<Rightarrow> None
      | Some (Inl kr, st, ws) \<Rightarrow> Some (kr, st, ws)
      | Some (Inr entry, st, ws) \<Rightarrow> do {
          (inuse, st) \<leftarrow> ipc_right_inuse space name entry st;
          if inuse then Some (KERN_NAME_EXISTS, st, ws)
          else Some (KERN_SUCCESS,
                 upd_entry space entry (\<lambda>e. e\<lparr>ie_bits := ie_bits e OR (MACH_PORT_TYPE_DEAD_NAME OR 1)\<rparr>) st, ws)
        })"

datatype ipc_object_type_t = IOT_PORT | IOT_PORT_SET

definition zero_mqueue :: ipc_mqueue where
  "zero_mqueue = \<lparr>imq_messages = [], imq_threads = []\<rparr>"

definition zero_port :: ipc_port where
  "zero_port =
     \<lparr>ip_references = 0, ip_active = False, ip_kotype = 0, ip_receiver_name = MACH_PORT_NULL, ip_data = 0,
      ip_mscount = 0, ip_srights = 0, ip_sorights = 0, ip_nsrequest = IP_NULL, ip_pdrequest = IP_NULL,
      ip_dnrequests = None, ip_pset = IPS_NULL, ip_seqno = 0, ip_msgcount = 0, ip_qlimit = 0,
      ip_blocked = [], ip_messages = zero_mqueue\<rparr>"

definition zero_pset :: ipc_pset where
  "zero_pset =
     \<lparr>ips_references = 0, ips_active = False, ips_local_name = MACH_PORT_NULL, ips_messages = zero_mqueue\<rparr>"

fun bzero_object :: "ipc_object_type_t \<Rightarrow> ipc_object_t \<Rightarrow> ipc_kernel \<Rightarrow> ipc_kernel" where
  "bzero_object IOT_PORT object = upd_port object (\<lambda>_. zero_port)"
| "bzero_object IOT_PORT_SET object = upd_pset object (\<lambda>_. zero_pset)"

text \<open>One reference, active, not a kernel object.\<close>

fun init_object :: "ipc_object_type_t \<Rightarrow> ipc_object_t \<Rightarrow> ipc_kernel \<Rightarrow> ipc_kernel" where
  "init_object IOT_PORT object =
     upd_port object (\<lambda>p. p\<lparr>ip_references := 1, ip_active := True, ip_kotype := 0\<rparr>)"
| "init_object IOT_PORT_SET object = upd_pset object (\<lambda>s. s\<lparr>ips_references := 1, ips_active := True\<rparr>)"

definition ipc_object_alloc ::
  "kernel_window list \<Rightarrow> ipc_object_t \<Rightarrow> ipc_space_t \<Rightarrow> ipc_object_type_t \<Rightarrow> mach_port_type_t \<Rightarrow> 32 word
     \<Rightarrow> ipc_kernel \<Rightarrow> ((kern_return_t + mach_port_t) \<times> ipc_kernel \<times> kernel_window list) option" where
  "ipc_object_alloc ws object space otype type urefs st =
     (if object = IO_NULL then Some (Inl KERN_RESOURCE_SHORTAGE, st, ws)
      else
        (case ipc_entry_alloc ws (bzero_object otype object st) space of
           None \<Rightarrow> None
         | Some (Inl kr, st, ws) \<Rightarrow> Some (Inl kr, st, ws)
         | Some (Inr (name, entry), st, ws) \<Rightarrow>
             let st = upd_entry space entry
                   (\<lambda>e. e\<lparr>ie_bits := ie_bits e OR (type OR urefs), ie_object := object\<rparr>) st
             in Some (Inr name, init_object otype object st, ws)))"

definition ipc_object_alloc_name ::
  "kernel_window list \<Rightarrow> ipc_object_t \<Rightarrow> ipc_space_t \<Rightarrow> ipc_object_type_t \<Rightarrow> mach_port_type_t \<Rightarrow> 32 word
     \<Rightarrow> mach_port_t \<Rightarrow> ipc_kernel \<Rightarrow> (kern_return_t \<times> ipc_kernel \<times> kernel_window list) option" where
  "ipc_object_alloc_name ws object space otype type urefs name st =
     (if object = IO_NULL then Some (KERN_RESOURCE_SHORTAGE, st, ws)
      else
        (case ipc_entry_alloc_name ws (bzero_object otype object st) space name of
           None \<Rightarrow> None
         | Some (Inl kr, st, ws) \<Rightarrow> Some (kr, st, ws)
         | Some (Inr entry, st, ws) \<Rightarrow> do {
             (inuse, st) \<leftarrow> ipc_right_inuse space name entry st;
             if inuse then Some (KERN_NAME_EXISTS, st, ws)
             else
               let st = upd_entry space entry
                     (\<lambda>e. e\<lparr>ie_bits := ie_bits e OR (type OR urefs), ie_object := object\<rparr>) st
               in Some (KERN_SUCCESS, init_object otype object st, ws)
           }))"

definition ipc_port_alloc ::
  "kernel_window list \<Rightarrow> ipc_port_t \<Rightarrow> ipc_space_t \<Rightarrow> ipc_kernel
     \<Rightarrow> ((kern_return_t + mach_port_t) \<times> ipc_kernel \<times> kernel_window list) option" where
  "ipc_port_alloc ws port space st =
     (case ipc_object_alloc ws port space IOT_PORT MACH_PORT_TYPE_RECEIVE 0 st of
        None \<Rightarrow> None
      | Some (Inl kr, st, ws) \<Rightarrow> Some (Inl kr, st, ws)
      | Some (Inr name, st, ws) \<Rightarrow> Some (Inr name, ipc_port_init port space name st, ws))"

definition ipc_port_alloc_name ::
  "kernel_window list \<Rightarrow> ipc_port_t \<Rightarrow> ipc_space_t \<Rightarrow> mach_port_t \<Rightarrow> ipc_kernel
     \<Rightarrow> (kern_return_t \<times> ipc_kernel \<times> kernel_window list) option" where
  "ipc_port_alloc_name ws port space name st =
     (case ipc_object_alloc_name ws port space IOT_PORT MACH_PORT_TYPE_RECEIVE 0 name st of
        None \<Rightarrow> None
      | Some (kr, st, ws) \<Rightarrow>
          if kr \<noteq> KERN_SUCCESS then Some (kr, st, ws)
          else Some (KERN_SUCCESS, ipc_port_init port space name st, ws))"

definition ipc_pset_alloc ::
  "kernel_window list \<Rightarrow> ipc_pset_t \<Rightarrow> ipc_space_t \<Rightarrow> ipc_kernel
     \<Rightarrow> ((kern_return_t + mach_port_t) \<times> ipc_kernel \<times> kernel_window list) option" where
  "ipc_pset_alloc ws pset space st =
     (case ipc_object_alloc ws pset space IOT_PORT_SET MACH_PORT_TYPE_PORT_SET 0 st of
        None \<Rightarrow> None
      | Some (Inl kr, st, ws) \<Rightarrow> Some (Inl kr, st, ws)
      | Some (Inr name, st, ws) \<Rightarrow> Some (Inr name, ipc_target_init_pset pset name st, ws))"

definition ipc_pset_alloc_name ::
  "kernel_window list \<Rightarrow> ipc_pset_t \<Rightarrow> ipc_space_t \<Rightarrow> mach_port_t \<Rightarrow> ipc_kernel
     \<Rightarrow> (kern_return_t \<times> ipc_kernel \<times> kernel_window list) option" where
  "ipc_pset_alloc_name ws pset space name st =
     (case ipc_object_alloc_name ws pset space IOT_PORT_SET MACH_PORT_TYPE_PORT_SET 0 name st of
        None \<Rightarrow> None
      | Some (kr, st, ws) \<Rightarrow>
          if kr \<noteq> KERN_SUCCESS then Some (kr, st, ws)
          else Some (KERN_SUCCESS, ipc_target_init_pset pset name st, ws))"

text \<open>A port of a special space; what is not set here is as the allocator left it.\<close>

definition ipc_port_alloc_special :: "ipc_port_t \<Rightarrow> ipc_space_t \<Rightarrow> ipc_kernel \<Rightarrow> ipc_port_t \<times> ipc_kernel" where
  "ipc_port_alloc_special port space st =
     (if port = IP_NULL then (IP_NULL, st)
      else (port, ipc_port_init port space port (init_object IOT_PORT port st)))"

text \<open>
  A port with a compat entry. \<open>alloc\<close> is the memory for its table of dead-name requests, whose
  first request is for the new entry.
\<close>

definition ipc_port_alloc_compat ::
  "kernel_window list \<Rightarrow> ipc_port_t \<Rightarrow> ipc_port_request list option \<Rightarrow> ipc_space_t \<Rightarrow> ipc_kernel
     \<Rightarrow> ((kern_return_t + mach_port_t) \<times> ipc_kernel \<times> kernel_window list) option" where
  "ipc_port_alloc_compat ws port alloc space st =
     (if port = IP_NULL then Some (Inl KERN_RESOURCE_SHORTAGE, st, ws)
      else
        (case alloc of
           None \<Rightarrow> Some (Inl KERN_RESOURCE_SHORTAGE, st, ws)
         | Some table \<Rightarrow>
             (case ipc_entry_alloc ws st space of
                None \<Rightarrow> None
              | Some (Inl kr, st, ws) \<Rightarrow> Some (Inl kr, st, ws)
              | Some (Inr (name, entry), st, ws) \<Rightarrow>
                  let st = upd_entry space entry
                        (\<lambda>e. e\<lparr>ie_object := port, ie_request := 1,
                               ie_bits := ie_bits e OR (IE_BITS_COMPAT OR MACH_PORT_TYPE_RECEIVE)\<rparr>) st;
                      st = ipc_port_init port space name (init_object IOT_PORT port st);
                      (table, free) = dn_free_loop [2..<dnrequests_sizes 0] table 0;
                      table = table[0 := (table ! 0)\<lparr>ipr_soright := of_nat free\<rparr>];
                      table = table[1 := \<lparr>ipr_soright = ipr_spacem space, ipr_name = name\<rparr>];
                      st = upd_port port (\<lambda>p. p\<lparr>ip_dnrequests := Some \<lparr>ipr_size = 0, ipr_table = table\<rparr>\<rparr>) st
                  in Some (Inr name, is_reference space st, ws))))"

section \<open>Copyin and copyout by name\<close>

text \<open>0 stands for no right.\<close>

definition ipc_object_copyin_type :: "mach_msg_type_name_t \<Rightarrow> mach_msg_type_name_t option" where
  "ipc_object_copyin_type msgt_name =
     (if msgt_name = 0 then Some 0
      else if msgt_name = MACH_MSG_TYPE_MOVE_RECEIVE then Some MACH_MSG_TYPE_PORT_RECEIVE
      else if msgt_name = MACH_MSG_TYPE_MOVE_SEND_ONCE \<or> msgt_name = MACH_MSG_TYPE_MAKE_SEND_ONCE
      then Some MACH_MSG_TYPE_PORT_SEND_ONCE
      else if msgt_name = MACH_MSG_TYPE_MOVE_SEND \<or> msgt_name = MACH_MSG_TYPE_MAKE_SEND \<or>
              msgt_name = MACH_MSG_TYPE_COPY_SEND
      then Some MACH_MSG_TYPE_PORT_SEND
      else if msgt_name = MSG_TYPE_PORT then Some MACH_MSG_TYPE_PORT_SEND
      else if msgt_name = MSG_TYPE_PORT_ALL then Some MACH_MSG_TYPE_PORT_RECEIVE
      else None)"

definition ipc_object_copyin ::
  "ipc_space_t \<Rightarrow> mach_port_t \<Rightarrow> mach_msg_type_name_t \<Rightarrow> ipc_kernel
     \<Rightarrow> ((kern_return_t + ipc_object_t) \<times> ipc_kernel) option" where
  "ipc_object_copyin space name msgt_name st =
     (case ipc_right_lookup_write space name st of
        (Inl kr, st) \<Rightarrow> Some (Inl kr, st)
      | (Inr entry, st) \<Rightarrow> do {
          (r, st) \<leftarrow> ipc_right_copyin space name entry msgt_name True st;
          st \<leftarrow> (if IE_BITS_TYPE (ie_bits (get_entry st space entry)) = MACH_PORT_TYPE_NONE
                 then ipc_entry_dealloc st space name entry else Some st);
          (case r of
             Inl kr \<Rightarrow> Some (Inl kr, st)
           | Inr (object, soright) \<Rightarrow> Some (Inr object, notify_port_deleted soright name st))
        })"

definition ipc_object_copyin_from_kernel ::
  "ipc_object_t \<Rightarrow> mach_msg_type_name_t \<Rightarrow> ipc_kernel \<Rightarrow> ipc_kernel option" where
  "ipc_object_copyin_from_kernel port msgt_name st =
     (if msgt_name = MACH_MSG_TYPE_MOVE_RECEIVE then
        Some (upd_port port
          (\<lambda>p. p\<lparr>ip_mscount := 0, ip_receiver_name := MACH_PORT_NULL, ip_data := IP_NULL\<rparr>) st)
      else if msgt_name = MACH_MSG_TYPE_COPY_SEND then
        Some (ip_reference port
          (if ip_active (st_port st port)
           then upd_port port (\<lambda>p. p\<lparr>ip_srights := ip_srights p + 1\<rparr>) st else st))
      else if msgt_name = MACH_MSG_TYPE_MAKE_SEND then
        Some (upd_port port (\<lambda>p. p\<lparr>ip_mscount := ip_mscount p + 1, ip_srights := ip_srights p + 1\<rparr>)
               (ip_reference port st))
      else if msgt_name = MACH_MSG_TYPE_MOVE_SEND then Some st
      else if msgt_name = MACH_MSG_TYPE_MAKE_SEND_ONCE then
        Some (upd_port port (\<lambda>p. p\<lparr>ip_sorights := ip_sorights p + 1\<rparr>) (ip_reference port st))
      else if msgt_name = MACH_MSG_TYPE_MOVE_SEND_ONCE then Some st
      else None)"

definition ipc_object_destroy ::
  "bool \<Rightarrow> ipc_object_t \<Rightarrow> mach_msg_type_name_t \<Rightarrow> ipc_kernel \<Rightarrow> ipc_kernel option" where
  "ipc_object_destroy locked object msgt_name st =
     (if msgt_name = MACH_MSG_TYPE_PORT_SEND then Some (ipc_port_release_send object st)
      else if msgt_name = MACH_MSG_TYPE_PORT_SEND_ONCE then Some (emit (Notify_send_once object) st)
      else if msgt_name = MACH_MSG_TYPE_PORT_RECEIVE then ipc_port_release_receive locked object st
      else None)"

text \<open>The search for a name under which the space already holds the object.\<close>

definition copyout_reverse ::
  "mach_msg_type_name_t \<Rightarrow> ipc_space_t \<Rightarrow> ipc_object_t \<Rightarrow> ipc_kernel
     \<Rightarrow> ((mach_port_t \<times> ipc_entry_t) option \<times> ipc_kernel) option" where
  "copyout_reverse msgt_name space object st =
     (if msgt_name \<noteq> MACH_MSG_TYPE_PORT_SEND_ONCE then ipc_right_reverse space object st else Some (None, st))"

text \<open>The last part of a copyout, with the name that the object gets.\<close>

definition copyout_right ::
  "ipc_space_t \<Rightarrow> mach_port_t \<Rightarrow> ipc_entry_t \<Rightarrow> mach_msg_type_name_t \<Rightarrow> bool \<Rightarrow> ipc_object_t \<Rightarrow> kernel_window list
     \<Rightarrow> ipc_kernel \<Rightarrow> ((kern_return_t + mach_port_t) \<times> ipc_kernel \<times> kernel_window list) option" where
  "copyout_right space name entry msgt_name overflow object ws st = do {
     (kr, st) \<leftarrow> ipc_right_copyout space name entry msgt_name overflow object st;
     Some (if kr = KERN_SUCCESS then Inr name else Inl kr, st, ws)
   }"

function ipc_object_copyout ::
  "kernel_window list \<Rightarrow> ipc_space_t \<Rightarrow> ipc_object_t \<Rightarrow> mach_msg_type_name_t \<Rightarrow> bool \<Rightarrow> ipc_kernel
     \<Rightarrow> ((kern_return_t + mach_port_t) \<times> ipc_kernel \<times> kernel_window list) option" where
  "ipc_object_copyout ws space object msgt_name overflow st =
     (if \<not> is_active (st_space st space) then Some (Inl KERN_INVALID_TASK, st, ws)
      else
        (case copyout_reverse msgt_name space object st of
           None \<Rightarrow> None
         | Some (Some (name, entry), st) \<Rightarrow> copyout_right space name entry msgt_name overflow object ws st
         | Some (None, st) \<Rightarrow>
             (case ipc_entry_get st space of
                (Inl _, st) \<Rightarrow>
                  (case ipc_entry_grow_table ws st space of
                     None \<Rightarrow> None
                   | Some (kr, st, ws) \<Rightarrow>
                       if kr \<noteq> KERN_SUCCESS then Some (Inl kr, st, ws)
                       else ipc_object_copyout ws space object msgt_name overflow st)
              | (Inr (name, entry), st) \<Rightarrow>
                  if \<not> ip_active (st_port st object) then do {
                    st \<leftarrow> ipc_entry_dealloc st space name entry;
                    Some (Inl KERN_INVALID_CAPABILITY, st, ws)
                  }
                  else copyout_right space name entry msgt_name overflow object ws
                         (upd_entry space entry (\<lambda>e. e\<lparr>ie_object := object\<rparr>) st))))"
  by pat_completeness auto
termination
  by (relation "measure (\<lambda>(ws, space, object, msgt_name, overflow, st). length ws)")
     (auto dest: grow_table_windows)

declare ipc_object_copyout.simps [simp del]

definition ipc_object_copyout_name ::
  "kernel_window list \<Rightarrow> ipc_space_t \<Rightarrow> ipc_object_t \<Rightarrow> mach_msg_type_name_t \<Rightarrow> bool \<Rightarrow> mach_port_t
     \<Rightarrow> ipc_kernel \<Rightarrow> (kern_return_t \<times> ipc_kernel \<times> kernel_window list) option" where
  "ipc_object_copyout_name ws space object msgt_name overflow name st =
     (case ipc_entry_alloc_name ws st space name of
        None \<Rightarrow> None
      | Some (Inl kr, st, ws) \<Rightarrow> Some (kr, st, ws)
      | Some (Inr entry, st, ws) \<Rightarrow> do {
          (found, st) \<leftarrow> copyout_reverse msgt_name space object st;
          (case found of
             Some (oname, oentry) \<Rightarrow>
               if name \<noteq> oname then do {
                 st \<leftarrow> (if IE_BITS_TYPE (ie_bits (get_entry st space entry)) = MACH_PORT_TYPE_NONE
                        then ipc_entry_dealloc st space name entry else Some st);
                 Some (KERN_RIGHT_EXISTS, st, ws)
               } else do {
                 (kr, st) \<leftarrow> ipc_right_copyout space name entry msgt_name overflow object st;
                 Some (kr, st, ws)
               }
           | None \<Rightarrow> do {
               (inuse, st) \<leftarrow> ipc_right_inuse space name entry st;
               if inuse then Some (KERN_NAME_EXISTS, st, ws)
               else if \<not> ip_active (st_port st object) then do {
                 st \<leftarrow> ipc_entry_dealloc st space name entry;
                 Some (KERN_INVALID_CAPABILITY, st, ws)
               } else do {
                 (kr, st) \<leftarrow> ipc_right_copyout space name entry msgt_name overflow object
                               (upd_entry space entry (\<lambda>e. e\<lparr>ie_object := object\<rparr>) st);
                 Some (kr, st, ws)
               }
             })
        })"

definition ipc_object_copyout_dest ::
  "ipc_space_t \<Rightarrow> ipc_object_t \<Rightarrow> mach_msg_type_name_t \<Rightarrow> ipc_kernel \<Rightarrow> (mach_port_t \<times> ipc_kernel) option" where
  "ipc_object_copyout_dest space port msgt_name st =
     (let st = ip_release port st
      in if msgt_name = MACH_MSG_TYPE_PORT_SEND then
           let (nsrequest, mscount, st) = drop_send port st;
               p = st_port st port;
               name = (if ip_receiver p = space then ip_receiver_name p else MACH_PORT_NULL)
           in Some (name, notify_no_senders nsrequest mscount st)
         else if msgt_name = MACH_MSG_TYPE_PORT_SEND_ONCE then
           if ip_receiver (st_port st port) = space then
             Some (ip_receiver_name (st_port st port),
               upd_port port (\<lambda>p. p\<lparr>ip_sorights := ip_sorights p - 1\<rparr>) st)
           else Some (MACH_PORT_NULL, emit (Notify_send_once port) (ip_reference port st))
         else None)"

definition ipc_object_rename ::
  "kernel_window list \<Rightarrow> ipc_space_t \<Rightarrow> mach_port_t \<Rightarrow> mach_port_t \<Rightarrow> ipc_kernel
     \<Rightarrow> (kern_return_t \<times> ipc_kernel \<times> kernel_window list) option" where
  "ipc_object_rename ws space oname nname st =
     (case ipc_entry_alloc_name ws st space nname of
        None \<Rightarrow> None
      | Some (Inl kr, st, ws) \<Rightarrow> Some (kr, st, ws)
      | Some (Inr nentry, st, ws) \<Rightarrow> do {
          (inuse, st) \<leftarrow> ipc_right_inuse space nname nentry st;
          if inuse then Some (KERN_NAME_EXISTS, st, ws)
          else
            (case (if oname = nname then (None, st) else ipc_entry_lookup st space oname) of
               (None, st) \<Rightarrow> do {
                 st \<leftarrow> ipc_entry_dealloc st space nname nentry;
                 Some (KERN_INVALID_NAME, st, ws)
               }
             | (Some oentry, st) \<Rightarrow> do {
                 (kr, st) \<leftarrow> ipc_right_rename space oname oentry nname nentry st;
                 Some (kr, st, ws)
               })
        })"

section \<open>Old messages\<close>

definition ipc_object_copyout_type_compat :: "mach_msg_type_name_t \<Rightarrow> mach_msg_type_name_t option" where
  "ipc_object_copyout_type_compat msgt_name =
     (if msgt_name = MACH_MSG_TYPE_PORT_SEND \<or> msgt_name = MACH_MSG_TYPE_PORT_SEND_ONCE then Some MSG_TYPE_PORT
      else if msgt_name = MACH_MSG_TYPE_PORT_RECEIVE then Some MSG_TYPE_PORT_ALL
      else None)"

definition ipc_object_copyin_compat ::
  "ipc_space_t \<Rightarrow> mach_port_t \<Rightarrow> mach_msg_type_name_t \<Rightarrow> bool \<Rightarrow> ipc_kernel
     \<Rightarrow> ((kern_return_t + ipc_object_t) \<times> ipc_kernel) option" where
  "ipc_object_copyin_compat space name msgt_name dealloc st =
     (case ipc_right_lookup_write space name st of
        (Inl kr, st) \<Rightarrow> Some (Inl kr, st)
      | (Inr entry, st) \<Rightarrow> ipc_right_copyin_compat space name entry msgt_name dealloc st)"

definition ipc_object_copyin_header ::
  "ipc_space_t \<Rightarrow> mach_port_t \<Rightarrow> ipc_kernel
     \<Rightarrow> ((kern_return_t + ipc_object_t \<times> mach_msg_type_name_t) \<times> ipc_kernel) option" where
  "ipc_object_copyin_header space name st =
     (case ipc_right_lookup_write space name st of
        (Inl kr, st) \<Rightarrow> Some (Inl kr, st)
      | (Inr entry, st) \<Rightarrow> ipc_right_copyin_header space name entry st)"

text \<open>The new entry gets a request that destroys it when the port dies.\<close>

definition compat_entry :: "ipc_space_t \<Rightarrow> ipc_entry_t \<Rightarrow> ipc_port_t \<Rightarrow> nat \<Rightarrow> ipc_kernel \<Rightarrow> ipc_kernel" where
  "compat_entry space entry port request st =
     upd_entry space entry
       (\<lambda>e. e\<lparr>ie_object := port, ie_request := request, ie_bits := ie_bits e OR IE_BITS_COMPAT\<rparr>)
       (is_reference space st)"

function ipc_object_copyout_compat ::
  "kernel_window list \<Rightarrow> dn_window list \<Rightarrow> ipc_space_t \<Rightarrow> ipc_port_t \<Rightarrow> mach_msg_type_name_t \<Rightarrow> ipc_kernel
     \<Rightarrow> ((kern_return_t + mach_port_t) \<times> ipc_kernel \<times> kernel_window list) option" where
  "ipc_object_copyout_compat ws gs space port msgt_name st =
     (if \<not> is_active (st_space st space) then Some (Inl KERN_INVALID_TASK, st, ws)
      else
        (case copyout_reverse msgt_name space port st of
           None \<Rightarrow> None
         | Some (Some (name, entry), st) \<Rightarrow> copyout_right space name entry msgt_name True port ws st
         | Some (None, st) \<Rightarrow>
             (case ipc_entry_get st space of
                (Inl _, st) \<Rightarrow>
                  (case ipc_entry_grow_table ws st space of
                     None \<Rightarrow> None
                   | Some (kr, st, ws) \<Rightarrow>
                       if kr \<noteq> KERN_SUCCESS then Some (Inl kr, st, ws)
                       else ipc_object_copyout_compat ws gs space port msgt_name st)
              | (Inr (name, entry), st) \<Rightarrow>
                  if \<not> ip_active (st_port st port) then do {
                    st \<leftarrow> ipc_entry_dealloc st space name entry;
                    Some (Inl KERN_INVALID_CAPABILITY, st, ws)
                  }
                  else
                    (case ipc_port_dnrequest port name (ipr_spacem space) st of
                       (Inr request, st) \<Rightarrow>
                         copyout_right space name entry msgt_name True port ws
                           (compat_entry space entry port request st)
                     | (Inl _, st) \<Rightarrow>
                         (case ipc_entry_dealloc st space name entry of
                            None \<Rightarrow> None
                          | Some st \<Rightarrow>
                              (case gs of
                                 [] \<Rightarrow> None
                               | (alloc, other) # gs \<Rightarrow>
                                   (case ipc_port_dngrow alloc other port st of
                                      (kr, st) \<Rightarrow>
                                        if kr \<noteq> KERN_SUCCESS then Some (Inl kr, st, ws)
                                        else ipc_object_copyout_compat ws gs space port msgt_name st)))))))"
  by pat_completeness auto
termination
  by (relation "measure (\<lambda>(ws, gs, space, port, msgt_name, st). length ws + length gs)")
     (auto dest: grow_table_windows)

declare ipc_object_copyout_compat.simps [simp del]

fun ipc_object_copyout_name_compat ::
  "kernel_window list \<Rightarrow> dn_window list \<Rightarrow> ipc_space_t \<Rightarrow> ipc_port_t \<Rightarrow> mach_msg_type_name_t \<Rightarrow> mach_port_t
     \<Rightarrow> ipc_kernel \<Rightarrow> (kern_return_t \<times> ipc_kernel \<times> kernel_window list) option" where
  "ipc_object_copyout_name_compat ws gs space port msgt_name name st =
     (case ipc_entry_alloc_name ws st space name of
        None \<Rightarrow> None
      | Some (Inl kr, st, ws) \<Rightarrow> Some (kr, st, ws)
      | Some (Inr entry, st, ws) \<Rightarrow>
          (case ipc_right_inuse space name entry st of
             None \<Rightarrow> None
           | Some (inuse, st) \<Rightarrow>
               if inuse then Some (KERN_NAME_EXISTS, st, ws)
               else
                 (case copyout_reverse msgt_name space port st of
                    None \<Rightarrow> None
                  | Some (Some _, st) \<Rightarrow> do {
                      st \<leftarrow> ipc_entry_dealloc st space name entry;
                      Some (KERN_RIGHT_EXISTS, st, ws)
                    }
                  | Some (None, st) \<Rightarrow>
                      if \<not> ip_active (st_port st port) then do {
                        st \<leftarrow> ipc_entry_dealloc st space name entry;
                        Some (KERN_INVALID_CAPABILITY, st, ws)
                      }
                      else
                        (case ipc_port_dnrequest port name (ipr_spacem space) st of
                           (Inr request, st) \<Rightarrow> do {
                             (kr, st) \<leftarrow> ipc_right_copyout space name entry msgt_name True port
                                           (compat_entry space entry port request st);
                             Some (kr, st, ws)
                           }
                         | (Inl _, st) \<Rightarrow>
                             (case ipc_entry_dealloc st space name entry of
                                None \<Rightarrow> None
                              | Some st \<Rightarrow>
                                  (case gs of
                                     [] \<Rightarrow> None
                                   | (alloc, other) # gs \<Rightarrow>
                                       (case ipc_port_dngrow alloc other port st of
                                          (kr, st) \<Rightarrow>
                                            if kr \<noteq> KERN_SUCCESS then Some (kr, st, ws)
                                            else ipc_object_copyout_name_compat ws gs space port msgt_name name st)))))))"

declare ipc_object_copyout_name_compat.simps [simp del]

section \<open>Naked rights of ports\<close>

definition ipc_port_copyout_send ::
  "kernel_window list \<Rightarrow> ipc_port_t \<Rightarrow> ipc_space_t \<Rightarrow> ipc_kernel
     \<Rightarrow> (mach_port_t \<times> ipc_kernel \<times> kernel_window list) option" where
  "ipc_port_copyout_send ws sright space st =
     (if IP_VALID sright then
        (case ipc_object_copyout ws space sright MACH_MSG_TYPE_PORT_SEND True st of
           None \<Rightarrow> None
         | Some (Inr name, st, ws) \<Rightarrow> Some (name, st, ws)
         | Some (Inl kr, st, ws) \<Rightarrow>
             Some (if kr = KERN_INVALID_CAPABILITY then MACH_PORT_DEAD else MACH_PORT_NULL,
                   ipc_port_release_send sright st, ws))
      else Some (sright, st, ws))"

definition ipc_port_copyout_send_compat ::
  "kernel_window list \<Rightarrow> dn_window list \<Rightarrow> ipc_port_t \<Rightarrow> ipc_space_t \<Rightarrow> ipc_kernel
     \<Rightarrow> (mach_port_t \<times> ipc_kernel \<times> kernel_window list) option" where
  "ipc_port_copyout_send_compat ws gs sright space st =
     (if IP_VALID sright then
        (case ipc_object_copyout_compat ws gs space sright MACH_MSG_TYPE_PORT_SEND st of
           None \<Rightarrow> None
         | Some (Inr name, st, ws) \<Rightarrow> Some (name, st, ws)
         | Some (Inl kr, st, ws) \<Rightarrow> Some (MACH_PORT_NULL, ipc_port_release_send sright st, ws))
      else Some (sright, st, ws))"

definition ipc_port_copyout_receiver ::
  "ipc_port_t \<Rightarrow> ipc_space_t \<Rightarrow> ipc_kernel \<Rightarrow> mach_port_t \<times> ipc_kernel" where
  "ipc_port_copyout_receiver port space st =
     (if \<not> IP_VALID port then (MACH_PORT_NULL, st)
      else
        (if ip_receiver (st_port st port) = space then ip_receiver_name (st_port st port) else MACH_PORT_NULL,
         ip_release port st))"

section \<open>Creation and destruction of spaces\<close>

text \<open>The wait for a thread that is growing the table; each function is what happens in one wait.\<close>

fun wait_growing :: "(ipc_kernel \<Rightarrow> ipc_kernel) list \<Rightarrow> ipc_space_t \<Rightarrow> ipc_kernel \<Rightarrow> ipc_kernel option" where
  "wait_growing waits space st =
     (if \<not> is_growing (st_space st space) then Some st
      else (case waits of [] \<Rightarrow> None | other # waits \<Rightarrow> wait_growing waits space (other st)))"

declare wait_growing.simps [simp del]

fun clean_table :: "bool \<Rightarrow> ipc_space_t \<Rightarrow> nat list \<Rightarrow> ipc_kernel \<Rightarrow> ipc_kernel option" where
  "clean_table locked space [] st = Some st"
| "clean_table locked space (index # indices) st =
     (let bits = ie_bits (get_entry st space (Table index))
      in if IE_BITS_TYPE bits \<noteq> MACH_PORT_TYPE_NONE then do {
           st \<leftarrow> ipc_right_clean locked space (MACH_PORT_MAKEB index bits) (Table index) st;
           clean_table locked space indices st
         }
         else clean_table locked space indices st)"

text \<open>The body of the traversal of the tree; every entry is deleted as it is passed.\<close>

definition clean_tree_entry ::
  "bool \<Rightarrow> ipc_space_t \<Rightarrow> ipc_kernel option \<Rightarrow> mach_port_t \<Rightarrow> ite_t \<Rightarrow> ipc_kernel option \<times> bool" where
  "clean_tree_entry locked space ost name tentry =
     (do {
        st \<leftarrow> ost;
        let st = (if IE_BITS_TYPE (te_bits (st_ite st tentry)) = MACH_PORT_TYPE_SEND
                  then ipc_hash_global_delete st space (te_object (st_ite st tentry)) tentry else st);
        ipc_right_clean locked space name (Tree tentry) st
      }, True)"

definition ipc_space_destroy ::
  "bool \<Rightarrow> (ipc_kernel \<Rightarrow> ipc_kernel) list \<Rightarrow> ipc_space_t \<Rightarrow> ipc_kernel \<Rightarrow> ipc_kernel option" where
  "ipc_space_destroy locked waits space st =
     (let active = is_active (st_space st space);
          st = upd_space space (\<lambda>s. s\<lparr>is_active := False\<rparr>) st
      in if \<not> active then Some st
         else do {
           st \<leftarrow> wait_growing waits space st;
           st \<leftarrow> clean_table locked space [0..<is_table_size (st_space st space)] st;
           (ost, tree) \<leftarrow> ipc_splay_traverse (clean_tree_entry locked space) (Some st)
                            (is_tree (st_space st space));
           st \<leftarrow> ost;
           let st = set_tree space tree st;
           let notify = is_notify (st_space st space);
           let st = (if IP_VALID notify then ipc_port_release_send notify st else st);
           Some (is_release space st)
         })"

text \<open>The entries of a new table are on the free list, in ascending order.\<close>

definition new_table :: "nat \<Rightarrow> ipc_entry list" where
  "new_table new_size =
     (let table = map (\<lambda>index. zero_entry\<lparr>ie_bits := IE_BITS_GEN_MASK, ie_request := index + 1\<rparr>) [0..<new_size]
      in table[new_size - 1 := (table ! (new_size - 1))\<lparr>ie_request := 0\<rparr>])"

text \<open>
  \<open>space\<close> is the address of the new space and \<open>table\<close> whether its table could be allocated;
  \<open>port\<close> and \<open>alloc\<close> are for its notify port. The result is a return code and the space.
\<close>

definition ipc_space_create ::
  "bool \<Rightarrow> kernel_window list \<Rightarrow> ipc_space_t \<Rightarrow> bool \<Rightarrow> ipc_port_t \<Rightarrow> ipc_port_request list option \<Rightarrow> nat
     \<Rightarrow> ipc_kernel \<Rightarrow> (kern_return_t \<times> ipc_kernel) option" where
  "ipc_space_create locked ws space table port alloc initial st =
     (if space = IS_NULL \<or> \<not> table then Some (KERN_RESOURCE_SHORTAGE, st)
      else
        let st = upd_space space
              (\<lambda>s. s\<lparr>is_references := 2, is_active := True, is_growing := False,
                     is_table := new_table (entries_sizes initial), is_table_next := initial + 1,
                     is_tree := ipc_splay_tree_init (is_tree s),
                     is_tree_total := 0, is_tree_small := 0, is_tree_hash := 0, is_notify := IP_NULL\<rparr>) st
        in (case ipc_port_alloc_compat ws port alloc space st of
              None \<Rightarrow> None
            | Some (Inl kr, st, ws) \<Rightarrow> do {
                st \<leftarrow> ipc_space_destroy locked [] space st;
                Some (kr, is_release space st)
              }
            | Some (Inr name, st, ws) \<Rightarrow>
                let st = upd_port port (\<lambda>p. p\<lparr>ip_srights := ip_srights p + 1\<rparr>) (ip_reference port st)
                in Some (KERN_SUCCESS, upd_space space (\<lambda>s. s\<lparr>is_notify := port\<rparr>) st)))"

definition ipc_space_create_special :: "ipc_space_t \<Rightarrow> ipc_kernel \<Rightarrow> kern_return_t \<times> ipc_kernel" where
  "ipc_space_create_special space st =
     (if space = IS_NULL then (KERN_RESOURCE_SHORTAGE, st)
      else (KERN_SUCCESS, upd_space space (\<lambda>s. s\<lparr>is_references := 1, is_active := False\<rparr>) st))"

end
