(* ===== verification/IpcMessage.thy ===== *)
theory IpcMessage
  imports IpcObject
begin

text \<open>
  Sending and receiving messages (\<^verbatim>\<open>ipc_mqueue_send\<close>, \<^verbatim>\<open>ipc_mqueue_copyin\<close> and
  \<^verbatim>\<open>ipc_mqueue_receive\<close> of \<^verbatim>\<open>ipc/ipc_mqueue.c\<close>).

  A thread that blocks is given the rest of the kernel's run until it wakes up as a function on
  the state, with the reason for the wakeup; each operation takes the list of these. The space of
  the kernel and the server for messages to kernel objects, which dispatches to generated stubs,
  are parameters.
\<close>

section \<open>Options and waits\<close>

type_synonym mach_msg_option_t = "32 word"

abbreviation MACH_SEND_TIMEOUT :: mach_msg_option_t where "MACH_SEND_TIMEOUT \<equiv> 0x00000010"
abbreviation MACH_RCV_TIMEOUT :: mach_msg_option_t where "MACH_RCV_TIMEOUT \<equiv> 0x00000100"
abbreviation MACH_SEND_ALWAYS :: mach_msg_option_t where "MACH_SEND_ALWAYS \<equiv> 0x00010000"
abbreviation MACH_MSG_TIMEOUT_NONE :: "32 word" where "MACH_MSG_TIMEOUT_NONE \<equiv> 0"

datatype wait_result_t = THREAD_AWAKENED | THREAD_TIMED_OUT | THREAD_INTERRUPTED | THREAD_RESTART

type_synonym wait = "(ipc_kernel \<Rightarrow> ipc_kernel) \<times> wait_result_t"

section \<open>Sending\<close>

text \<open>The sender joins the threads that wait for room at the port, and waits.\<close>

definition block_sender :: "ipc_thread_t \<Rightarrow> ipc_port_t \<Rightarrow> ipc_kernel \<Rightarrow> ipc_kernel" where
  "block_sender self port st =
     upd_thread self (\<lambda>t. t\<lparr>ith_state := MACH_SEND_IN_PROGRESS\<rparr>)
       (upd_port port (\<lambda>p. p\<lparr>ip_blocked := ip_blocked p @ [self]\<rparr>) st)"

text \<open>
  The loop that waits for room in the queue of the port. \<open>Inr True\<close>: the message can be queued;
  \<open>Inr False\<close>: the port is dead and the message was destroyed.
\<close>

fun send_wait ::
  "wait list \<Rightarrow> ipc_thread_t \<Rightarrow> ipc_kmsg \<Rightarrow> mach_msg_option_t \<Rightarrow> 32 word \<Rightarrow> ipc_kernel
     \<Rightarrow> ((mach_msg_return_t + bool) \<times> ipc_kernel) option" where
  "send_wait ws self kmsg option time_out st =
     (let port = msgh_remote_port kmsg;
          p = st_port st port
      in if \<not> ip_active p then
           Some (Inr False, emit (Kmsg_destroy (kmsg\<lparr>msgh_remote_port := MACH_PORT_NULL\<rparr>)) (ip_release port st))
         else if ip_msgcount p < ip_qlimit p \<or> option AND MACH_SEND_ALWAYS \<noteq> 0 \<or> ikm_send_once kmsg then
           Some (Inr True, st)
         else if option AND MACH_SEND_TIMEOUT \<noteq> 0 \<and> time_out = 0 then Some (Inl MACH_SEND_TIMED_OUT, st)
         else
           (case ws of
              [] \<Rightarrow> None
            | (other, wait_result) # ws \<Rightarrow>
                let st = other (block_sender self port st)
                in if ith_state (st_thread st self) = MACH_MSG_SUCCESS
                   then send_wait ws self kmsg option time_out st
                   else
                     let st = upd_port port (\<lambda>p. p\<lparr>ip_blocked := remove1 self (ip_blocked p)\<rparr>) st
                     in (case wait_result of
                           THREAD_INTERRUPTED \<Rightarrow> Some (Inl MACH_SEND_INTERRUPTED, st)
                         | THREAD_TIMED_OUT \<Rightarrow> send_wait ws self kmsg option 0 st
                         | _ \<Rightarrow> None)))"

declare send_wait.simps [simp del]

text \<open>The queue that a message for a port goes to.\<close>

definition current_mqueue :: "ipc_port_t \<Rightarrow> ipc_kernel \<Rightarrow> ipc_mqueue_t" where
  "current_mqueue port st =
     (if ip_pset (st_port st port) = IPS_NULL then Port_mq port else Pset_mq (ip_pset (st_port st port)))"

definition enqueue_kmsg :: "ipc_kmsg \<Rightarrow> ipc_kernel \<Rightarrow> ipc_kernel" where
  "enqueue_kmsg kmsg st =
     (let port = msgh_remote_port kmsg;
          st = upd_port port (\<lambda>p. p\<lparr>ip_msgcount := ip_msgcount p + 1\<rparr>) st
      in deliver (current_mqueue port st) port kmsg st)"

text \<open>
  \<open>server\<close> answers a message to a kernel object; its reply, if any, is sent with
  \<^verbatim>\<open>ipc_mqueue_send_always\<close>. The chain of replies of the kernel to itself need not end.
\<close>

partial_function (option) ipc_mqueue_send ::
  "ipc_space_t \<Rightarrow> (ipc_kmsg \<Rightarrow> ipc_kernel \<Rightarrow> ipc_kmsg option \<times> ipc_kernel) \<Rightarrow> wait list \<Rightarrow> ipc_thread_t \<Rightarrow> ipc_kmsg
     \<Rightarrow> mach_msg_option_t \<Rightarrow> 32 word \<Rightarrow> ipc_kernel \<Rightarrow> (mach_msg_return_t \<times> ipc_kernel) option" where
  "ipc_mqueue_send ipc_space_kernel server ws self kmsg option time_out st =
     (if ip_receiver (st_port st (msgh_remote_port kmsg)) = ipc_space_kernel then
        (case fst (server kmsg st) of
           None \<Rightarrow> Some (MACH_MSG_SUCCESS, snd (server kmsg st))
         | Some reply \<Rightarrow>
             Option.bind
               (ipc_mqueue_send ipc_space_kernel server ws self reply MACH_SEND_ALWAYS MACH_MSG_TIMEOUT_NONE
                  (snd (server kmsg st)))
               (\<lambda>r. Some (MACH_MSG_SUCCESS, snd r)))
      else
        (case send_wait ws self kmsg option time_out st of
           None \<Rightarrow> None
         | Some (Inl mr, st) \<Rightarrow> Some (mr, st)
         | Some (Inr False, st) \<Rightarrow> Some (MACH_MSG_SUCCESS, st)
         | Some (Inr True, st) \<Rightarrow>
             if ikm_circular kmsg then Some (MACH_MSG_SUCCESS, emit (Kmsg_destroy kmsg) st)
             else Some (MACH_MSG_SUCCESS, enqueue_kmsg kmsg st)))"

declare ipc_mqueue_send.simps [code]

section \<open>Receiving\<close>

definition ipc_mqueue_copyin ::
  "ipc_space_t \<Rightarrow> mach_port_t \<Rightarrow> ipc_kernel \<Rightarrow> (mach_msg_return_t + ipc_mqueue_t \<times> ipc_object_t) \<times> ipc_kernel" where
  "ipc_mqueue_copyin space name st =
     (if \<not> is_active (st_space st space) then (Inl MACH_RCV_INVALID_NAME, st)
      else
        (case ipc_entry_lookup st space name of
           (None, st) \<Rightarrow> (Inl MACH_RCV_INVALID_NAME, st)
         | (Some entry, st) \<Rightarrow>
             let e = get_entry st space entry;
                 bits = ie_bits e;
                 object = ie_object e
             in if bits AND MACH_PORT_TYPE_RECEIVE \<noteq> 0 then
                  let pset = ip_pset (st_port st object)
                  in if pset \<noteq> IPS_NULL \<and> ips_active (st_pset st pset) then (Inl MACH_RCV_IN_SET, st)
                     else
                       let st = (if pset \<noteq> IPS_NULL then ipc_pset_remove pset object st else st)
                       in (Inr (Port_mq object, object), ip_reference object st)
                else if bits AND MACH_PORT_TYPE_PORT_SET \<noteq> 0 then
                  (Inr (Pset_mq object, object), ips_reference object st)
                else (Inl MACH_RCV_INVALID_NAME, st)))"

text \<open>What a receive returns: a message with its sequence number, the size of a message that is
  too large, or another error.\<close>

datatype receive_result = Received ipc_kmsg "32 word" | Too_large nat | Failed mach_msg_return_t

text \<open>
  What a thread finds when it wakes up, from \<^verbatim>\<open>after_thread_block\<close> on. \<open>Inr ()\<close>: its time
  is over, and it looks at the queue once more.
\<close>

definition after_thread_block ::
  "ipc_thread_t \<Rightarrow> wait_result_t \<Rightarrow> ipc_mqueue_t \<Rightarrow> ipc_kernel \<Rightarrow> ((receive_result + unit) \<times> ipc_kernel) option" where
  "after_thread_block self wait_result mq st =
     (let th = st_thread st self
      in case ith_state th of
           MACH_MSG_SUCCESS \<Rightarrow>
             (case ith_kmsg th of
                None \<Rightarrow> None
              | Some kmsg \<Rightarrow> Some (Inl (Received kmsg (ith_seqno th)), st))
         | MACH_RCV_TOO_LARGE \<Rightarrow> Some (Inl (Too_large (ith_msize th)), st)
         | MACH_RCV_PORT_DIED \<Rightarrow> Some (Inl (Failed MACH_RCV_PORT_DIED), st)
         | MACH_RCV_PORT_CHANGED \<Rightarrow> Some (Inl (Failed MACH_RCV_PORT_CHANGED), st)
         | MACH_RCV_IN_PROGRESS \<Rightarrow>
             let st = upd_mq mq (\<lambda>q. q\<lparr>imq_threads := remove1 self (imq_threads q)\<rparr>) st
             in (case wait_result of
                   THREAD_INTERRUPTED \<Rightarrow> Some (Inl (Failed MACH_RCV_INTERRUPTED), st)
                 | THREAD_TIMED_OUT \<Rightarrow> Some (Inr (), st)
                 | _ \<Rightarrow> None)
         | _ \<Rightarrow> None)"

fun receive_loop ::
  "wait list \<Rightarrow> ipc_thread_t \<Rightarrow> ipc_mqueue_t \<Rightarrow> mach_msg_option_t \<Rightarrow> nat \<Rightarrow> 32 word \<Rightarrow> ipc_kernel
     \<Rightarrow> (receive_result \<times> ipc_kernel) option" where
  "receive_loop ws self mq option max_size time_out st =
     (case imq_messages (get_mq st mq) of
        kmsg # kmsgs \<Rightarrow>
          if msgh_size kmsg > max_size then Some (Too_large (msgh_size kmsg), st)
          else
            let st = upd_mq mq (\<lambda>q. q\<lparr>imq_messages := kmsgs\<rparr>) st;
                port = msgh_remote_port kmsg;
                seqno = ip_seqno (st_port st port)
            in Some (Received kmsg seqno, upd_port port (\<lambda>p. p\<lparr>ip_seqno := seqno + 1\<rparr>) st)
      | [] \<Rightarrow>
          if option AND MACH_RCV_TIMEOUT \<noteq> 0 \<and> time_out = 0 then Some (Failed MACH_RCV_TIMED_OUT, st)
          else
            (case ws of
               [] \<Rightarrow> None
             | (other, wait_result) # ws \<Rightarrow>
                 let st = upd_mq mq (\<lambda>q. q\<lparr>imq_threads := imq_threads q @ [self]\<rparr>) st;
                     st = upd_thread self (\<lambda>t. t\<lparr>ith_state := MACH_RCV_IN_PROGRESS, ith_msize := max_size\<rparr>) st
                 in (case after_thread_block self wait_result mq (other st) of
                       None \<Rightarrow> None
                     | Some (Inl r, st) \<Rightarrow> Some (r, st)
                     | Some (Inr _, st) \<Rightarrow> receive_loop ws self mq option max_size 0 st)))"

declare receive_loop.simps [simp del]

text \<open>The second half: the request of the sender is answered and a blocked sender may go on.\<close>

definition receive_finish :: "ipc_kmsg \<Rightarrow> ipc_kernel \<Rightarrow> (ipc_kmsg \<times> ipc_kernel) option" where
  "receive_finish kmsg st = do {
     st \<leftarrow> (if ikm_marequest kmsg \<noteq> IMAR_NULL then ipc_marequest_destroy (ikm_marequest kmsg) st else Some st);
     let port = msgh_remote_port kmsg;
     let kmsg = kmsg\<lparr>ikm_marequest := IMAR_NULL\<rparr>;
     if ip_active (st_port st port) then
       let st = upd_port port (\<lambda>p. p\<lparr>ip_msgcount := ip_msgcount p - 1\<rparr>) st;
           p = st_port st port
       in (case ip_blocked p of
             sender # senders \<Rightarrow>
               if ip_msgcount p < ip_qlimit p
               then Some (kmsg, wake MACH_MSG_SUCCESS sender (upd_port port (\<lambda>p. p\<lparr>ip_blocked := senders\<rparr>) st))
               else Some (kmsg, st)
           | [] \<Rightarrow> Some (kmsg, st))
     else Some (kmsg, st)
   }"

text \<open>
  \<open>resume\<close> tells why a thread that blocked without its kernel stack woke up, if the receive is
  resumed.
\<close>

definition ipc_mqueue_receive ::
  "wait list \<Rightarrow> ipc_thread_t \<Rightarrow> ipc_mqueue_t \<Rightarrow> mach_msg_option_t \<Rightarrow> nat \<Rightarrow> 32 word \<Rightarrow> wait_result_t option
     \<Rightarrow> ipc_kernel \<Rightarrow> (receive_result \<times> ipc_kernel) option" where
  "ipc_mqueue_receive ws self mq option max_size time_out resume st = do {
     (r, st) \<leftarrow>
       (case resume of
          None \<Rightarrow> receive_loop ws self mq option max_size time_out st
        | Some wait_result \<Rightarrow>
            (case after_thread_block self wait_result mq st of
               None \<Rightarrow> None
             | Some (Inl r, st) \<Rightarrow> Some (r, st)
             | Some (Inr _, st) \<Rightarrow> receive_loop ws self mq option max_size 0 st));
     (case r of
        Received kmsg seqno \<Rightarrow> do {
          (kmsg, st) \<leftarrow> receive_finish kmsg st;
          Some (Received kmsg seqno, st)
        }
      | _ \<Rightarrow> Some (r, st))
   }"

end
