(* ===== verification/FreeList.thy ===== *)
theory FreeList
  imports IpcEntry
begin

text \<open>
  The free list of a table of entries. \<open>chain N i js\<close> says that following \<open>N\<close> from \<open>i\<close>
  visits exactly \<open>js\<close> before reaching 0. Entries can be between the free list and use: taken
  from the list and not yet given a type, so the invariant has a set of such entries.
\<close>

section \<open>Chains\<close>

fun path :: "(nat \<Rightarrow> nat) \<Rightarrow> nat \<Rightarrow> nat list \<Rightarrow> bool" where
  "path N i [] \<longleftrightarrow> True"
| "path N i (j # js) \<longleftrightarrow> N i = j \<and> j \<noteq> 0 \<and> path N j js"

definition chain :: "(nat \<Rightarrow> nat) \<Rightarrow> nat \<Rightarrow> nat list \<Rightarrow> bool" where
  "chain N i js \<longleftrightarrow> path N i js \<and> N (last (i # js)) = 0"

lemma path_append: "path N i (xs @ ys) \<longleftrightarrow> path N i xs \<and> path N (last (i # xs)) ys"
  by (induction xs arbitrary: i) auto

lemma path_cong: "(\<And>k. k \<in> set (butlast (i # js)) \<Longrightarrow> N' k = N k) \<Longrightarrow> path N' i js \<longleftrightarrow> path N i js"
  by (induction js arbitrary: i) auto

lemma chain_cong: "(\<And>k. k \<in> set (i # js) \<Longrightarrow> N' k = N k) \<Longrightarrow> chain N' i js \<longleftrightarrow> chain N i js"
  unfolding chain_def using path_cong [of i js N' N] in_set_butlastD [of _ "i # js"]
  by (metis last_in_set list.distinct(1))

lemma chain_Cons: "chain N i (j # js) \<longleftrightarrow> N i = j \<and> j \<noteq> 0 \<and> chain N j js"
  by (auto simp: chain_def)

lemma chain_append: "chain N i (xs @ ys) \<longleftrightarrow> path N i xs \<and> chain N (last (i # xs)) ys"
  unfolding chain_def path_append by (cases ys) auto

lemma path_nonzero: "path N i js \<Longrightarrow> 0 \<notin> set js"
  by (induction js arbitrary: i) auto

lemma chain_nonzero: "chain N i js \<Longrightarrow> 0 \<notin> set js"
  unfolding chain_def by (blast dest: path_nonzero)

lemma chain_push:
  assumes "chain N 0 fl" and "k \<notin> set fl" and "k \<noteq> 0"
    and "N' 0 = k" and "N' k = N 0" and "\<And>j. j \<noteq> 0 \<Longrightarrow> j \<noteq> k \<Longrightarrow> N' j = N j"
  shows "chain N' 0 (k # fl)"
proof -
  have "chain N' k fl"
  proof (cases fl)
    case Nil
    then show ?thesis using assms(1,5) by (simp add: chain_def)
  next
    case (Cons j js)
    have "chain N j js" "N 0 = j" "j \<noteq> 0" using assms(1) Cons by (auto simp: chain_Cons)
    moreover have "chain N' j js \<longleftrightarrow> chain N j js"
    proof (rule chain_cong)
      fix x assume "x \<in> set (j # js)"
      then have "x \<noteq> 0" "x \<noteq> k" using assms(2) chain_nonzero [OF assms(1)] Cons by metis+
      then show "N' x = N x" by (rule assms(6))
    qed
    ultimately show ?thesis using assms(5) Cons by (simp add: chain_Cons)
  qed
  then show ?thesis using assms(3,4) by (simp add: chain_Cons)
qed

lemma chain_unlink:
  assumes "chain N 0 (xs @ k # ys)" and "distinct (xs @ k # ys)"
    and p: "N' (last (0 # xs)) = N k" and "\<And>j. j \<noteq> last (0 # xs) \<Longrightarrow> j \<noteq> k \<Longrightarrow> N' j = N j"
  shows "chain N' 0 (xs @ ys)"
proof -
  have nz: "0 \<notin> set (xs @ k # ys)" by (rule chain_nonzero [OF assms(1)])
  have d: "distinct (0 # xs @ k # ys)" using assms(2) nz by simp
  have parts: "path N 0 xs" "chain N k ys" using assms(1) by (auto simp: chain_append chain_Cons)
  have "path N' 0 xs \<longleftrightarrow> path N 0 xs"
  proof (rule path_cong)
    fix j assume j: "j \<in> set (butlast (0 # xs))"
    have "distinct (butlast (0 # xs) @ [last (0 # xs)])" using d by (subst append_butlast_last_id) auto
    then have "j \<noteq> last (0 # xs)" using j by auto
    moreover have "j \<noteq> k" using d in_set_butlastD [OF j] by auto
    ultimately show "N' j = N j" by (rule assms(4))
  qed
  then have path: "path N' 0 xs" using parts(1) by simp
  have "last (0 # xs) \<in> set (0 # xs)" by (rule last_in_set) simp
  then have off: "last (0 # xs) \<notin> set ys" "k \<notin> set ys" using d by auto
  have "chain N' (last (0 # xs)) ys"
  proof (cases ys)
    case Nil
    then show ?thesis using parts(2) p by (simp add: chain_def)
  next
    case (Cons j js)
    have "chain N j js" "N k = j" "j \<noteq> 0" using parts(2) Cons by (auto simp: chain_Cons)
    moreover have "chain N' j js \<longleftrightarrow> chain N j js"
    proof (rule chain_cong)
      fix x assume "x \<in> set (j # js)"
      then have "x \<noteq> last (0 # xs)" "x \<noteq> k" using off Cons by metis+
      then show "N' x = N x" by (rule assms(4))
    qed
    ultimately show ?thesis using p Cons by (simp add: chain_Cons)
  qed
  then show ?thesis using path by (simp add: chain_append)
qed

section \<open>The free list of a table\<close>

abbreviation links :: "ipc_entry list \<Rightarrow> nat \<Rightarrow> nat" where
  "links table \<equiv> \<lambda>i. ie_next (table ! i)"

definition untyped :: "ipc_entry list \<Rightarrow> nat set" where
  "untyped table = {i. 0 < i \<and> i < length table \<and> IE_BITS_TYPE (ie_bits (table ! i)) = 0}"

text \<open>
  \<open>busy\<close> is the set of entries that have no type yet but are not free any more. A free entry
  holds nothing.
\<close>

definition free_list :: "ipc_entry list \<Rightarrow> nat list \<Rightarrow> nat set \<Rightarrow> bool" where
  "free_list table fl busy \<longleftrightarrow> table \<noteq> [] \<and> chain (links table) 0 fl \<and> distinct fl \<and>
     set fl = untyped table - busy \<and> busy \<subseteq> untyped table \<and>
     (\<forall>i \<in> insert 0 (untyped table). ie_bits (table ! i) = 0 \<and> ie_object (table ! i) = IO_NULL)"

lemma free_list_less: "free_list table fl busy \<Longrightarrow> i \<in> set fl \<Longrightarrow> 0 < i \<and> i < length table"
  by (auto simp: free_list_def untyped_def)

lemma free_list_length:
  assumes "free_list table fl busy"
  shows "length fl < length table"
proof -
  have "set fl \<subseteq> {1..<length table}" using free_list_less [OF assms] by fastforce
  then have "card (set fl) \<le> length table - 1" using card_mono [of "{1..<length table}" "set fl"] by simp
  moreover have "card (set fl) = length fl" using assms distinct_card [of fl] unfolding free_list_def by blast
  moreover have "0 < length table" using assms by (simp add: free_list_def)
  ultimately show ?thesis by linarith
qed

lemma free_list_before_found:
  assumes "path (links table) i (xs @ [k])" and "k \<notin> set xs" and "length xs < fuel"
  shows "free_list_before fuel table k i = Some (last (i # xs))"
  using assms
proof (induction xs arbitrary: i fuel)
  case Nil
  then show ?case by (cases fuel) (auto simp: Let_def)
next
  case (Cons j js)
  then obtain f where "fuel = Suc f" by (cases fuel) auto
  then show ?case using Cons by (auto simp: Let_def)
qed

section \<open>The operations on the list\<close>

text \<open>Taking entry \<open>k\<close> off the list, after the entry before it has been redirected.\<close>

lemma free_list_take:
  assumes fl: "free_list table (xs @ k # ys) busy"
    and len: "length table' = length table"
    and p: "ie_next (table' ! last (0 # xs)) = ie_next (table ! k)"
    and others: "\<And>j. j \<noteq> last (0 # xs) \<Longrightarrow> j \<noteq> k \<Longrightarrow> ie_next (table' ! j) = ie_next (table ! j)"
    and keep: "\<And>j. ie_bits (table' ! j) = ie_bits (table ! j)" "\<And>j. ie_object (table' ! j) = ie_object (table ! j)"
  shows "free_list table' (xs @ ys) (insert k busy)"
proof -
  have "chain (links table') 0 (xs @ ys)"
    by (rule chain_unlink [where k = k and N = "links table"]) (use fl p others in \<open>auto simp: free_list_def\<close>)
  moreover have u: "untyped table' = untyped table" by (auto simp: untyped_def len keep)
  moreover have "table' \<noteq> []" using fl len by (auto simp: free_list_def)
  moreover have "set (xs @ ys) = untyped table - insert k busy" "k \<in> untyped table" "distinct (xs @ ys)"
      "busy \<subseteq> untyped table"
    using fl by (auto simp: free_list_def)
  ultimately show ?thesis using fl by (simp add: free_list_def keep)
qed

text \<open>Putting an entry that has been cleared on the list.\<close>

lemma free_list_put:
  assumes fl: "free_list table fl busy" and k: "0 < k" "k < length table" "k \<notin> set fl"
    and len: "length table' = length table"
    and head: "ie_next (table' ! 0) = k" and nxt: "ie_next (table' ! k) = ie_next (table ! 0)"
    and others: "\<And>j. j \<noteq> 0 \<Longrightarrow> j \<noteq> k \<Longrightarrow> table' ! j = table ! j"
    and zero: "ie_bits (table' ! 0) = ie_bits (table ! 0)" "ie_object (table' ! 0) = ie_object (table ! 0)"
    and clean: "ie_bits (table' ! k) = 0" "ie_object (table' ! k) = IO_NULL"
  shows "free_list table' (k # fl) (busy - {k})"
proof -
  have "chain (links table') 0 (k # fl)"
    by (rule chain_push [where N = "links table"]) (use fl k head nxt others in \<open>auto simp: free_list_def\<close>)
  moreover have u: "untyped table' = insert k (untyped table)"
  proof (rule set_eqI)
    fix i show "i \<in> untyped table' \<longleftrightarrow> i \<in> insert k (untyped table)"
      using others [of i] k clean(1) by (cases "i = k") (auto simp: untyped_def len IE_BITS_TYPE_def)
  qed
  moreover have "\<forall>i \<in> insert 0 (untyped table'). ie_bits (table' ! i) = 0 \<and> ie_object (table' ! i) = IO_NULL"
  proof
    fix i assume "i \<in> insert 0 (untyped table')"
    then show "ie_bits (table' ! i) = 0 \<and> ie_object (table' ! i) = IO_NULL"
      using fl others [of i] zero clean unfolding u free_list_def by (cases "i = 0"; cases "i = k") auto
  qed
  moreover have "table' \<noteq> []" using fl len by (auto simp: free_list_def)
  moreover have "set (k # fl) = insert k (untyped table) - (busy - {k})" "busy \<subseteq> untyped table" "distinct (k # fl)"
    using fl k by (auto simp: free_list_def)
  ultimately show ?thesis unfolding free_list_def by auto
qed

text \<open>Giving an entry a type takes it from the busy ones; other changes to typed entries do not matter.\<close>

lemma free_list_typed:
  assumes fl: "free_list table fl busy" and k: "0 < k" "k < length table" "k \<notin> set fl"
    and ty: "IE_BITS_TYPE (ie_bits e) \<noteq> 0"
  shows "free_list (table[k := e]) fl (busy - {k})"
proof -
  have "chain (links (table[k := e])) 0 fl \<longleftrightarrow> chain (links table) 0 fl"
    by (rule chain_cong) (use k in \<open>auto simp: nth_list_update\<close>)
  moreover have u: "untyped (table[k := e]) = untyped table - {k}"
    using k ty by (auto simp: untyped_def nth_list_update)
  ultimately show ?thesis
    using fl k unfolding free_list_def by (auto simp: nth_list_update)
qed

lemma get_free_entry:
  assumes fl: "free_list table (k # fl) busy"
    and t1: "t1 = table[0 := (table ! 0)\<lparr>ie_request := ie_next (table ! k)\<rparr>]"
    and t2: "t2 = t1[k := (t1 ! k)\<lparr>ie_bits := ie_bits (table ! k) + IE_BITS_GEN_ONE, ie_request := 0\<rparr>]"
  shows "free_list t2 fl (insert k busy)"
proof -
  have k: "0 < k" "k < length table" using free_list_less [OF fl] by auto
  then have "table \<noteq> []" by auto
  with k have nth: "t2 ! j = (if j = 0 then (table ! 0)\<lparr>ie_request := ie_next (table ! k)\<rparr>
      else if j = k then (table ! k)\<lparr>ie_request := 0\<rparr> else table ! j)" for j
    by (auto simp: t1 t2 nth_list_update)
  have len: "length t2 = length table" by (simp add: t1 t2)
  show ?thesis
    by (rule free_list_take [of table "[]" k fl busy t2, simplified]) (use fl k in \<open>auto simp: nth len\<close>)
qed

lemma take_free_entry_correct:
  assumes fl: "free_list table fl busy" and k: "k \<in> set fl"
  shows "\<exists>table' xs ys. take_free_entry table k 0 = Some table' \<and> fl = xs @ k # ys \<and>
    free_list table' (xs @ ys) (insert k busy) \<and> length table' = length table \<and>
    (\<forall>j. ie_bits (table' ! j) = ie_bits (table ! j) \<and> ie_object (table' ! j) = ie_object (table ! j) \<and>
         ie_index (table' ! j) = ie_index (table ! j)) \<and>
    (\<forall>j. j \<noteq> 0 \<longrightarrow> j \<notin> set fl \<longrightarrow> table' ! j = table ! j)"
proof -
  obtain xs ys where fs: "fl = xs @ k # ys" using split_list [OF k] by blast
  have d: "distinct (xs @ k # ys)" and ch: "chain (links table) 0 (xs @ k # ys)"
    using fl fs by (auto simp: free_list_def)
  have kz: "0 < k" "k < length table" using free_list_less [OF fl k] by auto
  define p where "p = last (0 # xs)"
  have p: "p < length table" "p \<noteq> k" "p = 0 \<or> p \<in> set xs"
  proof -
    have "p \<in> set (0 # xs)" unfolding p_def by (rule last_in_set) simp
    moreover have "0 < length table" using kz by linarith
    ultimately show "p < length table" "p \<noteq> k" "p = 0 \<or> p \<in> set xs"
      using free_list_less [OF fl, of p] fs d kz by auto
  qed
  have "path (links table) 0 ((xs @ [k]) @ ys)" using ch by (simp add: chain_def)
  then have path: "path (links table) 0 (xs @ [k])" unfolding path_append by blast
  have "length xs < length table" using free_list_length [OF fl] fs by simp
  then have found: "free_list_before (length table) table k 0 = Some p"
    unfolding p_def by (intro free_list_before_found path) (use d in auto)
  have nxt: "ie_next (table ! p) = k" using path unfolding path_append p_def by simp
  define t' where "t' = (table[p := (table ! p)\<lparr>ie_request := ie_next (table ! k)\<rparr>])
    [k := (table[p := (table ! p)\<lparr>ie_request := ie_next (table ! k)\<rparr>] ! k)\<lparr>ie_bits := 0, ie_request := 0\<rparr>]"
  have take: "take_free_entry table k 0 = Some t'"
    using found nxt by (simp add: take_free_entry_def Let_def t'_def)
  have kclean: "ie_bits (table ! k) = 0" using fl k by (auto simp: free_list_def)
  have nth: "t' ! j = (if j = p then (table ! p)\<lparr>ie_request := ie_next (table ! k)\<rparr>
      else if j = k then (table ! k)\<lparr>ie_bits := 0, ie_request := 0\<rparr> else table ! j)" for j
    using p kz by (auto simp: t'_def nth_list_update)
  have len: "length t' = length table" by (simp add: t'_def)
  have "free_list t' (xs @ ys) (insert k busy)"
  proof (rule free_list_take [of table xs k ys busy t', folded p_def])
    show "free_list table (xs @ k # ys) busy" using fl fs by simp
  qed (use kclean len in \<open>auto simp: nth\<close>)
  moreover have "\<forall>j. j \<noteq> 0 \<longrightarrow> j \<notin> set fl \<longrightarrow> t' ! j = table ! j" using p(3) fs by (auto simp: nth)
  moreover have "\<forall>j. ie_bits (t' ! j) = ie_bits (table ! j) \<and> ie_object (t' ! j) = ie_object (table ! j) \<and>
      ie_index (t' ! j) = ie_index (table ! j)"
    using kclean by (simp add: nth)
  ultimately show ?thesis using take fs len by blast
qed

end
