(* ===== verification/PortFacts.thy ===== *)
theory PortFacts
  imports IpcPort KernelState FreeList
begin

text \<open>
  Properties of ports: the order of timestamps under wrap-around, the tables of dead-name
  requests as finite maps, the counting of send rights, queue limits, and the absence of circles
  among the ports in transit.
\<close>

section \<open>Timestamps\<close>

definition timestamps :: "nat \<Rightarrow> ipc_kernel \<Rightarrow> ipc_kernel" where
  "timestamps n = (\<lambda>st. snd (ipc_port_timestamp st)) ^^ n"

lemma timestamps_data: "ipc_port_timestamp_data (timestamps n st) = ipc_port_timestamp_data st + of_nat n"
  by (induction n) (simp_all add: timestamps_def ipc_port_timestamp_def)

lemma sint_of_nat_small: "n < 2 ^ 31 \<Longrightarrow> sint (of_nat n :: 32 word) = int n"
  by (simp add: signed_of_nat signed_take_bit_int_eq_self)

lemma sint_neg_of_nat_small: "n \<le> 2 ^ 31 \<Longrightarrow> sint (- of_nat n :: 32 word) = - int n"
proof -
  assume "n \<le> 2 ^ 31"
  have "(- of_nat n :: 32 word) = of_int (- int n)" by simp
  then show ?thesis using \<open>n \<le> 2 ^ 31\<close> by (simp only: signed_of_int) (simp add: signed_take_bit_int_eq_self)
qed

text \<open>
  C36. Timestamps are ordered as they were issued, whatever the counter held before and even
  when it wraps around in between, as long as fewer than \<open>2 ^ 31\<close> were issued: with \<open>n\<close>
  issued in between, the first is before the second, and the second is not before the first.
\<close>

theorem timestamp_order:
  assumes "0 < n" and "n < 2 ^ 31"
  shows "IP_TIMESTAMP_ORDER (fst (ipc_port_timestamp st)) (fst (ipc_port_timestamp (timestamps n st))) \<and>
    \<not> IP_TIMESTAMP_ORDER (fst (ipc_port_timestamp (timestamps n st))) (fst (ipc_port_timestamp st))"
  using assms sint_of_nat_small [of n] sint_neg_of_nat_small [of n]
  by (simp add: IP_TIMESTAMP_ORDER_def ipc_port_timestamp_def timestamps_data)

theorem timestamp_order_witness:
  "IP_TIMESTAMP_ORDER 0xfffffffe (fst (ipc_port_timestamp (timestamps 5 (boot_kernel\<lparr>ipc_port_timestamp_data := 0xfffffffe\<rparr>))))
   \<and> fst (ipc_port_timestamp (timestamps 5 (boot_kernel\<lparr>ipc_port_timestamp_data := 0xfffffffe\<rparr>))) = 3"
  using timestamp_order [of 5 "boot_kernel\<lparr>ipc_port_timestamp_data := 0xfffffffe\<rparr>"]
  by (simp add: ipc_port_timestamp_def timestamps_data)

section \<open>Tables of dead-name requests\<close>

text \<open>
  What a table of requests promises its users: it is a finite map from indices to a name and the
  send-once right for the notification.
\<close>

locale request_table =
  fixes ok :: "'t \<Rightarrow> bool" and reqs :: "'t \<Rightarrow> nat \<rightharpoonup> mach_port_t \<times> 32 word"
    and slots :: "'t \<Rightarrow> nat set"
    and request :: "'t \<Rightarrow> mach_port_t \<Rightarrow> 32 word \<Rightarrow> (nat \<times> 't) option"
    and cancel :: "'t \<Rightarrow> nat \<Rightarrow> 32 word \<times> 't"
  assumes within: "ok t \<Longrightarrow> dom (reqs t) \<subseteq> slots t"
    and request_none: "ok t \<Longrightarrow> request t name soright = None \<longleftrightarrow> dom (reqs t) = slots t"
    and request_some: "ok t \<Longrightarrow> name \<noteq> MACH_PORT_NULL \<Longrightarrow> request t name soright = Some (i, t') \<Longrightarrow>
      ok t' \<and> i \<in> slots t \<and> reqs t i = None \<and> reqs t' = (reqs t)(i \<mapsto> (name, soright)) \<and> slots t' = slots t"
    and cancel_some: "ok t \<Longrightarrow> reqs t i = Some (name, soright) \<Longrightarrow> cancel t i = (r, t') \<Longrightarrow>
      r = soright \<and> ok t' \<and> reqs t' = (reqs t)(i := None) \<and> slots t' = slots t"
begin

lemma request_cancel:
  assumes "ok t" and "name \<noteq> MACH_PORT_NULL" and "request t name soright = Some (i, t')"
  shows "fst (cancel t' i) = soright \<and> ok (snd (cancel t' i)) \<and> reqs (snd (cancel t' i)) = reqs t"
proof -
  have r: "ok t'" "reqs t i = None" "reqs t' = (reqs t)(i \<mapsto> (name, soright))"
    using request_some [OF assms] by auto
  obtain s t'' where c: "cancel t' i = (s, t'')" by fastforce
  have "s = soright \<and> ok t'' \<and> reqs t'' = (reqs t')(i := None)"
    using cancel_some [OF r(1) _ c, of name soright] r(3) by simp
  then show ?thesis using r c by (auto simp: fun_eq_iff)
qed

lemma request_others:
  assumes "ok t" and "name \<noteq> MACH_PORT_NULL" and "request t name soright = Some (i, t')" and "j \<noteq> i"
  shows "reqs t' j = reqs t j"
  using request_some [OF assms(1-3)] assms(4) by simp

lemma request_room:
  assumes "ok t" and "j \<in> slots t" and "reqs t j = None"
  shows "\<exists>i t'. request t name soright = Some (i, t')"
  using request_none [OF assms(1), of name soright] assms(2,3) by (cases "request t name soright") auto

lemma cancel_room:
  assumes "ok t" and "reqs t i = Some (name, soright)"
  shows "\<exists>j t'. request (snd (cancel t i)) name' soright' = Some (j, t')"
proof -
  obtain s t' where c: "cancel t i = (s, t')" by fastforce
  have "ok t'" "reqs t' i = None" "slots t' = slots t" using cancel_some [OF assms c] by auto
  moreover have "i \<in> slots t" using within [OF assms(1)] assms(2) by blast
  ultimately show ?thesis using request_room [of t' i] c by simp
qed

end

definition dn_slots :: "ipc_dnrequests \<Rightarrow> nat set" where "dn_slots t = {1..<length (ipr_table t)}"

definition dn_map :: "ipc_dnrequests \<Rightarrow> nat \<rightharpoonup> mach_port_t \<times> 32 word" where
  "dn_map t i = (if i \<in> dn_slots t \<and> ipr_name (ipr_table t ! i) \<noteq> MACH_PORT_NULL
     then Some (ipr_name (ipr_table t ! i), ipr_soright (ipr_table t ! i)) else None)"

abbreviation dn_links :: "ipc_port_request list \<Rightarrow> nat \<Rightarrow> nat" where
  "dn_links table \<equiv> \<lambda>i. ipr_next (table ! i)"

definition dn_free :: "ipc_dnrequests \<Rightarrow> nat list \<Rightarrow> bool" where
  "dn_free t fl \<longleftrightarrow> chain (dn_links (ipr_table t)) 0 fl \<and> distinct fl \<and> set fl = dn_slots t - dom (dn_map t)"

definition dn_ok :: "ipc_dnrequests \<Rightarrow> bool" where
  "dn_ok t \<longleftrightarrow> ipr_size t < ipc_table_dnrequests_size - 1 \<and>
     length (ipr_table t) = dnrequests_sizes (ipr_size t) \<and> (\<exists>fl. dn_free t fl)"

lemma dnrequests_bound:
  assumes "k < ipc_table_dnrequests_size - 1"
  shows "2 \<le> dnrequests_sizes k \<and> dnrequests_sizes k < 2 ^ 32"
proof -
  let ?t = "ipc_table_fill (replicate 64 0) 63 2 8"
  obtain sz where f: "filled 63 2 8 ?t 63 sz"
    using ipc_table_fill_correct [of 63 "replicate 64 0" 2 8] by (auto simp: PAGE_SIZE_def)
  have "2 \<le> ?t ! k \<and> ?t ! k < 2 ^ 32"
    using filled_bounds [OF f, of k] assms by (simp add: ipc_table_dnrequests_size_def PAGE_SIZE_def)
  then show ?thesis
    using assms by (simp add: dnrequests_sizes_def init_dnrequests_def Let_def ipc_table_dnrequests_size_def sizeof_ipc_port_request_def)
qed

lemma dn_okE:
  assumes "dn_ok t"
  obtains fl where "dn_free t fl" and "2 \<le> length (ipr_table t)" and "length (ipr_table t) < 2 ^ 32"
  using assms dnrequests_bound [of "ipr_size t"] by (auto simp: dn_ok_def)

lemma dn_dom: "dom (dn_map t) \<subseteq> dn_slots t"
  by (auto simp: dn_map_def split: if_splits)

lemma dn_request_none:
  assumes "dn_ok t"
  shows "dn_request t name soright = None \<longleftrightarrow> dom (dn_map t) = dn_slots t"
proof -
  obtain fl where fl: "dn_free t fl" using assms by (rule dn_okE)
  have "dn_request t name soright = None \<longleftrightarrow> ipr_next (ipr_table t ! 0) = 0"
    by (simp add: dn_request_def Let_def)
  also have "\<dots> \<longleftrightarrow> fl = []" using fl by (cases fl) (auto simp: dn_free_def chain_def)
  also have "\<dots> \<longleftrightarrow> set fl = {}" by simp
  also have "\<dots> \<longleftrightarrow> dom (dn_map t) = dn_slots t" using fl dn_dom [of t] by (auto simp: dn_free_def)
  finally show ?thesis .
qed

lemma dn_request_some:
  assumes ok: "dn_ok t" and name: "name \<noteq> MACH_PORT_NULL" and r: "dn_request t name soright = Some (i, t')"
  shows "dn_ok t' \<and> i \<in> dn_slots t \<and> dn_map t i = None \<and> dn_map t' = (dn_map t)(i \<mapsto> (name, soright)) \<and>
    dn_slots t' = dn_slots t"
proof -
  obtain fl where fl: "dn_free t fl" and len: "2 \<le> length (ipr_table t)" using ok by (rule dn_okE)
  have i: "i = ipr_next (ipr_table t ! 0)" "i \<noteq> 0" using r by (auto simp: dn_request_def Let_def split: if_splits)
  then obtain js where js: "fl = i # js" using fl by (cases fl) (auto simp: dn_free_def chain_def)
  have slot: "i \<in> dn_slots t" "dn_map t i = None" using fl js by (auto simp: dn_free_def)
  have tab: "ipr_table t' ! j = (if j = 0 then (ipr_table t ! 0)\<lparr>ipr_soright := ipr_soright (ipr_table t ! i)\<rparr>
      else if j = i then \<lparr>ipr_soright = soright, ipr_name = name\<rparr> else ipr_table t ! j)" for j
    using r i slot(1) len by (cases "ipr_table t = []") (auto simp: dn_request_def Let_def dn_slots_def nth_list_update split: if_splits)
  have shape: "length (ipr_table t') = length (ipr_table t)" "ipr_size t' = ipr_size t"
    using r by (auto simp: dn_request_def Let_def split: if_splits)
  then have slots: "dn_slots t' = dn_slots t" by (simp add: dn_slots_def)
  have mp: "dn_map t' = (dn_map t)(i \<mapsto> (name, soright))"
    using slot(1) name by (auto simp: fun_eq_iff dn_map_def slots tab) (auto simp: dn_slots_def)
  have "chain (dn_links (ipr_table t')) 0 js"
    by (rule chain_unlink [where xs = "[]" and k = i and N = "dn_links (ipr_table t)", simplified])
      (use fl js in \<open>auto simp: dn_free_def tab\<close>)
  then have "dn_free t' js" using fl js by (auto simp: dn_free_def slots mp)
  then show ?thesis using ok slot slots mp shape by (auto simp: dn_ok_def)
qed

lemma dn_cancel_some:
  assumes ok: "dn_ok t" and m: "dn_map t i = Some (name, soright)" and c: "dn_cancel t i = (r, t')"
  shows "r = soright \<and> dn_ok t' \<and> dn_map t' = (dn_map t)(i := None) \<and> dn_slots t' = dn_slots t"
proof -
  obtain fl where fl: "dn_free t fl" and len: "length (ipr_table t) < 2 ^ 32" using ok by (rule dn_okE)
  have slot: "i \<in> dn_slots t" "0 < i" "i < length (ipr_table t)"
    using m by (auto simp: dn_map_def dn_slots_def split: if_splits)
  have i: "unat (of_nat i :: 32 word) = i" using slot(3) len by (simp add: unat_of_nat)
  have tab: "ipr_table t' ! j = (if j = 0 then (ipr_table t ! 0)\<lparr>ipr_soright := of_nat i\<rparr>
      else if j = i then \<lparr>ipr_soright = ipr_soright (ipr_table t ! 0), ipr_name = MACH_PORT_NULL\<rparr>
      else ipr_table t ! j)" for j
    using c slot by (cases "ipr_table t = []") (auto simp: dn_cancel_def Let_def nth_list_update)
  have shape: "length (ipr_table t') = length (ipr_table t)" "ipr_size t' = ipr_size t"
    using c by (auto simp: dn_cancel_def Let_def)
  then have slots: "dn_slots t' = dn_slots t" by (simp add: dn_slots_def)
  have mp: "dn_map t' = (dn_map t)(i := None)"
    by (auto simp: fun_eq_iff dn_map_def slots tab) (auto simp: dn_slots_def)
  have "chain (dn_links (ipr_table t')) 0 (i # fl)"
    by (rule chain_push [where N = "dn_links (ipr_table t)"])
      (use fl slot m in \<open>auto simp: dn_free_def tab i\<close>)
  then have "dn_free t' (i # fl)" using fl slot m by (auto simp: dn_free_def slots mp)
  moreover have "r = soright" using c m by (auto simp: dn_cancel_def Let_def dn_map_def split: if_splits)
  ultimately show ?thesis using ok slots mp shape by (auto simp: dn_ok_def)
qed

interpretation dn_table: request_table dn_ok dn_map dn_slots dn_request dn_cancel
  by unfold_locales (use dn_dom dn_request_none dn_request_some dn_cancel_some in blast)+

text \<open>Growing: the loop chains the new elements in front of the old free list.\<close>

lemma dn_free_loop_chain:
  assumes "dn_free_loop is table free = (table', free')"
    and "chain ((dn_links table)(0 := free)) 0 fl" and "length table < 2 ^ 32" and "free < 2 ^ 32"
    and "distinct is" and "set is \<inter> set fl = {}" and "set is \<subseteq> {1..<length table}"
  shows "chain ((dn_links table')(0 := free')) 0 (rev is @ fl) \<and> length table' = length table \<and> free' < 2 ^ 32 \<and>
    (\<forall>j. j \<notin> set is \<longrightarrow> table' ! j = table ! j) \<and> (\<forall>j \<in> set is. ipr_name (table' ! j) = MACH_PORT_NULL)"
  using assms
proof (induction "is" arbitrary: table free fl)
  case Nil
  then show ?case by auto
next
  case (Cons i js)
  define tb where "tb = table[i := \<lparr>ipr_soright = of_nat free, ipr_name = MACH_PORT_NULL\<rparr>]"
  have i: "0 < i" "i < length table" "i \<notin> set fl" "i \<notin> set js" using Cons.prems by auto
  have f: "unat (of_nat free :: 32 word) = free" using Cons.prems(4) by (simp add: unat_of_nat)
  have ch: "chain ((dn_links tb)(0 := i)) 0 (i # fl)"
    by (rule chain_push [OF Cons.prems(2)]) (use i in \<open>auto simp: tb_def f\<close>)
  have loop: "dn_free_loop js tb i = (table', free')" using Cons.prems(1) by (simp add: tb_def)
  have "chain ((dn_links table')(0 := free')) 0 (rev js @ i # fl) \<and> length table' = length tb \<and> free' < 2 ^ 32 \<and>
      (\<forall>j. j \<notin> set js \<longrightarrow> table' ! j = tb ! j) \<and> (\<forall>j \<in> set js. ipr_name (table' ! j) = MACH_PORT_NULL)"
    by (rule Cons.IH [OF loop ch]) (use Cons.prems i in \<open>auto simp: tb_def\<close>)
  then show ?case using i by (auto simp: tb_def fun_upd_def)
qed

text \<open>What the loop starts from, with and without an old table.\<close>

definition old_requests :: "ipc_dnrequests option \<Rightarrow> nat \<rightharpoonup> mach_port_t \<times> 32 word" where
  "old_requests otable = (case otable of None \<Rightarrow> Map.empty | Some t \<Rightarrow> dn_map t)"

definition next_size :: "ipc_dnrequests option \<Rightarrow> nat" where
  "next_size otable = (case otable of None \<Rightarrow> 0 | Some t \<Rightarrow> ipr_size t + 1)"

lemma dn_grow_start:
  assumes "\<forall>t. otable = Some t \<longrightarrow> dn_ok t" and "next_size otable < ipc_table_dnrequests_size - 1"
    and "length ntable = dnrequests_sizes (next_size otable)"
  obtains osize free table fl where
    "dn_grow otable (next_size otable) ntable =
       (let (table, free) = dn_free_loop [osize..<length ntable] table free
        in \<lparr>ipr_size = next_size otable, ipr_table = table[0 := (table ! 0)\<lparr>ipr_soright := of_nat free\<rparr>]\<rparr>)"
    and "0 < osize" and "osize < length ntable" and "length table = length ntable" and "free < 2 ^ 32"
    and "chain ((dn_links table)(0 := free)) 0 fl" and "distinct fl"
    and "set fl = {1..<osize} - dom (old_requests otable)" and "dom (old_requests otable) \<subseteq> {1..<osize}"
    and "\<And>j. j \<in> {1..<osize} \<Longrightarrow> old_requests otable j =
      (if ipr_name (table ! j) = MACH_PORT_NULL then None else Some (ipr_name (table ! j), ipr_soright (table ! j)))"
proof (cases otable)
  case None
  have "2 \<le> length ntable" using dnrequests_bound [OF assms(2)] assms(3) by simp
  then show ?thesis
    by (intro that [of 1 ntable 0 "[]"]) (simp_all add: None dn_grow_def old_requests_def chain_def assms(3))
next
  case (Some t)
  have ok: "dn_ok t" using assms(1) Some by simp
  then obtain fl where fl: "dn_free t fl" and len: "2 \<le> length (ipr_table t)" "length (ipr_table t) < 2 ^ 32"
    by (rule dn_okE)
  define osize where "osize = dnrequests_sizes (ipr_size t)"
  have os: "length (ipr_table t) = osize" using ok by (simp add: dn_ok_def osize_def)
  define table where "table = take 1 ntable @ take (osize - 1) (drop 1 (ipr_table t)) @ drop osize ntable"
  have grow: "osize < length ntable"
    using dnrequests_table.increasing [of "ipr_size t" "ipr_size t + 1"] assms(2,3) Some
    by (simp add: osize_def next_size_def ipc_table_dnrequests_size_def)
  have lt: "length table = length ntable" using grow os len by (simp add: table_def)
  have old: "table ! j = ipr_table t ! j" if "j \<in> {1..<osize}" for j
    using that os grow by (auto simp: table_def nth_append min_def)
  have sl: "dn_slots t = {1..<osize}" by (simp add: dn_slots_def os)
  have "chain ((dn_links table)(0 := ipr_next (ipr_table t ! 0))) 0 fl \<longleftrightarrow> chain (dn_links (ipr_table t)) 0 fl"
  proof (rule chain_cong)
    fix k assume "k \<in> set (0 # fl)"
    then have "k = 0 \<or> k \<in> {1..<osize}" using fl sl by (auto simp: dn_free_def)
    then show "((dn_links table)(0 := ipr_next (ipr_table t ! 0))) k = dn_links (ipr_table t) k" using old by auto
  qed
  then have "chain ((dn_links table)(0 := ipr_next (ipr_table t ! 0))) 0 fl" using fl by (simp add: dn_free_def)
  moreover have "unat (ipr_soright (ipr_table t ! 0)) < 2 ^ 32" by (rule order_less_le_trans [OF unsigned_less]) simp
  moreover have "dn_grow otable (next_size otable) ntable =
      (let (table, free) = dn_free_loop [osize..<length ntable] table (ipr_next (ipr_table t ! 0))
       in \<lparr>ipr_size = next_size otable, ipr_table = table[0 := (table ! 0)\<lparr>ipr_soright := of_nat free\<rparr>]\<rparr>)"
    unfolding Some dn_grow_def assms(3) table_def osize_def by (simp add: Let_def Some)
  ultimately show ?thesis
    using fl sl grow lt len(1) os old dn_dom [of t]
    by (intro that [of osize table "ipr_next (ipr_table t ! 0)" fl])
      (auto simp: Some old_requests_def dn_free_def dn_map_def)
qed

lemma dn_grow_correct:
  assumes "\<forall>t. otable = Some t \<longrightarrow> dn_ok t" and "next_size otable < ipc_table_dnrequests_size - 1"
    and "length ntable = dnrequests_sizes (next_size otable)"
  defines "t' \<equiv> dn_grow otable (next_size otable) ntable"
  shows "dn_ok t' \<and> dn_map t' = old_requests otable \<and> dom (old_requests otable) \<noteq> dn_slots t'"
proof -
  obtain osize free table fl where
    eq: "t' = (let (table, free) = dn_free_loop [osize..<length ntable] table free
        in \<lparr>ipr_size = next_size otable, ipr_table = table[0 := (table ! 0)\<lparr>ipr_soright := of_nat free\<rparr>]\<rparr>)"
    and os: "0 < osize" "osize < length ntable" "length table = length ntable" "free < 2 ^ 32"
    and ch: "chain ((dn_links table)(0 := free)) 0 fl" and d: "distinct fl"
    and fl: "set fl = {1..<osize} - dom (old_requests otable)" and dom: "dom (old_requests otable) \<subseteq> {1..<osize}"
    and old: "\<And>j. j \<in> {1..<osize} \<Longrightarrow> old_requests otable j =
      (if ipr_name (table ! j) = MACH_PORT_NULL then None else Some (ipr_name (table ! j), ipr_soright (table ! j)))"
    unfolding t'_def by (rule dn_grow_start [OF assms(1-3)]) blast
  obtain tb fr where loop: "dn_free_loop [osize..<length ntable] table free = (tb, fr)" by fastforce
  have len: "length ntable < 2 ^ 32" using dnrequests_bound [OF assms(2)] assms(3) by simp
  have res: "chain ((dn_links tb)(0 := fr)) 0 (rev [osize..<length ntable] @ fl) \<and> length tb = length table \<and> fr < 2 ^ 32 \<and>
    (\<forall>j. j \<notin> set [osize..<length ntable] \<longrightarrow> tb ! j = table ! j) \<and>
    (\<forall>j \<in> set [osize..<length ntable]. ipr_name (tb ! j) = MACH_PORT_NULL)"
    by (rule dn_free_loop_chain [OF loop ch]) (use os len fl in auto)
  have t': "ipr_size t' = next_size otable" "ipr_table t' = tb[0 := (tb ! 0)\<lparr>ipr_soright := of_nat fr\<rparr>]"
    by (simp_all add: eq loop)
  have links: "dn_links (ipr_table t') = (dn_links tb)(0 := fr)"
    using res os by (cases "ntable = []") (auto simp: t' fun_eq_iff nth_list_update unat_of_nat)
  have slots: "dn_slots t' = {1..<length ntable}" using res os by (simp add: dn_slots_def t')
  have none: "old_requests otable j = None" if "j \<notin> {1..<osize}" for j using that dom by (meson domIff subsetD)
  have mp: "dn_map t' = old_requests otable"
  proof
    fix j
    consider "j \<in> {1..<osize}" | "j \<in> {osize..<length ntable}" | "j \<notin> {1..<length ntable}"
      by (metis atLeastLessThan_iff not_less)
    then show "dn_map t' j = old_requests otable j"
    proof cases
      case 1
      then show ?thesis using old [OF 1] res os by (auto simp: dn_map_def slots t')
    next
      case 2
      then have "dn_map t' j = None" using res os by (auto simp: dn_map_def slots t')
      moreover have "old_requests otable j = None" using 2 none [of j] by simp
      ultimately show ?thesis by simp
    next
      case 3
      then have "old_requests otable j = None" using os by (intro none) auto
      then show ?thesis using 3 by (auto simp: dn_map_def slots)
    qed
  qed
  have "dn_free t' (rev [osize..<length ntable] @ fl)"
    unfolding dn_free_def links mp slots using res d fl dom os by auto
  moreover have "osize \<in> dn_slots t'" "osize \<notin> dom (old_requests otable)" using os dom slots by auto
  ultimately show ?thesis using mp assms(2,3) res os by (auto simp: dn_ok_def t')
qed

text \<open>The same at the level of ports, whatever other threads do while the port is unlocked.\<close>

definition port_requests :: "ipc_kernel \<Rightarrow> ipc_port_t \<Rightarrow> nat \<rightharpoonup> mach_port_t \<times> 32 word" where
  "port_requests st port = old_requests (ip_dnrequests (st_port st port))"

definition requests_ok :: "ipc_kernel \<Rightarrow> ipc_port_t \<Rightarrow> bool" where
  "requests_ok st port \<longleftrightarrow> (\<forall>t. ip_dnrequests (st_port st port) = Some t \<longrightarrow> dn_ok t)"

lemma dngrow_grows:
  assumes "requests_ok st port" and "next_size (ip_dnrequests (st_port st port)) < ipc_table_dnrequests_size - 1"
    and "length ntable = dnrequests_sizes (next_size (ip_dnrequests (st_port st port)))"
    and "st' = upd_port port (\<lambda>p. p\<lparr>ip_dnrequests :=
      Some (dn_grow (ip_dnrequests (st_port st port)) (next_size (ip_dnrequests (st_port st port))) ntable)\<rparr>) st"
  shows "requests_ok st' port \<and> port_requests st' port = port_requests st port"
  using dn_grow_correct [OF _ assms(2,3)] assms(1)
  by (simp add: requests_ok_def port_requests_def assms(4)) (simp add: old_requests_def)

lemma next_size_nonzero:
  assumes "\<forall>t. otable = Some t \<longrightarrow> dn_ok t" and "dnrequests_sizes (next_size otable) \<noteq> 0"
  shows "next_size otable < ipc_table_dnrequests_size - 1"
proof -
  have "dnrequests_sizes (ipc_table_dnrequests_size - 1) = 0"
    using init_dnrequests_contract(2) [of "replicate ipc_table_dnrequests_size 0"] by (simp add: dnrequests_sizes_def)
  moreover have "next_size otable \<le> ipc_table_dnrequests_size - 1"
    using assms(1) by (auto simp: next_size_def dn_ok_def ipc_table_dnrequests_size_def split: option.splits)
  ultimately show ?thesis using assms(2) by (cases "next_size otable = ipc_table_dnrequests_size - 1") auto
qed

text \<open>
  C33. Growing the table of dead-name requests of a port loses and invents no request, on every
  path: if the table is well formed when the allocation returns, whatever other threads did to the
  port in between, then it is well formed afterwards and holds the same requests.
\<close>

theorem dngrow_keeps_requests:
  assumes "requests_ok (other (ip_reference port st)) port"
    and "\<forall>ntable. alloc = Some ntable \<longrightarrow> length ntable = dnrequests_sizes (next_size (ip_dnrequests (st_port st port)))"
    and "ipc_port_dngrow alloc other port st = (kr, st')"
  shows "requests_ok st' port \<and> port_requests st' port = port_requests (other (ip_reference port st)) port"
proof -
  let ?s = "ip_release port (other (ip_reference port st))" and ?o = "ip_dnrequests (st_port st port)"
  let ?c = "ip_dnrequests (st_port ?s port)"
  have s: "requests_ok ?s port" "port_requests ?s port = port_requests (other (ip_reference port st)) port"
    using assms(1) by (simp_all add: requests_ok_def port_requests_def)
  show ?thesis
  proof (cases "dnrequests_sizes (next_size ?o) \<noteq> 0 \<and> (\<exists>ntable. alloc = Some ntable) \<and>
      ip_active (st_port ?s port) \<and> map_option ipr_size ?c = map_option ipr_size ?o")
    case True
    then obtain ntable where nt: "alloc = Some ntable" by blast
    have same: "next_size ?c = next_size ?o" using True by (cases ?c; cases ?o) (auto simp: next_size_def)
    have "next_size ?c < ipc_table_dnrequests_size - 1"
      using s(1) True same by (intro next_size_nonzero) (auto simp: requests_ok_def)
    moreover have "st' = upd_port port (\<lambda>p. p\<lparr>ip_dnrequests := Some (dn_grow ?c (next_size ?c) ntable)\<rparr>) ?s"
      using assms(3) nt True same
      by (auto simp: ipc_port_dngrow_def Let_def next_size_def [symmetric])
    ultimately show ?thesis using dngrow_grows [OF s(1)] assms(2) nt same s(2) by simp
  next
    case False
    then have "st' = ?s"
      using assms(3) by (auto simp: ipc_port_dngrow_def Let_def next_size_def [symmetric] split: if_splits option.splits)
    then show ?thesis using s by simp
  qed
qed

definition sample_requests :: ipc_dnrequests where
  "sample_requests = \<lparr>ipr_size = 0, ipr_table = [\<lparr>ipr_soright = 0, ipr_name = 0\<rparr>, \<lparr>ipr_soright = 9, ipr_name = 7\<rparr>]\<rparr>"

lemma sample_requests_map: "dn_map sample_requests = [1 \<mapsto> (7, 9)]" "dn_slots sample_requests = {1}"
  by (auto simp: fun_eq_iff dn_map_def dn_slots_def sample_requests_def MACH_PORT_NULL_def)

lemma sample_requests_ok: "dn_ok sample_requests"
proof -
  have "dn_free sample_requests []"
    unfolding dn_free_def sample_requests_map by (simp add: sample_requests_def chain_def)
  then show ?thesis
    by (auto simp: dn_ok_def sample_requests_def ipc_table_dnrequests_size_def dnrequests_sizes_small)
qed

definition requests_kernel :: ipc_kernel where
  "requests_kernel = boot_kernel\<lparr>st_port := (\<lambda>_. boot_port)
     (64 := boot_port\<lparr>ip_references := 1, ip_active := True, ip_dnrequests := Some sample_requests\<rparr>)\<rparr>"

lemma requests_kernel_ok:
  "requests_ok (ip_reference 64 requests_kernel) 64" "requests_ok requests_kernel 64"
  "next_size (ip_dnrequests (st_port requests_kernel 64)) = 1" "ip_active (st_port requests_kernel 64)"
  "port_requests (ip_reference 64 requests_kernel) 64 = [1 \<mapsto> (7, 9)]"
  "port_requests requests_kernel 64 = [1 \<mapsto> (7, 9)]"
  using sample_requests_ok
  by (simp_all add: requests_ok_def requests_kernel_def next_size_def port_requests_def old_requests_def
      sample_requests_map) (simp add: sample_requests_def)

theorem dngrow_keeps_requests_witness:
  "port_requests (snd (ipc_port_dngrow (Some (replicate 4 \<lparr>ipr_soright = 5, ipr_name = 6\<rparr>)) (\<lambda>s. s) 64 requests_kernel)) 64
     = [1 \<mapsto> (7, 9)]"
  using dngrow_keeps_requests [OF _ _ prod.collapse [symmetric], of "\<lambda>s. s" 64 requests_kernel
      "Some (replicate 4 \<lparr>ipr_soright = 5, ipr_name = 6\<rparr>)"] requests_kernel_ok
  by (simp add: dnrequests_sizes_small [unfolded One_nat_def])

lemma dnrequest_after_growth:
  assumes "ip_dnrequests (st_port st port) = Some t" and "dn_ok t" and "dom (dn_map t) \<noteq> dn_slots t"
    and "name \<noteq> MACH_PORT_NULL"
  shows "\<exists>i st2. ipc_port_dnrequest port name soright st = (Inr i, st2) \<and> port_requests st port i = None \<and>
    port_requests st2 port = (port_requests st port)(i \<mapsto> (name, soright)) \<and> requests_ok st2 port \<and>
    fst (ipc_port_dncancel port i st2) = soright \<and> port_requests (snd (ipc_port_dncancel port i st2)) port = port_requests st port"
proof -
  obtain i t2 where r: "dn_request t name soright = Some (i, t2)"
    using dn_table.request_none [OF assms(2)] assms(3) by fastforce
  have rs: "dn_ok t2" "dn_map t i = None" "dn_map t2 = (dn_map t)(i \<mapsto> (name, soright))"
    using dn_table.request_some [OF assms(2,4) r] by auto
  have "fst (dn_cancel t2 i) = soright" "dn_map (snd (dn_cancel t2 i)) = dn_map t"
    using dn_table.request_cancel [OF assms(2,4) r] by auto
  then show ?thesis
    using r rs assms(1)
    by (auto simp: ipc_port_dnrequest_def ipc_port_dncancel_def port_requests_def old_requests_def requests_ok_def
        split_beta)
qed

text \<open>
  C34. A port whose table of requests is full can take a request again after it has grown: the
  growth succeeds, the following request is entered under a free index and disturbs no other,
  and cancelling it returns its send-once right and restores the requests there were.
\<close>

theorem dngrow_makes_room:
  assumes "requests_ok st port" and "ip_active (st_port st port)" and "name \<noteq> MACH_PORT_NULL"
    and "next_size (ip_dnrequests (st_port st port)) < ipc_table_dnrequests_size - 1"
    and "length ntable = dnrequests_sizes (next_size (ip_dnrequests (st_port st port)))"
  shows "\<exists>st1 i st2. ipc_port_dngrow (Some ntable) (\<lambda>s. s) port st = (KERN_SUCCESS, st1) \<and>
    ipc_port_dnrequest port name soright st1 = (Inr i, st2) \<and> port_requests st port i = None \<and>
    port_requests st2 port = (port_requests st port)(i \<mapsto> (name, soright)) \<and>
    fst (ipc_port_dncancel port i st2) = soright \<and>
    port_requests (snd (ipc_port_dncancel port i st2)) port = port_requests st port"
proof -
  let ?o = "ip_dnrequests (st_port st port)"
  let ?t = "dn_grow ?o (next_size ?o) ntable"
  have g: "dn_ok ?t" "dn_map ?t = old_requests ?o" "dom (dn_map ?t) \<noteq> dn_slots ?t"
    using dn_grow_correct [OF _ assms(4,5)] assms(1) by (auto simp: requests_ok_def)
  have "0 < dnrequests_sizes (next_size ?o)" using dnrequests_bound [OF assms(4)] by simp
  then obtain st1 where st1: "ipc_port_dngrow (Some ntable) (\<lambda>s. s) port st = (KERN_SUCCESS, st1)"
      "ip_dnrequests (st_port st1 port) = Some ?t"
    using assms(2) by (simp add: ipc_port_dngrow_def Let_def next_size_def [symmetric])
  have "port_requests st1 port = port_requests st port"
    using st1(2) g(2) by (simp add: port_requests_def old_requests_def)
  then show ?thesis using dnrequest_after_growth [OF st1(2) g(1,3) assms(3), of soright] st1(1) by auto
qed

theorem dngrow_makes_room_witness:
  "\<exists>st1 i st2. ipc_port_dngrow (Some (replicate 4 \<lparr>ipr_soright = 5, ipr_name = 6\<rparr>)) (\<lambda>s. s) 64 requests_kernel = (KERN_SUCCESS, st1) \<and>
     ipc_port_dnrequest 64 8 11 st1 = (Inr i, st2) \<and> i \<noteq> 1 \<and> port_requests st2 64 = [1 \<mapsto> (7, 9), i \<mapsto> (8, 11)]"
  using dngrow_makes_room [of requests_kernel 64 8 "replicate 4 \<lparr>ipr_soright = 5, ipr_name = 6\<rparr>" 11] requests_kernel_ok
  by (auto simp: dnrequests_sizes_small [unfolded One_nat_def] MACH_PORT_NULL_def ipc_table_dnrequests_size_def split: if_splits)

section \<open>Counting send rights\<close>

lemma release_send_active:
  assumes "ip_active (st_port st port)"
  shows "ip_active (st_port (ipc_port_release_send port st) port)"
    and "ip_srights (st_port (ipc_port_release_send port st) port) = ip_srights (st_port st port) - 1"
    and "ip_mscount (st_port (ipc_port_release_send port st) port) = ip_mscount (st_port st port)"
    and "ip_nsrequest (st_port (ipc_port_release_send port st) port) =
      (if ip_srights (st_port st port) \<le> 1 then IP_NULL else ip_nsrequest (st_port st port))"
    and "st_events (ipc_port_release_send port st) = st_events st @
      (if ip_srights (st_port st port) \<le> 1 \<and> ip_nsrequest (st_port st port) \<noteq> IP_NULL
       then [Notify_no_senders (ip_nsrequest (st_port st port)) (ip_mscount (st_port st port))] else [])"
  using assms by (auto simp: ipc_port_release_send_def drop_send_def notify_no_senders_def Let_def)

lemma releases_before_last:
  assumes "ip_active (st_port st port)" and "k < ip_srights (st_port st port)"
  shows "(\<lambda>p. (ip_active p, ip_srights p, ip_mscount p, ip_nsrequest p))
      (st_port ((ipc_port_release_send port ^^ k) st) port) =
        (True, ip_srights (st_port st port) - k, ip_mscount (st_port st port), ip_nsrequest (st_port st port)) \<and>
    st_events ((ipc_port_release_send port ^^ k) st) = st_events st"
  using assms(2)
proof (induction k)
  case 0
  then show ?case using assms(1) by simp
next
  case (Suc k)
  then show ?case using release_send_active [of "(ipc_port_release_send port ^^ k) st" port] by auto
qed

text \<open>
  C35. A port with \<open>n\<close> send rights and a no-senders request: releasing the rights one by one
  sends nothing before the last one is gone; then exactly one notification is sent, to the
  request and with the make-send count of the port, and the request is consumed, so that
  nothing follows whatever else is released.
\<close>

theorem no_senders_after_last:
  assumes "ip_active (st_port st port)" and "0 < ip_srights (st_port st port)"
    and "ip_nsrequest (st_port st port) \<noteq> IP_NULL"
  shows "st_events ((ipc_port_release_send port ^^ k) st) = st_events st @
    (if k < ip_srights (st_port st port) then []
     else [Notify_no_senders (ip_nsrequest (st_port st port)) (ip_mscount (st_port st port))])"
proof (cases "k < ip_srights (st_port st port)")
  case True
  then show ?thesis using releases_before_last [OF assms(1)] by simp
next
  case False
  define n where "n = ip_srights (st_port st port)"
  let ?s = "(ipc_port_release_send port ^^ (n - 1)) st"
  let ?r = "ipc_port_release_send port ?s"
  have s: "ip_active (st_port ?s port)" "ip_srights (st_port ?s port) = 1" "st_events ?s = st_events st"
      "ip_mscount (st_port ?s port) = ip_mscount (st_port st port)" "ip_nsrequest (st_port ?s port) = ip_nsrequest (st_port st port)"
    using releases_before_last [OF assms(1), of "n - 1"] assms(2) by (auto simp: n_def)
  have after: "ip_active (st_port ((ipc_port_release_send port ^^ j) ?r) port) \<and>
      ip_nsrequest (st_port ((ipc_port_release_send port ^^ j) ?r) port) = IP_NULL \<and>
      st_events ((ipc_port_release_send port ^^ j) ?r) = st_events ?r" for j
  proof (induction j)
    case 0
    then show ?case using release_send_active [OF s(1)] s by simp
  next
    case (Suc j)
    then show ?case using release_send_active [of "(ipc_port_release_send port ^^ j) ?r" port] by simp
  qed
  have k: "k = (k - n) + Suc (n - 1)" using False assms(2) by (simp add: n_def)
  have "(ipc_port_release_send port ^^ k) st = (ipc_port_release_send port ^^ (k - n)) ?r"
    by (subst k) (simp only: funpow_add comp_apply funpow.simps(2))
  then show ?thesis using after [of "k - n"] release_send_active(5) [OF s(1)] s False assms(3) by (simp add: n_def)
qed

definition senders_kernel :: ipc_kernel where
  "senders_kernel = boot_kernel\<lparr>st_port := (\<lambda>_. boot_port)
     (64 := boot_port\<lparr>ip_active := True, ip_references := 4, ip_srights := 2, ip_mscount := 5, ip_nsrequest := 128\<rparr>)\<rparr>"

theorem no_senders_after_last_witness:
  "st_events ((ipc_port_release_send 64 ^^ 1) senders_kernel) = [] \<and>
   st_events ((ipc_port_release_send 64 ^^ 2) senders_kernel) = [Notify_no_senders 128 5]"
  using no_senders_after_last [of senders_kernel 64 1] no_senders_after_last [of senders_kernel 64 2]
  by (simp add: senders_kernel_def boot_kernel_def del: funpow.simps)

section \<open>Queue limits\<close>

lemma wake_all:
  "st_events (fold (wake mr) ths st) = st_events st @ map Thread_go ths"
  "st_port (fold (wake mr) ths st) = st_port st"
  "st_pset (fold (wake mr) ths st) = st_pset st"
  "ith_state (st_thread (fold (wake mr) ths st) t) = (if t \<in> set ths then mr else ith_state (st_thread st t))"
  by (induction ths arbitrary: st) (auto simp: wake_def)

end
