(* ===== verification/QueueFacts.thy ===== *)
theory QueueFacts
  imports IpcMessage PortFacts
begin

text \<open>
  Properties of message queues: the order of messages and sequence numbers, the queue limit under
  any interleaving, the handshake between a blocked sender and a receiver, and the moving of
  messages between a port and a port set.
\<close>

section \<open>Updates of one port\<close>

lemma upd_port_fuse: "upd_port p f (upd_port p g st) = upd_port p (\<lambda>q. f (g q)) st"
  by (simp add: upd_port_def)

lemma upd_port_cong: "f (st_port st p) = g (st_port st p) \<Longrightarrow> upd_port p f st = upd_port p g st"
  by (simp add: upd_port_def)

section \<open>Sending and receiving without waiting\<close>

text \<open>A port that takes messages itself: alive, in no set, not a kernel object, with no thread waiting.\<close>

definition quiet_port :: "ipc_space_t \<Rightarrow> ipc_port \<Rightarrow> bool" where
  "quiet_port ipc_space_kernel p \<longleftrightarrow> ip_active p \<and> ip_pset p = IPS_NULL \<and> ip_receiver p \<noteq> ipc_space_kernel \<and>
     imq_threads (ip_messages p) = [] \<and> ip_blocked p = []"

text \<open>A message for \<open>port\<close> of at most the given size, without complications.\<close>

definition plain_kmsg :: "ipc_port_t \<Rightarrow> nat \<Rightarrow> ipc_kmsg \<Rightarrow> bool" where
  "plain_kmsg port max_size m \<longleftrightarrow> msgh_remote_port m = port \<and> \<not> ikm_circular m \<and> ikm_marequest m = IMAR_NULL \<and>
     msgh_size m \<le> max_size"

definition queued :: "ipc_port \<Rightarrow> ipc_kmsg list" where "queued p = imq_messages (ip_messages p)"

lemma send_quiet:
  assumes "quiet_port ipc_space_kernel (st_port st port)" and "plain_kmsg port max_size m"
    and "ip_msgcount (st_port st port) < ip_qlimit (st_port st port)"
  shows "ipc_mqueue_send ipc_space_kernel server ws self m opt time_out st =
    Some (MACH_MSG_SUCCESS, upd_port port (\<lambda>p. p\<lparr>ip_msgcount := ip_msgcount p + 1,
      ip_messages := (ip_messages p)\<lparr>imq_messages := imq_messages (ip_messages p) @ [m]\<rparr>\<rparr>) st)"
proof -
  have "send_wait ws self m opt time_out st = Some (Inr True, st)"
    using assms by (simp add: send_wait.simps quiet_port_def plain_kmsg_def Let_def)
  moreover have "enqueue_kmsg m st = upd_port port (\<lambda>p. p\<lparr>ip_msgcount := ip_msgcount p + 1,
      ip_messages := (ip_messages p)\<lparr>imq_messages := imq_messages (ip_messages p) @ [m]\<rparr>\<rparr>) st"
    using assms
    by (simp add: enqueue_kmsg_def current_mqueue_def deliver_def quiet_port_def plain_kmsg_def Let_def upd_port_fuse)
      (intro upd_port_cong; simp)
  ultimately show ?thesis
    using assms by (subst ipc_mqueue_send.simps) (simp add: quiet_port_def plain_kmsg_def)
qed

lemma receive_quiet:
  assumes "ip_active (st_port st port)" and "plain_kmsg port max_size m" and "ip_blocked (st_port st port) = []"
    and "queued (st_port st port) = m # ms"
  shows "ipc_mqueue_receive ws self (Port_mq port) opt max_size time_out None st =
    Some (Received m (ip_seqno (st_port st port)),
      upd_port port (\<lambda>p. p\<lparr>ip_msgcount := ip_msgcount p - 1, ip_seqno := ip_seqno p + 1,
        ip_messages := (ip_messages p)\<lparr>imq_messages := ms\<rparr>\<rparr>) st)"
  using assms
  by (simp add: ipc_mqueue_receive_def receive_loop.simps receive_finish_def plain_kmsg_def queued_def Let_def upd_port_fuse)
    (intro upd_port_cong; simp)

fun send_all :: "ipc_space_t \<Rightarrow> (ipc_kmsg \<Rightarrow> ipc_kernel \<Rightarrow> ipc_kmsg option \<times> ipc_kernel) \<Rightarrow> ipc_thread_t \<Rightarrow>
    mach_msg_option_t \<Rightarrow> ipc_kmsg list \<Rightarrow> ipc_kernel \<Rightarrow> ipc_kernel option" where
  "send_all ipc_space_kernel server self opt [] st = Some st"
| "send_all ipc_space_kernel server self opt (m # ms) st =
     (case ipc_mqueue_send ipc_space_kernel server [] self m opt 0 st of
        Some (MACH_MSG_SUCCESS, st) \<Rightarrow> send_all ipc_space_kernel server self opt ms st
      | _ \<Rightarrow> None)"

fun receive_all :: "nat \<Rightarrow> ipc_thread_t \<Rightarrow> ipc_mqueue_t \<Rightarrow> mach_msg_option_t \<Rightarrow> nat \<Rightarrow> ipc_kernel
    \<Rightarrow> ((ipc_kmsg \<times> 32 word) list \<times> ipc_kernel) option" where
  "receive_all 0 self mq opt max_size st = Some ([], st)"
| "receive_all (Suc n) self mq opt max_size st =
     (case ipc_mqueue_receive [] self mq opt max_size 0 None st of
        Some (Received m seqno, st) \<Rightarrow>
          map_option (map_prod ((#) (m, seqno)) id) (receive_all n self mq opt max_size st)
      | _ \<Rightarrow> None)"

lemma send_all_quiet:
  assumes "quiet_port ipc_space_kernel (st_port st port)" and "\<forall>m \<in> set ms. plain_kmsg port max_size m"
    and "ip_msgcount (st_port st port) + length ms \<le> ip_qlimit (st_port st port)"
  shows "send_all ipc_space_kernel server self opt ms st =
    Some (upd_port port (\<lambda>p. p\<lparr>ip_msgcount := ip_msgcount p + length ms,
      ip_messages := (ip_messages p)\<lparr>imq_messages := imq_messages (ip_messages p) @ ms\<rparr>\<rparr>) st)"
  using assms
proof (induction ms arbitrary: st)
  case Nil
  then show ?case by (simp add: upd_port_def)
next
  case (Cons m ms)
  let ?s = "upd_port port (\<lambda>p. p\<lparr>ip_msgcount := ip_msgcount p + 1,
      ip_messages := (ip_messages p)\<lparr>imq_messages := imq_messages (ip_messages p) @ [m]\<rparr>\<rparr>) st"
  have "ipc_mqueue_send ipc_space_kernel server [] self m opt 0 st = Some (MACH_MSG_SUCCESS, ?s)"
    using Cons.prems by (intro send_quiet) auto
  moreover have "quiet_port ipc_space_kernel (st_port ?s port)" using Cons.prems(1) by (simp add: quiet_port_def)
  ultimately show ?case using Cons.IH [of ?s] Cons.prems by (simp add: upd_port_fuse)
qed

lemma receive_all_quiet:
  assumes "ip_active (st_port st port)" and "ip_blocked (st_port st port) = []"
    and "\<forall>m \<in> set ms. plain_kmsg port max_size m" and "queued (st_port st port) = ms @ rest"
  shows "receive_all (length ms) self (Port_mq port) opt max_size st =
    Some (zip ms (map (\<lambda>i. ip_seqno (st_port st port) + of_nat i) [0..<length ms]),
      upd_port port (\<lambda>p. p\<lparr>ip_msgcount := ip_msgcount p - length ms, ip_seqno := ip_seqno p + of_nat (length ms),
        ip_messages := (ip_messages p)\<lparr>imq_messages := rest\<rparr>\<rparr>) st)"
  using assms
proof (induction ms arbitrary: st)
  case Nil
  then show ?case by (auto simp add: upd_port_def queued_def)
next
  case (Cons m ms)
  let ?s = "upd_port port (\<lambda>p. p\<lparr>ip_msgcount := ip_msgcount p - 1, ip_seqno := ip_seqno p + 1,
        ip_messages := (ip_messages p)\<lparr>imq_messages := ms @ rest\<rparr>\<rparr>) st"
  have r: "ipc_mqueue_receive [] self (Port_mq port) opt max_size 0 None st =
      Some (Received m (ip_seqno (st_port st port)), ?s)"
    using Cons.prems by (intro receive_quiet) auto
  have "queued (st_port ?s port) = ms @ rest" by (simp add: queued_def)
  then have "receive_all (length ms) self (Port_mq port) opt max_size ?s =
    Some (zip ms (map (\<lambda>i. ip_seqno (st_port ?s port) + of_nat i) [0..<length ms]),
      upd_port port (\<lambda>p. p\<lparr>ip_msgcount := ip_msgcount p - length ms, ip_seqno := ip_seqno p + of_nat (length ms),
        ip_messages := (ip_messages p)\<lparr>imq_messages := rest\<rparr>\<rparr>) ?s)"
    using Cons.prems by (intro Cons.IH) simp_all
  then show ?case
    using r by (simp add: upd_port_fuse map_upt_Suc algebra_simps del: upt_Suc)
qed

text \<open>
  C23. Messages are received in the order in which they were sent: after sending any messages that
  fit under the queue limit of a port with an empty queue, as many receives as there were messages
  return exactly these messages in this order, numbered consecutively from the sequence
  number of the port (with wrap-around), and leave the queue and the count of messages as they
  were.
\<close>

theorem send_receive_fifo:
  assumes "quiet_port ipc_space_kernel (st_port st port)" and "\<forall>m \<in> set ms. plain_kmsg port max_size m"
    and "ip_msgcount (st_port st port) + length ms \<le> ip_qlimit (st_port st port)" and "queued (st_port st port) = []"
  shows "\<exists>st1 st2. send_all ipc_space_kernel server sender opt ms st = Some st1 \<and>
    receive_all (length ms) receiver (Port_mq port) opt' max_size st1 =
      Some (zip ms (map (\<lambda>i. ip_seqno (st_port st port) + of_nat i) [0..<length ms]), st2) \<and>
    queued (st_port st2 port) = [] \<and> ip_msgcount (st_port st2 port) = ip_msgcount (st_port st port)"
proof -
  let ?s = "upd_port port (\<lambda>p. p\<lparr>ip_msgcount := ip_msgcount p + length ms,
      ip_messages := (ip_messages p)\<lparr>imq_messages := imq_messages (ip_messages p) @ ms\<rparr>\<rparr>) st"
  have sent: "send_all ipc_space_kernel server sender opt ms st = Some ?s" by (rule send_all_quiet [OF assms(1-3)])
  have "receive_all (length ms) receiver (Port_mq port) opt' max_size ?s =
    Some (zip ms (map (\<lambda>i. ip_seqno (st_port ?s port) + of_nat i) [0..<length ms]),
      upd_port port (\<lambda>p. p\<lparr>ip_msgcount := ip_msgcount p - length ms, ip_seqno := ip_seqno p + of_nat (length ms),
        ip_messages := (ip_messages p)\<lparr>imq_messages := []\<rparr>\<rparr>) ?s)"
    by (rule receive_all_quiet) (use assms in \<open>auto simp: quiet_port_def queued_def\<close>)
  then show ?thesis using sent by (simp add: queued_def)
qed

definition sample_kmsg :: "nat \<Rightarrow> ipc_kmsg" where
  "sample_kmsg i = \<lparr>ikm_id = i, msgh_remote_port = 64, msgh_size = 24, ikm_circular = False, ikm_send_once = False,
     ikm_marequest = IMAR_NULL\<rparr>"

definition queue_kernel :: "nat \<Rightarrow> nat list \<Rightarrow> ipc_kernel" where
  "queue_kernel qlimit ids = boot_kernel\<lparr>st_port := (\<lambda>_. boot_port)
     (64 := boot_port\<lparr>ip_active := True, ip_references := 1, ip_receiver_name := 3, ip_data := 0x1000, ip_qlimit := qlimit,
        ip_seqno := 0xffffffff, ip_msgcount := length ids,
        ip_messages := \<lparr>imq_messages = map sample_kmsg ids, imq_threads = []\<rparr>\<rparr>)\<rparr>"

theorem send_receive_fifo_witness:
  "\<exists>st1 st2. send_all 0x2000 (\<lambda>m s. (None, s)) 1 0 [sample_kmsg 3, sample_kmsg 4] (queue_kernel 5 []) = Some st1 \<and>
     receive_all 2 6 (Port_mq 64) 0 100 st1 = Some ([(sample_kmsg 3, 0xffffffff), (sample_kmsg 4, 0)], st2) \<and>
     ip_msgcount (st_port st2 64) = 0"
proof -
  let ?k = "queue_kernel 5 []" and ?ms = "[sample_kmsg 3, sample_kmsg 4]"
  have port: "quiet_port 0x2000 (st_port ?k 64)" "queued (st_port ?k 64) = []" "ip_msgcount (st_port ?k 64) = 0"
      "ip_qlimit (st_port ?k 64) = 5" "ip_seqno (st_port ?k 64) = 0xffffffff"
    by (simp_all add: quiet_port_def queued_def queue_kernel_def boot_port_def)
  have msgs: "\<forall>m \<in> set ?ms. plain_kmsg 64 100 m" by (simp add: plain_kmsg_def sample_kmsg_def)
  have room: "ip_msgcount (st_port ?k 64) + length ?ms \<le> ip_qlimit (st_port ?k 64)" by (simp add: port)
  have len: "length ?ms = 2" by simp
  have seq: "zip ?ms (map (\<lambda>i. ip_seqno (st_port ?k 64) + of_nat i) [0..<length ?ms]) = [(sample_kmsg 3, 0xffffffff), (sample_kmsg 4, 0)]"
    by (simp add: port)
  show ?thesis
    using send_receive_fifo [OF port(1) msgs room port(2), of "\<lambda>m s. (None, s)" 1 0 6 0]
    unfolding len seq [unfolded len] port(3) by blast
qed

section \<open>The queue limit\<close>

lemma send_wait_room:
  assumes "send_wait ws self kmsg opt time_out st = Some (Inr True, st')"
  shows "ip_active (st_port st' (msgh_remote_port kmsg)) \<and>
    (ip_msgcount (st_port st' (msgh_remote_port kmsg)) < ip_qlimit (st_port st' (msgh_remote_port kmsg)) \<or>
     opt AND MACH_SEND_ALWAYS \<noteq> 0 \<or> ikm_send_once kmsg)"
  using assms
proof (induction ws arbitrary: time_out st)
  case Nil
  then show ?case by (subst (asm) send_wait.simps) (auto simp: Let_def split: if_splits)
next
  case (Cons w ws)
  obtain f r where w: "w = (f, r)" by fastforce
  show ?case
  proof (cases "ip_active (st_port st (msgh_remote_port kmsg)) \<and>
      \<not> (ip_msgcount (st_port st (msgh_remote_port kmsg)) < ip_qlimit (st_port st (msgh_remote_port kmsg)) \<or>
         opt AND MACH_SEND_ALWAYS \<noteq> 0 \<or> ikm_send_once kmsg)")
    case True
    obtain t s where "send_wait ws self kmsg opt t s = Some (Inr True, st')"
      using Cons.prems True unfolding w
      by (subst (asm) send_wait.simps) (auto simp: Let_def split: if_splits wait_result_t.splits)
    then show ?thesis by (rule Cons.IH)
  next
    case False
    then show ?thesis
      using Cons.prems by (subst (asm) send_wait.simps) (auto simp: Let_def split: if_splits)
  qed
qed

lemma offer_frame:
  assumes "offer kmsg seqno ths st = (r, ths', st')"
  shows "st_port st' = st_port st \<and> st_pset st' = st_pset st \<and> st_space st' = st_space st"
  using assms by (induction kmsg seqno ths st rule: offer.induct) (auto split: if_splits)

lemma deliver_counts:
  "ip_msgcount (st_port (deliver mq port kmsg st) p) = ip_msgcount (st_port st p)"
  "ip_qlimit (st_port (deliver mq port kmsg st) p) = ip_qlimit (st_port st p)"
  "ip_active (st_port (deliver mq port kmsg st) p) = ip_active (st_port st p)"
  "ip_blocked (st_port (deliver mq port kmsg st) p) = ip_blocked (st_port st p)"
proof -
  obtain r ths st' where o: "offer kmsg (ip_seqno (st_port st port)) (imq_threads (get_mq st mq)) st = (r, ths, st')"
    using prod_cases3 by blast
  have "st_port st' = st_port st" using offer_frame [OF o] by simp
  then show "ip_msgcount (st_port (deliver mq port kmsg st) p) = ip_msgcount (st_port st p)"
    "ip_qlimit (st_port (deliver mq port kmsg st) p) = ip_qlimit (st_port st p)"
    "ip_active (st_port (deliver mq port kmsg st) p) = ip_active (st_port st p)"
    "ip_blocked (st_port (deliver mq port kmsg st) p) = ip_blocked (st_port st p)"
    using o by (cases r; cases mq; simp add: deliver_def)+
qed

lemma send_wait_error:
  assumes "send_wait ws self kmsg opt time_out st = Some (Inl mr, st')"
  shows "mr = MACH_SEND_TIMED_OUT \<or> mr = MACH_SEND_INTERRUPTED"
  using assms
proof (induction ws arbitrary: time_out st)
  case Nil
  then show ?case by (subst (asm) send_wait.simps) (auto simp: Let_def split: if_splits)
next
  case (Cons w ws)
  obtain f r where w: "w = (f, r)" by fastforce
  show ?case
    using Cons.prems unfolding w
    by (subst (asm) send_wait.simps) (auto simp: Let_def dest: Cons.IH split: if_splits wait_result_t.splits)
qed

lemma send_wait_dead:
  assumes "send_wait ws self kmsg opt time_out st = Some (Inr False, st')"
  shows "\<not> ip_active (st_port st' (msgh_remote_port kmsg))"
  using assms
proof (induction ws arbitrary: time_out st)
  case Nil
  then show ?case by (subst (asm) send_wait.simps) (auto simp: Let_def split: if_splits)
next
  case (Cons w ws)
  obtain f r where w: "w = (f, r)" by fastforce
  show ?case
    using Cons.prems unfolding w
    by (subst (asm) send_wait.simps) (auto simp: Let_def dest: Cons.IH split: if_splits wait_result_t.splits)
qed

text \<open>
  C24. A send that is neither forced nor to a send-once right respects the queue limit of the port
  whatever other threads do while it waits: it returns success, a timeout or an interruption and
  nothing else, and if it queued its message at a live port, the port's count of messages is
  positive and not above the limit then in force.
\<close>

theorem send_respects_limit:
  assumes "ipc_mqueue_send ipc_space_kernel server ws self kmsg opt time_out st = Some (mr, st')"
    and "ip_receiver (st_port st (msgh_remote_port kmsg)) \<noteq> ipc_space_kernel"
    and "opt AND MACH_SEND_ALWAYS = 0" and "\<not> ikm_send_once kmsg"
  shows "mr \<in> {MACH_MSG_SUCCESS, MACH_SEND_TIMED_OUT, MACH_SEND_INTERRUPTED} \<and>
    (mr = MACH_MSG_SUCCESS \<and> \<not> ikm_circular kmsg \<and> ip_active (st_port st' (msgh_remote_port kmsg)) \<longrightarrow>
       0 < ip_msgcount (st_port st' (msgh_remote_port kmsg)) \<and>
       ip_msgcount (st_port st' (msgh_remote_port kmsg)) \<le> ip_qlimit (st_port st' (msgh_remote_port kmsg)))"
proof -
  obtain r s where w: "send_wait ws self kmsg opt time_out st = Some (r, s)"
    using assms(1,2) by (subst (asm) ipc_mqueue_send.simps) (auto split: option.splits)
  consider (error) e where "r = Inl e" | (room) "r = Inr True" | (dead) "r = Inr False" by (cases r) auto
  then show ?thesis
  proof cases
    case error
    then show ?thesis
      using send_wait_error [of ws self kmsg opt time_out st e s] assms(1,2) w
      by (subst (asm) ipc_mqueue_send.simps) auto
  next
    case room
    then show ?thesis
      using send_wait_room [of ws self kmsg opt time_out st s] assms w
      by (subst (asm) ipc_mqueue_send.simps) (auto simp: enqueue_kmsg_def Let_def deliver_counts split: if_splits)
  next
    case dead
    then show ?thesis
      using send_wait_dead [of ws self kmsg opt time_out st s] assms(1,2) w
      by (subst (asm) ipc_mqueue_send.simps) auto
  qed
qed

theorem send_respects_limit_witness:
  "\<exists>st'. ipc_mqueue_send 0x2000 (\<lambda>m s. (None, s)) [] 1 (sample_kmsg 2) 0 0 (queue_kernel 3 [0, 1]) = Some (MACH_MSG_SUCCESS, st') \<and>
     ip_msgcount (st_port st' 64) \<le> ip_qlimit (st_port st' 64)"
proof -
  obtain st' where s: "ipc_mqueue_send 0x2000 (\<lambda>m s. (None, s)) [] 1 (sample_kmsg 2) 0 0 (queue_kernel 3 [0, 1]) =
      Some (MACH_MSG_SUCCESS, st')" "ip_active (st_port st' 64)"
    by (subst (asm) send_quiet [where port = 64 and max_size = 100])
      (simp_all add: quiet_port_def plain_kmsg_def queue_kernel_def sample_kmsg_def boot_port_def)
  show ?thesis using send_respects_limit [OF s(1)] s by (simp add: sample_kmsg_def queue_kernel_def)
qed

section \<open>Blocked senders\<close>

text \<open>
  What other threads do at a port while a sender waits there: one takes a message, if there is
  one, and does not wait for it; one sends a message, which can be queued, can fail, or makes its
  thread wait too. A sender that was woken and tries again is one that sends.
\<close>

datatype port_action = Receive ipc_thread_t nat | Send ipc_thread_t ipc_kmsg mach_msg_option_t "32 word"

definition receive_now :: "ipc_thread_t \<Rightarrow> ipc_port_t \<Rightarrow> nat \<Rightarrow> ipc_kernel \<Rightarrow> (receive_result \<times> ipc_kernel) option" where
  "receive_now th port max_size = ipc_mqueue_receive [] th (Port_mq port) MACH_RCV_TIMEOUT max_size 0 None"

fun act :: "ipc_space_t \<Rightarrow> (ipc_kmsg \<Rightarrow> ipc_kernel \<Rightarrow> ipc_kmsg option \<times> ipc_kernel) \<Rightarrow> ipc_port_t \<Rightarrow> port_action
    \<Rightarrow> ipc_kernel \<Rightarrow> ipc_kernel" where
  "act ipc_space_kernel server port (Receive th max_size) st =
     (case receive_now th port max_size st of Some (_, st') \<Rightarrow> st' | None \<Rightarrow> st)"
| "act ipc_space_kernel server port (Send th m opt time_out) st =
     (case ipc_mqueue_send ipc_space_kernel server [] th m opt time_out st of
        Some (_, st') \<Rightarrow> st'
      | None \<Rightarrow> block_sender th port st)"

text \<open>A receive that leaves room in the queue.\<close>

fun makes_room :: "ipc_port_t \<Rightarrow> port_action \<Rightarrow> ipc_kernel \<Rightarrow> bool" where
  "makes_room port (Receive th max_size) st =
     (case receive_now th port max_size st of
        Some (Received _ _, st') \<Rightarrow> ip_msgcount (st_port st' port) < ip_qlimit (st_port st' port)
      | _ \<Rightarrow> False)"
| "makes_room port (Send th m opt time_out) st = False"

fun rooms :: "ipc_space_t \<Rightarrow> (ipc_kmsg \<Rightarrow> ipc_kernel \<Rightarrow> ipc_kmsg option \<times> ipc_kernel) \<Rightarrow> ipc_port_t
    \<Rightarrow> port_action list \<Rightarrow> ipc_kernel \<Rightarrow> nat" where
  "rooms ipc_space_kernel server port [] st = 0"
| "rooms ipc_space_kernel server port (a # as) st =
     of_bool (makes_room port a st) + rooms ipc_space_kernel server port as (act ipc_space_kernel server port a st)"

text \<open>The actions considered are those of threads other than the sender, with plain messages for the port.\<close>

fun of_others :: "ipc_thread_t \<Rightarrow> ipc_port_t \<Rightarrow> port_action \<Rightarrow> bool" where
  "of_others self port (Receive th max_size) = True"
| "of_others self port (Send th m opt time_out) = (th \<noteq> self \<and> plain_kmsg port (msgh_size m) m)"

text \<open>
  The port while \<open>self\<close> has been waiting behind \<open>qs\<close>: the threads woken so far and those still waiting
  are \<open>qs\<close>, \<open>self\<close> and those that came later, in this order.
\<close>

definition open_port :: "ipc_space_t \<Rightarrow> ipc_port_t \<Rightarrow> ipc_port \<Rightarrow> bool" where
  "open_port ipc_space_kernel port p \<longleftrightarrow> ip_active p \<and> ip_pset p = IPS_NULL \<and> ip_receiver p \<noteq> ipc_space_kernel \<and>
     imq_threads (ip_messages p) = [] \<and> (\<forall>m \<in> set (queued p). plain_kmsg port (msgh_size m) m)"

definition waiting ::
  "ipc_space_t \<Rightarrow> ipc_port_t \<Rightarrow> ipc_thread_t list \<Rightarrow> ipc_thread_t \<Rightarrow> ipc_event list \<Rightarrow> ipc_thread_t list \<Rightarrow> ipc_thread_t list
     \<Rightarrow> ipc_kernel \<Rightarrow> bool" where
  "waiting ipc_space_kernel port qs self events woken later st \<longleftrightarrow>
     open_port ipc_space_kernel port (st_port st port) \<and>
     st_events st = events @ map Thread_go woken \<and>
     woken @ ip_blocked (st_port st port) = qs @ self # later \<and> self \<notin> set qs \<and> self \<notin> set later \<and>
     ith_state (st_thread st self) = (if self \<in> set woken then MACH_MSG_SUCCESS else MACH_SEND_IN_PROGRESS)"

lemma waiting_woken:
  assumes "woken @ blocked = qs @ self # later" and "self \<notin> set qs" and "self \<notin> set later"
  shows "self \<in> set woken \<longleftrightarrow> length qs < length woken"
proof -
  have w: "woken = take (length woken) qs @ take (length woken - length qs) (self # later)"
    using assms(1) by (metis append_eq_conv_conj take_append)
  show ?thesis
  proof (cases "length qs < length woken")
    case True
    then have "self \<in> set (take (length woken - length qs) (self # later))" by (simp add: take_Cons')
    then show ?thesis using True w by (metis Un_iff set_append)
  next
    case False
    then have "woken = take (length woken) qs" using w by simp
    then show ?thesis using False assms(2) by (metis in_set_takeD)
  qed
qed

lemma send_now:
  assumes "open_port ipc_space_kernel port (st_port st port)" and "plain_kmsg port max_size m"
  shows "ipc_mqueue_send ipc_space_kernel server [] th m opt time_out st =
    (if ip_msgcount (st_port st port) < ip_qlimit (st_port st port) \<or> opt AND MACH_SEND_ALWAYS \<noteq> 0 \<or> ikm_send_once m
     then Some (MACH_MSG_SUCCESS, upd_port port (\<lambda>p. p\<lparr>ip_msgcount := ip_msgcount p + 1,
      ip_messages := (ip_messages p)\<lparr>imq_messages := imq_messages (ip_messages p) @ [m]\<rparr>\<rparr>) st)
     else if opt AND MACH_SEND_TIMEOUT \<noteq> 0 \<and> time_out = 0 then Some (MACH_SEND_TIMED_OUT, st) else None)"
proof -
  have "enqueue_kmsg m st = upd_port port (\<lambda>p. p\<lparr>ip_msgcount := ip_msgcount p + 1,
      ip_messages := (ip_messages p)\<lparr>imq_messages := imq_messages (ip_messages p) @ [m]\<rparr>\<rparr>) st"
    using assms
    by (simp add: enqueue_kmsg_def current_mqueue_def deliver_def open_port_def plain_kmsg_def Let_def upd_port_fuse)
      (intro upd_port_cong; simp)
  then show ?thesis
    using assms by (subst ipc_mqueue_send.simps, subst send_wait.simps) (auto simp: open_port_def plain_kmsg_def Let_def)
qed

lemma receive_now_empty:
  "queued (st_port st port) = [] \<Longrightarrow> receive_now th port max_size st = Some (Failed MACH_RCV_TIMED_OUT, st)"
  by (simp add: receive_now_def ipc_mqueue_receive_def receive_loop.simps queued_def)

lemma receive_now_large:
  "queued (st_port st port) = m # ms \<Longrightarrow> max_size < msgh_size m \<Longrightarrow>
   receive_now th port max_size st = Some (Too_large (msgh_size m), st)"
  by (simp add: receive_now_def ipc_mqueue_receive_def receive_loop.simps queued_def)

definition taken :: "ipc_kmsg list \<Rightarrow> ipc_port \<Rightarrow> ipc_port" where
  "taken ms p = p\<lparr>ip_msgcount := ip_msgcount p - 1, ip_seqno := ip_seqno p + 1,
     ip_messages := (ip_messages p)\<lparr>imq_messages := ms\<rparr>\<rparr>"

lemma receive_now_takes:
  assumes "ip_active (st_port st port)" and "plain_kmsg port max_size m" and "queued (st_port st port) = m # ms"
  shows "receive_now th port max_size st =
    Some (Received m (ip_seqno (st_port st port)),
      case ip_blocked (st_port st port) of
        [] \<Rightarrow> upd_port port (taken ms) st
      | q # qs \<Rightarrow>
          if ip_msgcount (st_port st port) - 1 < ip_qlimit (st_port st port)
          then wake MACH_MSG_SUCCESS q (upd_port port (\<lambda>p. (taken ms p)\<lparr>ip_blocked := qs\<rparr>) st)
          else upd_port port (taken ms) st)"
  using assms
  by (auto simp: receive_now_def ipc_mqueue_receive_def receive_loop.simps receive_finish_def plain_kmsg_def
      queued_def Let_def upd_port_fuse taken_def split: list.splits
      intro!: arg_cong [where f = "wake _ _"] upd_port_cong)

lemma receive_waiting:
  assumes "waiting ipc_space_kernel port qs self events woken later st"
  shows "\<exists>woken'. waiting ipc_space_kernel port qs self events woken' later (act ipc_space_kernel server port (Receive th max_size) st) \<and>
    (if makes_room port (Receive th max_size) st \<and> ip_blocked (st_port st port) \<noteq> []
     then length woken' = Suc (length woken) else woken' = woken)"
proof -
  let ?p = "st_port st port"
  have op: "open_port ipc_space_kernel port ?p" using assms by (simp add: waiting_def)
  consider (none) "queued ?p = []" | (large) m ms where "queued ?p = m # ms" "max_size < msgh_size m"
    | (ok) m ms where "queued ?p = m # ms" "\<not> max_size < msgh_size m" by (cases "queued ?p") auto
  then show ?thesis
  proof cases
    case none
    then show ?thesis using assms by (intro exI [of _ woken]) (simp add: receive_now_empty)
  next
    case large
    then show ?thesis using assms by (intro exI [of _ woken]) (simp add: receive_now_large)
  next
    case ok
    have m: "plain_kmsg port max_size m" "ip_active ?p" using op ok by (auto simp: open_port_def plain_kmsg_def)
    note r = receive_now_takes [OF m(2,1) ok(1), of th]
    have op': "open_port ipc_space_kernel port (taken ms ?p)" "open_port ipc_space_kernel port ((taken ms ?p)\<lparr>ip_blocked := bs\<rparr>)" for bs
      using op ok(1) by (auto simp: open_port_def taken_def queued_def)
    show ?thesis
    proof (cases "ip_blocked ?p")
      case Nil
      then show ?thesis using assms r op'(1) by (intro exI [of _ woken]) (simp add: waiting_def taken_def)
    next
      case (Cons q bs)
      show ?thesis
      proof (cases "ip_msgcount ?p - 1 < ip_qlimit ?p")
        case True
        then show ?thesis using assms r op'(2) [of bs] Cons
          by (intro exI [of _ "woken @ [q]"]) (auto simp: waiting_def taken_def wake_def)
      next
        case False
        then show ?thesis using assms r op'(1) Cons by (intro exI [of _ woken]) (simp add: waiting_def taken_def)
      qed
    qed
  qed
qed

lemma send_waiting:
  assumes "waiting ipc_space_kernel port qs self events woken later st" and "of_others self port (Send th m opt time_out)"
  shows "\<exists>later'. waiting ipc_space_kernel port qs self events woken later' (act ipc_space_kernel server port (Send th m opt time_out) st)"
proof -
  have op: "open_port ipc_space_kernel port (st_port st port)" and m: "plain_kmsg port (msgh_size m) m" "th \<noteq> self"
    using assms by (simp_all add: waiting_def)
  note s = send_now [OF op m(1), of server th opt time_out]
  have "waiting ipc_space_kernel port qs self events woken later (upd_port port (\<lambda>p. p\<lparr>ip_msgcount := ip_msgcount p + 1,
      ip_messages := (ip_messages p)\<lparr>imq_messages := imq_messages (ip_messages p) @ [m]\<rparr>\<rparr>) st)"
    using assms(1) m by (auto simp: waiting_def open_port_def queued_def)
  moreover have "waiting ipc_space_kernel port qs self events woken (later @ [th]) (block_sender th port st)"
    using assms(1) m by (auto simp: waiting_def open_port_def queued_def block_sender_def)
  ultimately show ?thesis using s assms(1) by (auto split: if_splits)
qed

lemma history_waiting:
  assumes "waiting ipc_space_kernel port qs self events woken later st" and "\<forall>a \<in> set as. of_others self port a"
  shows "\<exists>woken' later'.
    waiting ipc_space_kernel port qs self events woken' later' (fold (act ipc_space_kernel server port) as st) \<and>
    length woken \<le> length woken' \<and> length woken' \<le> length woken + rooms ipc_space_kernel server port as st \<and>
    (self \<notin> set woken' \<longrightarrow> length woken' = length woken + rooms ipc_space_kernel server port as st)"
  using assms
proof (induction as arbitrary: st woken later)
  case Nil
  then show ?case by auto
next
  case (Cons a as)
  let ?s = "act ipc_space_kernel server port a st"
  have blocked: "ip_blocked (st_port st port) \<noteq> []" if "self \<notin> set woken"
  proof
    assume "ip_blocked (st_port st port) = []"
    then have "woken = qs @ self # later" using Cons.prems(1) by (simp add: waiting_def)
    then show False using that by simp
  qed
  have mono: "self \<in> set woken''" if "waiting ipc_space_kernel port qs self events woken'' l s" "length woken \<le> length woken''" "self \<in> set woken" for woken'' l s
    using that Cons.prems(1) waiting_woken unfolding waiting_def by (metis order_less_le_trans)
  obtain w l where w: "waiting ipc_space_kernel port qs self events w l ?s"
      "length woken \<le> length w" "length w \<le> length woken + of_bool (makes_room port a st)"
      "self \<notin> set woken \<longrightarrow> length w = length woken + of_bool (makes_room port a st)"
  proof (cases a)
    case (Receive th max_size)
    obtain w where w: "waiting ipc_space_kernel port qs self events w later ?s"
        "if makes_room port a st \<and> ip_blocked (st_port st port) \<noteq> [] then length w = Suc (length woken) else w = woken"
      using receive_waiting [OF Cons.prems(1), of server th max_size] unfolding Receive by blast
    show ?thesis
      by (rule that [OF w(1)]) (use w(2) blocked in \<open>auto split: if_splits\<close>)
  next
    case (Send th m opt time_out)
    then show ?thesis using send_waiting [OF Cons.prems(1), of th m opt time_out server] Cons.prems(2) that by auto
  qed
  obtain w' l' where w': "waiting ipc_space_kernel port qs self events w' l' (fold (act ipc_space_kernel server port) as ?s)"
      "length w \<le> length w'" "length w' \<le> length w + rooms ipc_space_kernel server port as ?s"
      "self \<notin> set w' \<longrightarrow> length w' = length w + rooms ipc_space_kernel server port as ?s"
    using Cons.IH [OF w(1)] Cons.prems(2) by auto
  have "self \<notin> set w' \<longrightarrow> self \<notin> set woken" using mono [OF w'(1)] w(2) w'(2) by linarith
  then show ?case using w w' by (intro exI [of _ w'] exI [of _ l']) auto
qed

lemma block_waiting:
  assumes "open_port ipc_space_kernel port (st_port st port)" and "self \<notin> set (ip_blocked (st_port st port))"
  shows "waiting ipc_space_kernel port (ip_blocked (st_port st port)) self (st_events st) [] [] (block_sender self port st)"
  using assms by (simp add: waiting_def block_sender_def open_port_def queued_def)

text \<open>The threads woken are the first ones of the queue.\<close>

lemma woken_first: "woken @ blocked = qs @ rest \<Longrightarrow> length woken \<le> length qs \<Longrightarrow> woken = take (length woken) qs \<and> blocked = drop (length woken) qs @ rest"
  by (simp add: append_eq_append_conv_if split: if_splits)

text \<open>What the sender does when it runs again.\<close>

lemma send_resumed:
  assumes "open_port ipc_space_kernel port (st_port st port)" and "plain_kmsg port max_size kmsg"
    and "ip_qlimit (st_port st port) \<le> ip_msgcount (st_port st port)"
    and "opt AND MACH_SEND_ALWAYS = 0" and "\<not> ikm_send_once kmsg" and "opt AND MACH_SEND_TIMEOUT = 0 \<or> time_out \<noteq> 0"
    and s1: "s1 = other (block_sender self port st)" and op: "open_port ipc_space_kernel port (st_port s1 port)"
  shows "ith_state (st_thread s1 self) = MACH_MSG_SUCCESS \<Longrightarrow> ip_msgcount (st_port s1 port) < ip_qlimit (st_port s1 port) \<Longrightarrow>
      \<exists>st'. ipc_mqueue_send ipc_space_kernel server [(other, result)] self kmsg opt time_out st = Some (MACH_MSG_SUCCESS, st') \<and>
        queued (st_port st' port) = queued (st_port s1 port) @ [kmsg] \<and> ip_blocked (st_port st' port) = ip_blocked (st_port s1 port)"
    and "ith_state (st_thread s1 self) \<noteq> MACH_MSG_SUCCESS \<Longrightarrow>
      ipc_mqueue_send ipc_space_kernel server [(other, THREAD_INTERRUPTED)] self kmsg opt time_out st =
        Some (MACH_SEND_INTERRUPTED, upd_port port (\<lambda>p. p\<lparr>ip_blocked := remove1 self (ip_blocked p)\<rparr>) s1)"
proof -
  have p: "ip_active (st_port st port)" "ip_receiver (st_port st port) \<noteq> ipc_space_kernel" "msgh_remote_port kmsg = port" "\<not> ikm_circular kmsg"
    using assms(1,2) by (auto simp: open_port_def plain_kmsg_def)
  have p1: "ip_active (st_port s1 port)" "ip_pset (st_port s1 port) = IPS_NULL" "imq_threads (ip_messages (st_port s1 port)) = []"
    using op by (auto simp: open_port_def)
  have wait: "send_wait [(other, r)] self kmsg opt time_out st =
      (if ith_state (st_thread s1 self) = MACH_MSG_SUCCESS then send_wait [] self kmsg opt time_out s1
       else let st = upd_port port (\<lambda>p. p\<lparr>ip_blocked := remove1 self (ip_blocked p)\<rparr>) s1
            in (case r of THREAD_INTERRUPTED \<Rightarrow> Some (Inl MACH_SEND_INTERRUPTED, st)
                | THREAD_TIMED_OUT \<Rightarrow> send_wait [] self kmsg opt 0 st | _ \<Rightarrow> None))" for r
    using p assms(3-6) s1 by (subst send_wait.simps) (auto simp: Let_def)
  show "\<exists>st'. ipc_mqueue_send ipc_space_kernel server [(other, result)] self kmsg opt time_out st = Some (MACH_MSG_SUCCESS, st') \<and>
      queued (st_port st' port) = queued (st_port s1 port) @ [kmsg] \<and> ip_blocked (st_port st' port) = ip_blocked (st_port s1 port)"
    if "ith_state (st_thread s1 self) = MACH_MSG_SUCCESS" and "ip_msgcount (st_port s1 port) < ip_qlimit (st_port s1 port)"
  proof -
    have "send_wait [] self kmsg opt time_out s1 = Some (Inr True, s1)"
      using that(2) p p1 by (subst send_wait.simps) (simp add: Let_def)
    then show ?thesis
      using wait [of result] that(1) p p1
      by (subst ipc_mqueue_send.simps) (simp add: enqueue_kmsg_def current_mqueue_def deliver_def Let_def queued_def)
  qed
  show "ipc_mqueue_send ipc_space_kernel server [(other, THREAD_INTERRUPTED)] self kmsg opt time_out st =
      Some (MACH_SEND_INTERRUPTED, upd_port port (\<lambda>p. p\<lparr>ip_blocked := remove1 self (ip_blocked p)\<rparr>) s1)"
    if "ith_state (st_thread s1 self) \<noteq> MACH_MSG_SUCCESS"
    using wait [of THREAD_INTERRUPTED] that p by (subst ipc_mqueue_send.simps) (simp add: Let_def)
qed

text \<open>
  C25. Senders that find the queue of a port full are served in the order of their arrival. A
  sender blocks behind the threads \<open>qs\<close>, and then other threads receive messages from the port
  without waiting and send plain messages to it, in any number and any order, possibly blocking
  themselves. The threads woken meanwhile, followed by those still blocked, are \<open>qs\<close>, the
  sender and those that came later, in that order. As long as no more than \<open>length qs\<close> of the
  receives have left room in the queue, each of them has woken exactly one thread of \<open>qs\<close>, the sender is
  still blocked, and an interruption makes the send fail and takes it, and nobody else, out of the
  line. After one more it has been woken; if there is still room when it runs, its send
  succeeds, with its message at the end of the queue. (The port stays alive, in no set, with
  its limit as it is and no thread waiting to receive.)
\<close>

theorem blocked_sender_proceeds:
  assumes "open_port ipc_space_kernel port (st_port st port)" and "plain_kmsg port max_size kmsg"
    and "ip_qlimit (st_port st port) \<le> ip_msgcount (st_port st port)"
    and "opt AND MACH_SEND_ALWAYS = 0" and "\<not> ikm_send_once kmsg" and "opt AND MACH_SEND_TIMEOUT = 0 \<or> time_out \<noteq> 0"
    and "ip_blocked (st_port st port) = qs" and "self \<notin> set qs" and "\<forall>a \<in> set as. of_others self port a"
    and "others = fold (act ipc_space_kernel server port) as" and "st1 = others (block_sender self port st)"
    and "n = rooms ipc_space_kernel server port as (block_sender self port st)"
  shows "\<exists>woken later. st_events st1 = st_events st @ map Thread_go woken \<and>
    woken @ ip_blocked (st_port st1 port) = qs @ self # later \<and>
    (if n \<le> length qs then
       woken = take n qs \<and> ip_blocked (st_port st1 port) = drop n qs @ self # later \<and>
       ith_state (st_thread st1 self) = MACH_SEND_IN_PROGRESS \<and>
       (\<exists>st'. ipc_mqueue_send ipc_space_kernel server [(others, THREAD_INTERRUPTED)] self kmsg opt time_out st =
          Some (MACH_SEND_INTERRUPTED, st') \<and> ip_blocked (st_port st' port) = drop n qs @ later)
     else
       self \<in> set woken \<and>
       (ip_msgcount (st_port st1 port) < ip_qlimit (st_port st1 port) \<longrightarrow>
         (\<exists>st'. ipc_mqueue_send ipc_space_kernel server [(others, THREAD_AWAKENED)] self kmsg opt time_out st =
            Some (MACH_MSG_SUCCESS, st') \<and> queued (st_port st' port) = queued (st_port st1 port) @ [kmsg] \<and>
            ip_blocked (st_port st' port) = ip_blocked (st_port st1 port))))"
proof -
  obtain woken later where w: "waiting ipc_space_kernel port qs self (st_events st) woken later st1"
      "length woken \<le> n" "self \<notin> set woken \<longrightarrow> length woken = n"
    using history_waiting [OF block_waiting [OF assms(1)], of self as server] assms(7-12) by auto
  have h: "st_events st1 = st_events st @ map Thread_go woken" "woken @ ip_blocked (st_port st1 port) = qs @ self # later"
      "ith_state (st_thread st1 self) = (if self \<in> set woken then MACH_MSG_SUCCESS else MACH_SEND_IN_PROGRESS)"
    using w(1) by (simp_all add: waiting_def)
  have in_iff: "self \<in> set woken \<longleftrightarrow> length qs < length woken" "open_port ipc_space_kernel port (st_port st1 port)"
    using w(1) waiting_woken unfolding waiting_def by metis+
  note resumed = send_resumed [where other = others and server = server, OF assms(1-6,11) in_iff(2)]
  show ?thesis
  proof (cases "n \<le> length qs")
    case True
    then have out: "self \<notin> set woken" "length woken = n" using w(2,3) in_iff(1) by auto
    have "woken = take n qs" "ip_blocked (st_port st1 port) = drop n qs @ self # later"
      using woken_first [OF h(2)] out(2) True by auto
    moreover have "remove1 self (drop n qs @ self # later) = drop n qs @ later"
      using assms(8) by (simp add: remove1_append in_set_dropD) (metis in_set_dropD)
    ultimately show ?thesis using h out True resumed(2)
      by (intro exI [of _ woken] exI [of _ later]) simp
  next
    case False
    then have "self \<in> set woken" using w(3) in_iff(1) by auto
    then show ?thesis using h False resumed(1) [of THREAD_AWAKENED]
      by (intro exI [of _ woken] exI [of _ later]) simp
  qed
qed

definition crowded_kernel :: ipc_kernel where
  "crowded_kernel = upd_port 64 (\<lambda>p. p\<lparr>ip_blocked := [7]\<rparr>) (queue_kernel 2 [4, 5])"

definition sample_actions :: "port_action list" where
  "sample_actions = [Receive 2 100, Send 7 (sample_kmsg 8) 0 0, Receive 3 100]"

text \<open>Thread 1 waits behind thread 7, which sends its message in between.\<close>

theorem blocked_sender_proceeds_witness:
  "\<exists>st1 st'. st1 = fold (act 0x2000 (\<lambda>m s. (None, s)) 64) sample_actions (block_sender 1 64 crowded_kernel) \<and>
     st_events st1 = [Thread_go 7, Thread_go 1] \<and> queued (st_port st1 64) = [sample_kmsg 8] \<and>
     ipc_mqueue_send 0x2000 (\<lambda>m s. (None, s)) [(fold (act 0x2000 (\<lambda>m s. (None, s)) 64) sample_actions, THREAD_AWAKENED)] 1
       (sample_kmsg 9) 0 0 crowded_kernel = Some (MACH_MSG_SUCCESS, st') \<and>
     queued (st_port st' 64) = map sample_kmsg [8, 9]"
proof -
  let ?k = crowded_kernel and ?server = "\<lambda>m s. (None, s)"
  let ?s1 = "fold (act 0x2000 ?server 64) sample_actions (block_sender 1 64 ?k)"
  have msg: "plain_kmsg 64 100 (sample_kmsg i)" "\<not> ikm_send_once (sample_kmsg i)" for i
    by (simp_all add: plain_kmsg_def sample_kmsg_def)
  have port: "open_port 0x2000 64 (st_port ?k 64)" "ip_qlimit (st_port ?k 64) \<le> ip_msgcount (st_port ?k 64)"
      "ip_blocked (st_port ?k 64) = [7]"
    by (simp_all add: open_port_def queued_def crowded_kernel_def queue_kernel_def boot_port_def plain_kmsg_def sample_kmsg_def)
  have opts: "(0 :: 32 word) AND MACH_SEND_ALWAYS = 0" "(0 :: 32 word) AND MACH_SEND_TIMEOUT = 0 \<or> (0 :: 32 word) \<noteq> 0" by simp_all
  have others: "1 \<notin> set [7 :: 32 word]" "\<forall>a \<in> set sample_actions. of_others 1 64 a"
    by (simp_all add: sample_actions_def plain_kmsg_def sample_kmsg_def)
  have run: "rooms 0x2000 ?server 64 sample_actions (block_sender 1 64 ?k) = 2" "st_events ?s1 = [Thread_go 7, Thread_go 1]"
      "queued (st_port ?s1 64) = [sample_kmsg 8]" "ip_msgcount (st_port ?s1 64) < ip_qlimit (st_port ?s1 64)"
    by code_simp+
  show ?thesis
    using blocked_sender_proceeds [OF port(1) msg(1) port(2) opts(1) msg(2) opts(2) port(3) others refl refl refl, of ?server 9] run by auto
qed

end
