(* ===== verification/PsetFacts.thy ===== *)
theory PsetFacts
  imports IpcPort KernelState "HOL-Library.Sublist"
begin

text \<open>
  Properties of port sets: moving messages between the queue of a port and that of a set
  (\<^verbatim>\<open>ipc_mqueue_move\<close>) loses, duplicates and reorders none of them, and joining and leaving a
  set are inverse on the queues.
\<close>

section \<open>Queues\<close>

lemma get_upd_mq [simp]: "get_mq (upd_mq mq f st) mq' = (if mq' = mq then f (get_mq st mq) else get_mq st mq')"
  by (cases mq; cases mq') auto

lemma upd_mq_frame [simp]:
  "st_thread (upd_mq mq f st) = st_thread st" "st_events (upd_mq mq f st) = st_events st"
  "st_space (upd_mq mq f st) = st_space st"
  "ip_seqno (st_port (upd_mq mq f st) p) = ip_seqno (st_port st p)"
  "ip_pset (st_port (upd_mq mq f st) p) = ip_pset (st_port st p)"
  "ips_references (st_pset (upd_mq mq f st) s) = ips_references (st_pset st s)"
  by (cases mq; simp)+

lemma get_mq_simps [simp]:
  "get_mq (emit e st) mq = get_mq st mq" "get_mq (upd_thread t g st) mq = get_mq st mq"
  by (cases mq; simp)+

lemma get_mq_port_fields [simp]:
  "get_mq (upd_port p (\<lambda>q. q\<lparr>ip_seqno := n q\<rparr>) st) mq = get_mq st mq"
  "get_mq (upd_port p (\<lambda>q. q\<lparr>ip_pset := s\<rparr>) st) mq = get_mq st mq"
  "get_mq (ips_reference a st) mq = get_mq st mq" "get_mq (ips_release a st) mq = get_mq st mq"
  by (cases mq; simp)+

section \<open>Delivering\<close>

text \<open>Offering a message changes only threads of the list, and serves the first that is large enough.\<close>

lemma offer_result:
  assumes "offer m seqno ths st = (r, ths', st')" and "distinct ths"
  shows "st_port st' = st_port st \<and> st_pset st' = st_pset st \<and> (\<forall>t. t \<notin> set ths - set ths' \<longrightarrow> st_thread st' t = st_thread st t) \<and>
    (case r of None \<Rightarrow> ths' = [] \<and> st_events st' = st_events st @ map Thread_go ths
     | Some th \<Rightarrow> (\<exists>smalls. ths = smalls @ th # ths' \<and> st_events st' = st_events st @ map Thread_go (smalls @ [th])) \<and> ith_state (st_thread st' th) = MACH_MSG_SUCCESS \<and>
         ith_kmsg (st_thread st' th) = Some m \<and> ith_seqno (st_thread st' th) = seqno)"
  using assms
proof (induction m seqno ths st rule: offer.induct)
  case (2 m seqno th ths st)
  show ?case
  proof (cases "msgh_size m \<le> ith_msize (st_thread st th)")
    case True
    then show ?thesis using 2(2,3) by auto
  next
    case False
    let ?s = "emit (Thread_go th) (upd_thread th (\<lambda>t. t\<lparr>ith_state := MACH_RCV_TOO_LARGE, ith_msize := msgh_size m\<rparr>) st)"
    have ih: "st_port st' = st_port ?s \<and> st_pset st' = st_pset ?s \<and>
      (\<forall>t. t \<notin> set ths - set ths' \<longrightarrow> st_thread st' t = st_thread ?s t) \<and>
      (case r of None \<Rightarrow> ths' = [] \<and> st_events st' = st_events ?s @ map Thread_go ths
       | Some th \<Rightarrow> (\<exists>smalls. ths = smalls @ th # ths' \<and> st_events st' = st_events ?s @ map Thread_go (smalls @ [th])) \<and> ith_state (st_thread st' th) = MACH_MSG_SUCCESS \<and>
           ith_kmsg (st_thread st' th) = Some m \<and> ith_seqno (st_thread st' th) = seqno)"
      using 2 False by auto
    have sub: "set ths' \<subseteq> set ths" using ih by (cases r) auto
    have "\<forall>t. t \<notin> set (th # ths) - set ths' \<longrightarrow> st_thread st' t = st_thread st t"
      using ih sub 2(3) by auto
    moreover have "\<exists>smalls. th # ths = smalls @ a # ths' \<and> st_events st' = st_events st @ map Thread_go (smalls @ [a])"
      if ex: "\<exists>smalls. ths = smalls @ a # ths' \<and> st_events st' = st_events ?s @ map Thread_go (smalls @ [a])" for a
    proof -
      obtain smalls where "ths = smalls @ a # ths'" "st_events st' = st_events ?s @ map Thread_go (smalls @ [a])" using ex by blast
      then show ?thesis by (intro exI [of _ "th # smalls"]) simp
    qed
    ultimately show ?thesis using ih by (cases r) auto
  qed
qed auto

text \<open>\<open>handed st takers given seqno\<close>: the threads \<open>takers\<close> were each woken with their message of \<open>given\<close>,
  numbered from \<open>seqno\<close> on.\<close>

definition handed :: "ipc_kernel \<Rightarrow> ipc_thread_t list \<Rightarrow> ipc_kmsg list \<Rightarrow> 32 word \<Rightarrow> bool" where
  "handed st takers given seqno \<longleftrightarrow> length takers = length given \<and>
     (\<forall>i < length given. ith_state (st_thread st (takers ! i)) = MACH_MSG_SUCCESS \<and>
        ith_kmsg (st_thread st (takers ! i)) = Some (given ! i) \<and> ith_seqno (st_thread st (takers ! i)) = seqno + of_nat i)"

lemma handed_Cons:
  assumes "handed st takers given (seqno + 1)" and "ith_state (st_thread st th) = MACH_MSG_SUCCESS"
    and "ith_kmsg (st_thread st th) = Some m" and "ith_seqno (st_thread st th) = seqno"
  shows "handed st (th # takers) (m # given) seqno"
  using assms by (auto simp: handed_def nth_Cons' algebra_simps)

definition move_one :: "ipc_mqueue_t \<Rightarrow> ipc_mqueue_t \<Rightarrow> ipc_port_t \<Rightarrow> ipc_kmsg \<Rightarrow> ipc_kernel \<Rightarrow> ipc_kernel" where
  "move_one dest source port kmsg st = deliver dest port kmsg
     (upd_mq source (\<lambda>q. q\<lparr>imq_messages := remove1 kmsg (imq_messages q)\<rparr>) st)"

lemma move_as_fold:
  "ipc_mqueue_move dest source port st = fold (move_one dest source port)
     (filter (\<lambda>kmsg. msgh_remote_port kmsg = port) (imq_messages (get_mq st source))) st"
  by (simp add: ipc_mqueue_move_def move_one_def [abs_def])

lemma move_one_result:
  assumes "dest \<noteq> source" and "distinct (imq_threads (get_mq st dest))"
    and st'_def: "st' = move_one dest source port m st"
  shows "get_mq st' source = (get_mq st source)\<lparr>imq_messages := remove1 m (imq_messages (get_mq st source))\<rparr>"
    and "(\<exists>smalls th. imq_threads (get_mq st dest) = smalls @ th # imq_threads (get_mq st' dest) \<and>
        st_events st' = st_events st @ map Thread_go (smalls @ [th]) \<and>
        imq_messages (get_mq st' dest) = imq_messages (get_mq st dest) \<and>
        ip_seqno (st_port st' port) = ip_seqno (st_port st port) + 1 \<and>
        ith_state (st_thread st' th) = MACH_MSG_SUCCESS \<and> ith_kmsg (st_thread st' th) = Some m \<and>
        ith_seqno (st_thread st' th) = ip_seqno (st_port st port)) \<or>
      (imq_threads (get_mq st' dest) = [] \<and> st_events st' = st_events st @ map Thread_go (imq_threads (get_mq st dest)) \<and>
        imq_messages (get_mq st' dest) = imq_messages (get_mq st dest) @ [m] \<and>
        ip_seqno (st_port st' port) = ip_seqno (st_port st port))"
    and "\<forall>t. t \<notin> set (imq_threads (get_mq st dest)) - set (imq_threads (get_mq st' dest)) \<longrightarrow> st_thread st' t = st_thread st t"
proof -
  let ?s = "upd_mq source (\<lambda>q. q\<lparr>imq_messages := remove1 m (imq_messages q)\<rparr>) st"
  obtain r ths s where o: "offer m (ip_seqno (st_port ?s port)) (imq_threads (get_mq ?s dest)) ?s = (r, ths, s)"
    using prod_cases3 by blast
  have d: "distinct (imq_threads (get_mq ?s dest))" using assms(1,2) by simp
  note res = offer_result [OF o d]
  have mq: "get_mq s mq = get_mq ?s mq" for mq using res by (cases mq) auto
  have st': "st' = (case r of
      Some th \<Rightarrow> upd_port port (\<lambda>p. p\<lparr>ip_seqno := ip_seqno p + 1\<rparr>) (upd_mq dest (\<lambda>q. q\<lparr>imq_threads := ths\<rparr>) s)
    | None \<Rightarrow> upd_mq dest (\<lambda>q. q\<lparr>imq_threads := ths, imq_messages := imq_messages q @ [m]\<rparr>) s)"
    using o by (simp add: st'_def move_one_def deliver_def split: option.splits)
  show "get_mq st' source = (get_mq st source)\<lparr>imq_messages := remove1 m (imq_messages (get_mq st source))\<rparr>"
    using assms(1) by (cases r) (auto simp: st' mq)
  have left: "imq_threads (get_mq st' dest) = ths" using assms(1) by (cases r) (auto simp: st' mq)
  have seq: "ip_seqno (st_port s port) = ip_seqno (st_port st port)" using res by simp
  have "st_thread st' = st_thread s" by (cases r) (auto simp: st')
  then show "\<forall>t. t \<notin> set (imq_threads (get_mq st dest)) - set (imq_threads (get_mq st' dest)) \<longrightarrow> st_thread st' t = st_thread st t"
    unfolding left using res assms(1) by simp
  show "(\<exists>smalls th. imq_threads (get_mq st dest) = smalls @ th # imq_threads (get_mq st' dest) \<and>
        st_events st' = st_events st @ map Thread_go (smalls @ [th]) \<and>
        imq_messages (get_mq st' dest) = imq_messages (get_mq st dest) \<and>
        ip_seqno (st_port st' port) = ip_seqno (st_port st port) + 1 \<and>
        ith_state (st_thread st' th) = MACH_MSG_SUCCESS \<and> ith_kmsg (st_thread st' th) = Some m \<and>
        ith_seqno (st_thread st' th) = ip_seqno (st_port st port)) \<or>
      (imq_threads (get_mq st' dest) = [] \<and> st_events st' = st_events st @ map Thread_go (imq_threads (get_mq st dest)) \<and>
        imq_messages (get_mq st' dest) = imq_messages (get_mq st dest) @ [m] \<and>
        ip_seqno (st_port st' port) = ip_seqno (st_port st port))"
    using res assms(1) seq by (cases r) (auto simp: st' mq)
qed

lemma moves_result:
  assumes "dest \<noteq> source" and "distinct (imq_threads (get_mq st dest))"
    and "st' = fold (move_one dest source port) ms st"
  shows "get_mq st' source = (get_mq st source)\<lparr>imq_messages := fold remove1 ms (imq_messages (get_mq st source))\<rparr> \<and>
    (\<forall>t. t \<notin> set (imq_threads (get_mq st dest)) \<longrightarrow> st_thread st' t = st_thread st t) \<and>
    (\<exists>given rest takers woken. ms = given @ rest \<and> imq_threads (get_mq st dest) = woken @ imq_threads (get_mq st' dest) \<and>
       st_events st' = st_events st @ map Thread_go woken \<and> subseq takers woken \<and>
       handed st' takers given (ip_seqno (st_port st port)) \<and>
       imq_messages (get_mq st' dest) = imq_messages (get_mq st dest) @ rest \<and>
       ip_seqno (st_port st' port) = ip_seqno (st_port st port) + of_nat (length given) \<and>
       (rest \<noteq> [] \<longrightarrow> imq_threads (get_mq st' dest) = []))"
  using assms
proof (induction ms arbitrary: st)
  case Nil
  then show ?case by (auto simp: handed_def)
next
  case (Cons m ms)
  define s1 where "s1 = move_one dest source port m st"
  note one = move_one_result [OF Cons.prems(1,2) s1_def]
  obtain pre where pre: "imq_threads (get_mq st dest) = pre @ imq_threads (get_mq s1 dest)"
    using one(2) by (metis append_Cons append_assoc append_Nil2 self_append_conv2)
  then have d: "distinct (imq_threads (get_mq s1 dest))" using Cons.prems(2) by (metis distinct_append)
  have last: "st' = fold (move_one dest source port) ms s1" using Cons.prems(3) by (simp add: s1_def)
  obtain given rest takers woken where ih: "ms = given @ rest" "subseq takers woken"
      "handed st' takers given (ip_seqno (st_port s1 port))"
      "imq_messages (get_mq st' dest) = imq_messages (get_mq s1 dest) @ rest"
      "ip_seqno (st_port st' port) = ip_seqno (st_port s1 port) + of_nat (length given)"
      "rest \<noteq> [] \<longrightarrow> imq_threads (get_mq st' dest) = []"
      "imq_threads (get_mq s1 dest) = woken @ imq_threads (get_mq st' dest)" "st_events st' = st_events s1 @ map Thread_go woken"
    and src: "get_mq st' source = (get_mq s1 source)\<lparr>imq_messages := fold remove1 ms (imq_messages (get_mq s1 source))\<rparr>"
    and others: "\<forall>t. t \<notin> set (imq_threads (get_mq s1 dest)) \<longrightarrow> st_thread st' t = st_thread s1 t"
    using Cons.IH [OF Cons.prems(1) d last] by blast
  have A: "get_mq st' source = (get_mq st source)\<lparr>imq_messages := fold remove1 (m # ms) (imq_messages (get_mq st source))\<rparr>"
    using src one(1) by simp
  have B: "\<forall>t. t \<notin> set (imq_threads (get_mq st dest)) \<longrightarrow> st_thread st' t = st_thread st t"
    using others one(3) pre by simp
  from one(2) show ?case
  proof (elim disjE exE conjE)
    fix smalls th
    assume th: "imq_threads (get_mq st dest) = smalls @ th # imq_threads (get_mq s1 dest)" "st_events s1 = st_events st @ map Thread_go (smalls @ [th])"
      "imq_messages (get_mq s1 dest) = imq_messages (get_mq st dest)" "ip_seqno (st_port s1 port) = ip_seqno (st_port st port) + 1"
      "ith_state (st_thread s1 th) = MACH_MSG_SUCCESS" "ith_kmsg (st_thread s1 th) = Some m"
      "ith_seqno (st_thread s1 th) = ip_seqno (st_port st port)"
    have "st_thread st' th = st_thread s1 th" using others th(1) Cons.prems(2) by auto
    then have "handed st' (th # takers) (m # given) (ip_seqno (st_port st port))"
      using th ih(3) by (intro handed_Cons) auto
    moreover have "subseq (th # takers) (smalls @ th # woken)" using ih(2) by (simp add: list_emb_append2)
    ultimately show ?thesis
      using A B ih th(1-4)
      by (intro conjI exI [of _ "m # given"] exI [of _ rest] exI [of _ "th # takers"] exI [of _ "smalls @ th # woken"]) auto
  next
    assume none: "imq_threads (get_mq s1 dest) = []" "st_events s1 = st_events st @ map Thread_go (imq_threads (get_mq st dest))"
      "imq_messages (get_mq s1 dest) = imq_messages (get_mq st dest) @ [m]"
      "ip_seqno (st_port s1 port) = ip_seqno (st_port st port)"
    have nobody: "woken = []" using ih(7) none(1) by simp
    have empty: "takers = []" using ih(2) nobody by (cases takers) auto
    then have empty: "takers = []" "given = []" using ih(3) by (auto simp: handed_def)
    have "imq_threads (get_mq st' dest) = []"
    proof (cases "ms = []")
      case True
      then show ?thesis using last none(1) by simp
    next
      case False
      then show ?thesis using ih(1,6) empty by simp
    qed
    then show ?thesis
      using A B ih none empty nobody
      by (intro conjI exI [of _ "[]"] exI [of _ "m # ms"] exI [of _ "[]"] exI [of _ "imq_threads (get_mq st dest)"]) (auto simp: handed_def)
  qed
qed

lemma fold_remove1_filter: "fold remove1 (filter P xs) xs = filter (\<lambda>x. \<not> P x) xs"
proof -
  have "fold remove1 ys xs = filter (\<lambda>x. \<not> P x) xs" if "filter P xs = ys" for ys
    using that
  proof (induction ys arbitrary: xs)
    case Nil
    then show ?case by (metis filter_True filter_False filter_empty_conv fold_simps(1))
  next
    case (Cons y ys)
    have "y \<in> set (filter P xs)" using Cons.prems by simp
    then have "P y" by simp
    then have "filter (\<lambda>x. \<not> P x) (remove1 y xs) = filter (\<lambda>x. \<not> P x) xs"
      by (simp add: filter_remove1 remove1_idem)
    moreover have "filter P (remove1 y xs) = ys" using Cons.prems by (simp add: filter_remove1)
    ultimately show ?case using Cons.IH by simp
  qed
  then show ?thesis by blast
qed

text \<open>
  C22. Moving the messages for a port from one queue to another loses, duplicates and reorders
  none of them. The messages for other ports stay where they are, in order; of those for the port
  an initial part is handed to threads that waited at the destination, each woken with its message
  and the next sequence number of the port, and the rest is appended to the queue in
  order, which happens only if no thread is left waiting. No other thread is touched.
\<close>

theorem mqueue_move_conserves:
  assumes "dest \<noteq> source" and "distinct (imq_threads (get_mq st dest))"
    and "st' = ipc_mqueue_move dest source port st"
  shows "imq_messages (get_mq st' source) = filter (\<lambda>m. msgh_remote_port m \<noteq> port) (imq_messages (get_mq st source)) \<and>
    (\<forall>t. t \<notin> set (imq_threads (get_mq st dest)) \<longrightarrow> st_thread st' t = st_thread st t) \<and>
    (\<exists>given rest takers. filter (\<lambda>m. msgh_remote_port m = port) (imq_messages (get_mq st source)) = given @ rest \<and>
       subseq takers (imq_threads (get_mq st dest)) \<and> handed st' takers given (ip_seqno (st_port st port)) \<and>
       imq_messages (get_mq st' dest) = imq_messages (get_mq st dest) @ rest \<and>
       ip_seqno (st_port st' port) = ip_seqno (st_port st port) + of_nat (length given) \<and>
       (rest \<noteq> [] \<longrightarrow> imq_threads (get_mq st' dest) = []))"
proof -
  note m = moves_result [OF assms(1,2) assms(3) [unfolded move_as_fold], unfolded fold_remove1_filter]
  obtain given rest takers woken where g: "filter (\<lambda>m. msgh_remote_port m = port) (imq_messages (get_mq st source)) = given @ rest"
      "imq_threads (get_mq st dest) = woken @ imq_threads (get_mq st' dest)" "subseq takers woken"
      "handed st' takers given (ip_seqno (st_port st port))" "imq_messages (get_mq st' dest) = imq_messages (get_mq st dest) @ rest"
      "ip_seqno (st_port st' port) = ip_seqno (st_port st port) + of_nat (length given)"
      "rest \<noteq> [] \<longrightarrow> imq_threads (get_mq st' dest) = []"
    using m by blast
  have "subseq takers (imq_threads (get_mq st dest))" unfolding g(2) by (rule list_emb_prefix [OF g(3)])
  then show ?thesis using m [THEN conjunct1] m [THEN conjunct2, THEN conjunct1] g(1,4-7)
    by (intro conjI exI [of _ given] exI [of _ rest] exI [of _ takers]) simp_all
qed

definition pset_kmsg :: "nat \<Rightarrow> ipc_port_t \<Rightarrow> ipc_kmsg" where
  "pset_kmsg i port = \<lparr>ikm_id = i, msgh_remote_port = port, msgh_size = 24, ikm_circular = False, ikm_send_once = False,
     ikm_marequest = IMAR_NULL\<rparr>"

text \<open>A port with three messages and a set with a thread waiting for small and one for larger messages.\<close>

definition pset_kernel :: ipc_kernel where
  "pset_kernel = boot_kernel\<lparr>
     st_port := (\<lambda>_. boot_port)(64 := boot_port\<lparr>ip_active := True, ip_seqno := 7,
       ip_messages := \<lparr>imq_messages = [pset_kmsg 1 64, pset_kmsg 2 64, pset_kmsg 3 64], imq_threads = []\<rparr>\<rparr>),
     st_pset := (\<lambda>_. boot_pset)(128 := boot_pset\<lparr>ips_active := True, ips_references := 1,
       ips_messages := \<lparr>imq_messages = [], imq_threads = [1, 2]\<rparr>\<rparr>),
     st_thread := (\<lambda>_. \<lparr>ith_state = MACH_RCV_IN_PROGRESS, ith_msize = 100, ith_kmsg = None, ith_seqno = 0\<rparr>)
       (1 := \<lparr>ith_state = MACH_RCV_IN_PROGRESS, ith_msize = 8, ith_kmsg = None, ith_seqno = 0\<rparr>)\<rparr>"

theorem mqueue_move_conserves_witness:
  "distinct (imq_threads (get_mq pset_kernel (Pset_mq 128))) \<and>
   imq_messages (get_mq (ipc_mqueue_move (Pset_mq 128) (Port_mq 64) 64 pset_kernel) (Port_mq 64)) = [] \<and>
   (\<exists>given rest takers. given @ rest = [pset_kmsg 1 64, pset_kmsg 2 64, pset_kmsg 3 64] \<and>
     handed (ipc_mqueue_move (Pset_mq 128) (Port_mq 64) 64 pset_kernel) takers given 7 \<and>
     imq_messages (get_mq (ipc_mqueue_move (Pset_mq 128) (Port_mq 64) 64 pset_kernel) (Pset_mq 128)) = rest)"
proof -
  have d: "distinct (imq_threads (get_mq pset_kernel (Pset_mq 128)))" by (simp add: pset_kernel_def)
  have "imq_messages (get_mq pset_kernel (Port_mq 64)) = [pset_kmsg 1 64, pset_kmsg 2 64, pset_kmsg 3 64]"
      "imq_messages (get_mq pset_kernel (Pset_mq 128)) = []" "ip_seqno (st_port pset_kernel 64) = 7"
    by (simp_all add: pset_kernel_def)
  then show ?thesis
    using mqueue_move_conserves [OF _ d refl, of "Port_mq 64" 64] d
    by (simp add: pset_kmsg_def) metis
qed

section \<open>Joining and leaving a set\<close>

lemma move_one_no_threads:
  assumes "dest \<noteq> source" and "imq_threads (get_mq st dest) = []"
  shows "move_one dest source port m st = upd_mq dest (\<lambda>q. q\<lparr>imq_threads := [], imq_messages := imq_messages q @ [m]\<rparr>)
    (upd_mq source (\<lambda>q. q\<lparr>imq_messages := remove1 m (imq_messages q)\<rparr>) st)"
  using assms by (simp add: move_one_def deliver_def)

lemma move_no_threads:
  assumes "dest \<noteq> source" and "imq_threads (get_mq st dest) = []"
  shows "st_events (ipc_mqueue_move dest source port st) = st_events st \<and>
    st_thread (ipc_mqueue_move dest source port st) = st_thread st \<and>
    ip_pset (st_port (ipc_mqueue_move dest source port st) p) = ip_pset (st_port st p) \<and>
    ips_references (st_pset (ipc_mqueue_move dest source port st) s) = ips_references (st_pset st s) \<and>
    imq_threads (get_mq (ipc_mqueue_move dest source port st) mq) = imq_threads (get_mq st mq) \<and>
    imq_messages (get_mq (ipc_mqueue_move dest source port st) source) =
      filter (\<lambda>m. msgh_remote_port m \<noteq> port) (imq_messages (get_mq st source)) \<and>
    imq_messages (get_mq (ipc_mqueue_move dest source port st) dest) =
      imq_messages (get_mq st dest) @ filter (\<lambda>m. msgh_remote_port m = port) (imq_messages (get_mq st source))"
proof -
  have "st_events (fold (move_one dest source port) ms st) = st_events st \<and>
    st_thread (fold (move_one dest source port) ms st) = st_thread st \<and>
    ip_pset (st_port (fold (move_one dest source port) ms st) p) = ip_pset (st_port st p) \<and>
    ips_references (st_pset (fold (move_one dest source port) ms st) s) = ips_references (st_pset st s) \<and>
    imq_threads (get_mq (fold (move_one dest source port) ms st) mq) = imq_threads (get_mq st mq) \<and>
    imq_messages (get_mq (fold (move_one dest source port) ms st) source) = fold remove1 ms (imq_messages (get_mq st source)) \<and>
    imq_messages (get_mq (fold (move_one dest source port) ms st) dest) = imq_messages (get_mq st dest) @ ms" for ms
    using assms
  proof (induction ms arbitrary: st)
    case (Cons m ms)
    have "imq_threads (get_mq (move_one dest source port m st) dest) = []"
      using Cons.prems by (simp add: move_one_no_threads)
    from Cons.IH [OF Cons.prems(1) this] show ?case using Cons.prems by (auto simp: move_one_no_threads)
  qed simp
  then show ?thesis by (simp add: move_as_fold fold_remove1_filter)
qed

lemma changed_result:
  "get_mq (ipc_mqueue_changed mq mr st) mq' = (if mq' = mq then (get_mq st mq)\<lparr>imq_threads := []\<rparr> else get_mq st mq')"
  "ip_pset (st_port (ipc_mqueue_changed mq mr st) p) = ip_pset (st_port st p)"
  "ips_references (st_pset (ipc_mqueue_changed mq mr st) s) = ips_references (st_pset st s)"
  "st_events (ipc_mqueue_changed mq mr st) = st_events st @ map Thread_go (imq_threads (get_mq st mq))"
proof -
  have w: "st_port (fold (wake mr) ths st) = st_port st \<and> st_pset (fold (wake mr) ths st) = st_pset st \<and>
      st_events (fold (wake mr) ths st) = st_events st @ map Thread_go ths" for ths
    by (induction ths arbitrary: st) (auto simp: wake_def)
  then have g: "get_mq (fold (wake mr) ths st) q = get_mq st q" for ths q by (cases q) auto
  show "get_mq (ipc_mqueue_changed mq mr st) mq' = (if mq' = mq then (get_mq st mq)\<lparr>imq_threads := []\<rparr> else get_mq st mq')"
    "ip_pset (st_port (ipc_mqueue_changed mq mr st) p) = ip_pset (st_port st p)"
    "ips_references (st_pset (ipc_mqueue_changed mq mr st) s) = ips_references (st_pset st s)"
    "st_events (ipc_mqueue_changed mq mr st) = st_events st @ map Thread_go (imq_threads (get_mq st mq))"
    by (simp_all add: ipc_mqueue_changed_def g w)
qed

text \<open>Where the port and the set are, and who waits elsewhere, does not depend on who waits at the destination.\<close>

lemma offer_frame_sets:
  "offer m seqno ths st = (r, ths', st') \<Longrightarrow> st_port st' = st_port st \<and> st_pset st' = st_pset st"
  by (induction m seqno ths st rule: offer.induct) (auto split: if_splits)

lemma deliver_frame_sets:
  "ip_pset (st_port (deliver mq port m st) p) = ip_pset (st_port st p) \<and>
   ips_references (st_pset (deliver mq port m st) s) = ips_references (st_pset st s) \<and>
   (mq' \<noteq> mq \<longrightarrow> imq_threads (get_mq (deliver mq port m st) mq') = imq_threads (get_mq st mq'))"
proof -
  obtain r ths st' where o: "offer m (ip_seqno (st_port st port)) (imq_threads (get_mq st mq)) st = (r, ths, st')"
    using prod_cases3 by blast
  have f: "st_port st' = st_port st" "st_pset st' = st_pset st" using offer_frame_sets [OF o] by simp_all
  then have "get_mq st' q = get_mq st q" for q by (cases q) simp_all
  then show ?thesis using o f by (cases r) (auto simp: deliver_def)
qed

lemma move_frame_sets:
  "ip_pset (st_port (ipc_mqueue_move dest source port st) p) = ip_pset (st_port st p) \<and>
   ips_references (st_pset (ipc_mqueue_move dest source port st) s) = ips_references (st_pset st s) \<and>
   (mq \<noteq> dest \<longrightarrow> imq_threads (get_mq (ipc_mqueue_move dest source port st) mq) = imq_threads (get_mq st mq))"
proof -
  have one: "ip_pset (st_port (move_one dest source port m st) p) = ip_pset (st_port st p) \<and>
      ips_references (st_pset (move_one dest source port m st) s) = ips_references (st_pset st s) \<and>
      (mq \<noteq> dest \<longrightarrow> imq_threads (get_mq (move_one dest source port m st) mq) = imq_threads (get_mq st mq))" for m st
    using deliver_frame_sets [where mq = dest and mq' = mq] by (simp add: move_one_def)
  have "ip_pset (st_port (fold (move_one dest source port) ms st) p) = ip_pset (st_port st p) \<and>
      ips_references (st_pset (fold (move_one dest source port) ms st) s) = ips_references (st_pset st s) \<and>
      (mq \<noteq> dest \<longrightarrow> imq_threads (get_mq (fold (move_one dest source port) ms st) mq) = imq_threads (get_mq st mq))" for ms
    by (induction ms arbitrary: st) (auto simp: one)
  then show ?thesis by (simp add: move_as_fold)
qed

lemma changed_threads: "t \<notin> set (imq_threads (get_mq st mq)) \<Longrightarrow> st_thread (ipc_mqueue_changed mq mr st) t = st_thread st t"
proof -
  have "t \<notin> set ths \<Longrightarrow> st_thread (fold (wake mr) ths st) t = st_thread st t" for ths
    by (induction ths arbitrary: st) (auto simp: wake_def)
  then show "t \<notin> set (imq_threads (get_mq st mq)) \<Longrightarrow> st_thread (ipc_mqueue_changed mq mr st) t = st_thread st t"
    by (simp add: ipc_mqueue_changed_def)
qed

lemma handed_cong:
  assumes "handed st takers given seqno" and "\<And>t. t \<in> set takers \<Longrightarrow> st_thread st' t = st_thread st t"
  shows "handed st' takers given seqno"
  using assms by (simp add: handed_def)

text \<open>A port joins a set.\<close>

lemma pset_add_result:
  assumes "distinct (imq_threads (ips_messages (st_pset st pset)) @ imq_threads (ip_messages (st_port st port)))"
    and "\<forall>m \<in> set (imq_messages (ip_messages (st_port st port))). msgh_remote_port m = port"
    and "st1 = ipc_pset_add pset port st"
  shows "\<exists>given rest takers woken left. imq_messages (ip_messages (st_port st port)) = given @ rest \<and>
    imq_threads (ips_messages (st_pset st pset)) = woken @ left \<and> (rest \<noteq> [] \<longrightarrow> left = []) \<and>
    subseq takers woken \<and> handed st1 takers given (ip_seqno (st_port st port)) \<and>
    ip_pset (st_port st1 port) = pset \<and> ip_messages (st_port st1 port) = \<lparr>imq_messages = [], imq_threads = []\<rparr> \<and>
    ips_messages (st_pset st1 pset) =
      \<lparr>imq_messages = imq_messages (ips_messages (st_pset st pset)) @ rest, imq_threads = left\<rparr> \<and>
    ips_references (st_pset st1 pset) = ips_references (st_pset st pset) + 1 \<and>
    st_events st1 = st_events st @ map Thread_go (woken @ imq_threads (ip_messages (st_port st port)))"
proof -
  define a where "a = ips_reference pset (upd_port port (\<lambda>p. p\<lparr>ip_pset := pset\<rparr>) st)"
  define b where "b = ipc_mqueue_move (Pset_mq pset) (Port_mq port) port a"
  have st1: "st1 = ipc_mqueue_changed (Port_mq port) MACH_RCV_PORT_CHANGED b"
    using assms(3) by (simp add: ipc_pset_add_def Let_def a_def b_def)
  have a: "get_mq a mq = get_mq st mq" "ip_seqno (st_port a port) = ip_seqno (st_port st port)" "st_events a = st_events st"
      "ip_pset (st_port a port) = pset" "ips_references (st_pset a pset) = ips_references (st_pset st pset) + 1" for mq
    by (simp_all add: a_def)
  have msgs: "filter (\<lambda>m. msgh_remote_port m = port) (imq_messages (get_mq a (Port_mq port))) = imq_messages (get_mq st (Port_mq port))"
      "filter (\<lambda>m. msgh_remote_port m \<noteq> port) (imq_messages (get_mq a (Port_mq port))) = []"
    unfolding a using assms(2) by (auto simp: filter_id_conv)
  have d: "distinct (imq_threads (get_mq a (Pset_mq pset)))" unfolding a using assms(1) by simp
  have b: "b = fold (move_one (Pset_mq pset) (Port_mq port) port) (imq_messages (get_mq st (Port_mq port))) a"
    unfolding b_def move_as_fold msgs ..
  obtain given rest takers woken where m: "imq_messages (get_mq st (Port_mq port)) = given @ rest"
      "imq_threads (get_mq a (Pset_mq pset)) = woken @ imq_threads (get_mq b (Pset_mq pset))"
      "st_events b = st_events a @ map Thread_go woken" "subseq takers woken" "handed b takers given (ip_seqno (st_port a port))"
      "imq_messages (get_mq b (Pset_mq pset)) = imq_messages (get_mq a (Pset_mq pset)) @ rest"
      "rest \<noteq> [] \<longrightarrow> imq_threads (get_mq b (Pset_mq pset)) = []"
    and src: "get_mq b (Port_mq port) = (get_mq a (Port_mq port))\<lparr>imq_messages :=
        fold remove1 (imq_messages (get_mq st (Port_mq port))) (imq_messages (get_mq a (Port_mq port)))\<rparr>"
    using moves_result [OF _ d b] by blast
  have "fold remove1 (imq_messages (get_mq st (Port_mq port))) (imq_messages (get_mq a (Port_mq port))) = []"
    using fold_remove1_filter [of "\<lambda>m. msgh_remote_port m = port" "imq_messages (get_mq a (Port_mq port))"] unfolding msgs .
  then have src: "imq_messages (get_mq b (Port_mq port)) = []" "imq_threads (get_mq b (Port_mq port)) = imq_threads (get_mq st (Port_mq port))"
    using src by (simp_all add: a del: get_mq.simps)
  have "handed st1 takers given (ip_seqno (st_port a port))"
  proof (rule handed_cong [OF m(5)])
    fix t
    assume "t \<in> set takers"
    then have "t \<in> set (imq_threads (get_mq st (Pset_mq pset)))" using m(2) list_emb_set [OF m(4)] unfolding a by auto
    then show "st_thread st1 t = st_thread b t" unfolding st1 using assms(1) src(2) by (intro changed_threads) auto
  qed
  moreover have "get_mq st1 (Port_mq port) = \<lparr>imq_messages = [], imq_threads = []\<rparr>"
    using src(1) by (simp add: st1 changed_result del: get_mq.simps)
  moreover have "get_mq st1 (Pset_mq pset) =
      \<lparr>imq_messages = imq_messages (get_mq st (Pset_mq pset)) @ rest, imq_threads = imq_threads (get_mq b (Pset_mq pset))\<rparr>"
    using m(6) unfolding a by (simp add: st1 changed_result del: get_mq.simps)
  moreover have "ip_pset (st_port st1 port) = pset" "ips_references (st_pset st1 pset) = ips_references (st_pset st pset) + 1"
    using move_frame_sets [of "Pset_mq pset" "Port_mq port" port a, folded b_def] a(4,5) by (simp_all add: st1 changed_result)
  moreover have "st_events st1 = st_events st @ map Thread_go (woken @ imq_threads (get_mq st (Port_mq port)))"
    using m(3) src(2) a(3) by (simp add: st1 changed_result del: get_mq.simps)
  ultimately show ?thesis
    using m(1,2,4,7) unfolding a
    by (intro exI [of _ given] exI [of _ rest] exI [of _ takers] exI [of _ woken] exI [of _ "imq_threads (get_mq b (Pset_mq pset))"]) simp
qed

text \<open>
  C32. Joining a set and leaving it again. When a port joins, an initial part of its messages is
  handed to threads that wait at the set, each woken with its message and the next sequence
  number of the port; the rest stands behind the messages of the set, which happens only if
  every thread at the set has been woken. The threads that waited at the port itself are woken. When
  the port leaves again, the set has the messages it had and the port the rest of its own,
  in order, so both have all of theirs if no thread waited at the set; no further thread is woken or
  changed, and the reference count of the set is as before.
\<close>

theorem pset_add_remove:
  assumes "distinct (imq_threads (ips_messages (st_pset st pset)) @ imq_threads (ip_messages (st_port st port)))"
    and "\<forall>m \<in> set (imq_messages (ips_messages (st_pset st pset))). msgh_remote_port m \<noteq> port"
    and "\<forall>m \<in> set (imq_messages (ip_messages (st_port st port))). msgh_remote_port m = port"
    and "st1 = ipc_pset_add pset port st" and "st2 = ipc_pset_remove pset port st1"
  shows "\<exists>given rest takers woken left. imq_messages (ip_messages (st_port st port)) = given @ rest \<and>
    imq_threads (ips_messages (st_pset st pset)) = woken @ left \<and> (rest \<noteq> [] \<longrightarrow> left = []) \<and>
    (imq_threads (ips_messages (st_pset st pset)) = [] \<longrightarrow> given = []) \<and>
    subseq takers woken \<and> handed st1 takers given (ip_seqno (st_port st port)) \<and>
    ip_pset (st_port st1 port) = pset \<and> ip_messages (st_port st1 port) = \<lparr>imq_messages = [], imq_threads = []\<rparr> \<and>
    ips_messages (st_pset st1 pset) =
      \<lparr>imq_messages = imq_messages (ips_messages (st_pset st pset)) @ rest, imq_threads = left\<rparr> \<and>
    ip_pset (st_port st2 port) = IPS_NULL \<and> ip_messages (st_port st2 port) = \<lparr>imq_messages = rest, imq_threads = []\<rparr> \<and>
    ips_messages (st_pset st2 pset) = (ips_messages (st_pset st pset))\<lparr>imq_threads := left\<rparr> \<and>
    ips_references (st_pset st2 pset) = ips_references (st_pset st pset) \<and>
    st_events st2 = st_events st @ map Thread_go (woken @ imq_threads (ip_messages (st_port st port))) \<and>
    st_thread st2 = st_thread st1"
proof -
  obtain given rest takers woken left where j: "imq_messages (ip_messages (st_port st port)) = given @ rest"
    "imq_threads (ips_messages (st_pset st pset)) = woken @ left" "rest \<noteq> [] \<longrightarrow> left = []"
    "subseq takers woken" "handed st1 takers given (ip_seqno (st_port st port))"
    "ip_pset (st_port st1 port) = pset" "ip_messages (st_port st1 port) = \<lparr>imq_messages = [], imq_threads = []\<rparr>"
    "ips_messages (st_pset st1 pset) = \<lparr>imq_messages = imq_messages (ips_messages (st_pset st pset)) @ rest, imq_threads = left\<rparr>"
    "ips_references (st_pset st1 pset) = ips_references (st_pset st pset) + 1"
    "st_events st1 = st_events st @ map Thread_go (woken @ imq_threads (ip_messages (st_port st port)))"
    using pset_add_result [OF assms(1,3,4)] by blast
  define c where "c = ips_release pset (upd_port port (\<lambda>p. p\<lparr>ip_pset := IPS_NULL\<rparr>) st1)"
  have st2: "st2 = ipc_mqueue_move (Port_mq port) (Pset_mq pset) port c"
    using assms(5) by (simp add: ipc_pset_remove_def Let_def c_def)
  have c: "get_mq c mq = get_mq st1 mq" for mq by (simp add: c_def)
  have tc: "imq_threads (get_mq c (Port_mq port)) = []" unfolding c using j(7) by simp
  have msgs: "filter (\<lambda>m. msgh_remote_port m = port) (imq_messages (get_mq c (Pset_mq pset))) = rest"
      "filter (\<lambda>m. msgh_remote_port m \<noteq> port) (imq_messages (get_mq c (Pset_mq pset))) = imq_messages (get_mq st (Pset_mq pset))"
    unfolding c using j(1,8) assms(2,3) by (auto simp: filter_id_conv filter_empty_conv)
  note mv = move_no_threads [of "Port_mq port" "Pset_mq pset" c port, OF _ tc, folded st2, unfolded msgs]
  have "takers = []" if "woken = []" using j(4) that by (cases takers) auto
  then have "given = []" if "imq_threads (ips_messages (st_pset st pset)) = []" using j(2,5) that by (auto simp: handed_def)
  moreover have "ip_messages (st_port st2 port) = \<lparr>imq_messages = rest, imq_threads = []\<rparr>"
    using mv [where mq = "Port_mq port"] tc j(7) c [of "Port_mq port"] by simp
  moreover have "ips_messages (st_pset st2 pset) = (ips_messages (st_pset st pset))\<lparr>imq_threads := left\<rparr>"
    using mv [where mq = "Pset_mq pset"] j(8) c [of "Pset_mq pset"] by simp
  moreover have "ip_pset (st_port st2 port) = IPS_NULL" "ips_references (st_pset st2 pset) = ips_references (st_pset st pset)"
      "st_events st2 = st_events st1" "st_thread st2 = st_thread st1"
    using mv j(9) by (simp_all add: c_def)
  ultimately show ?thesis using j
    by (intro exI [of _ given] exI [of _ rest] exI [of _ takers] exI [of _ woken] exI [of _ left]) simp
qed

text \<open>The thread 1 is too small for the messages of the port, the thread 2 takes the first of them.\<close>

theorem pset_add_remove_witness:
  "\<exists>st1 st2. st1 = ipc_pset_add 128 64 pset_kernel \<and> st2 = ipc_pset_remove 128 64 st1 \<and>
     ith_kmsg (st_thread st1 2) = Some (pset_kmsg 1 64) \<and> ith_seqno (st_thread st1 2) = 7 \<and>
     imq_messages (ips_messages (st_pset st1 128)) = [pset_kmsg 2 64, pset_kmsg 3 64] \<and>
     ip_messages (st_port st2 64) = \<lparr>imq_messages = [pset_kmsg 2 64, pset_kmsg 3 64], imq_threads = []\<rparr> \<and>
     imq_messages (ips_messages (st_pset st2 128)) = [] \<and> st_events st2 = [Thread_go 1, Thread_go 2]"
proof -
  let ?k = pset_kernel
  have h: "distinct (imq_threads (ips_messages (st_pset ?k 128)) @ imq_threads (ip_messages (st_port ?k 64)))"
    "\<forall>m \<in> set (imq_messages (ips_messages (st_pset ?k 128))). msgh_remote_port m \<noteq> 64"
    "\<forall>m \<in> set (imq_messages (ip_messages (st_port ?k 64))). msgh_remote_port m = 64"
    by (simp_all add: pset_kernel_def pset_kmsg_def)
  have run: "imq_messages (ips_messages (st_pset (ipc_pset_add 128 64 ?k) 128)) = [pset_kmsg 2 64, pset_kmsg 3 64]"
      "ith_kmsg (st_thread (ipc_pset_add 128 64 ?k) 2) = Some (pset_kmsg 1 64)" "ith_seqno (st_thread (ipc_pset_add 128 64 ?k) 2) = 7"
      "st_events (ipc_pset_add 128 64 ?k) = [Thread_go 1, Thread_go 2]" "st_events ?k = []"
      "imq_messages (ips_messages (st_pset ?k 128)) = []"  "imq_threads (ip_messages (st_port ?k 64)) = []"
      "imq_threads (ips_messages (st_pset ?k 128)) = [1, 2]"
    by code_simp+
  let ?st1 = "ipc_pset_add 128 64 ?k"
  obtain rest left woken where j: "[1, 2] = woken @ left" "rest \<noteq> [] \<longrightarrow> left = []"
      "ips_messages (st_pset ?st1 128) = \<lparr>imq_messages = [] @ rest, imq_threads = left\<rparr>"
      "ip_messages (st_port (ipc_pset_remove 128 64 ?st1) 64) = \<lparr>imq_messages = rest, imq_threads = []\<rparr>"
      "ips_messages (st_pset (ipc_pset_remove 128 64 ?st1) 128) = (ips_messages (st_pset ?k 128))\<lparr>imq_threads := left\<rparr>"
      "st_events (ipc_pset_remove 128 64 ?st1) = [] @ map Thread_go (woken @ [])"
    using pset_add_remove [OF h refl refl] unfolding run by blast
  then have rest: "rest = [pset_kmsg 2 64, pset_kmsg 3 64]" using run(1) by simp
  then have "woken = [1, 2]" using j(1,2) by simp
  then show ?thesis using j(3-6) rest run by simp
qed

end
