(* ===== verification/EntryFacts.thy ===== *)
theory EntryFacts
  imports FreeList
begin

text \<open>
  A space as a finite map from names to entries: small names live in the table, larger ones in the
  tree. The invariant of a space and what lookup, allocation and deallocation
  (\<^verbatim>\<open>ipc/ipc_entry.c\<close>) do to the map.
\<close>

section \<open>The map of a space\<close>

definition tree_entries :: "'a ipc_state_scheme \<Rightarrow> ipc_space_t \<Rightarrow> (mach_port_t \<times> ite_t) list" where
  "tree_entries st space = ist_entries (is_tree (st_space st space))"

definition space_names :: "'a ipc_state_scheme \<Rightarrow> ipc_space_t \<Rightarrow> mach_port_t \<rightharpoonup> ipc_entry_t" where
  "space_names st space name =
     (let table = is_table (st_space st space); index = MACH_PORT_INDEX name
      in if index < length table
         then if IE_BITS_TYPE (ie_bits (table ! index)) \<noteq> 0 then Some (Table index) else None
         else map_option Tree (map_of (tree_entries st space) name))"

text \<open>What a name denotes. The hash slot that lives in an entry of the table is not part of it.\<close>

definition denoted :: "ipc_entry \<Rightarrow> ipc_entry_bits_t \<times> ipc_object_t \<times> nat" where
  "denoted e = (ie_bits e, ie_object e, ie_request e)"

definition space_caps ::
  "'a ipc_state_scheme \<Rightarrow> ipc_space_t \<Rightarrow> mach_port_t \<rightharpoonup> ipc_entry_bits_t \<times> ipc_object_t \<times> nat" where
  "space_caps st space name = map_option (\<lambda>e. denoted (get_entry st space e)) (space_names st space name)"

section \<open>The invariant of a space\<close>

definition table_ok :: "ipc_space \<Rightarrow> nat list \<Rightarrow> nat set \<Rightarrow> bool" where
  "table_ok s fl busy \<longleftrightarrow> 0 < is_table_next s \<and> is_table_next s < ipc_table_entries_size \<and>
     length (is_table s) = entries_sizes (is_table_next s - 1) \<and> free_list (is_table s) fl busy \<and>
     (\<forall>i < length (is_table s). ie_bits (is_table s ! i) AND IE_BITS_COLLISION = 0)"

text \<open>
  Without generation numbers the tree holds only names beyond the table; \<^verbatim>\<open>is_tree_small\<close>
  counts those that the next size of the table would cover.
\<close>

definition tree_ok :: "'a ipc_state_scheme \<Rightarrow> ipc_space_t \<Rightarrow> bool" where
  "tree_ok st space \<longleftrightarrow>
     (let s = st_space st space; es = tree_entries st space
      in ist_invar (is_tree s) \<and>
         (\<forall>n \<in> keys es. length (is_table s) \<le> MACH_PORT_INDEX n \<and> n \<noteq> MACH_PORT_DEAD) \<and>
         distinct (map snd es) \<and> (\<forall>(n, a) \<in> set es. te_name (st_ite st a) = n \<and> te_space (st_ite st a) = space) \<and>
         is_tree_total s = length es \<and>
         is_tree_small s = card {n \<in> keys es. MACH_PORT_INDEX n < entries_sizes (is_table_next s)})"

definition space_ok :: "'a ipc_state_scheme \<Rightarrow> ipc_space_t \<Rightarrow> nat list \<Rightarrow> nat set \<Rightarrow> bool" where
  "space_ok st space fl busy \<longleftrightarrow> table_ok (st_space st space) fl busy \<and> tree_ok st space"

lemma index_less_iff: "MACH_PORT_INDEX m < MACH_PORT_INDEX n \<longleftrightarrow> m < n"
  by (simp add: MACH_PORT_INDEX_def word_less_nat_alt)

lemma index_inject: "MACH_PORT_INDEX m = MACH_PORT_INDEX n \<longleftrightarrow> m = n"
  by (metis index_less_iff linorder_less_linear less_irrefl)

lemma index_zero: "MACH_PORT_INDEX n = 0 \<longleftrightarrow> n = MACH_PORT_NULL"
  by (simp add: MACH_PORT_INDEX_def MACH_PORT_NULL_def unat_eq_zero)

lemma entries_bound:
  assumes "k < ipc_table_entries_size"
  shows "4 \<le> entries_sizes k \<and> entries_sizes k < 2 ^ 21"
  using init_entries_contract(3) [of "replicate ipc_table_entries_size 0" k] assms by (simp add: entries_sizes_def)

lemma table_okD:
  assumes "table_ok s fl busy"
  shows "0 < length (is_table s)" and "length (is_table s) < 2 ^ 21" and "free_list (is_table s) fl busy"
proof -
  have "is_table_next s - 1 < ipc_table_entries_size" using assms by (auto simp: table_ok_def)
  from entries_bound [OF this] assms
  show "0 < length (is_table s)" "length (is_table s) < 2 ^ 21" "free_list (is_table s) fl busy"
    by (auto simp: table_ok_def)
qed

lemma table_ok_type_zero:
  assumes "table_ok s fl busy"
  shows "IE_BITS_TYPE (ie_bits (is_table s ! 0)) = 0"
  using table_okD(3) [OF assms] by (auto simp: free_list_def IE_BITS_TYPE_def)

section \<open>Restructuring the tree\<close>

lemma set_tree_simps [simp]:
  "st_space (set_tree space t st) = (st_space st)(space := (st_space st space)\<lparr>is_tree := t\<rparr>)"
  "st_ite (set_tree space t st) = st_ite st"
  by (simp_all add: set_tree_def)

lemma set_table_simps [simp]:
  "st_space (set_table space t st) = (st_space st)(space := (st_space st space)\<lparr>is_table := t\<rparr>)"
  "st_ite (set_table space t st) = st_ite st"
  by (simp_all add: set_table_def)

lemma set_tree_self: "set_tree space (is_tree (st_space st space)) st = st"
  by (simp add: set_tree_def upd_space_def)

text \<open>A tree with the same entries makes no difference.\<close>

lemma retree:
  assumes "ist_entries t = tree_entries st space" and "ist_invar t"
  shows "space_names (set_tree space t st) space = space_names st space"
    and "space_caps (set_tree space t st) space = space_caps st space"
    and "space_ok st space fl busy \<Longrightarrow> space_ok (set_tree space t st) space fl busy"
    and "tree_entries (set_tree space t st) space = tree_entries st space"
proof -
  show e: "tree_entries (set_tree space t st) space = tree_entries st space"
    using assms(1) by (simp add: tree_entries_def)
  show n: "space_names (set_tree space t st) space = space_names st space"
    by (simp add: fun_eq_iff space_names_def e Let_def)
  have "get_entry (set_tree space t st) space = get_entry st space"
  proof
    fix x show "get_entry (set_tree space t st) space x = get_entry st space x" by (cases x) auto
  qed
  then show "space_caps (set_tree space t st) space = space_caps st space"
    by (simp add: fun_eq_iff space_caps_def n)
  show "space_ok st space fl busy \<Longrightarrow> space_ok (set_tree space t st) space fl busy"
    using assms(2) e by (simp add: space_ok_def tree_ok_def Let_def) (simp add: table_ok_def)
qed

section \<open>Lookup\<close>

lemma tree_lookup_result:
  assumes "tree_ok st space" and "tree_lookup st space name = (r, st')"
  shows "r = map_option Tree (map_of (tree_entries st space) name) \<and>
    (\<exists>t. st' = set_tree space t st \<and> ist_entries t = tree_entries st space \<and> ist_invar t)"
proof -
  obtain a t where l: "ipc_splay_tree_lookup (is_tree (st_space st space)) name = (a, t)" by fastforce
  then show ?thesis
    using splay_tree.lookup [OF _ l] assms by (auto simp: tree_ok_def tree_entries_def tree_lookup_def Let_def)
qed

lemma entry_lookup_result:
  assumes ok: "space_ok st space fl busy" and l: "ipc_entry_lookup st space name = (r, st')"
  shows "r = space_names st space name \<and>
    (\<exists>t. st' = set_tree space t st \<and> ist_entries t = tree_entries st space \<and> ist_invar t)"
proof -
  have tree: "tree_ok st space" and same: "\<exists>t. st = set_tree space t st \<and> ist_entries t = tree_entries st space \<and> ist_invar t"
    using ok set_tree_self [of space st] by (auto simp: space_ok_def tree_ok_def tree_entries_def Let_def intro!: exI)
  let ?s = "st_space st space"
  consider (table) "MACH_PORT_INDEX name < is_table_size ?s"
    | (empty) "\<not> MACH_PORT_INDEX name < is_table_size ?s" "is_tree_total ?s = 0"
    | (tree) "\<not> MACH_PORT_INDEX name < is_table_size ?s" "is_tree_total ?s \<noteq> 0" by blast
  then show ?thesis
  proof cases
    case table
    then show ?thesis
      using l same by (auto simp: ipc_entry_lookup_def space_names_def Let_def IE_BITS_GEN_def MACH_PORT_GEN_def split: if_splits)
  next
    case empty
    then have "tree_entries st space = []" using tree by (simp add: tree_ok_def Let_def)
    then show ?thesis using l empty same by (auto simp: ipc_entry_lookup_def space_names_def Let_def)
  next
    case tree
    then show ?thesis
      using l tree_lookup_result [OF \<open>tree_ok st space\<close>, of name r st']
      by (simp add: ipc_entry_lookup_def space_names_def Let_def)
  qed
qed

section \<open>Replacing the table\<close>

lemma set_table_tree_ok:
  assumes "length table = length (is_table (st_space st space))"
  shows "tree_ok (set_table space table st) space \<longleftrightarrow> tree_ok st space"
  using assms by (simp add: tree_ok_def tree_entries_def Let_def)

lemma set_table_names:
  assumes "length table = length (is_table (st_space st space))"
  shows "space_names (set_table space table st) space name =
    (if MACH_PORT_INDEX name < length table
     then if IE_BITS_TYPE (ie_bits (table ! MACH_PORT_INDEX name)) \<noteq> 0 then Some (Table (MACH_PORT_INDEX name)) else None
     else space_names st space name)"
  using assms by (simp add: space_names_def tree_entries_def Let_def)

lemma set_table_caps:
  assumes "length table = length (is_table (st_space st space))"
  shows "space_caps (set_table space table st) space name =
    (if MACH_PORT_INDEX name < length table
     then if IE_BITS_TYPE (ie_bits (table ! MACH_PORT_INDEX name)) \<noteq> 0 then Some (denoted (table ! MACH_PORT_INDEX name)) else None
     else space_caps st space name)"
  using assms
  by (cases "map_of (tree_entries st space) name")
    (auto simp: space_caps_def set_table_names [OF assms], auto simp: space_names_def Let_def)

lemma caps_in_table:
  assumes "MACH_PORT_INDEX name < length (is_table (st_space st space))"
  shows "space_caps st space name =
    (if IE_BITS_TYPE (ie_bits (is_table (st_space st space) ! MACH_PORT_INDEX name)) \<noteq> 0
     then Some (denoted (is_table (st_space st space) ! MACH_PORT_INDEX name)) else None)"
  using assms by (simp add: space_caps_def space_names_def Let_def)

lemma set_table_same_caps:
  assumes "length table = length (is_table (st_space st space))"
    and "\<And>i. i < length table \<Longrightarrow> IE_BITS_TYPE (ie_bits (table ! i)) = IE_BITS_TYPE (ie_bits (is_table (st_space st space) ! i))"
    and "\<And>i. i < length table \<Longrightarrow> IE_BITS_TYPE (ie_bits (table ! i)) \<noteq> 0 \<Longrightarrow> denoted (table ! i) = denoted (is_table (st_space st space) ! i)"
  shows "space_caps (set_table space table st) space = space_caps st space"
  using assms caps_in_table [of _ st space] by (auto simp: fun_eq_iff set_table_caps [OF assms(1)])

section \<open>Taking an entry from the free list\<close>

lemma entry_get_result:
  assumes ok: "space_ok st space fl busy" and g: "ipc_entry_get st space = (r, st')"
  shows "(case fl of [] \<Rightarrow> r = Inl KERN_NO_SPACE \<and> st' = st
    | k # fl' \<Rightarrow> r = Inr (of_nat k, Table k) \<and> space_ok st' space fl' (insert k busy) \<and>
        space_caps st' space = space_caps st space \<and> space_caps st space (of_nat k) = None \<and> MACH_PORT_VALID (of_nat k) \<and>
        MACH_PORT_INDEX (of_nat k) = k \<and> k < length (is_table (st_space st' space)) \<and>
        ie_bits (get_entry st' space (Table k)) = 0 \<and> ie_object (get_entry st' space (Table k)) = IO_NULL)"
proof -
  let ?t = "is_table (st_space st space)"
  have tok: "table_ok (st_space st space) fl busy" "tree_ok st space" using ok by (auto simp: space_ok_def)
  note fl = table_okD [OF tok(1)]
  show ?thesis
  proof (cases fl)
    case Nil
    then have "ie_next (?t ! 0) = 0" using fl(3) by (simp add: free_list_def chain_def)
    then show ?thesis using g Nil by (simp add: ipc_entry_get_def Let_def)
  next
    case (Cons k fl')
    have k: "0 < k" "k < length ?t" using free_list_less [OF fl(3)] Cons by auto
    have first: "ie_next (?t ! 0) = k" using fl(3) Cons by (simp add: free_list_def chain_Cons)
    define t1 where "t1 = ?t[0 := (?t ! 0)\<lparr>ie_request := ie_next (?t ! k)\<rparr>]"
    define t2 where "t2 = t1[k := (t1 ! k)\<lparr>ie_bits := ie_bits (?t ! k) + IE_BITS_GEN_ONE, ie_request := 0\<rparr>]"
    have r: "r = Inr (of_nat k, Table k)" "st' = set_table space t2 st"
      using g first k by (auto simp: ipc_entry_get_def Let_def t1_def t2_def MACH_PORT_MAKE_def)
    have len: "length t2 = length ?t" by (simp add: t1_def t2_def)
    have ne: "?t \<noteq> []" using k by auto
    have nth: "t2 ! j = (if j = 0 then (?t ! 0)\<lparr>ie_request := ie_next (?t ! k)\<rparr>
        else if j = k then (?t ! k)\<lparr>ie_request := 0\<rparr> else ?t ! j)" for j
      using k ne by (auto simp: t1_def t2_def nth_list_update)
    have kz: "ie_bits (?t ! k) = 0" "ie_object (?t ! k) = IO_NULL" "k \<in> untyped ?t"
      using fl(3) Cons by (auto simp: free_list_def)
    have bits: "ie_bits (t2 ! j) = ie_bits (?t ! j)" for j by (simp add: nth)
    have "free_list t2 fl' (insert k busy)" by (rule get_free_entry [OF fl(3) [unfolded Cons] t1_def t2_def])
    then have "table_ok ((st_space st space)\<lparr>is_table := t2\<rparr>) fl' (insert k busy)"
      using tok(1) len bits by (simp add: table_ok_def)
    then have ok': "space_ok st' space fl' (insert k busy)"
      using set_table_tree_ok [OF len] tok(2) by (simp add: space_ok_def r(2))
    have index: "MACH_PORT_INDEX (of_nat k) = k" using index_make [of k 0] k fl(2) by (simp add: MACH_PORT_MAKE_def)
    have "space_caps st' space = space_caps st space"
      unfolding r(2)
    proof (rule set_table_same_caps [OF len])
      fix i assume "i < length t2" "IE_BITS_TYPE (ie_bits (t2 ! i)) \<noteq> 0"
      then have "i \<noteq> 0" "i \<noteq> k" using table_ok_type_zero [OF tok(1)] kz by (cases "i = 0"; auto simp: bits IE_BITS_TYPE_def)+
      then show "denoted (t2 ! i) = denoted (?t ! i)" by (simp add: nth)
    qed (simp add: bits)
    moreover have "space_caps st space (of_nat k) = None"
      using caps_in_table [of "of_nat k" st space] index k kz by (simp add: IE_BITS_TYPE_def)
    moreover have "MACH_PORT_VALID (of_nat k)"
      using index k fl(2) index_dead index_zero [of "of_nat k"] by (auto simp: MACH_PORT_VALID_def)
    ultimately show ?thesis using Cons r ok' index k kz len by (simp add: nth)
  qed
qed

section \<open>Filling in and freeing an entry of the table\<close>

lemma table_name:
  assumes "table_ok (st_space st space) fl busy" and "k < length (is_table (st_space st space))"
  shows "MACH_PORT_INDEX (of_nat k) = k" and "MACH_PORT_INDEX name = k \<longleftrightarrow> name = of_nat k"
proof -
  show k: "MACH_PORT_INDEX (of_nat k) = k"
    using index_make [of k 0] assms(2) table_okD(2) [OF assms(1)] by (simp add: MACH_PORT_MAKE_def)
  show "MACH_PORT_INDEX name = k \<longleftrightarrow> name = of_nat k" using index_inject [of name "of_nat k"] k by simp
qed

lemma upd_entry_table: "upd_entry space (Table k) f st =
  set_table space ((is_table (st_space st space))[k := f (is_table (st_space st space) ! k)]) st"
  by (simp add: set_table_def upd_space_def)

lemma fill_entry:
  assumes ok: "space_ok st space fl busy" and k: "0 < k" "k < length (is_table (st_space st space))" "k \<notin> set fl"
    and e: "e = f (is_table (st_space st space) ! k)" "IE_BITS_TYPE (ie_bits e) \<noteq> 0" "ie_bits e AND IE_BITS_COLLISION = 0"
  shows "space_ok (upd_entry space (Table k) f st) space fl (busy - {k})"
    and "space_caps (upd_entry space (Table k) f st) space = (space_caps st space)(of_nat k \<mapsto> denoted e)"
proof -
  let ?t = "is_table (st_space st space)"
  have tok: "table_ok (st_space st space) fl busy" "tree_ok st space" using ok by (auto simp: space_ok_def)
  have len: "length (?t[k := e]) = length ?t" by simp
  have "free_list (?t[k := e]) fl (busy - {k})"
    using free_list_typed [OF table_okD(3) [OF tok(1)] k e(2)] .
  then have "table_ok ((st_space st space)\<lparr>is_table := ?t[k := e]\<rparr>) fl (busy - {k})"
    using tok(1) e(3) k(2) by (simp add: table_ok_def nth_list_update)
  then show "space_ok (upd_entry space (Table k) f st) space fl (busy - {k})"
    using set_table_tree_ok [OF len] tok(2) by (simp add: upd_entry_table space_ok_def del: upd_entry.simps flip: e(1))
  have "space_caps (set_table space (?t[k := e]) st) space name = ((space_caps st space)(of_nat k \<mapsto> denoted e)) name" for name
    using table_name(2) [OF tok(1) k(2), of name] table_name(1) [OF tok(1) k(2)] k(2) e(2) caps_in_table [of name st space]
    by (cases "MACH_PORT_INDEX name = k") (auto simp: set_table_caps [OF len])
  then show "space_caps (upd_entry space (Table k) f st) space = (space_caps st space)(of_nat k \<mapsto> denoted e)"
    by (simp add: upd_entry_table fun_eq_iff del: upd_entry.simps flip: e(1))
qed

lemma dealloc_free_result:
  assumes ok: "space_ok st space fl busy" and k: "0 < k" "k < length (is_table (st_space st space))" "k \<notin> set fl"
    and null: "ie_object (is_table (st_space st space) ! k) = IO_NULL"
  shows "space_ok (dealloc_free st space k) space (k # fl) (busy - {k})"
    and "space_caps (dealloc_free st space k) space = (space_caps st space)(of_nat k := None)"
proof -
  let ?t = "is_table (st_space st space)"
  have tok: "table_ok (st_space st space) fl busy" "tree_ok st space" using ok by (auto simp: space_ok_def)
  note fl = table_okD [OF tok(1)]
  define t1 where "t1 = ?t[k := (?t ! k)\<lparr>ie_bits := ie_bits (?t ! k) AND IE_BITS_GEN_MASK, ie_request := ie_next (?t ! 0)\<rparr>]"
  define t2 where "t2 = t1[0 := (t1 ! 0)\<lparr>ie_request := k\<rparr>]"
  have st': "dealloc_free st space k = set_table space t2 st" by (simp add: dealloc_free_def Let_def t1_def t2_def)
  have len: "length t2 = length ?t" by (simp add: t1_def t2_def)
  have nth: "t2 ! j = (if j = 0 then (?t ! 0)\<lparr>ie_request := k\<rparr>
      else if j = k then (?t ! k)\<lparr>ie_bits := 0, ie_request := ie_next (?t ! 0)\<rparr> else ?t ! j)" for j
    using k fl(1) by (auto simp: t1_def t2_def nth_list_update)
  have "free_list t2 (k # fl) (busy - {k})"
    by (rule free_list_put [OF fl(3) k len]) (use k null in \<open>auto simp: nth\<close>)
  moreover have "\<forall>i < length t2. ie_bits (t2 ! i) AND IE_BITS_COLLISION = 0"
    using tok(1) len by (auto simp: nth table_ok_def)
  ultimately have "table_ok ((st_space st space)\<lparr>is_table := t2\<rparr>) (k # fl) (busy - {k})"
    using tok(1) len by (simp add: table_ok_def)
  then show "space_ok (dealloc_free st space k) space (k # fl) (busy - {k})"
    using set_table_tree_ok [OF len] tok(2) by (simp add: st' space_ok_def)
  have "space_caps (set_table space t2 st) space name = ((space_caps st space)(of_nat k := None)) name" for name
    using table_name(2) [OF tok(1) k(2), of name] table_ok_type_zero [OF tok(1)] caps_in_table [of name st space] len k
    by (cases "MACH_PORT_INDEX name = k"; cases "MACH_PORT_INDEX name = 0")
      (auto simp: set_table_caps [OF len] nth IE_BITS_TYPE_def)
  then show "space_caps (dealloc_free st space k) space = (space_caps st space)(of_nat k := None)"
    by (simp add: st' fun_eq_iff)
qed

section \<open>Entries of the tree\<close>

lemma index_mono: "mono MACH_PORT_INDEX"
  by (simp add: mono_def MACH_PORT_INDEX_def word_le_nat_alt)

lemma tree_collision_result:
  assumes "ist_invar (is_tree (st_space st space))"
    and "MACH_PORT_DEAD \<notin> keys (tree_entries st space)" and "MACH_PORT_NULL \<notin> keys (tree_entries st space)"
    and "ipc_entry_tree_collision st space name = (collision, st')"
  shows "(collision \<longleftrightarrow> name \<in> keys (tree_entries st space)) \<and>
    (\<exists>t. st' = set_tree space t st \<and> ist_entries t = tree_entries st space \<and> ist_invar t)"
proof -
  obtain lower upper t where b: "ipc_splay_tree_bounds (is_tree (st_space st space)) name = (lower, upper, t)"
    using prod_cases3 by blast
  have "(lower \<noteq> MACH_PORT_LARGEST \<and> MACH_PORT_INDEX lower = MACH_PORT_INDEX name \<or>
      upper \<noteq> MACH_PORT_SMALLEST \<and> MACH_PORT_INDEX upper = MACH_PORT_INDEX name) \<longleftrightarrow>
      (\<exists>j \<in> keys (ist_entries (is_tree (st_space st space))). MACH_PORT_INDEX j = MACH_PORT_INDEX name)"
    by (rule splay_tree.neighbours_decide_collision [OF assms(1) b index_mono])
      (use assms(2,3) in \<open>auto simp: tree_entries_def MACH_PORT_LARGEST_def MACH_PORT_SMALLEST_def MACH_PORT_DEAD_def MACH_PORT_NULL_def\<close>)
  then have "collision \<longleftrightarrow> name \<in> keys (tree_entries st space)"
    using assms(4) b by (auto simp: ipc_entry_tree_collision_def tree_entries_def index_inject MACH_PORT_LARGEST_def MACH_PORT_SMALLEST_def)
  then show ?thesis
    using splay_tree.bounding [OF assms(1) b] assms(4) b by (auto simp: ipc_entry_tree_collision_def tree_entries_def Let_def)
qed

text \<open>The parts of \<open>tree_ok\<close> that do not depend on the counters.\<close>

lemma tree_okD:
  assumes "tree_ok st space" and "0 < length (is_table (st_space st space))"
  shows "ist_invar (is_tree (st_space st space))"
    and "MACH_PORT_DEAD \<notin> keys (tree_entries st space)" and "MACH_PORT_NULL \<notin> keys (tree_entries st space)"
    and "is_tree_total (st_space st space) = length (tree_entries st space)"
    and "is_tree_small (st_space st space) =
      card {n \<in> keys (tree_entries st space). MACH_PORT_INDEX n < entries_sizes (is_table_next (st_space st space))}"
    and "name \<in> keys (tree_entries st space) \<Longrightarrow> length (is_table (st_space st space)) \<le> MACH_PORT_INDEX name"
    and "distinct (map snd (tree_entries st space))"
    and "(n, a) \<in> set (tree_entries st space) \<Longrightarrow> te_name (st_ite st a) = n \<and> te_space (st_ite st a) = space"
proof -
  show "MACH_PORT_NULL \<notin> keys (tree_entries st space)"
    using assms index_zero [of MACH_PORT_NULL] by (fastforce simp: tree_ok_def Let_def)
qed (use assms in \<open>auto simp: tree_ok_def Let_def\<close>)

lemma upd_space_self: "upd_space space (\<lambda>s. s) st = st"
  by (simp add: upd_space_def)

lemma upd_space_cong: "f (st_space st space) = g (st_space st space) \<Longrightarrow> upd_space space f st = upd_space space g st"
  by (simp add: upd_space_def)

lemma upd_space_upd_space: "upd_space space f (upd_space space g st) = upd_space space (\<lambda>s. f (g s)) st"
  by (simp add: upd_space_def)

lemma set_tree_upd_space: "set_tree space t (upd_space space f st) = upd_space space (\<lambda>s. (f s)\<lparr>is_tree := t\<rparr>) st"
  by (simp add: set_tree_def upd_space_upd_space)

lemma dealloc_tree_state:
  assumes tree: "tree_ok st space" and pos: "0 < length (is_table (st_space st space))"
    and name: "name \<in> keys (tree_entries st space)"
  shows "\<exists>t. ist_entries t = without name (tree_entries st space) \<and> ist_invar t \<and>
    dealloc_tree st space name = upd_space space (\<lambda>s. s\<lparr>is_tree := t, is_tree_total := is_tree_total s - 1,
      is_tree_small := (if MACH_PORT_INDEX name < entries_sizes (is_table_next s) then is_tree_small s - 1
        else is_tree_small s)\<rparr>) st"
proof -
  note ok = tree_okD [OF tree pos]
  define t1 where "t1 = ipc_splay_tree_delete (is_tree (st_space st space)) name"
  have t1: "ist_entries t1 = without name (tree_entries st space)" "ist_invar t1"
    using splay_tree.deletion [OF ok(1)] name by (auto simp: t1_def tree_entries_def)
  define s1 where "s1 = upd_space space (\<lambda>s. s\<lparr>is_tree := t1, is_tree_total := is_tree_total s - 1\<rparr>) st"
  have s1: "tree_entries s1 space = without name (tree_entries st space)" "is_tree (st_space s1 space) = t1"
    using t1 by (simp_all add: s1_def tree_entries_def)
  obtain c s2 where col: "ipc_entry_tree_collision s1 space name = (c, s2)" by fastforce
  have cs: "\<not> c \<and> (\<exists>t. s2 = set_tree space t s1 \<and> ist_entries t = without name (tree_entries st space) \<and> ist_invar t)"
    using tree_collision_result [OF _ _ _ col] t1(2) ok(2,3) unfolding s1 by auto
  have out: "\<not> MACH_PORT_INDEX name < length (is_table (st_space st space))" using ok(6) [OF name] by simp
  have d: "dealloc_tree st space name =
      (if MACH_PORT_INDEX name < entries_sizes (is_table_next (st_space st space))
       then upd_space space (\<lambda>s. s\<lparr>is_tree_small := is_tree_small s - 1\<rparr>) s2 else s1)"
    using col cs out
    by (simp add: dealloc_tree_def Let_def set_tree_def upd_space_upd_space t1_def [symmetric] s1_def [symmetric])
      (simp add: s1_def)
  show ?thesis
  proof (cases "MACH_PORT_INDEX name < entries_sizes (is_table_next (st_space st space))")
    case True
    from cs obtain t where "s2 = set_tree space t s1" "ist_entries t = without name (tree_entries st space)" "ist_invar t" by blast
    then show ?thesis using d True
      by (intro exI [of _ t]) (auto simp: s1_def set_tree_def upd_space_upd_space intro!: upd_space_cong ipc_space.equality)
  next
    case False
    then show ?thesis using d t1 by (intro exI [of _ t1]) (simp add: s1_def upd_space_def)
  qed
qed

lemma keys_without: "keys (without name es) = keys es - {name}"
  by auto

lemma caps_beyond_table:
  assumes "\<not> MACH_PORT_INDEX name < length (is_table (st_space st space))"
  shows "space_caps st space name = map_option (\<lambda>a. denoted (te_entry (st_ite st a))) (map_of (tree_entries st space) name)"
  using assms by (cases "map_of (tree_entries st space) name") (auto simp: space_caps_def space_names_def Let_def)

lemma distinct_snd_without: "distinct (map snd es) \<Longrightarrow> distinct (map snd (without name es))"
  by (induction es) auto

lemma length_without:
  assumes "distinct (map fst es)" and "name \<in> keys es"
  shows "length (without name es) = length es - 1"
  using assms
proof (induction es)
  case (Cons x es)
  show ?case
  proof (cases "fst x = name")
    case True
    then have "name \<notin> keys es" using Cons.prems(1) by auto
    then show ?thesis using True by (simp add: without_absent)
  next
    case False
    then have "name \<in> keys es" using Cons.prems(2) by auto
    then show ?thesis using Cons.IH Cons.prems(1) False by (cases es) auto
  qed
qed simp

lemma dealloc_tree_result:
  assumes ok: "space_ok st space fl busy" and name: "name \<in> keys (tree_entries st space)"
  shows "space_ok (dealloc_tree st space name) space fl busy"
    and "space_caps (dealloc_tree st space name) space = (space_caps st space)(name := None)"
proof -
  have tab: "table_ok (st_space st space) fl busy" and tree: "tree_ok st space" using ok by (auto simp: space_ok_def)
  note pos = table_okD(1) [OF tab]
  note tok = tree_okD [OF tree pos]
  obtain t where t: "ist_entries t = without name (tree_entries st space)" "ist_invar t"
    and d: "dealloc_tree st space name = upd_space space (\<lambda>s. s\<lparr>is_tree := t, is_tree_total := is_tree_total s - 1,
      is_tree_small := (if MACH_PORT_INDEX name < entries_sizes (is_table_next s) then is_tree_small s - 1
        else is_tree_small s)\<rparr>) st"
    using dealloc_tree_state [OF tree pos name] by blast
  let ?st = "dealloc_tree st space name"
  have es: "tree_entries ?st space = without name (tree_entries st space)" using t by (simp add: d tree_entries_def)
  have asc: "distinct (map fst (tree_entries st space))"
    using splay_tree.entries_ascending [OF tok(1)] by (simp add: tree_entries_def ascending_distinct)
  let ?S = "\<lambda>K. {n \<in> K. MACH_PORT_INDEX n < entries_sizes (is_table_next (st_space st space))}"
  have small: "?S (keys (tree_entries st space) - {name}) =
      (if MACH_PORT_INDEX name < entries_sizes (is_table_next (st_space st space))
       then ?S (keys (tree_entries st space)) - {name} else ?S (keys (tree_entries st space)))"
    by auto
  have fields: "is_tree (st_space ?st space) = t" "is_table (st_space ?st space) = is_table (st_space st space)"
      "is_table_next (st_space ?st space) = is_table_next (st_space st space)" "st_ite ?st = st_ite st"
      "is_tree_total (st_space ?st space) = length (tree_entries st space) - 1"
      "is_tree_small (st_space ?st space) = card (?S (keys (tree_entries st space) - {name}))"
    using tok(4,5) name unfolding small by (simp_all add: d card_Diff_singleton)
  have "tree_ok ?st space"
    unfolding tree_ok_def Let_def es keys_without fields
    using t(2) tree length_without [OF asc name] distinct_snd_without [OF tok(7)]
    by (auto simp: tree_ok_def Let_def)
  moreover have "table_ok (st_space ?st space) fl busy" using tab by (simp add: d table_ok_def)
  ultimately show "space_ok ?st space fl busy" by (simp add: space_ok_def)
  have "space_caps ?st space n = ((space_caps st space)(name := None)) n" for n
  proof (cases "MACH_PORT_INDEX n < length (is_table (st_space st space))")
    case True
    then have "n \<noteq> name" using tok(6) [OF name] by auto
    then show ?thesis using True caps_in_table [of n st space] caps_in_table [of n ?st space] by (simp add: fields)
  next
    case False
    then show ?thesis
      using caps_beyond_table [of n st space] caps_beyond_table [of n ?st space] map_of_without [of name "tree_entries st space" n]
      by (auto simp: es fields)
  qed
  then show "space_caps ?st space = (space_caps st space)(name := None)" by blast
qed

lemma alloc_tree_state:
  assumes tree: "tree_ok st space" and pos: "0 < length (is_table (st_space st space))"
    and name: "name \<notin> keys (tree_entries st space)" "length (is_table (st_space st space)) \<le> MACH_PORT_INDEX name"
  shows "\<exists>t. ist_entries t = below name (tree_entries st space) @ (name, a) # beyond name (tree_entries st space) \<and> ist_invar t \<and>
    alloc_tree_entry st space name a = upd_ite a
      (\<lambda>t. t\<lparr>te_entry := (te_entry t)\<lparr>ie_bits := 0, ie_object := IO_NULL, ie_request := 0\<rparr>, te_name := name, te_space := space\<rparr>)
      (upd_space space (\<lambda>s. s\<lparr>is_tree := t, is_tree_total := is_tree_total s + 1,
      is_tree_small := (if MACH_PORT_INDEX name < entries_sizes (is_table_next s) then is_tree_small s + 1
        else is_tree_small s)\<rparr>) st)"
proof -
  note ok = tree_okD [OF tree pos]
  let ?g = "\<lambda>t. t\<lparr>te_entry := (te_entry t)\<lparr>ie_bits := 0, ie_object := IO_NULL, ie_request := 0\<rparr>, te_name := name, te_space := space\<rparr>"
  define s1 where "s1 = upd_space space (\<lambda>s. s\<lparr>is_tree_total := is_tree_total s + 1\<rparr>) st"
  have s1: "tree_entries s1 space = tree_entries st space" "is_tree (st_space s1 space) = is_tree (st_space st space)"
    by (simp_all add: s1_def tree_entries_def)
  obtain c s2 where col: "ipc_entry_tree_collision s1 space name = (c, s2)" by fastforce
  obtain t1 where cs: "\<not> c" "s2 = set_tree space t1 s1" "ist_entries t1 = tree_entries st space" "ist_invar t1"
    using tree_collision_result [OF _ _ _ col] ok(1-3) name(1) unfolding s1 by auto
  define t0 where "t0 = (if MACH_PORT_INDEX name < entries_sizes (is_table_next (st_space st space))
    then t1 else is_tree (st_space st space))"
  have t0: "ist_entries t0 = tree_entries st space" "ist_invar t0"
    using cs(3,4) ok(1) by (auto simp: t0_def tree_entries_def)
  define t where "t = ipc_splay_tree_insert t0 name a"
  have t: "ist_entries t = below name (tree_entries st space) @ (name, a) # beyond name (tree_entries st space)" "ist_invar t"
    using splay_tree.insertion [OF t0(2), of name a] name(1) t0(1) by (auto simp: t_def)
  have "alloc_tree_entry st space name a = upd_ite a ?g
      (upd_space space (\<lambda>s. s\<lparr>is_tree := t, is_tree_total := is_tree_total s + 1,
      is_tree_small := (if MACH_PORT_INDEX name < entries_sizes (is_table_next s) then is_tree_small s + 1
        else is_tree_small s)\<rparr>) st)"
    using name(2) col cs(1,2)
    by (auto simp: alloc_tree_entry_def Let_def s1_def set_tree_def upd_space_upd_space t_def t0_def
        intro!: arg_cong [where f = "upd_ite a ?g"] upd_space_cong ipc_space.equality)
  then show ?thesis using t by blast
qed

lemma alloc_tree_result:
  assumes ok: "space_ok st space fl busy" and name: "name \<notin> keys (tree_entries st space)"
      "length (is_table (st_space st space)) \<le> MACH_PORT_INDEX name" "name \<noteq> MACH_PORT_DEAD"
    and a: "a \<notin> snd ` set (tree_entries st space)"
  shows "space_ok (alloc_tree_entry st space name a) space fl busy"
    and "space_caps (alloc_tree_entry st space name a) space = (space_caps st space)(name \<mapsto> (0, IO_NULL, 0))"
proof -
  have tab: "table_ok (st_space st space) fl busy" and tree: "tree_ok st space" using ok by (auto simp: space_ok_def)
  note pos = table_okD(1) [OF tab]
  note tok = tree_okD [OF tree pos]
  let ?st = "alloc_tree_entry st space name a" and ?es = "tree_entries st space"
  obtain t where t: "ist_entries t = below name ?es @ (name, a) # beyond name ?es" "ist_invar t"
    and d: "?st = upd_ite a
      (\<lambda>t. t\<lparr>te_entry := (te_entry t)\<lparr>ie_bits := 0, ie_object := IO_NULL, ie_request := 0\<rparr>, te_name := name, te_space := space\<rparr>)
      (upd_space space (\<lambda>s. s\<lparr>is_tree := t, is_tree_total := is_tree_total s + 1,
      is_tree_small := (if MACH_PORT_INDEX name < entries_sizes (is_table_next s) then is_tree_small s + 1
        else is_tree_small s)\<rparr>) st)"
    using alloc_tree_state [OF tree pos name(1,2)] by blast
  have asc: "ascending ?es" using splay_tree.entries_ascending [OF tok(1)] by (simp add: tree_entries_def)
  have es: "tree_entries ?st space = below name ?es @ (name, a) # beyond name ?es" using t by (simp add: d tree_entries_def)
  have parts: "below name ?es @ beyond name ?es = ?es"
    using below_append_beyond [OF asc, of name] without_absent [OF name(1)] by simp
  have set: "set (tree_entries ?st space) = insert (name, a) (set ?es)"
    unfolding es using arg_cong [OF parts, of set] by auto
  have len: "length (tree_entries ?st space) = length ?es + 1"
    unfolding es using arg_cong [OF parts, of length] by simp
  have addr: "distinct (map snd (tree_entries ?st space))"
  proof -
    have "distinct (map snd (below name ?es @ beyond name ?es))" using tok(7) parts by simp
    moreover have "a \<notin> snd ` set (below name ?es @ beyond name ?es)" using a parts by simp
    ultimately show ?thesis unfolding es by auto
  qed
  have "{n \<in> insert name (keys ?es). MACH_PORT_INDEX n < b} =
      (if MACH_PORT_INDEX name < b then insert name {n \<in> keys ?es. MACH_PORT_INDEX n < b} else {n \<in> keys ?es. MACH_PORT_INDEX n < b})" for b
    by auto
  then have small: "is_tree_small (st_space ?st space) =
      card {n \<in> keys (tree_entries ?st space). MACH_PORT_INDEX n < entries_sizes (is_table_next (st_space st space))}"
    using tok(5) name(1) unfolding set by (subst d) simp
  have fields: "is_tree (st_space ?st space) = t" "is_table (st_space ?st space) = is_table (st_space st space)"
      "is_table_next (st_space ?st space) = is_table_next (st_space st space)"
      "is_tree_total (st_space ?st space) = length ?es + 1"
      "\<And>b. b \<noteq> a \<Longrightarrow> st_ite ?st b = st_ite st b" "te_name (st_ite ?st a) = name" "te_space (st_ite ?st a) = space"
      "denoted (te_entry (st_ite ?st a)) = (0, IO_NULL, 0)"
    using tok(4) by (simp_all add: d denoted_def)
  have there: "te_name (st_ite ?st b) = n \<and> te_space (st_ite ?st b) = space" if "(n, b) \<in> set (tree_entries ?st space)" for n b
  proof (cases "b = a")
    case True
    then have "(n, b) = (name, a)" using that a set by force
    then show ?thesis using fields(6,7) by simp
  next
    case False
    then have "(n, b) \<in> set ?es" using that set by auto
    then show ?thesis using tok(8) fields(5) [OF False] by auto
  qed
  have keys: "\<forall>n \<in> keys (tree_entries ?st space). length (is_table (st_space st space)) \<le> MACH_PORT_INDEX n \<and> n \<noteq> MACH_PORT_DEAD"
    using tree name by (auto simp: set tree_ok_def Let_def)
  have "tree_ok ?st space"
    unfolding tree_ok_def Let_def using t(2) keys addr there len small by (auto simp: fields)
  moreover have "table_ok (st_space ?st space) fl busy" using tab by (simp add: table_ok_def fields)
  ultimately show "space_ok ?st space fl busy" by (simp add: space_ok_def)
  have "space_caps ?st space n = ((space_caps st space)(name \<mapsto> (0, IO_NULL, 0))) n" for n
  proof (cases "MACH_PORT_INDEX n < length (is_table (st_space st space))")
    case True
    then have "n \<noteq> name" using name(2) by auto
    then show ?thesis using True caps_in_table [of n st space] caps_in_table [of n ?st space] by (simp add: fields)
  next
    case False
    have "map_of (tree_entries ?st space) n = ((map_of ?es)(name \<mapsto> a)) n"
      unfolding es by (simp only: map_of_ascending_insert)
    moreover have "b \<noteq> a" if "map_of ?es n = Some b" for b using map_of_SomeD [OF that] a by force
    ultimately show ?thesis
      using False caps_beyond_table [of n st space] caps_beyond_table [of n ?st space]
      by (cases "map_of ?es n") (auto simp: fields)
  qed
  then show "space_caps ?st space = (space_caps st space)(name \<mapsto> (0, IO_NULL, 0))" by blast
qed

end
