(* ===== verification/GrowFacts.thy ===== *)
theory GrowFacts
  imports EntryFacts
begin

text \<open>
  Growing the table of a space (\<^verbatim>\<open>ipc_entry_grow_table\<close> of \<^verbatim>\<open>ipc/ipc_entry.c\<close>) changes
  no capability: the old entries are copied and hashed anew, the entries of the tree whose names the
  larger table covers move into it, and the rest of the new part goes to the free list.
\<close>

section \<open>The reverse hash tables of a space\<close>

definition sends :: "ipc_entry list \<Rightarrow> nat set" where
  "sends table = {i. i < length table \<and> IE_BITS_TYPE (ie_bits (table ! i)) = MACH_PORT_TYPE_SEND}"

definition tree_sends :: "'a ipc_state_scheme \<Rightarrow> (mach_port_t \<times> ite_t) list \<Rightarrow> ite_t set" where
  "tree_sends st es = {a \<in> snd ` set es. IE_BITS_TYPE (te_bits (st_ite st a)) = MACH_PORT_TYPE_SEND}"

text \<open>
  Exactly the pure send rights are entered, those of the table in the table of the space and those
  of the tree in the global one, and no two are for the same object. \<^verbatim>\<open>is_tree_hash\<close> counts
  the latter.
\<close>

definition space_entered :: "'a ipc_state_scheme \<Rightarrow> ipc_space_t \<Rightarrow> ite_t set" where
  "space_entered st space = {a \<in> ghash_entered st. te_space (st_ite st a) = space}"

definition hash_count :: "'a ipc_state_scheme \<Rightarrow> ipc_space_t \<Rightarrow> bool" where
  "hash_count st space \<longleftrightarrow> is_tree_hash (st_space st space) = card (space_entered st space)"

definition hash_ok :: "'a ipc_state_scheme \<Rightarrow> ipc_space_t \<Rightarrow> bool" where
  "hash_ok st space \<longleftrightarrow>
     (let table = is_table (st_space st space); es = tree_entries st space
      in hash_invar table \<and> hashed table = sends table \<and> ghash_invar st \<and>
         space_entered st space = tree_sends st es \<and> hash_count st space \<and>
         (\<forall>a \<in> tree_sends st es. \<forall>i \<in> sends table. te_object (st_ite st a) \<noteq> ie_object (table ! i)))"

section \<open>Copying and hashing anew\<close>

lemma grow_copy_nth:
  assumes "length otable = osize" and "osize \<le> sz" and "i < sz"
  shows "grow_copy otable osize sz ! i = (if i < osize then (otable ! i)\<lparr>ie_index := 0\<rparr> else zero_entry)"
  using assms by (auto simp: grow_copy_def nth_append)

lemma grow_copy_length: "length otable = osize \<Longrightarrow> osize \<le> sz \<Longrightarrow> length (grow_copy otable osize sz) = sz"
  by (simp add: grow_copy_def)

lemma unhashed_invar:
  assumes "0 < length table" and "\<forall>i < length table. ie_index (table ! i) = 0"
  shows "hash_invar table" and "hashed table = {}"
proof -
  show "hashed table = {}" using assms(2) by (auto simp: hashed_def held_def)
  then show "hash_invar table" using assms by (simp add: hash_invar_def clumped_def one_each_def)
qed

lemma grow_rehash_result:
  assumes "hash_invar table" and "distinct is" and "set is \<subseteq> {..<length table}" and "set is \<inter> hashed table = {}"
    and "0 \<notin> sends table" and "inj_on (\<lambda>i. ie_object (table ! i)) (hashed table \<union> sends table \<inter> set is)"
  shows "\<exists>table'. grow_rehash is table = Some table' \<and> hash_invar table' \<and> same_entries table table' \<and>
    hashed table' = hashed table \<union> sends table \<inter> set is"
  using assms
proof (induction "is" arbitrary: table)
  case (Cons i js)
  show ?case
  proof (cases "i \<in> sends table")
    case True
    have i: "0 < i" "i < length table" "i \<notin> hashed table" using True Cons.prems by (auto simp: sends_def intro!: gr0I)
    have fresh: "\<forall>j \<in> hashed table. ie_object (table ! j) \<noteq> ie_object (table ! i)"
      using Cons.prems(6) True i(3) by (auto simp: inj_on_def)
    obtain t where t: "ipc_hash_local_insert table (ie_object (table ! i)) i = Some t" "hash_invar t"
        "hashed t = insert i (hashed table)" "same_entries table t"
      using local_insert_correct [OF Cons.prems(1) i(3,1,2) refl fresh] by blast
    have len: "length t = length table" by (rule same_entries_length [OF t(4)])
    have s: "sends t = sends table" using same_entries_nth(2) [OF t(4)] len by (auto simp: sends_def)
    have "inj_on (\<lambda>i. ie_object (t ! i)) (hashed t \<union> sends t \<inter> set js)"
    proof (rule inj_onI)
      fix x y assume xy: "x \<in> hashed t \<union> sends t \<inter> set js" "y \<in> hashed t \<union> sends t \<inter> set js"
        "ie_object (t ! x) = ie_object (t ! y)"
      have m: "x \<in> hashed table \<union> sends table \<inter> set (i # js)" "y \<in> hashed table \<union> sends table \<inter> set (i # js)"
        using xy(1,2) t(3) s True by auto
      have "x < length table" "y < length table" using m hashed_less [OF Cons.prems(1)] by (auto simp: sends_def)
      then show "x = y" using Cons.prems(6) m xy(3) same_entries_nth(1) [OF t(4)] by (auto simp: inj_on_def)
    qed
    then obtain t' where "grow_rehash js t = Some t'" "hash_invar t'" "same_entries t t'"
        "hashed t' = hashed t \<union> sends t \<inter> set js"
      using Cons.IH [OF t(2)] Cons.prems(2-5) t(3) s len by auto
    then show ?thesis using t True s same_entries_trans [OF t(4)] by (auto simp: sends_def)
  next
    case False
    then have "grow_rehash (i # js) table = grow_rehash js table" using Cons.prems(3) by (auto simp: sends_def)
    moreover have "sends table \<inter> set (i # js) = sends table \<inter> set js" using False by auto
    ultimately show ?thesis using Cons.IH [OF Cons.prems(1)] Cons.prems(2-6) by auto
  qed
qed simp

section \<open>Moving entries from the tree\<close>

text \<open>Filling in an entry that is not hashed does not disturb the hash table around it.\<close>

lemma hash_invar_fill:
  assumes "hash_invar table" and "i < length table" and "i \<notin> hashed table" and "ie_index e = ie_index (table ! i)"
  shows "hash_invar (table[i := e])" and "hashed (table[i := e]) = hashed table"
proof -
  have slot: "ie_index (table[i := e] ! s) = ie_index (table ! s)" for s
    using assms(2,4) by (simp add: nth_list_update)
  then show h: "hashed (table[i := e]) = hashed table" by (simp add: hashed_def)
  have home: "home (table[i := e]) j = home table j" if "j \<noteq> i" for j
    using that by (simp add: home_def nth_list_update)
  have "ie_index (table ! s) \<noteq> i" if "s < length table" "ie_index (table ! s) \<noteq> 0" for s
    using assms(3) that by (auto simp: hashed_def held_def)
  then have "clumped (length table) (slot (table[i := e])) (home (table[i := e]))"
    using assms(1) home unfolding hash_invar_def clumped_def slot by metis
  moreover have "inj_on (\<lambda>j. ie_object (table[i := e] ! j)) (hashed table)"
    using assms(1-3) by (auto simp: hash_invar_def inj_on_def nth_list_update)
  ultimately show "hash_invar (table[i := e])"
    using assms(1) by (simp add: hash_invar_def h slot)
qed

definition movable :: "'a ipc_state_scheme \<Rightarrow> ipc_space_t \<Rightarrow> (mach_port_t \<times> ite_t) list \<Rightarrow> bool" where
  "movable st space es \<longleftrightarrow>
     (let table = is_table (st_space st space)
      in hash_invar table \<and> hashed table = sends table \<and> ghash_invar st \<and> distinct (map fst es) \<and> distinct (map snd es) \<and>
         (\<forall>(n, a) \<in> set es. 0 < MACH_PORT_INDEX n \<and> MACH_PORT_INDEX n < length table \<and> ie_bits (table ! MACH_PORT_INDEX n) = 0 \<and>
            te_space (st_ite st a) = space) \<and>
         tree_sends st es \<subseteq> ghash_entered st \<and>
         (\<forall>a \<in> tree_sends st es. \<forall>i \<in> sends table. te_object (st_ite st a) \<noteq> ie_object (table ! i)))"

definition moved :: "'a ipc_state_scheme \<Rightarrow> ipc_space_t \<Rightarrow> (mach_port_t \<times> ite_t) list \<Rightarrow> 'a ipc_state_scheme \<Rightarrow> bool" where
  "moved st space es st' \<longleftrightarrow>
     (let s = st_space st space; s' = st_space st' space
      in st_ite st' = st_ite st \<and> is_tree s' = is_tree s \<and> is_table_next s' = is_table_next s \<and>
         is_tree_small s' = is_tree_small s \<and> is_active s' = is_active s \<and> is_growing s' = is_growing s \<and>
         is_tree_total s' = is_tree_total s - length es \<and> length (is_table s') = length (is_table s) \<and>
         (\<forall>(n, a) \<in> set es. denoted (is_table s' ! MACH_PORT_INDEX n) = denoted (te_entry (st_ite st a))) \<and>
         (\<forall>j < length (is_table s). j \<notin> MACH_PORT_INDEX ` keys es \<longrightarrow> denoted (is_table s' ! j) = denoted (is_table s ! j)) \<and>
         hash_invar (is_table s') \<and> hashed (is_table s') = sends (is_table s') \<and> ghash_invar st' \<and>
         ghash_entered st' = ghash_entered st - tree_sends st es \<and> (hash_count st space \<longrightarrow> hash_count st' space))"

lemma denoted_eq: "denoted e = denoted e' \<longleftrightarrow> ie_bits e = ie_bits e' \<and> ie_object e = ie_object e' \<and> ie_request e = ie_request e'"
  by (auto simp: denoted_def)

lemma same_entries_denoted: "same_entries table table' \<Longrightarrow> i < length table \<Longrightarrow> denoted (table' ! i) = denoted (table ! i)"
  using same_entries_nth by (auto simp: denoted_eq)

text \<open>The table after one entry has been moved, before and after it is hashed.\<close>

lemma fill_moved:
  assumes "hash_invar table" and "hashed table = sends table" and "0 < i" and "i < length table" and "ie_bits (table ! i) = 0"
    and e: "ie_index e = ie_index (table ! i)"
    and fresh: "IE_BITS_TYPE (ie_bits e) = MACH_PORT_TYPE_SEND \<Longrightarrow> \<forall>j \<in> sends table. ie_object e \<noteq> ie_object (table ! j)"
  shows "\<exists>table'. (if IE_BITS_TYPE (ie_bits e) = MACH_PORT_TYPE_SEND
      then ipc_hash_local_insert (table[i := e]) (ie_object e) i else Some (table[i := e])) = Some table' \<and>
    hash_invar table' \<and> hashed table' = sends table' \<and> same_entries (table[i := e]) table'"
proof -
  have i: "i \<notin> hashed table" using assms(2,5) by (simp add: sends_def IE_BITS_TYPE_def)
  note fill = hash_invar_fill [OF assms(1,4) i e]
  have s: "sends (table[i := e]) = (if IE_BITS_TYPE (ie_bits e) = MACH_PORT_TYPE_SEND then insert i (sends table) else sends table)"
    using assms(2,4) i by (auto simp: sends_def nth_list_update)
  show ?thesis
  proof (cases "IE_BITS_TYPE (ie_bits e) = MACH_PORT_TYPE_SEND")
    case True
    have "\<forall>j \<in> hashed (table[i := e]). ie_object (table[i := e] ! j) \<noteq> ie_object e"
      using fresh [OF True] fill(2) assms(2,4) i by (auto simp: nth_list_update)
    then obtain t where t: "ipc_hash_local_insert (table[i := e]) (ie_object e) i = Some t" "hash_invar t"
        "hashed t = insert i (hashed (table[i := e]))" "same_entries (table[i := e]) t"
      using local_insert_correct [OF fill(1), of i "ie_object e"] fill(2) i assms(3,4) by auto
    have "sends t = sends (table[i := e])"
      using same_entries_nth(2) [OF t(4)] same_entries_length [OF t(4)] by (auto simp: sends_def)
    then show ?thesis using True t s fill(2) assms(2) by auto
  next
    case False
    then show ?thesis using fill s assms(2) by simp
  qed
qed

lemma ghash_upd_space [simp]:
  "ghash_key (upd_space space f st) = ghash_key st" "ghash_entered (upd_space space f st) = ghash_entered st"
  "ghash_invar (upd_space space f st) \<longleftrightarrow> ghash_invar st"
proof -
  show k: "ghash_key (upd_space space f st) = ghash_key st" by (simp add: ghash_key_def fun_eq_iff)
  show e: "ghash_entered (upd_space space f st) = ghash_entered st" by (simp add: ghash_entered_def)
  show "ghash_invar (upd_space space f st) \<longleftrightarrow> ghash_invar st" by (simp add: ghash_invar_def k e)
qed

lemma global_delete_result:
  assumes "ghash_invar st" and "a \<in> ghash_entered st" and "te_space (st_ite st a) = space" and "te_object (st_ite st a) = obj"
  defines "st' \<equiv> ipc_hash_global_delete st space obj a"
  shows "ghash_invar st'" and "ghash_entered st' = ghash_entered st - {a}" and "st_ite st' = st_ite st"
    and "st_space st' = (st_space st)(space := (st_space st space)\<lparr>is_tree_hash := is_tree_hash (st_space st space) - 1\<rparr>)"
proof -
  have "ghash_key st a = (space, obj)" using assms(3,4) by (simp add: ghash_key_def)
  then obtain t where "t = st'" "ghash_invar t" "ghash_entered t = ghash_entered st - {a}"
    using global_hash.deletion [OF assms(1,2)] unfolding st'_def by (metis fst_conv snd_conv option.inject)
  then show "ghash_invar st'" "ghash_entered st' = ghash_entered st - {a}" by simp_all
  show "st_ite st' = st_ite st"
    "st_space st' = (st_space st)(space := (st_space st space)\<lparr>is_tree_hash := is_tree_hash (st_space st space) - 1\<rparr>)"
    by (simp_all add: st'_def ipc_hash_global_delete_def Let_def)
qed

lemma space_entered_upd_space [simp]: "space_entered (upd_space space' f st) space = space_entered st space"
  by (simp add: space_entered_def)

lemma hash_count_upd_space:
  "is_tree_hash (f (st_space st space)) = is_tree_hash (st_space st space) \<Longrightarrow>
   hash_count (upd_space space f st) space \<longleftrightarrow> hash_count st space"
  by (simp add: hash_count_def)

lemma hash_count_delete:
  assumes "ghash_invar st" and "a \<in> ghash_entered st" and "te_space (st_ite st a) = space" and "te_object (st_ite st a) = obj"
    and "hash_count st space"
  shows "hash_count (ipc_hash_global_delete st space obj a) space"
proof -
  note d = global_delete_result [OF assms(1-4)]
  have "space_entered (ipc_hash_global_delete st space obj a) space = space_entered st space - {a}"
    using d(2,3) by (auto simp: space_entered_def)
  moreover have "a \<in> space_entered st space" using assms(2,3) by (simp add: space_entered_def)
  ultimately show ?thesis using assms(5) d(4) by (simp add: hash_count_def card_Diff_singleton)
qed

lemma grow_move_state:
  assumes "ie_bits (is_table (st_space st space) ! MACH_PORT_INDEX n) = 0"
    and e: "e = (is_table (st_space st space) ! MACH_PORT_INDEX n)\<lparr>ie_bits := te_bits (st_ite st a),
      ie_object := te_object (st_ite st a), ie_request := te_request (st_ite st a)\<rparr>"
    and hash: "(if IE_BITS_TYPE (ie_bits e) = MACH_PORT_TYPE_SEND
      then ipc_hash_local_insert ((is_table (st_space st space))[MACH_PORT_INDEX n := e]) (ie_object e) (MACH_PORT_INDEX n)
      else Some ((is_table (st_space st space))[MACH_PORT_INDEX n := e])) = Some table'"
  shows "grow_move space (Some st) n a =
    (Some (upd_space space (\<lambda>s. s\<lparr>is_table := table', is_tree_total := is_tree_total s - 1\<rparr>)
       (if IE_BITS_TYPE (ie_bits e) = MACH_PORT_TYPE_SEND then ipc_hash_global_delete st space (ie_object e) a else st)), True)"
proof (cases "IE_BITS_TYPE (ie_bits e) = MACH_PORT_TYPE_SEND")
  case True
  let ?t = "is_table (st_space st space)" and ?i = "MACH_PORT_INDEX n" and ?o = "te_object (st_ite st a)"
  have u: "upd_space space f (ipc_hash_global_delete (upd_space space g st) space ?o a) =
      upd_space space (\<lambda>s. f ((g s)\<lparr>is_tree_hash := is_tree_hash (g s) - 1\<rparr>)) (upd_bucket
        (IH_GLOBAL_HASH (ipc_hash_global_mask st) space ?o) (remove1 a) st)" for f g
    by (simp add: ipc_hash_global_delete_def Let_def upd_space_def upd_bucket_def)
  have v: "upd_space space f (ipc_hash_global_delete st space ?o a) =
      upd_space space (\<lambda>s. f (s\<lparr>is_tree_hash := is_tree_hash s - 1\<rparr>)) (upd_bucket
        (IH_GLOBAL_HASH (ipc_hash_global_mask st) space ?o) (remove1 a) st)" for f
    by (simp add: ipc_hash_global_delete_def Let_def upd_space_def upd_bucket_def)
  have "is_table (st_space (ipc_hash_global_delete (upd_space space (\<lambda>s. s\<lparr>is_table := t\<rparr>) st) space ?o a) space) = t" for t
    by (simp add: ipc_hash_global_delete_def Let_def)
  then show ?thesis
    using True hash assms(1)
    by (simp add: grow_move_def Let_def MACH_PORT_GEN_def e local_hash_insert_def set_table_def upd_entry_table u v
        upd_space_upd_space del: upd_entry.simps)
next
  case False
  then show ?thesis
    using hash assms(1)
    by (simp add: grow_move_def Let_def MACH_PORT_GEN_def e set_table_def upd_entry_table upd_space_upd_space del: upd_entry.simps)
qed

lemma grow_move_one:
  assumes "movable st space ((n, a) # es)"
  shows "\<exists>st'. grow_move space (Some st) n a = (Some st', True) \<and> moved st space [(n, a)] st' \<and> movable st' space es"
proof -
  define table where "table = is_table (st_space st space)"
  define i where "i = MACH_PORT_INDEX n"
  define e where "e = (table ! i)\<lparr>ie_bits := te_bits (st_ite st a), ie_object := te_object (st_ite st a),
    ie_request := te_request (st_ite st a)\<rparr>"
  let ?send = "IE_BITS_TYPE (ie_bits e) = MACH_PORT_TYPE_SEND"
  have inv: "hash_invar table" "hashed table = sends table" "ghash_invar st" "0 < i" "i < length table" "ie_bits (table ! i) = 0"
      "te_space (st_ite st a) = space"
    using assms by (auto simp: movable_def Let_def table_def i_def)
  have es: "distinct (map fst es)" "distinct (map snd es)" "n \<notin> keys es" "a \<notin> snd ` set es"
      "\<forall>(n, a) \<in> set es. 0 < MACH_PORT_INDEX n \<and> MACH_PORT_INDEX n < length table \<and> ie_bits (table ! MACH_PORT_INDEX n) = 0 \<and>
        te_space (st_ite st a) = space"
      "tree_sends st es \<subseteq> ghash_entered st"
      "\<forall>a \<in> tree_sends st es. \<forall>i \<in> sends table. te_object (st_ite st a) \<noteq> ie_object (table ! i)"
    using assms by (auto simp: movable_def Let_def table_def tree_sends_def)
  have ts: "tree_sends st [(n, a)] = (if ?send then {a} else {})" by (auto simp: tree_sends_def e_def)
  have mine: "a \<in> ghash_entered st" "\<forall>j \<in> sends table. ie_object e \<noteq> ie_object (table ! j)" if ?send
    using assms that by (auto simp: movable_def Let_def table_def tree_sends_def e_def)
  obtain t where t: "(if ?send then ipc_hash_local_insert (table[i := e]) (ie_object e) i else Some (table[i := e])) = Some t"
      "hash_invar t" "hashed t = sends t" "same_entries (table[i := e]) t"
    using fill_moved [OF inv(1,2,4-6), of e] mine(2) by (auto simp: e_def)
  define g where "g = (if ?send then ipc_hash_global_delete st space (ie_object e) a else st)"
  have move: "grow_move space (Some st) n a =
      (Some (upd_space space (\<lambda>s. s\<lparr>is_table := t, is_tree_total := is_tree_total s - 1\<rparr>) g), True)"
    unfolding g_def
    by (rule grow_move_state [OF inv(6) [unfolded table_def i_def] e_def [unfolded table_def i_def] t(1) [unfolded table_def i_def]])
  have g: "ghash_invar g" "ghash_entered g = ghash_entered st - tree_sends st [(n, a)]" "st_ite g = st_ite st"
      "\<exists>h. st_space g = (st_space st)(space := (st_space st space)\<lparr>is_tree_hash := h\<rparr>)"
  proof -
    have "ghash_invar g \<and> ghash_entered g = ghash_entered st - tree_sends st [(n, a)] \<and> st_ite g = st_ite st \<and>
      (\<exists>h. st_space g = (st_space st)(space := (st_space st space)\<lparr>is_tree_hash := h\<rparr>))"
    proof (cases ?send)
      case True
      note d = global_delete_result [OF inv(3) mine(1) [OF True] inv(7) refl]
      have "g = ipc_hash_global_delete st space (te_object (st_ite st a)) a" using True by (simp add: g_def e_def)
      then show ?thesis using d True ts by auto
    next
      case False
      then have "g = st" by (simp add: g_def)
      then show ?thesis
        using inv(3) False ts by (intro conjI exI [of _ "is_tree_hash (st_space st space)"]) simp_all
    qed
    then show "ghash_invar g" "ghash_entered g = ghash_entered st - tree_sends st [(n, a)]" "st_ite g = st_ite st"
      "\<exists>h. st_space g = (st_space st)(space := (st_space st space)\<lparr>is_tree_hash := h\<rparr>)" by blast+
  qed
  define st' where "st' = upd_space space (\<lambda>s. s\<lparr>is_table := t, is_tree_total := is_tree_total s - 1\<rparr>) g"
  have len: "length t = length table" using same_entries_length [OF t(4)] by simp
  have den: "denoted (t ! j) = (if j = i then denoted (te_entry (st_ite st a)) else denoted (table ! j))" if "j < length table" for j
    using same_entries_denoted [OF t(4), of j] that by (simp add: nth_list_update e_def denoted_def)
  have "hash_count g space" if "hash_count st space"
    using hash_count_delete [OF inv(3) mine(1) inv(7) refl that] that by (auto simp: g_def e_def)
  then have count: "hash_count st space \<longrightarrow> hash_count st' space" by (simp add: st'_def hash_count_upd_space)
  have M: "moved st space [(n, a)] st'"
    using g den t(2,3) len inv(5) count by (auto simp: moved_def Let_def st'_def table_def i_def)
  have idx: "MACH_PORT_INDEX m \<noteq> i" if "m \<in> keys es" for m using that es(3) index_inject [of m n] by (auto simp: i_def)
  have "movable st' space es"
  proof -
    have bits: "ie_bits (t ! MACH_PORT_INDEX m) = 0" if "(m, b) \<in> set es" for m b
    proof -
      have "MACH_PORT_INDEX m \<noteq> i" using idx that by force
      moreover have "MACH_PORT_INDEX m < length table" "ie_bits (table ! MACH_PORT_INDEX m) = 0" using es(5) that by auto
      ultimately show ?thesis using den [of "MACH_PORT_INDEX m"] by (simp add: denoted_def)
    qed
    have fields: "is_table (st_space st' space) = t" "st_ite st' = st_ite st" "ghash_invar st'" "ghash_entered st' = ghash_entered g"
      using g by (auto simp: st'_def)
    have ts': "tree_sends st' es = tree_sends st es" by (simp add: tree_sends_def fields)
    have sub: "tree_sends st es \<subseteq> ghash_entered st'"
      using es(4,6) g(2) by (auto simp: fields ts tree_sends_def)
    have objs: "te_object (st_ite st b) \<noteq> ie_object (t ! j)" if "b \<in> tree_sends st es" "j \<in> sends t" for b j
    proof (cases "j = i")
      case True
      then have "?send" using that(2) den [of i] inv(5) by (auto simp: sends_def denoted_def e_def)
      have "b \<in> ghash_entered st" "a \<in> ghash_entered st" "b \<noteq> a" using that(1) es(4,6) mine(1) \<open>?send\<close> by (auto simp: tree_sends_def)
      then have "ghash_key st b \<noteq> ghash_key st a" using inv(3) by (auto simp: ghash_invar_def inj_on_def)
      moreover have "te_space (st_ite st b) = space" using that(1) es(5) by (auto simp: tree_sends_def)
      ultimately show ?thesis using True den [of i] inv(5,7) by (auto simp: ghash_key_def denoted_def)
    next
      case False
      then have "j \<in> sends table" using that(2) den [of j] len by (auto simp: sends_def denoted_def)
      moreover have "ie_object (t ! j) = ie_object (table ! j)"
        using den [of j] False \<open>j \<in> sends table\<close> by (auto simp: sends_def denoted_def)
      ultimately show ?thesis using es(7) that(1) by auto
    qed
    show ?thesis
      unfolding movable_def Let_def fields(1,2) ts'
      using t(2,3) fields(3) es(1,2,5) bits sub objs len by auto
  qed
  then show ?thesis using move M st'_def by blast
qed

lemma tree_sends_Cons: "tree_sends st (x # es) = tree_sends st [x] \<union> tree_sends st es"
  by (auto simp: tree_sends_def)

lemma moved_trans:
  assumes "moved st space [x] st1" and "moved st1 space es st2" and "fst x \<notin> keys es"
    and "MACH_PORT_INDEX (fst x) < length (is_table (st_space st space))"
  shows "moved st space (x # es) st2"
proof -
  obtain n a where x: "x = (n, a)" by (cases x)
  let ?t = "is_table (st_space st space)" and ?t1 = "is_table (st_space st1 space)" and ?t2 = "is_table (st_space st2 space)"
  have ite: "st_ite st1 = st_ite st" "st_ite st2 = st_ite st" and len: "length ?t1 = length ?t" "length ?t2 = length ?t"
    using assms(1,2) by (auto simp: moved_def Let_def)
  have one: "denoted (?t1 ! MACH_PORT_INDEX n) = denoted (te_entry (st_ite st a))"
      "\<And>j. j < length ?t \<Longrightarrow> j \<noteq> MACH_PORT_INDEX n \<Longrightarrow> denoted (?t1 ! j) = denoted (?t ! j)"
    using assms(1) by (auto simp: moved_def Let_def x)
  have two: "\<And>m b. (m, b) \<in> set es \<Longrightarrow> denoted (?t2 ! MACH_PORT_INDEX m) = denoted (te_entry (st_ite st b))"
      "\<And>j. j < length ?t \<Longrightarrow> j \<notin> MACH_PORT_INDEX ` keys es \<Longrightarrow> denoted (?t2 ! j) = denoted (?t1 ! j)"
    using assms(2) ite len by (auto simp: moved_def Let_def)
  have n: "MACH_PORT_INDEX n \<notin> MACH_PORT_INDEX ` keys es" using assms(3) index_inject by (auto simp: x)
  have new: "denoted (?t2 ! MACH_PORT_INDEX n) = denoted (te_entry (st_ite st a))"
    using two(2) [OF _ n] one(1) assms(4) by (simp add: x)
  have "\<forall>(m, b) \<in> set (x # es). denoted (?t2 ! MACH_PORT_INDEX m) = denoted (te_entry (st_ite st b))"
    using new two(1) by (auto simp: x)
  moreover have "\<forall>j < length ?t. j \<notin> MACH_PORT_INDEX ` keys (x # es) \<longrightarrow> denoted (?t2 ! j) = denoted (?t ! j)"
    using one(2) two(2) by (auto simp: x)
  moreover have "tree_sends st1 es = tree_sends st es" by (simp add: tree_sends_def ite)
  then have "ghash_entered st2 = ghash_entered st - tree_sends st (x # es)"
    using assms(1,2) tree_sends_Cons [of st x es] by (auto simp: moved_def Let_def)
  ultimately show ?thesis using assms(1,2) by (simp add: moved_def Let_def)
qed

lemma moved_Nil:
  assumes "movable st space []"
  shows "moved st space [] st"
  using assms by (simp add: moved_def movable_def Let_def tree_sends_def)

lemma move_all:
  assumes "movable st space es"
  shows "\<exists>st'. visit (grow_move space) (Some st) es = (Some st', []) \<and> moved st space es st'"
  using assms
proof (induction es arbitrary: st)
  case Nil
  then show ?case using moved_Nil by auto
next
  case (Cons x es)
  obtain n a where x: "x = (n, a)" by (cases x)
  obtain st1 where st1: "grow_move space (Some st) n a = (Some st1, True)" "moved st space [(n, a)] st1" "movable st1 space es"
    using grow_move_one [OF Cons.prems [unfolded x]] by blast
  obtain st2 where st2: "visit (grow_move space) (Some st1) es = (Some st2, [])" "moved st1 space es st2"
    using Cons.IH [OF st1(3)] by blast
  have "n \<notin> keys es" "MACH_PORT_INDEX n < length (is_table (st_space st space))"
    using Cons.prems by (auto simp: x movable_def Let_def)
  then have "moved st space (x # es) st2" using moved_trans [OF _ st2(2), of st x] st1(2) by (simp add: x)
  then show ?case using st1(1) st2(1) by (simp add: x visit_Cons)
qed

lemma count_all:
  assumes "ascending es" and "\<forall>m \<in> keys es. index < MACH_PORT_INDEX m"
  shows "\<exists>i. visit grow_count (c, index) es = ((c + length es, i), es)"
  using assms
proof (induction es arbitrary: c index)
  case (Cons x es)
  obtain n a where x: "x = (n, a)" by (cases x)
  have one: "grow_count (c, index) n a = ((c + 1, MACH_PORT_INDEX n), False)"
    using Cons.prems(2) by (simp add: grow_count_def x)
  have "\<forall>m \<in> keys es. MACH_PORT_INDEX n < MACH_PORT_INDEX m"
    using Cons.prems(1) by (auto simp: x index_less_iff)
  then obtain i where "visit grow_count (c + 1, MACH_PORT_INDEX n) es = ((c + 1 + length es, i), es)"
    using Cons.IH [of "MACH_PORT_INDEX n" "c + 1"] Cons.prems(1) by auto
  then show ?case using visit_Cons [of grow_count, OF one, of es] by (simp add: x)
qed simp

section \<open>The tree after growth\<close>

lemma name_below: "k < 2 ^ 32 \<Longrightarrow> n < MACH_PORT_MAKE k 0 \<longleftrightarrow> MACH_PORT_INDEX n < k"
  using index_less_iff [of n "MACH_PORT_MAKE k 0"] index_make [of k 0] by simp

lemma name_onward: "k < 2 ^ 32 \<Longrightarrow> MACH_PORT_MAKE k 0 \<le> n \<longleftrightarrow> k \<le> MACH_PORT_INDEX n"
  using name_below [of k n] by (simp add: not_less [symmetric])

abbreviation covered :: "nat \<Rightarrow> (mach_port_t \<times> 'p) list \<Rightarrow> (mach_port_t \<times> 'p) list" where
  "covered sz \<equiv> filter (\<lambda>x. MACH_PORT_INDEX (fst x) < sz)"

abbreviation uncovered :: "nat \<Rightarrow> (mach_port_t \<times> 'p) list \<Rightarrow> (mach_port_t \<times> 'p) list" where
  "uncovered sz \<equiv> filter (\<lambda>x. sz \<le> MACH_PORT_INDEX (fst x))"

lemma card_keys: "ascending es \<Longrightarrow> card (keys es) = length es"
  using distinct_card [of "map fst es"] ascending_distinct by fastforce

lemma grow_tree_result:
  assumes inv: "ist_invar (is_tree (st_space st space))" and es: "es = tree_entries st space"
    and sizes: "osize \<le> sz" "0 < sz" "sz \<le> nsize" "nsize < 2 ^ 32" and old: "\<forall>n \<in> keys es. osize \<le> MACH_PORT_INDEX n"
    and mov: "movable st space (covered sz es)"
  shows "\<exists>st1 t. grow_tree st space osize sz nsize =
      Some (upd_space space (\<lambda>s. s\<lparr>is_tree_small := card (keys (covered nsize (uncovered sz es))), is_tree := t\<rparr>) st1) \<and>
    moved st space (covered sz es) st1 \<and> ist_entries t = uncovered sz es \<and> ist_invar t"
proof -
  have asc: "ascending es" using splay_tree.entries_ascending [OF inv] by (simp add: es tree_entries_def)
  have lt: "osize < 2 ^ 32" "sz < 2 ^ 32" using sizes by auto
  obtain tree s0 where sp1: "ipc_splay_tree_split (is_tree (st_space st space)) (MACH_PORT_MAKE nsize 0) blank_splay = (tree, s0)"
    by fastforce
  have e1: "ist_entries s0 = covered nsize es" "ist_entries tree = uncovered nsize es" "ist_invar s0" "ist_invar tree"
    using splay_tree.splitting [OF inv sp1] sizes(4) by (simp_all add: name_below name_onward es tree_entries_def)
  obtain small m0 where sp2: "ipc_splay_tree_split s0 (MACH_PORT_MAKE sz 0) blank_splay = (small, m0)" by fastforce
  have e2: "ist_entries m0 = covered sz (covered nsize es)" "ist_entries small = uncovered sz (covered nsize es)"
      "ist_invar m0" "ist_invar small"
    using splay_tree.splitting [OF e1(3) sp2] lt(2) by (simp_all add: name_below name_onward e1(1))
  obtain move ignored where sp3: "ipc_splay_tree_split m0 (MACH_PORT_MAKE osize 0) blank_splay = (move, ignored)" by fastforce
  have e3: "ist_entries ignored = covered osize (covered sz (covered nsize es))"
      "ist_entries move = uncovered osize (covered sz (covered nsize es))" "ist_invar ignored" "ist_invar move"
    using splay_tree.splitting [OF e2(3) sp3] lt(1) by (simp_all add: name_below name_onward e2(1))
  have ig: "ist_entries ignored = []" unfolding e3(1) using old by (fastforce intro: filter_none)
  have mv: "ist_entries move = covered sz es"
    unfolding e3(2) filter_filter using old sizes(3) by (intro filter_cong refl) auto
  obtain st1 where st1: "visit (grow_move space) (Some st) (covered sz es) = (Some st1, [])" "moved st space (covered sz es) st1"
    using move_all [OF mov] by blast
  obtain move' where t1: "ipc_splay_traverse (grow_move space) (Some st) move = Some (Some st1, move')"
      "ist_entries move' = []" "ist_invar move'"
    using traverse_correct [OF e3(4), of "grow_move space" "Some st"] unfolding mv st1(1) by auto
  have sm: "ist_entries small = covered nsize (uncovered sz es)"
    unfolding e2(2) filter_filter by (intro filter_cong refl) auto
  have asc_small: "ascending (ist_entries small)" unfolding sm by (intro ascending_filter asc)
  obtain i where cnt: "visit grow_count (0, 0) (ist_entries small) = ((length (ist_entries small), i), ist_entries small)"
    using count_all [OF asc_small, of 0 0] sizes(2) unfolding sm by auto
  obtain small' where t2: "ipc_splay_traverse grow_count (0, 0) small = Some ((length (ist_entries small), i), small')"
      "ist_entries small' = ist_entries small" "ist_invar small'"
    using traverse_correct [OF e2(4), of grow_count "(0, 0)"] unfolding cnt by auto
  obtain ta x1 where j1: "ipc_splay_tree_join tree small' = (ta, x1)" by fastforce
  have ja: "ist_entries ta = uncovered sz es" "ist_invar ta"
  proof -
    have sep: "\<forall>x \<in> keys (ist_entries small'). \<forall>y \<in> keys (ist_entries tree). x < y"
      unfolding t2(2) sm e1(2) by (auto simp flip: index_less_iff)
    have "uncovered nsize es = uncovered nsize (uncovered sz es)"
      unfolding filter_filter using sizes(3) by (intro filter_cong refl) auto
    moreover have "covered nsize (uncovered sz es) @ uncovered nsize (uncovered sz es) = uncovered sz es"
      using below_append_from [OF ascending_filter [OF asc], of "MACH_PORT_MAKE nsize 0" "\<lambda>x. sz \<le> MACH_PORT_INDEX (fst x)"]
        sizes(4) by (simp add: name_below name_onward del: filter_filter)
    ultimately show "ist_entries ta = uncovered sz es" "ist_invar ta"
      using splay_tree.joining [OF e1(4) t2(3) sep j1] by (simp_all add: t2(2) sm e1(2) del: filter_filter)
  qed
  obtain tb x2 where j2: "ipc_splay_tree_join ta move' = (tb, x2)" by fastforce
  have jb: "ist_entries tb = uncovered sz es" "ist_invar tb"
    using splay_tree.joining [OF ja(2) t1(3) _ j2] t1(2) ja(1) by auto
  obtain tc x3 where j3: "ipc_splay_tree_join tb ignored = (tc, x3)" by fastforce
  have jc: "ist_entries tc = uncovered sz es" "ist_invar tc"
    using splay_tree.joining [OF jb(2) e3(3) _ j3] ig jb(1) by auto
  have "length (ist_entries small) = card (keys (covered nsize (uncovered sz es)))"
    using card_keys [OF asc_small] by (simp add: sm del: filter_filter)
  then have "grow_tree st space osize sz nsize =
      Some (upd_space space (\<lambda>s. s\<lparr>is_tree_small := card (keys (covered nsize (uncovered sz es))), is_tree := tc\<rparr>) st1)"
    using t1(1) t2(1) by (simp add: grow_tree_def sp1 sp2 sp3 j1 j2 j3 del: filter_filter)
  then show ?thesis using st1(2) jc by blast
qed

section \<open>The new free entries\<close>

lemma grow_free_result:
  assumes "grow_free is table free = (table', free')" and "chain ((links table)(0 := free)) 0 fl"
    and "distinct is" and "set is \<inter> set fl = {}" and "set is \<subseteq> {1..<length table}"
  shows "chain ((links table')(0 := free')) 0 (rev (filter (\<lambda>i. ie_bits (table ! i) = 0) is) @ fl) \<and>
    length table' = length table \<and> (\<forall>j. ie_bits (table' ! j) = ie_bits (table ! j) \<and> ie_object (table' ! j) = ie_object (table ! j) \<and>
      ie_index (table' ! j) = ie_index (table ! j)) \<and>
    (\<forall>j. j \<in> set is \<and> ie_bits (table ! j) = 0 \<or> table' ! j = table ! j)"
  using assms
proof (induction "is" arbitrary: table free fl)
  case (Cons i js)
  show ?case
  proof (cases "ie_bits (table ! i) = 0")
    case True
    define tb where "tb = table[i := (table ! i)\<lparr>ie_bits := IE_BITS_GEN_MASK, ie_request := free\<rparr>]"
    have i: "0 < i" "i < length table" "i \<notin> set fl" "i \<notin> set js" using Cons.prems by auto
    have ch: "chain ((links tb)(0 := i)) 0 (i # fl)"
      by (rule chain_push [OF Cons.prems(2)]) (use i in \<open>auto simp: tb_def\<close>)
    have loop: "grow_free js tb i = (table', free')" using Cons.prems(1) True by (simp add: tb_def)
    have bits: "ie_bits (tb ! j) = ie_bits (table ! j)" "ie_object (tb ! j) = ie_object (table ! j)"
        "ie_index (tb ! j) = ie_index (table ! j)" for j
      using True i by (auto simp: tb_def nth_list_update)
    have ih: "chain ((links table')(0 := free')) 0 (rev (filter (\<lambda>i. ie_bits (tb ! i) = 0) js) @ i # fl) \<and>
      length table' = length tb \<and> (\<forall>j. ie_bits (table' ! j) = ie_bits (tb ! j) \<and> ie_object (table' ! j) = ie_object (tb ! j) \<and>
        ie_index (table' ! j) = ie_index (tb ! j)) \<and>
      (\<forall>j. j \<in> set js \<and> ie_bits (tb ! j) = 0 \<or> table' ! j = tb ! j)"
      by (rule Cons.IH [OF loop ch]) (use Cons.prems i in \<open>auto simp: tb_def\<close>)
    have "tb ! j = table ! j \<or> j = i" for j by (auto simp: tb_def nth_list_update)
    then have "\<forall>j. j \<in> set (i # js) \<and> ie_bits (table ! j) = 0 \<or> table' ! j = table ! j"
      using ih True bits(1) by (metis list.set_intros)
    moreover have "length tb = length table" by (simp add: tb_def)
    ultimately show ?thesis using ih True bits by (simp add: fun_upd_def)
  next
    case False
    then show ?thesis using Cons.IH [of table free fl] Cons.prems by auto
  qed
qed simp

lemma hash_cong:
  assumes "length table' = length table" and "\<And>j. ie_index (table' ! j) = ie_index (table ! j)"
    and "\<And>j. ie_object (table' ! j) = ie_object (table ! j)"
  shows "hash_invar table' \<longleftrightarrow> hash_invar table" and "hashed table' = hashed table"
  using assms by (simp_all add: hash_invar_def hashed_def home_def)

text \<open>The last step, as a change of the table that leaves all but the free entries alone.\<close>

lemma grow_free_list:
  assumes fl: "chain (links table) 0 fl" "distinct fl" "set fl \<subseteq> {1..<osize}"
    and old: "\<And>i. i < osize \<Longrightarrow> 0 < i \<Longrightarrow> i \<in> set fl \<longleftrightarrow> IE_BITS_TYPE (ie_bits (table ! i)) = 0"
    and clean: "\<And>i. i < length table \<Longrightarrow> i = 0 \<or> IE_BITS_TYPE (ie_bits (table ! i)) = 0 \<Longrightarrow>
      ie_bits (table ! i) = 0 \<and> ie_object (table ! i) = IO_NULL"
    and size: "0 < osize" "osize \<le> length table"
    and loop: "grow_free (rev [osize..<length table]) table (ie_next (table ! 0)) = (tb, free)"
    and res: "table' = tb[0 := (tb ! 0)\<lparr>ie_request := free\<rparr>]"
  shows "\<exists>fl'. free_list table' fl' {} \<and> length table' = length table \<and>
    (\<forall>j. ie_bits (table' ! j) = ie_bits (table ! j) \<and> ie_object (table' ! j) = ie_object (table ! j) \<and>
      ie_index (table' ! j) = ie_index (table ! j)) \<and>
    (\<forall>j. IE_BITS_TYPE (ie_bits (table ! j)) \<noteq> 0 \<longrightarrow> 0 < j \<longrightarrow> denoted (table' ! j) = denoted (table ! j))"
proof -
  define fl' where "fl' = filter (\<lambda>i. ie_bits (table ! i) = 0) [osize..<length table] @ fl"
  have ch: "chain ((links table)(0 := ie_next (table ! 0))) 0 fl" using fl(1) by (simp add: fun_upd_idem)
  have r: "chain ((links tb)(0 := free)) 0 (rev (filter (\<lambda>i. ie_bits (table ! i) = 0) (rev [osize..<length table])) @ fl) \<and>
    length tb = length table \<and> (\<forall>j. ie_bits (tb ! j) = ie_bits (table ! j) \<and> ie_object (tb ! j) = ie_object (table ! j) \<and>
      ie_index (tb ! j) = ie_index (table ! j)) \<and>
    (\<forall>j. j \<in> set (rev [osize..<length table]) \<and> ie_bits (table ! j) = 0 \<or> tb ! j = table ! j)"
    by (rule grow_free_result [OF loop ch]) (use fl(3) size in auto)
  have len: "length table' = length table" using r by (simp add: res)
  have "tb \<noteq> []" using r size by auto
  then have nth: "table' ! j = (if j = 0 then (tb ! 0)\<lparr>ie_request := free\<rparr> else tb ! j)" for j
    by (auto simp: res nth_list_update)
  have fields: "ie_bits (table' ! j) = ie_bits (table ! j)" "ie_object (table' ! j) = ie_object (table ! j)"
      "ie_index (table' ! j) = ie_index (table ! j)" for j
    using r by (auto simp: nth)
  have "links table' = (links tb)(0 := free)" by (auto simp: nth fun_eq_iff)
  then have "chain (links table') 0 fl'" using r by (simp add: fl'_def rev_filter)
  moreover have "distinct fl'" using fl(2,3) by (auto simp: fl'_def)
  moreover have "set fl' = untyped table'"
  proof (rule set_eqI)
    fix i
    show "i \<in> set fl' \<longleftrightarrow> i \<in> untyped table'"
    proof (cases "i < osize")
      case True
      then show ?thesis using old [of i] fl(3) size len by (auto simp: fl'_def untyped_def fields)
    next
      case False
      then show ?thesis using clean [of i] fl(3) size len by (auto simp: fl'_def untyped_def fields IE_BITS_TYPE_def)
    qed
  qed
  moreover have "\<forall>i \<in> insert 0 (untyped table'). ie_bits (table' ! i) = 0 \<and> ie_object (table' ! i) = IO_NULL"
  proof
    fix i assume "i \<in> insert 0 (untyped table')"
    then have "i < length table" "i = 0 \<or> IE_BITS_TYPE (ie_bits (table ! i)) = 0"
      using size len by (auto simp: untyped_def fields)
    then show "ie_bits (table' ! i) = 0 \<and> ie_object (table' ! i) = IO_NULL" unfolding fields by (rule clean)
  qed
  ultimately have "free_list table' fl' {}" using size len by (auto simp: free_list_def)
  moreover have "denoted (table' ! j) = denoted (table ! j)" if "IE_BITS_TYPE (ie_bits (table ! j)) \<noteq> 0" "0 < j" for j
  proof -
    have "ie_bits (table ! j) \<noteq> 0" using that(1) by (auto simp: IE_BITS_TYPE_def)
    then have "tb ! j = table ! j" using r by blast
    then show ?thesis using that(2) by (simp add: nth)
  qed
  ultimately show ?thesis using len fields by blast
qed

section \<open>Installing the new table\<close>

definition tree_typed :: "'a ipc_state_scheme \<Rightarrow> ipc_space_t \<Rightarrow> bool" where
  "tree_typed st space \<longleftrightarrow> (\<forall>(n, a) \<in> set (tree_entries st space).
     IE_BITS_TYPE (te_bits (st_ite st a)) \<noteq> 0 \<and> te_bits (st_ite st a) AND IE_BITS_COLLISION = 0)"

text \<open>A space at rest: no entry is between the free list and use.\<close>

definition space_settled :: "'a ipc_state_scheme \<Rightarrow> ipc_space_t \<Rightarrow> bool" where
  "space_settled st space \<longleftrightarrow> (\<exists>fl. space_ok st space fl {}) \<and> hash_ok st space \<and> tree_typed st space"

lemma entries_growth:
  assumes "0 < k" and "k < ipc_table_entries_size" and "entries_sizes (k - 1) \<noteq> entries_sizes k"
  shows "entries_sizes (k - 1) < entries_sizes k" and "k + 1 < ipc_table_entries_size"
    and "entries_sizes k \<le> entries_sizes (k + 1)"
proof -
  have eq: "entries_sizes 511 = entries_sizes 510"
    using init_entries_contract(2) [of "replicate ipc_table_entries_size 0"]
    by (simp add: entries_sizes_def ipc_table_entries_size_def)
  then have k: "k \<le> 510" using assms by (cases "k = 511") (auto simp: ipc_table_entries_size_def)
  show "entries_sizes (k - 1) < entries_sizes k"
    using entries_table.increasing [of "k - 1" k] assms(1) k by (simp add: ipc_table_entries_size_def)
  show "k + 1 < ipc_table_entries_size" using k by (simp add: ipc_table_entries_size_def)
  show "entries_sizes k \<le> entries_sizes (k + 1)"
    using entries_table.increasing [of k "k + 1"] eq k by (cases "k = 510") (auto simp: ipc_table_entries_size_def)
qed

text \<open>The copied table, hashed anew.\<close>

lemma grow_rehashed:
  assumes ok: "table_ok s fl busy" and hash: "hash_invar (is_table s)" "hashed (is_table s) = sends (is_table s)"
    and size: "length (is_table s) = osize" "osize < sz"
  shows "\<exists>table. grow_rehash [0..<osize] (grow_copy (is_table s) osize sz) = Some table \<and> length table = sz \<and>
    hash_invar table \<and> hashed table = sends table \<and> sends table = sends (is_table s) \<and>
    (\<forall>i < osize. denoted (table ! i) = denoted (is_table s ! i)) \<and>
    (\<forall>i. osize \<le> i \<and> i < sz \<longrightarrow> ie_bits (table ! i) = 0 \<and> ie_object (table ! i) = IO_NULL)"
proof -
  let ?t = "is_table s" and ?c = "grow_copy (is_table s) osize sz"
  have len: "length ?c = sz" using size by (simp add: grow_copy_length)
  have nth: "?c ! i = (if i < osize then (?t ! i)\<lparr>ie_index := 0\<rparr> else zero_entry)" if "i < sz" for i
    using grow_copy_nth [OF size(1), of sz i] size that by simp
  have "0 < length ?c" using len size by simp
  moreover have "\<forall>i < length ?c. ie_index (?c ! i) = 0" using nth len by (simp add: zero_entry_def)
  ultimately have un: "hash_invar ?c" "hashed ?c = {}" by (rule unhashed_invar)+
  have s: "sends ?c = sends ?t" using nth len size by (auto simp: sends_def zero_entry_def IE_BITS_TYPE_def split: if_splits)
  have zero: "0 \<notin> sends ?t" using table_ok_type_zero [OF ok] by (simp add: sends_def)
  have sub: "sends ?t \<subseteq> set [0..<osize]" using size by (auto simp: sends_def)
  have "inj_on (\<lambda>i. ie_object (?c ! i)) (hashed ?c \<union> sends ?c \<inter> set [0..<osize])"
  proof -
    have "inj_on (\<lambda>i. ie_object (?t ! i)) (sends ?t)" using hash by (simp add: hash_invar_def)
    moreover have "ie_object (?c ! i) = ie_object (?t ! i)" if "i \<in> sends ?t" for i
      using that nth [of i] size by (auto simp: sends_def)
    ultimately show ?thesis using un(2) s by (auto simp: inj_on_def)
  qed
  then have "\<exists>t. grow_rehash [0..<osize] ?c = Some t \<and> hash_invar t \<and> same_entries ?c t \<and>
      hashed t = hashed ?c \<union> sends ?c \<inter> set [0..<osize]"
    by (intro grow_rehash_result) (use un len size s zero in auto)
  then obtain t where t: "grow_rehash [0..<osize] ?c = Some t" "hash_invar t" "same_entries ?c t"
      "hashed t = hashed ?c \<union> sends ?c \<inter> set [0..<osize]" by blast
  have lt: "length t = sz" using same_entries_length [OF t(3)] len by simp
  have st: "sends t = sends ?c" using same_entries_nth(2) [OF t(3)] lt len by (auto simp: sends_def)
  have d: "denoted (t ! i) = denoted (?c ! i)" if "i < sz" for i using same_entries_denoted [OF t(3), of i] that len by simp
  have "denoted (t ! i) = denoted (?t ! i)" if "i < osize" for i using d [of i] nth [of i] that size by (simp add: denoted_def)
  moreover have "ie_bits (t ! i) = 0 \<and> ie_object (t ! i) = IO_NULL" if "osize \<le> i" "i < sz" for i
    using d [of i] nth [of i] that by (simp add: denoted_def zero_entry_def)
  moreover have "hashed t = sends t" using t(4) un(2) s st sub by auto
  ultimately show ?thesis using t(1,2) lt s st by auto
qed

text \<open>The state after the migration from the tree, before the free list is extended.\<close>

definition migrated ::
  "'a ipc_state_scheme \<Rightarrow> ipc_space_t \<Rightarrow> nat \<Rightarrow> nat \<Rightarrow> nat \<Rightarrow> nat \<Rightarrow> 'a ipc_state_scheme \<Rightarrow> bool" where
  "migrated st space osize sz nsize nits st' \<longleftrightarrow>
     (let es = tree_entries st space; s = st_space st space; s' = st_space st' space; t = is_table s'
      in length t = sz \<and> (\<forall>i < osize. denoted (t ! i) = denoted (is_table s ! i)) \<and>
         (\<forall>(n, a) \<in> set (covered sz es). denoted (t ! MACH_PORT_INDEX n) = denoted (te_entry (st_ite st a))) \<and>
         (\<forall>i. osize \<le> i \<and> i < sz \<and> i \<notin> MACH_PORT_INDEX ` keys (covered sz es) \<longrightarrow>
            ie_bits (t ! i) = 0 \<and> ie_object (t ! i) = IO_NULL) \<and>
         hash_invar t \<and> hashed t = sends t \<and> ghash_invar st' \<and>
         ghash_entered st' = ghash_entered st - tree_sends st (covered sz es) \<and> st_ite st' = st_ite st \<and>
         tree_entries st' space = uncovered sz es \<and> ist_invar (is_tree s') \<and> is_tree_total s' = length (uncovered sz es) \<and>
         is_tree_small s' = card (keys (covered nsize (uncovered sz es))) \<and> is_table_next s' = nits \<and>
         is_active s' = is_active s \<and> is_growing s' = is_growing s \<and> hash_count st' space)"

lemma length_covered: "length (covered sz es) + length (uncovered sz es) = length es"
  using sum_length_filter_compl [of "\<lambda>x. MACH_PORT_INDEX (fst x) < sz" es] by (simp add: not_less)

lemma grow_migrate:
  assumes ok: "space_ok st space fl {}" and hash: "hash_ok st space"
    and size: "length (is_table (st_space st space)) = osize" "osize < sz" "sz \<le> nsize" "nsize < 2 ^ 32"
  shows "\<exists>table st2. grow_rehash [0..<osize] (grow_copy (is_table (st_space st space)) osize sz) = Some table \<and>
    (let st1 = upd_space space (\<lambda>s. s\<lparr>is_table := table, is_table_next := nits\<rparr>) st
     in if is_tree_total (st_space st1 space) > 0 then grow_tree st1 space osize sz nsize else Some st1) = Some st2 \<and>
    migrated st space osize sz nsize nits st2"
proof -
  let ?s = "st_space st space" and ?es = "tree_entries st space"
  have tab: "table_ok ?s fl {}" and tree: "tree_ok st space" using ok by (auto simp: space_ok_def)
  note pos = table_okD(1) [OF tab]
  note tok = tree_okD [OF tree pos]
  have h: "hash_invar (is_table ?s)" "hashed (is_table ?s) = sends (is_table ?s)" "ghash_invar st"
      "space_entered st space = tree_sends st ?es" "hash_count st space"
      "\<forall>a \<in> tree_sends st ?es. \<forall>i \<in> sends (is_table ?s). te_object (st_ite st a) \<noteq> ie_object (is_table ?s ! i)"
    using hash unfolding hash_ok_def Let_def by blast+
  obtain table where t: "grow_rehash [0..<osize] (grow_copy (is_table ?s) osize sz) = Some table" "length table = sz"
      "hash_invar table" "hashed table = sends table" "sends table = sends (is_table ?s)"
      "\<forall>i < osize. denoted (table ! i) = denoted (is_table ?s ! i)"
      "\<forall>i. osize \<le> i \<and> i < sz \<longrightarrow> ie_bits (table ! i) = 0 \<and> ie_object (table ! i) = IO_NULL"
    using grow_rehashed [OF tab h(1,2) size(1,2)] by blast
  define st1 where "st1 = upd_space space (\<lambda>s. s\<lparr>is_table := table, is_table_next := nits\<rparr>) st"
  have st1: "is_table (st_space st1 space) = table" "st_ite st1 = st_ite st" "ghash_invar st1" "ghash_entered st1 = ghash_entered st"
      "tree_entries st1 space = ?es" "is_tree (st_space st1 space) = is_tree ?s" "is_tree_total (st_space st1 space) = length ?es"
    using h(3) tok(4) by (simp_all add: st1_def tree_entries_def)
  have keys: "osize \<le> MACH_PORT_INDEX n" if "n \<in> keys ?es" for n using tok(6) [OF that] size(1) by simp
  have asc: "ascending ?es" using splay_tree.entries_ascending [OF tok(1)] by (simp add: tree_entries_def)
  have mov: "movable st1 space (covered sz ?es)"
  proof -
    have names: "distinct (map fst (covered sz ?es))" by (rule ascending_distinct [OF ascending_filter [OF asc]])
    have addrs: "distinct (map snd (covered sz ?es))" using tok(7) by (rule distinct_map_filter)
    have free: "0 < MACH_PORT_INDEX n \<and> MACH_PORT_INDEX n < length table \<and> ie_bits (table ! MACH_PORT_INDEX n) = 0 \<and>
        te_space (st_ite st a) = space" if "(n, a) \<in> set (covered sz ?es)" for n a
    proof -
      have m: "(n, a) \<in> set ?es" "MACH_PORT_INDEX n < sz" using that by auto
      then have "n \<in> keys ?es" by force
      then have "osize \<le> MACH_PORT_INDEX n" by (rule keys)
      then show ?thesis using t(2,7) m tok(8) [OF m(1)] pos size(1) by auto
    qed
    have sub: "tree_sends st1 (covered sz ?es) \<subseteq> tree_sends st ?es" by (auto simp: tree_sends_def st1)
    then have entered: "tree_sends st1 (covered sz ?es) \<subseteq> ghash_entered st"
      using h(4) unfolding space_entered_def by blast
    have objs: "\<forall>a \<in> tree_sends st1 (covered sz ?es). \<forall>i \<in> sends table. te_object (st_ite st a) \<noteq> ie_object (table ! i)"
    proof (intro ballI)
      fix a i assume ai: "a \<in> tree_sends st1 (covered sz ?es)" "i \<in> sends table"
      then have "te_object (st_ite st a) \<noteq> ie_object (is_table ?s ! i)" using h(6) sub t(5) by auto
      moreover have "ie_object (table ! i) = ie_object (is_table ?s ! i)"
        using ai(2) t(6) size(1) unfolding t(5) by (auto simp: sends_def denoted_def)
      ultimately show "te_object (st_ite st a) \<noteq> ie_object (table ! i)" by simp
    qed
    show ?thesis
      unfolding movable_def Let_def st1(1,2,4)
      using t(3,4) st1(3) names addrs free entered objs by blast
  qed
  have "\<exists>m tr. (if is_tree_total (st_space st1 space) > 0 then grow_tree st1 space osize sz nsize else Some st1) =
        Some (upd_space space (\<lambda>s. s\<lparr>is_tree_small := card (keys (covered nsize (uncovered sz ?es))), is_tree := tr\<rparr>) m) \<and>
      moved st1 space (covered sz ?es) m \<and> ist_entries tr = uncovered sz ?es \<and> ist_invar tr"
  proof (cases "is_tree_total (st_space st1 space) > 0")
    case True
    then show ?thesis
      using grow_tree_result [of st1 space ?es osize sz nsize] st1 tok(1) size keys mov by auto
  next
    case False
    then have e: "?es = []" using st1(7) by simp
    have "is_tree_small (st_space st1 space) = 0" using tok(5) e by (simp add: st1_def)
    then have "upd_space space (\<lambda>s. s\<lparr>is_tree_small := card (keys (covered nsize (uncovered sz ?es))),
        is_tree := is_tree (st_space st1 space)\<rparr>) st1 = upd_space space (\<lambda>s. s) st1"
      using e by (intro upd_space_cong ipc_space.equality) simp_all
    moreover have "moved st1 space (covered sz ?es) st1" using moved_Nil mov e by simp
    moreover have "ist_entries (is_tree ?s) = []" using e by (simp add: tree_entries_def)
    ultimately show ?thesis
      using False e st1(6) tok(1) by (intro exI [of _ st1] exI [of _ "is_tree ?s"]) (simp add: upd_space_self)
  qed
  then obtain m tr where m: "(if is_tree_total (st_space st1 space) > 0 then grow_tree st1 space osize sz nsize else Some st1) =
        Some (upd_space space (\<lambda>s. s\<lparr>is_tree_small := card (keys (covered nsize (uncovered sz ?es))), is_tree := tr\<rparr>) m)"
      "moved st1 space (covered sz ?es) m" "ist_entries tr = uncovered sz ?es" "ist_invar tr"
    by blast
  let ?st2 = "upd_space space (\<lambda>s. s\<lparr>is_tree_small := card (keys (covered nsize (uncovered sz ?es))), is_tree := tr\<rparr>) m"
  have idx: "i < osize \<Longrightarrow> i \<notin> MACH_PORT_INDEX ` keys (covered sz ?es)" for i using keys by fastforce
  note mm = m(2) [unfolded moved_def Let_def st1(1,2,4,7) t(2)]
  have f: "st_ite m = st_ite st" "length (is_table (st_space m space)) = sz"
      "\<forall>(n, a) \<in> set (covered sz ?es). denoted (is_table (st_space m space) ! MACH_PORT_INDEX n) = denoted (te_entry (st_ite st a))"
      "\<forall>j < sz. j \<notin> MACH_PORT_INDEX ` keys (covered sz ?es) \<longrightarrow> denoted (is_table (st_space m space) ! j) = denoted (table ! j)"
      "hash_invar (is_table (st_space m space))" "hashed (is_table (st_space m space)) = sends (is_table (st_space m space))"
      "ghash_invar m" "ghash_entered m = ghash_entered st - tree_sends st1 (covered sz ?es)"
      "is_tree_total (st_space m space) = length ?es - length (covered sz ?es)" "is_table_next (st_space m space) = nits"
      "is_active (st_space m space) = is_active ?s" "is_growing (st_space m space) = is_growing ?s"
      "hash_count st1 space \<longrightarrow> hash_count m space"
    using mm by (simp_all only:) (simp_all add: st1_def)
  have old: "\<forall>i < osize. denoted (is_table (st_space m space) ! i) = denoted (is_table ?s ! i)"
    using f(4) idx t(6) size(2) by auto
  have new: "ie_bits (is_table (st_space m space) ! i) = 0 \<and> ie_object (is_table (st_space m space) ! i) = IO_NULL"
    if "osize \<le> i" "i < sz" "i \<notin> MACH_PORT_INDEX ` keys (covered sz ?es)" for i
    using f(4) t(7) that by (auto simp: denoted_def)
  have ts: "tree_sends st1 (covered sz ?es) = tree_sends st (covered sz ?es)" by (simp add: tree_sends_def st1)
  have len: "length ?es - length (covered sz ?es) = length (uncovered sz ?es)" using length_covered [of sz ?es] by simp
  have "hash_count ?st2 space" using f(13) h(5) by (simp add: hash_count_upd_space st1_def)
  then have "migrated st space osize sz nsize nits ?st2"
    unfolding migrated_def Let_def
    using f old new ts len m(3,4) by (simp add: tree_entries_def)
  then show ?thesis using t(1) m(1) by (auto simp: Let_def st1_def)
qed

text \<open>The parts of \<open>migrated\<close>, and what they say of the types in the new table.\<close>

lemma migratedD:
  assumes "migrated st space osize sz nsize nits st'"
  defines "t \<equiv> is_table (st_space st' space)" and "es \<equiv> tree_entries st space"
  shows "length t = sz" and "\<And>i. i < osize \<Longrightarrow> denoted (t ! i) = denoted (is_table (st_space st space) ! i)"
    and "\<And>n a. (n, a) \<in> set es \<Longrightarrow> MACH_PORT_INDEX n < sz \<Longrightarrow> denoted (t ! MACH_PORT_INDEX n) = denoted (te_entry (st_ite st a))"
    and "\<And>i. osize \<le> i \<Longrightarrow> i < sz \<Longrightarrow> i \<notin> MACH_PORT_INDEX ` keys es \<Longrightarrow> ie_bits (t ! i) = 0 \<and> ie_object (t ! i) = IO_NULL"
    and "hash_invar t" and "hashed t = sends t" and "ghash_invar st'"
    and "ghash_entered st' = ghash_entered st - tree_sends st (covered sz es)" and "st_ite st' = st_ite st"
    and "tree_entries st' space = uncovered sz es" and "ist_invar (is_tree (st_space st' space))"
    and "is_tree_total (st_space st' space) = length (uncovered sz es)"
    and "is_tree_small (st_space st' space) = card (keys (covered nsize (uncovered sz es)))"
    and "is_table_next (st_space st' space) = nits"
    and "is_active (st_space st' space) = is_active (st_space st space)"
    and "is_growing (st_space st' space) = is_growing (st_space st space)" and "hash_count st' space"
proof -
  show "\<And>i. osize \<le> i \<Longrightarrow> i < sz \<Longrightarrow> i \<notin> MACH_PORT_INDEX ` keys es \<Longrightarrow> ie_bits (t ! i) = 0 \<and> ie_object (t ! i) = IO_NULL"
    using assms(1) by (simp add: migrated_def Let_def t_def es_def) blast
qed (use assms(1) in \<open>auto simp: migrated_def Let_def t_def es_def\<close>)

lemma migrated_cases:
  assumes mig: "migrated st space osize sz nsize nits st'" and typed: "tree_typed st space"
    and size: "osize \<le> sz" and i: "i < sz"
  shows "i < osize \<and> denoted (is_table (st_space st' space) ! i) = denoted (is_table (st_space st space) ! i) \<or>
    osize \<le> i \<and> (\<exists>n a. (n, a) \<in> set (tree_entries st space) \<and> MACH_PORT_INDEX n = i \<and>
      denoted (is_table (st_space st' space) ! i) = denoted (te_entry (st_ite st a)) \<and>
      IE_BITS_TYPE (ie_bits (is_table (st_space st' space) ! i)) \<noteq> 0 \<and>
      ie_bits (is_table (st_space st' space) ! i) AND IE_BITS_COLLISION = 0) \<or>
    osize \<le> i \<and> i \<notin> MACH_PORT_INDEX ` keys (tree_entries st space) \<and>
      ie_bits (is_table (st_space st' space) ! i) = 0 \<and> ie_object (is_table (st_space st' space) ! i) = IO_NULL"
proof (cases "i < osize")
  case True
  then show ?thesis using migratedD(2) [OF mig] by simp
next
  case old: False
  show ?thesis
  proof (cases "i \<in> MACH_PORT_INDEX ` keys (tree_entries st space)")
    case True
    then obtain n a where na: "(n, a) \<in> set (tree_entries st space)" "MACH_PORT_INDEX n = i" by auto
    then have d: "denoted (is_table (st_space st' space) ! i) = denoted (te_entry (st_ite st a))"
      using migratedD(3) [OF mig, of n a] i by simp
    moreover have "IE_BITS_TYPE (te_bits (st_ite st a)) \<noteq> 0" "te_bits (st_ite st a) AND IE_BITS_COLLISION = 0"
      using typed na(1) by (auto simp: tree_typed_def)
    moreover have "ie_bits (is_table (st_space st' space) ! i) = te_bits (st_ite st a)" using d by (simp add: denoted_def)
    ultimately show ?thesis using na old by auto
  next
    case False
    then show ?thesis using migratedD(4) [OF mig, of i] old i by simp
  qed
qed

lemma migrated_free_list:
  assumes mig: "migrated st space osize sz nsize nits st'" and typed: "tree_typed st space"
    and ok: "table_ok (st_space st space) fl {}" and size: "length (is_table (st_space st space)) = osize" "osize \<le> sz"
    and loop: "grow_free (rev [osize..<sz]) (is_table (st_space st' space)) (ie_next (is_table (st_space st' space) ! 0)) = (tb, free)"
  defines "t \<equiv> is_table (st_space st' space)" and "t' \<equiv> tb[0 := (tb ! 0)\<lparr>ie_request := free\<rparr>]"
  shows "\<exists>fl'. free_list t' fl' {} \<and> length t' = sz \<and>
    (\<forall>j. ie_bits (t' ! j) = ie_bits (t ! j) \<and> ie_object (t' ! j) = ie_object (t ! j) \<and> ie_index (t' ! j) = ie_index (t ! j)) \<and>
    (\<forall>j. IE_BITS_TYPE (ie_bits (t ! j)) \<noteq> 0 \<longrightarrow> 0 < j \<longrightarrow> denoted (t' ! j) = denoted (t ! j))"
proof -
  let ?o = "is_table (st_space st space)"
  note fl = table_okD [OF ok]
  have len: "length t = sz" using migratedD(1) [OF mig] by (simp add: t_def)
  have old: "denoted (t ! i) = denoted (?o ! i)" if "i < osize" for i using migratedD(2) [OF mig that] by (simp add: t_def)
  have sub: "set fl \<subseteq> {1..<osize}" using free_list_less [OF fl(3)] size(1) by fastforce
  have "chain (links t) 0 fl \<longleftrightarrow> chain (links ?o) 0 fl"
  proof (rule chain_cong)
    fix k assume "k \<in> set (0 # fl)"
    then have "k < osize" using sub fl(1) size(1) by auto
    then show "links t k = links ?o k" using old by (simp add: denoted_def)
  qed
  then have ch: "chain (links t) 0 fl" using fl(3) by (simp add: free_list_def)
  have d: "distinct fl" using fl(3) by (simp add: free_list_def)
  have mem: "i \<in> set fl \<longleftrightarrow> IE_BITS_TYPE (ie_bits (t ! i)) = 0" if "i < osize" "0 < i" for i
    using fl(3) old [OF that(1)] that size(1) by (auto simp: free_list_def untyped_def denoted_def)
  have clean: "ie_bits (t ! i) = 0 \<and> ie_object (t ! i) = IO_NULL"
    if i: "i < length t" "i = 0 \<or> IE_BITS_TYPE (ie_bits (t ! i)) = 0" for i
  proof (cases "i < osize")
    case True
    have same: "ie_bits (t ! i) = ie_bits (?o ! i)" "ie_object (t ! i) = ie_object (?o ! i)"
      using old [OF True] by (simp_all add: denoted_def)
    then have "i \<in> insert 0 (untyped ?o)" using i(2) True size(1) by (auto simp: untyped_def)
    then have "ie_bits (?o ! i) = 0 \<and> ie_object (?o ! i) = IO_NULL" using fl(3) unfolding free_list_def by blast
    then show ?thesis using same by simp
  next
    case False
    then have "0 < i" using fl(1) size(1) by auto
    then show ?thesis using migrated_cases [OF mig typed size(2), of i] i len False by (auto simp: t_def)
  qed
  have "0 < osize" using fl(1) size(1) by simp
  then show ?thesis
    using grow_free_list [OF ch d sub mem clean, of tb free t'] loop size(2) len by (simp add: t_def t'_def)
qed

text \<open>A table that differs from the migrated one only in its free entries.\<close>

definition refilled :: "ipc_entry list \<Rightarrow> ipc_entry list \<Rightarrow> bool" where
  "refilled t t' \<longleftrightarrow> length t' = length t \<and>
    (\<forall>j. ie_bits (t' ! j) = ie_bits (t ! j) \<and> ie_object (t' ! j) = ie_object (t ! j) \<and> ie_index (t' ! j) = ie_index (t ! j)) \<and>
    (\<forall>j. IE_BITS_TYPE (ie_bits (t ! j)) \<noteq> 0 \<longrightarrow> 0 < j \<longrightarrow> denoted (t' ! j) = denoted (t ! j))"

lemma tree_sends_split: "tree_sends st es = tree_sends st (covered sz es) \<union> tree_sends st (uncovered sz es)"
proof -
  have "set es = set (covered sz es) \<union> set (uncovered sz es)" by auto
  then have "snd ` set es = snd ` set (covered sz es) \<union> snd ` set (uncovered sz es)" by (metis image_Un)
  then show ?thesis unfolding tree_sends_def by blast
qed

lemma tree_sends_subset: "tree_sends st es \<subseteq> snd ` set es"
  by (auto simp: tree_sends_def)

lemma installed_tree_ok:
  assumes mig: "migrated st space osize sz nsize nits st'" and tree: "tree_ok st space" and pos: "0 < length (is_table (st_space st space))"
    and nsize: "nsize = entries_sizes nits" and ref: "refilled (is_table (st_space st' space)) t'"
  shows "tree_ok (set_table space t' st') space"
proof -
  note tok = tree_okD [OF tree pos]
  note m = migratedD [OF mig]
  let ?st = "set_table space t' st'" and ?es = "uncovered sz (tree_entries st space)"
  have es: "tree_entries ?st space = ?es" using m(10) by (simp add: tree_entries_def)
  have len: "length t' = sz" using ref m(1) by (simp add: refilled_def)
  have "\<forall>n \<in> keys ?es. sz \<le> MACH_PORT_INDEX n \<and> n \<noteq> MACH_PORT_DEAD" using tok(2) by force
  moreover have "distinct (map snd ?es)" using tok(7) by (rule distinct_map_filter)
  moreover have "\<forall>(n, a) \<in> set ?es. te_name (st_ite st a) = n \<and> te_space (st_ite st a) = space" using tok(8) by auto
  moreover have "keys (covered nsize ?es) = {n \<in> keys ?es. MACH_PORT_INDEX n < entries_sizes nits}" by (auto simp: nsize)
  ultimately show ?thesis
    unfolding tree_ok_def Let_def es using m(9,11-14) len by simp
qed

lemma installed_hash_ok:
  assumes mig: "migrated st space osize sz nsize nits st'" and hash: "hash_ok st space" and typed: "tree_typed st space"
    and tree: "tree_ok st space" and size: "length (is_table (st_space st space)) = osize" "0 < osize" "osize \<le> sz"
    and ref: "refilled (is_table (st_space st' space)) t'"
  shows "hash_ok (set_table space t' st') space"
proof -
  note m = migratedD [OF mig]
  let ?st = "set_table space t' st'" and ?all = "tree_entries st space" and ?t = "is_table (st_space st' space)"
  let ?es = "uncovered sz ?all"
  have pos: "0 < length (is_table (st_space st space))" using size by simp
  note tok = tree_okD [OF tree pos]
  have h: "ghash_invar st" "space_entered st space = tree_sends st ?all"
      "\<forall>a \<in> tree_sends st ?all. \<forall>i \<in> sends (is_table (st_space st space)). te_object (st_ite st a) \<noteq> ie_object (is_table (st_space st space) ! i)"
    using hash unfolding hash_ok_def Let_def by blast+
  have eq: "length t' = length ?t" "\<And>j. ie_index (t' ! j) = ie_index (?t ! j)" "\<And>j. ie_object (t' ! j) = ie_object (?t ! j)"
      "\<And>j. ie_bits (t' ! j) = ie_bits (?t ! j)" using ref by (auto simp: refilled_def)
  have table: "hash_invar t'" "hashed t' = sends t'"
    using hash_cong [OF eq(1-3)] m(5,6) eq(1,4) by (simp_all add: sends_def)
  have ts: "tree_sends ?st ?es = tree_sends st ?es" by (simp add: tree_sends_def m(9))
  have disj: "b \<notin> snd ` set (covered sz ?all)" if b: "b \<in> snd ` set ?es" for b
  proof
    assume "b \<in> snd ` set (covered sz ?all)"
    then obtain n where n: "(n, b) \<in> set ?all" "MACH_PORT_INDEX n < sz" by auto
    obtain k where k: "(k, b) \<in> set ?all" "sz \<le> MACH_PORT_INDEX k" using b by auto
    have "te_name (st_ite st b) = n" "te_name (st_ite st b) = k" using tok(8) n(1) k(1) by auto
    then show False using n(2) k(2) by simp
  qed
  have ent: "space_entered ?st space = tree_sends ?st ?es"
  proof -
    have "space_entered ?st space = space_entered st space - tree_sends st (covered sz ?all)"
      using m(8,9) by (auto simp: set_table_def space_entered_def)
    moreover have "tree_sends st ?all = tree_sends st (covered sz ?all) \<union> tree_sends st ?es"
      by (rule tree_sends_split)
    moreover have "tree_sends st (covered sz ?all) \<inter> tree_sends st ?es = {}"
    proof (rule equals0I)
      fix b assume b: "b \<in> tree_sends st (covered sz ?all) \<inter> tree_sends st ?es"
      then have "b \<in> snd ` set (covered sz ?all)" "b \<in> snd ` set ?es" using tree_sends_subset by blast+
      then show False using disj [of b] by simp
    qed
    ultimately show ?thesis unfolding ts h(2) by blast
  qed
  have objs: "te_object (st_ite st b) \<noteq> ie_object (t' ! i)" if b: "b \<in> tree_sends st ?es" and i: "i \<in> sends t'" for b i
  proof -
    have ball: "b \<in> tree_sends st ?all" "b \<in> ghash_entered st" "b \<in> snd ` set ?es"
    proof -
      show "b \<in> tree_sends st ?all" "b \<in> snd ` set ?es" using b by (auto simp: tree_sends_def)
      then show "b \<in> ghash_entered st" using h(2) unfolding space_entered_def by blast
    qed
    have it: "i < sz" "IE_BITS_TYPE (ie_bits (?t ! i)) = MACH_PORT_TYPE_SEND" using i eq m(1) by (auto simp: sends_def)
    from migrated_cases [OF mig typed size(3) it(1)]
    consider "i < osize" "denoted (?t ! i) = denoted (is_table (st_space st space) ! i)"
      | n a where "(n, a) \<in> set ?all" "MACH_PORT_INDEX n = i" "denoted (?t ! i) = denoted (te_entry (st_ite st a))"
      | "ie_bits (?t ! i) = 0" by blast
    then show ?thesis
    proof cases
      case 1
      then have "i \<in> sends (is_table (st_space st space))" using it(2) size(1) by (simp add: sends_def denoted_def)
      then show ?thesis using h(3) ball(1) 1(2) by (auto simp: eq(3) denoted_def)
    next
      case 2
      then have a: "a \<in> tree_sends st ?all" "a \<in> snd ` set (covered sz ?all)" using it by (force simp: tree_sends_def denoted_def)+
      then have "a \<noteq> b" using disj ball(3) by auto
      moreover have "a \<in> ghash_entered st" using a(1) h(2) unfolding space_entered_def by blast
      ultimately have "ghash_key st a \<noteq> ghash_key st b" using h(1) ball(2) by (auto simp: ghash_invar_def inj_on_def)
      moreover have "te_space (st_ite st a) = space" "te_space (st_ite st b) = space"
        using tok(8) 2(1) ball(1) by (auto simp: tree_sends_def)
      ultimately show ?thesis using 2(3) by (auto simp: ghash_key_def eq(3) denoted_def)
    next
      case 3
      then show ?thesis using it(2) by (simp add: IE_BITS_TYPE_def)
    qed
  qed
  have es: "tree_entries ?st space = ?es" using m(10) by (simp add: tree_entries_def)
  have "ghash_invar ?st" using m(7) by (simp add: set_table_def)
  moreover have "st_ite ?st = st_ite st" by (simp add: m(9))
  moreover have "is_table (st_space ?st space) = t'" by simp
  moreover have "hash_count ?st space" using m(17) by (simp add: set_table_def hash_count_upd_space)
  ultimately show ?thesis unfolding hash_ok_def Let_def es using table ent objs ts by simp
qed

lemma installed_caps:
  assumes mig: "migrated st space osize sz nsize nits st'" and typed: "tree_typed st space" and tree: "tree_ok st space"
    and size: "length (is_table (st_space st space)) = osize" "0 < osize" "osize \<le> sz"
    and ref: "refilled (is_table (st_space st' space)) t'" and zero: "IE_BITS_TYPE (ie_bits (is_table (st_space st space) ! 0)) = 0"
  shows "space_caps (set_table space t' st') space name = space_caps st space name"
proof -
  note m = migratedD [OF mig]
  let ?st = "set_table space t' st'" and ?t = "is_table (st_space st' space)" and ?i = "MACH_PORT_INDEX name"
    and ?all = "tree_entries st space"
  have tok: "ist_invar (is_tree (st_space st space))" using tree size by (simp add: tree_okD)
  have asc: "distinct (map fst ?all)"
    using splay_tree.entries_ascending [OF tok] by (simp add: tree_entries_def ascending_distinct)
  have len: "length t' = sz" using ref m(1) by (simp add: refilled_def)
  have bits: "ie_bits (t' ! ?i) = ie_bits (?t ! ?i)" using ref by (simp add: refilled_def)
  have zero': "IE_BITS_TYPE (ie_bits (?t ! 0)) = 0" using m(2) [of 0] zero size(2) by (simp add: denoted_def)
  have new: "space_caps ?st space name = (if IE_BITS_TYPE (ie_bits (?t ! ?i)) \<noteq> 0 then Some (denoted (?t ! ?i)) else None)" if "?i < sz"
  proof (cases "?i = 0")
    case True
    then show ?thesis using caps_in_table [of name ?st space] that len bits zero' by simp
  next
    case False
    then show ?thesis using caps_in_table [of name ?st space] that len bits ref by (simp add: refilled_def)
  qed
  have es: "tree_entries ?st space = uncovered sz ?all" "st_ite ?st = st_ite st"
    using m(9,10) by (simp_all add: tree_entries_def)
  show ?thesis
  proof (cases "?i < sz")
    case True
    from migrated_cases [OF mig typed size(3) True]
    consider "?i < osize" "denoted (?t ! ?i) = denoted (is_table (st_space st space) ! ?i)"
      | n a where "osize \<le> ?i" "(n, a) \<in> set ?all" "MACH_PORT_INDEX n = ?i" "denoted (?t ! ?i) = denoted (te_entry (st_ite st a))"
          "IE_BITS_TYPE (ie_bits (?t ! ?i)) \<noteq> 0"
      | "osize \<le> ?i" "?i \<notin> MACH_PORT_INDEX ` keys ?all" "ie_bits (?t ! ?i) = 0" by blast
    then show ?thesis
    proof cases
      case 1
      then have "ie_bits (?t ! ?i) = ie_bits (is_table (st_space st space) ! ?i)" by (simp add: denoted_def)
      then show ?thesis using new [OF True] caps_in_table [of name st space] 1 size(1) by simp
    next
      case 2
      then have "map_of ?all name = Some a" using asc by (simp add: index_inject)
      then have "space_caps st space name = Some (denoted (te_entry (st_ite st a)))"
        using caps_beyond_table [of name st space] 2(1) size(1) by simp
      then show ?thesis using new [OF True] 2 by simp
    next
      case 3
      then have "map_of ?all name = None" by (metis image_eqI map_of_eq_None_iff)
      then have "space_caps st space name = None" using caps_beyond_table [of name st space] 3(1) size(1) by simp
      then show ?thesis using new [OF True] 3 by (simp add: IE_BITS_TYPE_def)
    qed
  next
    case False
    then show ?thesis
      using caps_beyond_table [of name ?st space] caps_beyond_table [of name st space] len size es
      by (simp add: map_of_filter_key [where P = "\<lambda>n. sz \<le> MACH_PORT_INDEX n"])
  qed
qed

text \<open>The memory of the entries in the tree of a space and in the global hash table.\<close>

definition tree_memory :: "'a ipc_state_scheme \<Rightarrow> ipc_space_t \<Rightarrow> ite_t set" where
  "tree_memory st space = snd ` set (tree_entries st space) \<union> ghash_entered st"

lemma grow_install_result:
  assumes settled: "space_settled st space" and its: "its = is_table_next (st_space st space)"
    and size: "osize = entries_sizes (its - 1)" "sz = entries_sizes its" "nsize = entries_sizes (its + 1)" "osize \<noteq> sz"
  shows "\<exists>st'. grow_install st space (is_table (st_space st space)) osize sz nsize (its + 1) = Some st' \<and>
    space_settled st' space \<and> space_caps st' space = space_caps st space \<and>
    is_table_next (st_space st' space) = its + 1 \<and> is_active (st_space st' space) = is_active (st_space st space) \<and>
    is_growing (st_space st' space) = is_growing (st_space st space) \<and> tree_memory st' space \<subseteq> tree_memory st space"
proof -
  obtain fl where ok: "space_ok st space fl {}" and hash: "hash_ok st space" and typed: "tree_typed st space"
    using settled by (auto simp: space_settled_def)
  have tab: "table_ok (st_space st space) fl {}" and tree: "tree_ok st space" using ok by (auto simp: space_ok_def)
  have k: "0 < its" "its < ipc_table_entries_size" "length (is_table (st_space st space)) = osize"
    using tab by (auto simp: table_ok_def its size)
  have ne: "entries_sizes (its - 1) \<noteq> entries_sizes its" using size by simp
  note g = entries_growth [OF k(1,2) ne]
  have lt: "osize < sz" "sz \<le> nsize" "nsize < 2 ^ 32" using g entries_bound [OF g(2)] by (auto simp: size)
  have pos: "0 < osize" using table_okD(1) [OF tab] k(3) by simp
  obtain table st2 where r: "grow_rehash [0..<osize] (grow_copy (is_table (st_space st space)) osize sz) = Some table"
      "(let st1 = upd_space space (\<lambda>s. s\<lparr>is_table := table, is_table_next := its + 1\<rparr>) st
        in if is_tree_total (st_space st1 space) > 0 then grow_tree st1 space osize sz nsize else Some st1) = Some st2"
      and mig: "migrated st space osize sz nsize (its + 1) st2"
    using grow_migrate [OF ok hash k(3) lt, of "its + 1"] by blast
  note m = migratedD [OF mig]
  let ?t = "is_table (st_space st2 space)"
  obtain tb free where loop: "grow_free (rev [osize..<sz]) ?t (ie_next (?t ! 0)) = (tb, free)" by fastforce
  define t' where "t' = tb[0 := (tb ! 0)\<lparr>ie_request := free\<rparr>]"
  have inst: "grow_install st space (is_table (st_space st space)) osize sz nsize (its + 1) = Some (set_table space t' st2)"
    using r loop by (simp add: grow_install_def Let_def t'_def split del: if_split)
  obtain fl' where fl': "free_list t' fl' {}" "length t' = sz"
      "\<forall>j. ie_bits (t' ! j) = ie_bits (?t ! j) \<and> ie_object (t' ! j) = ie_object (?t ! j) \<and> ie_index (t' ! j) = ie_index (?t ! j)"
      "\<forall>j. IE_BITS_TYPE (ie_bits (?t ! j)) \<noteq> 0 \<longrightarrow> 0 < j \<longrightarrow> denoted (t' ! j) = denoted (?t ! j)"
    using migrated_free_list [OF mig typed tab k(3) less_imp_le [OF lt(1)] loop] unfolding t'_def by blast
  then have ref: "refilled ?t t'" using m(1) by (simp add: refilled_def)
  have col: "ie_bits (t' ! i) AND IE_BITS_COLLISION = 0" if "i < sz" for i
  proof -
    have "ie_bits (is_table (st_space st space) ! i) AND IE_BITS_COLLISION = 0" if "i < osize"
      using tab k(3) that by (simp add: table_ok_def)
    then show ?thesis
      using migrated_cases [OF mig typed less_imp_le [OF lt(1)] that] fl'(3) by (auto simp: denoted_def)
  qed
  have "table_ok (st_space (set_table space t' st2) space) fl' {}"
    using fl'(1,2) col m(14) g(2) by (simp add: table_ok_def size)
  moreover have "tree_ok (set_table space t' st2) space"
    using installed_tree_ok [OF mig tree _ size(3) ref] k(3) pos by simp
  moreover have "hash_ok (set_table space t' st2) space"
    by (rule installed_hash_ok [OF mig hash typed tree k(3) pos less_imp_le [OF lt(1)] ref])
  moreover have "tree_typed (set_table space t' st2) space"
    using typed m(9,10) by (auto simp: tree_typed_def tree_entries_def)
  ultimately have "space_settled (set_table space t' st2) space" by (auto simp: space_settled_def space_ok_def)
  moreover have "IE_BITS_TYPE (ie_bits (is_table (st_space st space) ! 0)) = 0" by (rule table_ok_type_zero [OF tab])
  then have "space_caps (set_table space t' st2) space = space_caps st space"
    using installed_caps [OF mig typed tree k(3) pos less_imp_le [OF lt(1)] ref] by (simp add: fun_eq_iff)
  moreover have "tree_memory (set_table space t' st2) space \<subseteq> tree_memory st space"
    using m(8,10) by (auto simp: tree_memory_def set_table_def tree_entries_def)
  ultimately show ?thesis using inst m(14-16) by simp
qed

end
