(* ===== verification/SpaceFacts.thy ===== *)
theory SpaceFacts
  imports GrowFacts IpcObject PortFacts
begin

text \<open>
  What the operations of \<^verbatim>\<open>ipc/ipc_entry.c\<close> and \<^verbatim>\<open>ipc/ipc_space.c\<close> do to the
  capabilities of a space, with the other threads that run while it is unlocked.
\<close>

section \<open>Fields that do not matter\<close>

definition same_space :: "ipc_space_t \<Rightarrow> 'a ipc_state_scheme \<Rightarrow> 'a ipc_state_scheme \<Rightarrow> bool" where
  "same_space space st st' \<longleftrightarrow>
     (let s = st_space st space; s' = st_space st' space
      in is_table s' = is_table s \<and> is_table_next s' = is_table_next s \<and> is_tree s' = is_tree s \<and>
         is_tree_total s' = is_tree_total s \<and> is_tree_small s' = is_tree_small s \<and> is_tree_hash s' = is_tree_hash s \<and> st_ite st' = st_ite st \<and>
         st_bucket st' = st_bucket st \<and> ipc_hash_global_mask st' = ipc_hash_global_mask st)"

lemma space_cong:
  assumes "same_space space st st'"
  shows "space_ok st' space fl busy \<longleftrightarrow> space_ok st space fl busy" and "hash_ok st' space \<longleftrightarrow> hash_ok st space"
    and "tree_typed st' space \<longleftrightarrow> tree_typed st space"
    and "space_settled st' space \<longleftrightarrow> space_settled st space" and "space_caps st' space = space_caps st space"
proof -
  note s = assms [unfolded same_space_def Let_def]
  have es: "tree_entries st' space = tree_entries st space" using s by (simp add: tree_entries_def)
  have g: "ghash_invar st' = ghash_invar st" "space_entered st' space = space_entered st space"
    using s by (simp_all add: ghash_invar_def space_entered_def ghash_entered_def ghash_key_def [abs_def])
  have "table_ok (st_space st' space) fl busy = table_ok (st_space st space) fl busy" for fl busy
    using s by (simp add: table_ok_def)
  moreover have "tree_ok st' space = tree_ok st space" using s by (simp add: tree_ok_def es Let_def)
  ultimately show ok: "space_ok st' space fl busy \<longleftrightarrow> space_ok st space fl busy" for fl busy by (simp add: space_ok_def)
  show hash: "hash_ok st' space \<longleftrightarrow> hash_ok st space" using s by (simp add: hash_ok_def hash_count_def es g tree_sends_def Let_def)
  show typed: "tree_typed st' space \<longleftrightarrow> tree_typed st space" using s by (simp add: tree_typed_def es)
  show "space_settled st' space \<longleftrightarrow> space_settled st space" by (simp add: space_settled_def ok hash typed)
  have "space_caps st' space name = space_caps st space name" for name
    using caps_in_table [of name st space] caps_in_table [of name st' space]
      caps_beyond_table [of name st space] caps_beyond_table [of name st' space] s
    by (cases "MACH_PORT_INDEX name < length (is_table (st_space st space))") (simp_all add: es)
  then show "space_caps st' space = space_caps st space" by blast
qed

lemma growing_flag [simp]:
  "space_settled (upd_space space (\<lambda>s. s\<lparr>is_growing := b\<rparr>) st) space \<longleftrightarrow> space_settled st space"
  "space_caps (upd_space space (\<lambda>s. s\<lparr>is_growing := b\<rparr>) st) space = space_caps st space"
  by (rule space_cong, simp add: same_space_def upd_space_def)+

section \<open>Growing the table while other threads run\<close>

text \<open>
  \<open>Q\<close> is what the other threads keep of the capabilities. They keep the invariant too, and while the
  space is marked as growing they do not replace its table.
\<close>

definition sound :: "ipc_space_t \<Rightarrow> ((mach_port_t \<rightharpoonup> ipc_entry_bits_t \<times> ipc_object_t \<times> nat) \<Rightarrow> bool) \<Rightarrow> 'a ipc_state_scheme \<Rightarrow> bool" where
  "sound space Q st \<longleftrightarrow> (is_active (st_space st space) \<longrightarrow> space_settled st space \<and> Q (space_caps st space))"

definition keeps_sound ::
  "ipc_space_t \<Rightarrow> ((mach_port_t \<rightharpoonup> ipc_entry_bits_t \<times> ipc_object_t \<times> nat) \<Rightarrow> bool) \<Rightarrow> ('a ipc_state_scheme \<Rightarrow> 'a ipc_state_scheme) \<Rightarrow> bool" where
  "keeps_sound space Q f \<longleftrightarrow> (\<forall>st. sound space Q st \<longrightarrow> sound space Q (f st) \<and>
     (is_growing (st_space st space) \<and> is_active (st_space (f st) space) \<longrightarrow>
        is_table_next (st_space (f st) space) = is_table_next (st_space st space)))"

lemma grow_table_sound:
  assumes "sound space Q st" and "is_active (st_space st space)"
    and "\<And>w. w \<in> set ws \<Longrightarrow> keeps_sound space Q (win_other w) \<and> keeps_sound space Q (win_freed w)"
    and "ipc_table_entries_size \<le> length ws + is_table_next (st_space st space)"
  shows "\<exists>kr st' ws'. ipc_entry_grow_table ws st space = Some (kr, st', ws') \<and> sound space Q st' \<and> set ws' \<subseteq> set ws \<and>
    kr \<in> {KERN_SUCCESS, KERN_NO_SPACE, KERN_RESOURCE_SHORTAGE}"
  using assms
proof (induction ws arbitrary: st)
  case Nil
  then show ?case by (auto simp: sound_def space_settled_def space_ok_def table_ok_def)
next
  case (Cons w ws)
  let ?s = "st_space st space"
  let ?its = "is_table_next ?s"
  let ?osize = "entries_sizes (?its - 1)" and ?sz = "entries_sizes ?its" and ?nsize = "entries_sizes (?its + 1)"
  have w: "\<And>st. sound space Q st \<Longrightarrow> sound space Q (win_other w st)" "\<And>st. sound space Q st \<Longrightarrow> sound space Q (win_freed w st)"
      "\<And>st. sound space Q st \<Longrightarrow> is_growing (st_space st space) \<Longrightarrow> is_active (st_space (win_other w st) space) \<Longrightarrow>
        is_table_next (st_space (win_other w st) space) = is_table_next (st_space st space)"
    using Cons.prems(3) [of w] by (auto simp: keeps_sound_def)
  have ws: "\<And>w. w \<in> set ws \<Longrightarrow> keeps_sound space Q (win_other w) \<and> keeps_sound space Q (win_freed w)"
    using Cons.prems(3) by simp
  define st1 where "st1 = upd_space space (\<lambda>s. s\<lparr>is_growing := True\<rparr>) st"
  define st2 where "st2 = upd_space space (\<lambda>s. s\<lparr>is_growing := False\<rparr>) (win_other w st1)"
  have s1: "sound space Q st1" "is_growing (st_space st1 space)" "is_table_next (st_space st1 space) = ?its"
    using Cons.prems(1) by (simp_all add: st1_def sound_def)
  have s2: "sound space Q st2" using w(1) [OF s1(1)] by (simp add: st2_def sound_def)
  show ?case
  proof (cases "is_growing ?s \<or> ?osize = ?sz \<or> \<not> win_table w \<or> \<not> is_active (st_space st2 space)")
    case True
    then show ?thesis
      using w(1) [OF Cons.prems(1)] Cons.prems(1) s2 w(2) [OF s2] by (auto simp: Let_def st1_def st2_def)
  next
    case False
    then have act: "is_active (st_space st2 space)" by simp
    then have set2: "space_settled st2 space" "Q (space_caps st2 space)" using s2 by (auto simp: sound_def)
    have next2: "?its = is_table_next (st_space st2 space)"
      using w(3) [OF s1(1,2)] act s1(3) by (simp add: st2_def)
    obtain st3 where st3: "grow_install st2 space (is_table (st_space st2 space)) ?osize ?sz ?nsize (?its + 1) = Some st3"
        "space_settled st3 space" "space_caps st3 space = space_caps st2 space"
      using grow_install_result [OF set2(1) next2 refl refl refl] False by blast
    then have s3: "sound space Q st3" using set2(2) by (simp add: sound_def)
    define st4 where "st4 = win_freed w st3"
    have s4: "sound space Q st4" using w(2) [OF s3] by (simp add: st4_def)
    have step: "ipc_entry_grow_table (w # ws) st space =
        (let s = st_space st4 space
         in if \<not> is_active s \<or> is_table_next s \<noteq> ?its + 1 then Some (KERN_SUCCESS, st4, ws)
            else if is_tree_small s > 0 \<and> (?nsize - ?sz) * sizeof_ipc_entry < is_tree_small s * sizeof_ipc_tree_entry
            then ipc_entry_grow_table ws st4 space else Some (KERN_SUCCESS, st4, ws))"
      using False st3(1) by (simp add: Let_def st1_def st2_def st4_def)
    show ?thesis
    proof (cases "is_active (st_space st4 space) \<and> is_table_next (st_space st4 space) = ?its + 1")
      case True
      then show ?thesis
        using Cons.IH [OF s4 _ ws] Cons.prems(4) s4 by (auto simp: step Let_def simp del: ipc_entry_grow_table.simps)
    next
      case False
      then show ?thesis using s4 by (auto simp: step Let_def simp del: ipc_entry_grow_table.simps)
    qed
  qed
qed

section \<open>Growing the table with nobody else about\<close>

definition quiet :: "'a window \<Rightarrow> bool" where
  "quiet w \<longleftrightarrow> win_table w \<and> win_ite w \<noteq> 0 \<and> (\<forall>st. win_other w st = st) \<and> (\<forall>st. win_freed w st = st)"

definition at_rest :: "'a ipc_state_scheme \<Rightarrow> ipc_space_t \<Rightarrow> bool" where
  "at_rest st space \<longleftrightarrow> space_settled st space \<and> is_active (st_space st space) \<and> \<not> is_growing (st_space st space)"

definition largest_table :: "ipc_space \<Rightarrow> bool" where
  "largest_table s \<longleftrightarrow> entries_sizes (is_table_next s - 1) = entries_sizes (is_table_next s)"

lemma small_not_largest:
  assumes "space_settled st space" and "0 < is_tree_small (st_space st space)"
  shows "\<not> largest_table (st_space st space)"
proof
  assume l: "largest_table (st_space st space)"
  obtain fl where ok: "table_ok (st_space st space) fl {}" "tree_ok st space"
    using assms(1) by (auto simp: space_settled_def space_ok_def)
  have len: "length (is_table (st_space st space)) = entries_sizes (is_table_next (st_space st space))"
    using ok(1) l by (simp add: table_ok_def largest_table_def)
  have "{n \<in> keys (tree_entries st space). MACH_PORT_INDEX n < entries_sizes (is_table_next (st_space st space))} = {}"
    using tree_okD(6) [OF ok(2) table_okD(1) [OF ok(1)]] len by fastforce
  then show False using tree_okD(5) [OF ok(2) table_okD(1) [OF ok(1)]] assms(2) by (simp only: card.empty)
qed

lemma grow_table_quiet:
  assumes "at_rest st space" and "\<And>w. w \<in> set ws \<Longrightarrow> quiet w"
    and "ipc_table_entries_size \<le> length ws + is_table_next (st_space st space)"
    and "\<not> largest_table (st_space st space)"
  shows "\<exists>st' ws'. ipc_entry_grow_table ws st space = Some (KERN_SUCCESS, st', ws') \<and> at_rest st' space \<and>
    space_caps st' space = space_caps st space \<and> set ws' \<subseteq> set ws \<and>
    is_table_next (st_space st space) < is_table_next (st_space st' space) \<and>
    length ws' + is_table_next (st_space st' space) = length ws + is_table_next (st_space st space) \<and>
    tree_memory st' space \<subseteq> tree_memory st space"
  using assms
proof (induction ws arbitrary: st)
  case Nil
  then show ?case by (auto simp: at_rest_def space_settled_def space_ok_def table_ok_def)
next
  case (Cons w ws)
  let ?s = "st_space st space"
  let ?its = "is_table_next ?s"
  let ?osize = "entries_sizes (?its - 1)" and ?sz = "entries_sizes ?its" and ?nsize = "entries_sizes (?its + 1)"
  have w: "win_table w" "\<And>st. win_other w st = st" "\<And>st. win_freed w st = st" using Cons.prems(2) [of w] by (auto simp: quiet_def)
  have rest: "space_settled st space" "is_active ?s" "\<not> is_growing ?s" using Cons.prems(1) by (auto simp: at_rest_def)
  define st2 where "st2 = upd_space space (\<lambda>s. s\<lparr>is_growing := False\<rparr>) (upd_space space (\<lambda>s. s\<lparr>is_growing := True\<rparr>) st)"
  have st2: "space_settled st2 space" "space_caps st2 space = space_caps st space" "is_active (st_space st2 space)"
      "\<not> is_growing (st_space st2 space)" "?its = is_table_next (st_space st2 space)" "tree_memory st2 space = tree_memory st space"
    using rest by (simp_all add: st2_def tree_memory_def tree_entries_def)
  have ne: "?osize \<noteq> ?sz" using Cons.prems(4) by (simp add: largest_table_def)
  obtain st3 where st3: "grow_install st2 space (is_table (st_space st2 space)) ?osize ?sz ?nsize (?its + 1) = Some st3"
      "space_settled st3 space" "space_caps st3 space = space_caps st2 space" "is_table_next (st_space st3 space) = ?its + 1"
      "is_active (st_space st3 space) = is_active (st_space st2 space)" "is_growing (st_space st3 space) = is_growing (st_space st2 space)"
      "tree_memory st3 space \<subseteq> tree_memory st2 space"
    using grow_install_result [OF st2(1,5) refl refl refl ne] by blast
  have rest3: "at_rest st3 space" using st3 st2 by (simp add: at_rest_def)
  let ?more = "is_tree_small (st_space st3 space) > 0 \<and>
      (?nsize - ?sz) * sizeof_ipc_entry < is_tree_small (st_space st3 space) * sizeof_ipc_tree_entry"
  have step: "ipc_entry_grow_table (w # ws) st space =
      (if ?more then ipc_entry_grow_table ws st3 space else Some (KERN_SUCCESS, st3, ws))"
    using rest ne st3(1,4,5) st2(3) w by (simp add: Let_def st2_def)
  show ?case
  proof (cases ?more)
    case True
    then have "\<not> largest_table (st_space st3 space)" using small_not_largest [OF st3(2)] by simp
    then obtain st' ws' where r: "ipc_entry_grow_table ws st3 space = Some (KERN_SUCCESS, st', ws')" "at_rest st' space"
        "space_caps st' space = space_caps st3 space" "set ws' \<subseteq> set ws" "is_table_next (st_space st3 space) < is_table_next (st_space st' space)"
        "length ws' + is_table_next (st_space st' space) = length ws + is_table_next (st_space st3 space)"
        "tree_memory st' space \<subseteq> tree_memory st3 space"
      using Cons.IH [OF rest3] Cons.prems(2,3) st3(4) by auto
    have "set ws' \<subseteq> set (w # ws)" "tree_memory st' space \<subseteq> tree_memory st space" using r(4,7) st3(7) st2(6) by auto
    then show ?thesis using True r st3(3,4) st2(2) by (simp add: step del: ipc_entry_grow_table.simps)
  next
    case False
    then show ?thesis using rest3 st3(3,4,7) st2(2,6) by (auto simp: step simp del: ipc_entry_grow_table.simps)
  qed
qed

section \<open>Allocating an entry\<close>

lemma get_hash_ok:
  assumes ok: "space_ok st space fl busy" and hash: "hash_ok st space" and typed: "tree_typed st space"
    and g: "ipc_entry_get st space = (r, st')"
  shows "hash_ok st' space \<and> tree_typed st' space \<and> is_active (st_space st' space) = is_active (st_space st space) \<and>
    is_growing (st_space st' space) = is_growing (st_space st space)"
proof -
  let ?t = "is_table (st_space st space)"
  let ?k = "ie_next (?t ! 0)"
  show ?thesis
  proof (cases "?k = 0")
    case True
    then show ?thesis using g hash typed by (simp add: ipc_entry_get_def Let_def)
  next
    case False
    define t1 where "t1 = ?t[0 := (?t ! 0)\<lparr>ie_request := ie_next (?t ! ?k)\<rparr>]"
    define t2 where "t2 = t1[?k := (t1 ! ?k)\<lparr>ie_bits := ie_bits (t1 ! ?k) + IE_BITS_GEN_ONE, ie_request := 0\<rparr>]"
    have pos: "?t \<noteq> []" using table_okD(1) ok by (auto simp: space_ok_def)
    have st': "st' = set_table space t2 st"
      using g False pos by (auto simp: ipc_entry_get_def Let_def t1_def t2_def nth_list_update)
    have len: "length t2 = length ?t" by (simp add: t1_def t2_def)
    have fl: "free_list ?t fl busy" using table_okD(3) ok by (auto simp: space_ok_def)
    then have "?k \<in> set fl" using False by (cases fl) (auto simp: free_list_def chain_def)
    then have k: "?k < length ?t" using free_list_less [OF fl] by simp
    have nth: "t2 ! j = (if j = 0 then (?t ! 0)\<lparr>ie_request := ie_next (?t ! ?k)\<rparr>
        else if j = ?k then (?t ! ?k)\<lparr>ie_request := 0\<rparr> else ?t ! j)" for j
      using k pos False by (auto simp: t1_def t2_def nth_list_update)
    have same: "ie_index (t2 ! j) = ie_index (?t ! j)" "ie_object (t2 ! j) = ie_object (?t ! j)" "ie_bits (t2 ! j) = ie_bits (?t ! j)" for j
      unfolding nth by simp_all
    have h: "hash_invar t2 = hash_invar ?t" "hashed t2 = hashed ?t" by (rule hash_cong; simp add: len same)+
    have s: "sends t2 = sends ?t" by (simp add: sends_def len same)
    have es: "tree_entries st' space = tree_entries st space" by (simp add: st' tree_entries_def)
    have gh: "ghash_invar st' = ghash_invar st" "space_entered st' space = space_entered st space"
        "hash_count st' space = hash_count st space"
      by (simp_all add: st' set_table_def hash_count_upd_space)
    have "hash_ok st' space"
      using hash h s by (simp add: hash_ok_def Let_def es gh tree_sends_def) (simp add: st' same)
    moreover have "tree_typed st' space" using typed by (simp add: tree_typed_def es) (simp add: st')
    ultimately show ?thesis by (simp add: st')
  qed
qed

text \<open>What an allocation gives: an entry that holds nothing yet, under a name that denotes nothing.\<close>

definition fresh_entry :: "'a ipc_state_scheme \<Rightarrow> ipc_space_t \<Rightarrow> mach_port_t \<Rightarrow> ipc_entry_t \<Rightarrow> bool" where
  "fresh_entry st space name entry \<longleftrightarrow>
     (\<exists>k fl. entry = Table k \<and> name = of_nat k \<and> MACH_PORT_VALID name \<and> MACH_PORT_INDEX name = k \<and> 0 < k \<and>
        k < length (is_table (st_space st space)) \<and> k \<notin> set fl \<and> space_ok st space fl {k} \<and>
        hash_ok st space \<and> tree_typed st space \<and> is_active (st_space st space) \<and> \<not> is_growing (st_space st space) \<and>
        ie_bits (get_entry st space entry) = 0 \<and> ie_object (get_entry st space entry) = IO_NULL \<and>
        ie_request (get_entry st space entry) = 0 \<and> space_caps st space name = None)"

lemma get_fresh:
  assumes rest: "at_rest st space" and g: "ipc_entry_get st space = (Inr (name, entry), st')"
  shows "fresh_entry st' space name entry" and "space_caps st' space = space_caps st space"
proof -
  obtain fl where ok: "space_ok st space fl {}" "hash_ok st space" "tree_typed st space"
      and act: "is_active (st_space st space)" "\<not> is_growing (st_space st space)"
    using rest by (auto simp: at_rest_def space_settled_def)
  note r = entry_get_result [OF ok(1) g]
  obtain k fl' where fl: "fl = k # fl'" using r by (cases fl) auto
  have k: "name = of_nat k" "entry = Table k" "space_ok st' space fl' {k}" "space_caps st' space = space_caps st space"
      "space_caps st space name = None" "MACH_PORT_VALID name" "MACH_PORT_INDEX name = k" "k < length (is_table (st_space st' space))"
      "ie_bits (get_entry st' space (Table k)) = 0" "ie_object (get_entry st' space (Table k)) = IO_NULL"
    using r fl by auto
  have req: "ie_request (get_entry st' space (Table k)) = 0"
    using g k(2,8) by (auto simp: ipc_entry_get_def Let_def split: if_splits)
  have "free_list (is_table (st_space st space)) fl {}" using table_okD(3) ok(1) by (auto simp: space_ok_def)
  then have "0 < k" "k \<notin> set fl'"
    using free_list_less [of _ fl "{}" k] fl by (auto simp: free_list_def)
  then show "fresh_entry st' space name entry" "space_caps st' space = space_caps st space"
    using k req get_hash_ok [OF ok g] act by (auto simp: fresh_entry_def)
qed

lemma get_full:
  assumes rest: "at_rest st space" and g: "ipc_entry_get st space = (Inl kr, st')"
  shows "kr = KERN_NO_SPACE \<and> st' = st"
proof -
  obtain fl where ok: "space_ok st space fl {}" using rest by (auto simp: at_rest_def space_settled_def)
  show ?thesis using entry_get_result [OF ok g] by (cases fl) auto
qed

lemma alloc_quiet:
  assumes "at_rest st space" and "\<And>w. w \<in> set ws \<Longrightarrow> quiet w"
    and "ipc_table_entries_size \<le> length ws + is_table_next (st_space st space)"
  shows "\<exists>r st' ws'. ipc_entry_alloc ws st space = Some (r, st', ws') \<and> space_caps st' space = space_caps st space \<and>
    (case r of Inr (name, entry) \<Rightarrow> fresh_entry st' space name entry
     | Inl kr \<Rightarrow> kr = KERN_NO_SPACE \<and> at_rest st' space \<and> largest_table (st_space st' space))"
  using assms
proof (induction ws st space rule: ipc_entry_alloc.induct)
  case (1 ws st space)
  obtain r st1 where g: "ipc_entry_get st space = (r, st1)" by fastforce
  have act: "is_active (st_space st space)" using "1.prems"(1) by (simp add: at_rest_def)
  show ?case
  proof (cases r)
    case (Inr x)
    then obtain name entry where r: "r = Inr (name, entry)" by (cases x) auto
    then show ?thesis
      using get_fresh [OF "1.prems"(1)] g act by (subst ipc_entry_alloc.simps) auto
  next
    case (Inl kr)
    have full: "kr = KERN_NO_SPACE" "st1 = st" using get_full [OF "1.prems"(1)] g Inl by auto
    show ?thesis
    proof (cases "largest_table (st_space st space)")
      case True
      obtain w ws' where ws: "ws = w # ws'"
        using "1.prems"(1,3) by (cases ws) (auto simp: at_rest_def space_settled_def space_ok_def table_ok_def)
      have "ipc_entry_grow_table ws st space = Some (KERN_NO_SPACE, st, ws')"
        using True "1.prems"(1) by (simp add: ws Let_def largest_table_def at_rest_def)
      then show ?thesis using True act g Inl full "1.prems"(1) by (subst ipc_entry_alloc.simps) simp
    next
      case False
      obtain st2 ws' where grow: "ipc_entry_grow_table ws st space = Some (KERN_SUCCESS, st2, ws')" "at_rest st2 space"
          "space_caps st2 space = space_caps st space" "set ws' \<subseteq> set ws"
          "length ws' + is_table_next (st_space st2 space) = length ws + is_table_next (st_space st space)"
        using grow_table_quiet [OF "1.prems" False] by blast
      have "\<exists>r st' ws''. ipc_entry_alloc ws' st2 space = Some (r, st', ws'') \<and> space_caps st' space = space_caps st2 space \<and>
          (case r of Inr (name, entry) \<Rightarrow> fresh_entry st' space name entry
           | Inl kr \<Rightarrow> kr = KERN_NO_SPACE \<and> at_rest st' space \<and> largest_table (st_space st' space))"
        by (rule "1.IH" [OF _ g [symmetric] Inl _ refl refl]) (use act grow full "1.prems"(2,3) in auto)
      moreover have "ipc_entry_alloc ws st space = ipc_entry_alloc ws' st2 space"
        using act g Inl full grow(1) by (subst ipc_entry_alloc.simps) simp
      ultimately show ?thesis using grow(3) by simp
    qed
  qed
qed

section \<open>A new space\<close>

lemma new_table_nth:
  assumes "i < n"
  shows "new_table n ! i = zero_entry\<lparr>ie_request := if Suc i < n then Suc i else 0\<rparr>"
proof -
  have "Suc i < n \<longleftrightarrow> i \<noteq> n - 1" using assms by auto
  then show ?thesis using assms by (simp add: new_table_def Let_def nth_list_update zero_entry_def)
qed

lemma new_table_length [simp]: "length (new_table n) = n"
  by (simp add: new_table_def Let_def)

lemma new_table_path: "i + k < n \<Longrightarrow> path (links (new_table n)) i [Suc i..<Suc (i + k)]"
proof (induction k arbitrary: i)
  case (Suc k)
  have "[Suc i..<Suc (i + Suc k)] = Suc i # [Suc (Suc i)..<Suc (Suc i + k)]" by (simp add: upt_conv_Cons)
  then show ?case using Suc.IH [of "Suc i"] Suc.prems by (simp add: new_table_nth)
qed simp

lemma new_table_free_list:
  assumes "0 < n"
  shows "free_list (new_table n) [1..<n] {}"
proof -
  have "path (links (new_table n)) 0 [1..<n]" using new_table_path [of 0 "n - 1" n] assms by simp
  moreover have "last (0 # [1..<n]) = n - 1" using assms by (cases "n = 1") auto
  ultimately have "chain (links (new_table n)) 0 [1..<n]" using assms by (simp add: chain_def new_table_nth)
  moreover have "untyped (new_table n) = {1..<n}" by (auto simp: untyped_def new_table_nth zero_entry_def IE_BITS_TYPE_def)
  moreover have "new_table n \<noteq> []" using assms new_table_length [of n] by force
  ultimately show ?thesis using assms by (auto simp: free_list_def new_table_nth zero_entry_def)
qed

lemma new_space_settled:
  assumes size: "initial + 1 < ipc_table_entries_size" and g: "ghash_invar st"
    and s: "is_table (st_space st space) = new_table (entries_sizes initial)" "is_table_next (st_space st space) = initial + 1"
      "is_tree (st_space st space) = ipc_splay_tree_init tr" "is_tree_total (st_space st space) = 0" "is_tree_small (st_space st space) = 0"
      "is_tree_hash (st_space st space) = 0" "space_entered st space = {}"
  shows "space_settled st space" and "space_caps st space = Map.empty"
proof -
  let ?n = "entries_sizes initial"
  have n: "0 < ?n" using entries_bound [of initial] size by simp
  have es: "tree_entries st space = []" using s(3) by (simp add: tree_entries_def init_correct)
  have t: "hash_invar (new_table ?n)" "hashed (new_table ?n) = {}"
    by (rule unhashed_invar; simp add: n new_table_nth zero_entry_def)+
  have "sends (new_table ?n) = {}" by (auto simp: sends_def new_table_nth zero_entry_def IE_BITS_TYPE_def)
  then have "hash_ok st space" using t g by (simp add: hash_ok_def hash_count_def Let_def es s tree_sends_def)
  moreover have "table_ok (st_space st space) [1..<?n] {}"
    using new_table_free_list [OF n] size by (simp add: table_ok_def s new_table_nth zero_entry_def)
  moreover have "tree_ok st space" by (simp add: tree_ok_def Let_def es s init_correct)
  moreover have "tree_typed st space" by (simp add: tree_typed_def es)
  ultimately show "space_settled st space" by (auto simp: space_settled_def space_ok_def)
  have "space_caps st space name = None" for name
    using caps_in_table [of name st space] caps_beyond_table [of name st space]
    by (cases "MACH_PORT_INDEX name < ?n") (simp_all add: s es new_table_nth zero_entry_def IE_BITS_TYPE_def)
  then show "space_caps st space = Map.empty" by blast
qed

section \<open>Properties of the operations on names\<close>

text \<open>A kernel with one space at address \<open>0x1000\<close>, whose table has the first size, and 512 quiet windows.\<close>

definition one_space :: ipc_kernel where
  "one_space = upd_space 0x1000
     (\<lambda>s. s\<lparr>is_references := 2, is_active := True, is_growing := False, is_table := new_table (entries_sizes 0),
            is_table_next := 1, is_tree := ipc_splay_tree_init (is_tree s), is_tree_total := 0, is_tree_small := 0\<rparr>) boot_kernel"

definition quiet_window :: kernel_window where
  "quiet_window = \<lparr>win_table = True, win_ite = 0x3000, win_other = (\<lambda>st. st), win_freed = (\<lambda>st. st)\<rparr>"

lemma one_space_rest: "at_rest one_space 0x1000" and one_space_caps: "space_caps one_space 0x1000 = Map.empty"
proof -
  have "ghash_invar one_space"
    by (simp add: one_space_def boot_kernel_def ghash_invar_def ghash_entered_def)
  then have s: "space_settled one_space 0x1000" "space_caps one_space 0x1000 = Map.empty"
    by (rule new_space_settled [of 0 one_space "0x1000" "is_tree boot_space", rotated];
        simp add: one_space_def boot_kernel_def boot_space_def ipc_table_entries_size_def space_entered_def ghash_entered_def)+
  then show "at_rest one_space 0x1000" by (simp add: at_rest_def one_space_def)
  show "space_caps one_space 0x1000 = Map.empty" by (rule s(2))
qed

lemma quiet_windows: "w \<in> set (replicate n quiet_window) \<Longrightarrow> quiet w"
  by (auto simp: quiet_window_def quiet_def)

text \<open>A search reshapes the tree and changes nothing else.\<close>

lemma retree_settled:
  assumes "space_settled st space" and t: "ist_entries t = tree_entries st space" "ist_invar t"
  shows "space_settled (set_tree space t st) space"
proof -
  obtain fl where ok: "space_ok st space fl {}" "hash_ok st space" "tree_typed st space"
    using assms(1) by (auto simp: space_settled_def)
  note re = retree [OF t]
  have "hash_ok (set_tree space t st) space"
    using ok(2) by (simp add: hash_ok_def re(4) Let_def) (simp add: set_tree_def tree_sends_def hash_count_def)
  moreover have "tree_typed (set_tree space t st) space" using ok(3) by (simp add: tree_typed_def re(4))
  ultimately show ?thesis using re(3) [OF ok(1)] by (auto simp: space_settled_def)
qed

lemma lookup_settled:
  assumes "space_settled st space" and "ipc_entry_lookup st space name = (r, st')"
  obtains t where "r = space_names st space name" and "st' = set_tree space t st"
    and "ist_entries t = tree_entries st space" and "ist_invar t" and "space_settled st' space"
proof -
  obtain fl where "space_ok st space fl {}" using assms(1) by (auto simp: space_settled_def)
  from entry_lookup_result [OF this assms(2)] show thesis using that retree_settled [OF assms(1)] by blast
qed

text \<open>
  C8. \<^verbatim>\<open>ipc_entry_lookup\<close> returns the entry that the name denotes in the space, from the
  table or from the tree, and no entry for a name that denotes nothing; whatever the search does to the
  shape of the tree, every name denotes the same capability as before and the invariant of the space
  still holds.
\<close>

theorem entry_lookup_denotes:
  assumes "space_settled st space" and "ipc_entry_lookup st space name = (r, st')"
  shows "map_option (\<lambda>entry. denoted (get_entry st' space entry)) r = space_caps st space name \<and>
    space_caps st' space = space_caps st space \<and> space_settled st' space"
proof -
  obtain t where r: "r = space_names st space name" "st' = set_tree space t st" "ist_entries t = tree_entries st space" "ist_invar t"
      "space_settled st' space"
    using lookup_settled [OF assms] by blast
  then show ?thesis using retree(1,2) [OF r(3,4)] by (simp add: space_caps_def fun_eq_iff)
qed

theorem entry_lookup_denotes_witness:
  "\<exists>r st'. ipc_entry_lookup one_space 0x1000 7 = (r, st') \<and> r = None \<and> space_settled st' 0x1000"
proof -
  obtain r st' where l: "ipc_entry_lookup one_space 0x1000 7 = (r, st')" by fastforce
  have s: "space_settled one_space 0x1000" using one_space_rest by (simp add: at_rest_def)
  show ?thesis using entry_lookup_denotes [OF s l] l one_space_caps by simp
qed

text \<open>
  C9. Growing the table of a space changes no capability. The space is unlocked while the new table is
  allocated and while the old one is freed; whatever property \<open>Q\<close> of the capabilities the other
  threads preserve then, \<^verbatim>\<open>ipc_entry_grow_table\<close> preserves, together with the invariant of a
  space that is still active, provided that they do not replace the table of a space marked as growing.
  It returns: each round makes the table larger, so it needs no more windows than there are sizes left.
\<close>

theorem grow_table_preserves:
  assumes "sound space Q st" and "is_active (st_space st space)"
    and "\<And>w. w \<in> set ws \<Longrightarrow> keeps_sound space Q (win_other w) \<and> keeps_sound space Q (win_freed w)"
    and "ipc_table_entries_size \<le> length ws + is_table_next (st_space st space)"
  shows "\<exists>kr st' ws'. ipc_entry_grow_table ws st space = Some (kr, st', ws') \<and> sound space Q st' \<and>
    kr \<in> {KERN_SUCCESS, KERN_NO_SPACE, KERN_RESOURCE_SHORTAGE}"
  using grow_table_sound [OF assms] by blast

theorem grow_table_preserves_witness:
  "\<exists>kr st' ws'. ipc_entry_grow_table (replicate 512 quiet_window) one_space 0x1000 = Some (kr, st', ws') \<and>
     sound 0x1000 (\<lambda>c. c = Map.empty) st'"
proof -
  have s: "sound 0x1000 (\<lambda>c. c = Map.empty) one_space" "is_active (st_space one_space 0x1000)"
    using one_space_rest one_space_caps by (auto simp: sound_def at_rest_def)
  have w: "keeps_sound 0x1000 (\<lambda>c. c = Map.empty) (win_other w) \<and> keeps_sound 0x1000 (\<lambda>c. c = Map.empty) (win_freed w)"
    if "w \<in> set (replicate 512 quiet_window)" for w
    using that by (auto simp: keeps_sound_def quiet_window_def)
  have n: "ipc_table_entries_size \<le> length (replicate 512 quiet_window) + is_table_next (st_space one_space 0x1000)"
    by (simp add: ipc_table_entries_size_def)
  show ?thesis using grow_table_preserves [OF s w n] by blast
qed

text \<open>
  C13. When nobody else uses the space and memory is available, \<^verbatim>\<open>ipc_entry_alloc\<close> returns. It
  delivers a valid name that denoted nothing, with an entry of its own that holds no right, or it fails
  with \<^verbatim>\<open>KERN_NO_SPACE\<close> because the table has its largest size; the capabilities of the space
  are unchanged in both cases, however often the table was grown on the way.
\<close>

theorem entry_alloc_fresh:
  assumes "at_rest st space" and "\<And>w. w \<in> set ws \<Longrightarrow> quiet w"
    and "ipc_table_entries_size \<le> length ws + is_table_next (st_space st space)"
  shows "\<exists>r st' ws'. ipc_entry_alloc ws st space = Some (r, st', ws') \<and> space_caps st' space = space_caps st space \<and>
    (case r of Inr (name, entry) \<Rightarrow> fresh_entry st' space name entry
     | Inl kr \<Rightarrow> kr = KERN_NO_SPACE \<and> at_rest st' space \<and> largest_table (st_space st' space))"
  by (rule alloc_quiet [OF assms])

theorem entry_alloc_fresh_witness:
  "\<exists>r st' ws'. ipc_entry_alloc (replicate 512 quiet_window) one_space 0x1000 = Some (r, st', ws') \<and>
     space_caps st' 0x1000 = Map.empty"
proof -
  have n: "ipc_table_entries_size \<le> length (replicate 512 quiet_window) + is_table_next (st_space one_space 0x1000)"
    by (simp add: ipc_table_entries_size_def)
  have "\<exists>r st' ws'. ipc_entry_alloc (replicate 512 quiet_window) one_space 0x1000 = Some (r, st', ws') \<and>
      space_caps st' 0x1000 = space_caps one_space 0x1000"
    using entry_alloc_fresh [OF one_space_rest quiet_windows [where n = 512] n] by blast
  then show ?thesis unfolding one_space_caps .
qed

end
