(* ===== verification/HashFacts.thy ===== *)
theory HashFacts
  imports SpaceFacts
begin

text \<open>
  The two reverse tables of \<^verbatim>\<open>ipc/ipc_hash.c\<close> together convert an object to the name of the
  send right that a space holds for it: the third instance of the contract of a reverse table.
\<close>

section \<open>The entries that are entered for a space\<close>

definition entered_names :: "'a ipc_state_scheme \<Rightarrow> ipc_space_t \<Rightarrow> (mach_port_t \<times> ipc_entry_t) set" where
  "entered_names st space = (\<lambda>k. (of_nat k, Table k)) ` hashed (is_table (st_space st space)) \<union>
     (\<lambda>a. (te_name (st_ite st a), Tree a)) ` space_entered st space"

definition reverse_ok :: "'a ipc_state_scheme \<Rightarrow> ipc_space_t \<Rightarrow> bool" where
  "reverse_ok st space \<longleftrightarrow>
     (let table = is_table (st_space st space)
      in hash_invar table \<and> length table < 2 ^ 21 \<and> ghash_invar st \<and> hash_count st space \<and>
         (\<forall>a \<in> space_entered st space. length table \<le> MACH_PORT_INDEX (te_name (st_ite st a))) \<and>
         (\<forall>a \<in> space_entered st space. \<forall>i \<in> hashed table. te_object (st_ite st a) \<noteq> ie_object (table ! i)))"

fun named_entry :: "'a ipc_state_scheme \<Rightarrow> ipc_space_t \<Rightarrow> mach_port_t \<times> ipc_entry_t \<Rightarrow> bool" where
  "named_entry st space (n, Table k) \<longleftrightarrow> n = of_nat k \<and> 0 < k \<and> k < length (is_table (st_space st space))"
| "named_entry st space (n, Tree a) \<longleftrightarrow>
     te_name (st_ite st a) = n \<and> te_space (st_ite st a) = space \<and> length (is_table (st_space st space)) \<le> MACH_PORT_INDEX n"

abbreviation entry_object :: "'a ipc_state_scheme \<Rightarrow> ipc_space_t \<Rightarrow> mach_port_t \<times> ipc_entry_t \<Rightarrow> ipc_object_t" where
  "entry_object st space x \<equiv> ie_object (get_entry st space (snd x))"

lemma reverse_okD:
  assumes "reverse_ok st space"
  shows "hash_invar (is_table (st_space st space))" and "length (is_table (st_space st space)) < 2 ^ 21" and "ghash_invar st"
    and "hash_count st space"
    and "a \<in> space_entered st space \<Longrightarrow> length (is_table (st_space st space)) \<le> MACH_PORT_INDEX (te_name (st_ite st a))"
    and "a \<in> space_entered st space \<Longrightarrow> i \<in> hashed (is_table (st_space st space)) \<Longrightarrow>
      te_object (st_ite st a) \<noteq> ie_object (is_table (st_space st space) ! i)"
  using assms by (auto simp: reverse_ok_def Let_def)

lemma named_in_table:
  assumes "named_entry st space (n, e)" and "length (is_table (st_space st space)) < 2 ^ 21"
  shows "in_table (st_space st space) n e \<longleftrightarrow> (\<exists>k. e = Table k)" and "e = Table k \<Longrightarrow> MACH_PORT_INDEX n = k"
proof -
  have "MACH_PORT_INDEX (of_nat k) = k" if "k < length (is_table (st_space st space))" for k
    using that assms(2) index_make [of k 0] by (simp add: MACH_PORT_MAKE_def)
  then show "in_table (st_space st space) n e \<longleftrightarrow> (\<exists>k. e = Table k)" "e = Table k \<Longrightarrow> MACH_PORT_INDEX n = k"
    using assms(1) by (cases e; auto simp: in_table_def)+
qed

lemma entered_named:
  assumes "reverse_ok st space" and "x \<in> entered_names st space"
  shows "named_entry st space x"
  using assms(2) reverse_okD(5) [OF assms(1)] hashed_less [OF reverse_okD(1) [OF assms(1)]]
  by (auto simp: entered_names_def space_entered_def)

lemma entered_cases:
  "(n, Table k) \<in> entered_names st space \<longleftrightarrow> n = of_nat k \<and> k \<in> hashed (is_table (st_space st space))"
  "(n, Tree a) \<in> entered_names st space \<longleftrightarrow> n = te_name (st_ite st a) \<and> a \<in> space_entered st space"
  by (auto simp: entered_names_def)

lemma entered_object_once:
  assumes ok: "reverse_ok st space" and x: "x \<in> entered_names st space" and y: "y \<in> entered_names st space"
    and eq: "entry_object st space x = entry_object st space y"
  shows "x = y"
proof -
  note r = reverse_okD [OF ok]
  have tab: "i = j" if "i \<in> hashed (is_table (st_space st space))" "j \<in> hashed (is_table (st_space st space))"
      "ie_object (is_table (st_space st space) ! i) = ie_object (is_table (st_space st space) ! j)" for i j
    using local_hash.entered_once [OF r(1)] that by blast
  have tree: "a = b" if "a \<in> space_entered st space" "b \<in> space_entered st space" "te_object (st_ite st a) = te_object (st_ite st b)" for a b
    using global_hash.entered_once [OF r(3), of a b] that by (simp add: space_entered_def ghash_key_def)
  obtain n e m f where xy: "x = (n, e)" "y = (m, f)" by (cases x, cases y)
  then show ?thesis
    using x y eq tab tree r(6) by (cases e; cases f) (auto simp: entered_cases, metis)
qed

section \<open>Lookup\<close>

lemma hash_lookup_result:
  assumes ok: "reverse_ok st space"
  shows "\<exists>r st'. ipc_hash_lookup st space obj = Some (r, st') \<and>
    (\<forall>x. r = Some x \<longleftrightarrow> x \<in> entered_names st space \<and> entry_object st space x = obj) \<and>
    st_space st' = st_space st \<and> st_ite st' = st_ite st \<and> ghash_invar st' \<and> ghash_entered st' = ghash_entered st \<and>
    ipc_hash_global_mask st' = ipc_hash_global_mask st"
proof -
  let ?t = "is_table (st_space st space)"
  note r = reverse_okD [OF ok]
  note total = local_lookup_total [OF r(1), of obj]
  note li = local_hash.lookup_iff [OF r(1), of obj]
  note once = entered_object_once [OF ok]
  show ?thesis
  proof (cases "local_index ?t obj")
    case (Some i)
    then have i: "(of_nat i, Table i) \<in> entered_names st space" "entry_object st space (of_nat i, Table i) = obj"
      using li [of i] by (auto simp: entered_cases)
    then have "\<forall>x. (of_nat i, Table i) = x \<longleftrightarrow> x \<in> entered_names st space \<and> entry_object st space x = obj" using once by blast
    then show ?thesis using total Some r(3) by (simp add: ipc_hash_lookup_def)
  next
    case None
    then have no: "k \<in> hashed ?t \<Longrightarrow> ie_object (?t ! k) \<noteq> obj" for k using li [of k] by auto
    show ?thesis
    proof (cases "is_tree_hash (st_space st space) > 0")
      case True
      obtain g st' where g: "ipc_hash_global_lookup st space obj = (g, st')" by fastforce
      have idx: "global_index st (space, obj) = map_option snd g" using g by (simp add: global_index_def)
      have name: "fst x = te_name (st_ite st (snd x))" if "g = Some x" for x
        using g that by (auto simp: ipc_hash_global_lookup_def Let_def split: list.splits)
      note gi = global_lookup_iff [OF r(3), of "(space, obj)", unfolded idx]
      have "map_option (map_prod id Tree) g = Some (n, e) \<longleftrightarrow>
          (n, e) \<in> entered_names st space \<and> entry_object st space (n, e) = obj" for n e
      proof (cases e)
        case (Table k)
        then show ?thesis using no [of k] by (auto simp: entered_cases)
      next
        case (Tree a)
        have "g = Some (n, a) \<longleftrightarrow> n = te_name (st_ite st a) \<and> map_option snd g = Some a" using name by (cases g) auto
        then show ?thesis
          using gi [of a] by (auto simp: Tree entered_cases space_entered_def ghash_key_def)
      qed
      then show ?thesis
        using total None True g global_lookup_state [OF r(3) g] by (simp add: ipc_hash_lookup_def)
    next
      case False
      then have "space_entered st space = {}" using r(4) by (simp add: hash_count_def)
      then have "x \<in> entered_names st space \<Longrightarrow> entry_object st space x \<noteq> obj" for x
        by (auto simp: entered_names_def dest: no)
      then show ?thesis using total None False r(3) by (fastforce simp: ipc_hash_lookup_def)
    qed
  qed
qed

section \<open>Insertion and deletion\<close>

text \<open>
  What both operations leave alone: nothing of the space changes but the hash fields of its table and
  the count of its entries in the global table.
\<close>

definition rehashed :: "ipc_space_t \<Rightarrow> 'a ipc_state_scheme \<Rightarrow> 'a ipc_state_scheme \<Rightarrow> bool" where
  "rehashed space st st' \<longleftrightarrow> st_ite st' = st_ite st \<and> ipc_hash_global_mask st' = ipc_hash_global_mask st \<and>
     same_entries (is_table (st_space st space)) (is_table (st_space st' space)) \<and>
     (\<exists>t h. st_space st' = (st_space st)(space := (st_space st space)\<lparr>is_table := t, is_tree_hash := h\<rparr>))"

lemma rehashed_table:
  assumes "same_entries (is_table (st_space st space)) t"
  shows "rehashed space st (upd_space space (\<lambda>s. s\<lparr>is_table := t\<rparr>) st)"
  using assms unfolding rehashed_def
  by (intro conjI exI [of _ t] exI [of _ "is_tree_hash (st_space st space)"]) simp_all

lemma global_insert_result:
  assumes "ghash_invar st" and "a \<notin> ghash_entered st" and "te_space (st_ite st a) = space"
    and "\<forall>b \<in> space_entered st space. te_object (st_ite st b) \<noteq> te_object (st_ite st a)"
  defines "st' \<equiv> ipc_hash_global_insert st space (te_object (st_ite st a)) a"
  shows "ghash_invar st'" and "ghash_entered st' = insert a (ghash_entered st)" and "rehashed space st st'"
    and "is_table (st_space st' space) = is_table (st_space st space)"
    and "is_tree_hash (st_space st' space) = is_tree_hash (st_space st space) + 1"
proof -
  have key: "ghash_key st a = (space, te_object (st_ite st a))" using assms(3) by (simp add: ghash_key_def)
  have "\<forall>j \<in> ghash_entered st. ghash_key st j \<noteq> ghash_key st a"
    using assms(4) by (auto simp: key space_entered_def) (auto simp: ghash_key_def)
  then obtain t where "t = st'" "ghash_invar t" "ghash_entered t = insert a (ghash_entered st)"
    using global_hash.insertion [OF assms(1) _ assms(2)] unfolding st'_def by (metis key fst_conv snd_conv option.inject)
  then show "ghash_invar st'" "ghash_entered st' = insert a (ghash_entered st)" by simp_all
  show "is_table (st_space st' space) = is_table (st_space st space)"
    "is_tree_hash (st_space st' space) = is_tree_hash (st_space st space) + 1"
    by (simp_all add: st'_def ipc_hash_global_insert_def Let_def)
  show "rehashed space st st'"
    unfolding rehashed_def
    by (intro conjI exI [of _ "is_table (st_space st space)"] exI [of _ "is_tree_hash (st_space st space) + 1"])
      (simp_all add: st'_def ipc_hash_global_insert_def Let_def)
qed

lemma hash_insert_result:
  assumes ok: "reverse_ok st space" and x: "named_entry st space (n, e)" "(n, e) \<notin> entered_names st space"
    and tree: "\<And>a. e = Tree a \<Longrightarrow> a \<notin> ghash_entered st"
    and new: "\<forall>y \<in> entered_names st space. entry_object st space y \<noteq> ie_object (get_entry st space e)"
  shows "\<exists>st'. ipc_hash_insert st space (ie_object (get_entry st space e)) n e = Some st' \<and> reverse_ok st' space \<and>
    entered_names st' space = insert (n, e) (entered_names st space) \<and> rehashed space st st'"
proof -
  note r = reverse_okD [OF ok]
  let ?t = "is_table (st_space st space)"
  have new_table: "ie_object (?t ! j) \<noteq> ie_object (get_entry st space e)" if "j \<in> hashed ?t" for j
    using new [THEN bspec, of "(of_nat j, Table j)"] that by (simp add: entered_cases)
  have new_tree: "te_object (st_ite st b) \<noteq> ie_object (get_entry st space e)" if "b \<in> space_entered st space" for b
    using new [THEN bspec, of "(te_name (st_ite st b), Tree b)"] that by (simp add: entered_cases)
  show ?thesis
  proof (cases e)
    case (Table k)
    have k: "0 < k" "k < length ?t" "k \<notin> hashed ?t" "MACH_PORT_INDEX n = k" "n = of_nat k"
      using x named_in_table(2) [OF x(1) r(2)] by (auto simp: Table entered_cases)
    have "\<forall>j \<in> hashed ?t. ie_object (?t ! j) \<noteq> ie_object (?t ! k)"
      using new_table by (simp add: Table)
    then obtain t where t: "ipc_hash_local_insert ?t (ie_object (?t ! k)) k = Some t" "hash_invar t"
        "hashed t = insert k (hashed ?t)" "same_entries ?t t"
      using local_insert_correct [OF r(1), of k "ie_object (?t ! k)"] k by auto
    let ?st = "upd_space space (\<lambda>s. s\<lparr>is_table := t\<rparr>) st"
    have len: "length t = length ?t" using same_entries_length [OF t(4)] .
    have obj: "ie_object (t ! j) = ie_object (?t ! j)" if "j < length ?t" for j using same_entries_nth(1) [OF t(4) that] .
    have less: "j < length ?t" if "j \<in> hashed t" for j using hashed_less [OF t(2) that] len by simp
    have ins: "ipc_hash_insert st space (ie_object (get_entry st space e)) n e = Some ?st"
      using named_in_table(1) [OF x(1) r(2)] t(1) by (simp add: ipc_hash_insert_def local_hash_insert_def Table k(4))
    have "te_object (st_ite st a) \<noteq> ie_object (t ! i)" if "a \<in> space_entered st space" "i \<in> hashed t" for a i
    proof (cases "i = k")
      case True
      then show ?thesis using new_tree [OF that(1)] obj [OF k(2)] by (simp add: Table)
    next
      case False
      then show ?thesis using r(6) [OF that(1)] that(2) t(3) obj [OF less [OF that(2)]] by auto
    qed
    then have "reverse_ok ?st space"
      using r t(2) by (simp add: reverse_ok_def hash_count_upd_space len)
    moreover have "entered_names ?st space = insert (n, e) (entered_names st space)"
      using t(3) k(5) by (auto simp: entered_names_def Table)
    ultimately show ?thesis using ins rehashed_table [OF t(4)] by blast
  next
    case (Tree a)
    let ?st = "ipc_hash_global_insert st space (te_object (st_ite st a)) a"
    have a: "te_space (st_ite st a) = space" "te_name (st_ite st a) = n" "length ?t \<le> MACH_PORT_INDEX n" "a \<notin> ghash_entered st"
      using x(1) tree by (auto simp: Tree)
    have "\<forall>b \<in> space_entered st space. te_object (st_ite st b) \<noteq> te_object (st_ite st a)"
      using new_tree by (simp add: Tree)
    note g = global_insert_result [OF r(3) a(4,1) this]
    have ite: "st_ite ?st = st_ite st" using g(3) by (simp add: rehashed_def)
    have se: "space_entered ?st space = insert a (space_entered st space)"
      using g(2) a(1) by (auto simp: space_entered_def ite)
    have fin: "a \<notin> space_entered st space" using a(4) by (simp add: space_entered_def)
    have objs: "\<forall>i \<in> hashed ?t. te_object (st_ite st a) \<noteq> ie_object (?t ! i)" using new_table [symmetric] by (simp add: Tree)
    have "reverse_ok ?st space"
      unfolding reverse_ok_def Let_def g(4) se ite hash_count_def g(5)
      using r(1,2,4-6) g(1) a(2,3) fin objs by (simp add: hash_count_def)
    moreover have "entered_names ?st space = insert (n, e) (entered_names st space)"
      using a(2) by (auto simp: entered_names_def Tree se ite g(4))
    moreover have "ipc_hash_insert st space (ie_object (get_entry st space e)) n e = Some ?st"
      using named_in_table(1) [OF x(1) r(2)] by (simp add: ipc_hash_insert_def Tree)
    ultimately show ?thesis using g(3) by blast
  qed
qed

lemma hash_delete_result:
  assumes ok: "reverse_ok st space" and x: "(n, e) \<in> entered_names st space"
  shows "\<exists>st'. ipc_hash_delete st space (ie_object (get_entry st space e)) n e = Some st' \<and> reverse_ok st' space \<and>
    entered_names st' space = entered_names st space - {(n, e)} \<and> rehashed space st st'"
proof -
  note r = reverse_okD [OF ok]
  let ?t = "is_table (st_space st space)"
  have named: "named_entry st space (n, e)" by (rule entered_named [OF ok x])
  show ?thesis
  proof (cases e)
    case (Table k)
    have k: "k \<in> hashed ?t" "MACH_PORT_INDEX n = k" "n = of_nat k"
      using x named_in_table(2) [OF named r(2)] by (auto simp: Table entered_cases)
    obtain t where t: "ipc_hash_local_delete ?t (ie_object (?t ! k)) k = Some t" "hash_invar t"
        "hashed t = hashed ?t - {k}" "same_entries ?t t"
      using local_delete_correct [OF r(1) k(1) refl] by blast
    let ?st = "upd_space space (\<lambda>s. s\<lparr>is_table := t\<rparr>) st"
    have len: "length t = length ?t" using same_entries_length [OF t(4)] .
    have obj: "ie_object (t ! j) = ie_object (?t ! j)" if "j \<in> hashed t" for j
      using same_entries_nth(1) [OF t(4)] hashed_less [OF t(2) that] len by simp
    have "ipc_hash_delete st space (ie_object (get_entry st space e)) n e = Some ?st"
      using named_in_table(1) [OF named r(2)] t(1) by (simp add: ipc_hash_delete_def local_hash_delete_def Table k(2))
    moreover have "reverse_ok ?st space"
      using r t(2,3) obj by (simp add: reverse_ok_def hash_count_upd_space len)
    moreover have "entered_names ?st space = entered_names st space - {(n, e)}"
    proof -
      have inj: "of_nat j = (of_nat k :: mach_port_t) \<longleftrightarrow> j = k" if "j \<in> hashed ?t" for j
        using hashed_less [OF r(1) that] hashed_less [OF r(1) k(1)] r(2) index_make [of j 0] index_make [of k 0]
        by (simp add: MACH_PORT_MAKE_def) metis
      show ?thesis using t(3) k(3) inj by (auto simp: entered_names_def Table)
    qed
    ultimately show ?thesis using rehashed_table [OF t(4)] by blast
  next
    case (Tree a)
    have a: "te_space (st_ite st a) = space" "te_name (st_ite st a) = n" "a \<in> ghash_entered st" "a \<in> space_entered st space"
      using x by (auto simp: Tree entered_cases space_entered_def)
    note g = global_delete_result [OF r(3) a(3,1) refl]
    let ?st = "ipc_hash_global_delete st space (te_object (st_ite st a)) a"
    have se: "space_entered ?st space = space_entered st space - {a}" using g(2,3) by (auto simp: space_entered_def)
    have tab: "is_table (st_space ?st space) = ?t" using g(4) by simp
    have count: "hash_count ?st space" by (rule hash_count_delete [OF r(3) a(3,1) refl r(4)])
    have "reverse_ok ?st space"
      unfolding reverse_ok_def Let_def tab se g(3) using r g(1) count by simp
    moreover have "entered_names ?st space = entered_names st space - {(n, e)}"
      using a(2) by (auto simp: entered_names_def Tree se g(3) tab)
    moreover have "ipc_hash_delete st space (ie_object (get_entry st space e)) n e = Some ?st"
      using named_in_table(1) [OF named r(2)] by (simp add: ipc_hash_delete_def Tree)
    moreover have "rehashed space st ?st"
      unfolding rehashed_def
      by (intro conjI exI [of _ ?t] exI [of _ "is_tree_hash (st_space st space) - 1"])
        (simp_all add: ipc_hash_global_delete_def Let_def)
    ultimately show ?thesis by blast
  qed
qed

lemma rehashed_object:
  assumes "rehashed space st st'" and "named_entry st space x"
  shows "entry_object st' space x = entry_object st space x"
proof -
  obtain n e where x: "x = (n, e)" by (cases x)
  show ?thesis
  proof (cases e)
    case (Table k)
    have "k < length (is_table (st_space st space))" using assms(2) by (simp add: x Table)
    then show ?thesis using assms(1) same_entries_nth(1) by (simp add: x Table rehashed_def)
  next
    case (Tree a)
    then show ?thesis using assms(1) by (simp add: x rehashed_def)
  qed
qed

section \<open>The tables of a space satisfy the contract\<close>

lemma tree_entered:
  assumes "named_entry st space (n, Tree a)" and "(n, Tree a) \<notin> entered_names st space"
  shows "a \<notin> ghash_entered st"
  using assms by (auto simp: entered_cases space_entered_def)

interpretation ipc_hash: reverse_table "\<lambda>st. entry_object st space" "\<lambda>st. entered_names st space" "\<lambda>st. reverse_ok st space"
    "\<lambda>st. named_entry st space" "\<lambda>st obj. Option.bind (ipc_hash_lookup st space obj) fst"
    "\<lambda>st obj x. ipc_hash_insert st space obj (fst x) (snd x)" "\<lambda>st obj x. ipc_hash_delete st space obj (fst x) (snd x)"
  for space :: ipc_space_t
proof (unfold_locales, goal_cases)
  case (1 t i)
  then show ?case by (rule entered_named)
next
  case (2 t i j)
  then show ?case by (rule entered_object_once)
next
  case (3 t i)
  obtain r st' where "ipc_hash_lookup t space (entry_object t space i) = Some (r, st')"
      "\<forall>x. r = Some x \<longleftrightarrow> x \<in> entered_names t space \<and> entry_object t space x = entry_object t space i"
    using hash_lookup_result [OF 3(1)] by blast
  then show ?case using 3(2) by (cases i) simp
next
  case (4 t obj)
  obtain r st' where "ipc_hash_lookup t space obj = Some (r, st')"
      "\<forall>x. r = Some x \<longleftrightarrow> x \<in> entered_names t space \<and> entry_object t space x = obj"
    using hash_lookup_result [OF 4(1), of obj] by blast
  moreover from this(2) have "r = None" using 4(2) by (metis option.exhaust)
  ultimately show ?case by simp
next
  case (5 t i)
  have "\<exists>t'. ipc_hash_insert t space (ie_object (get_entry t space (snd i))) (fst i) (snd i) = Some t' \<and> reverse_ok t' space \<and>
      entered_names t' space = insert (fst i, snd i) (entered_names t space) \<and> rehashed space t t'"
    by (rule hash_insert_result) (use 5 tree_entered [of t space "fst i"] in \<open>cases i; simp\<close>)+
  then show ?case using rehashed_object by fastforce
next
  case (6 t i)
  have "\<exists>t'. ipc_hash_delete t space (ie_object (get_entry t space (snd i))) (fst i) (snd i) = Some t' \<and> reverse_ok t' space \<and>
      entered_names t' space = entered_names t space - {(fst i, snd i)} \<and> rehashed space t t'"
    by (rule hash_delete_result) (use 6 in \<open>auto\<close>)
  then show ?case using rehashed_object by fastforce
qed

section \<open>The send rights of a space\<close>

definition send_names :: "'a ipc_state_scheme \<Rightarrow> ipc_space_t \<Rightarrow> (mach_port_t \<times> ipc_entry_t) set" where
  "send_names st space = {(n, e). space_names st space n = Some e \<and>
     IE_BITS_TYPE (ie_bits (get_entry st space e)) = MACH_PORT_TYPE_SEND}"

lemma send_names_parts:
  assumes ok: "space_ok st space fl busy"
  shows "send_names st space = (\<lambda>k. (of_nat k, Table k)) ` sends (is_table (st_space st space)) \<union>
    (\<lambda>a. (te_name (st_ite st a), Tree a)) ` tree_sends st (tree_entries st space)"
proof -
  let ?t = "is_table (st_space st space)" and ?es = "tree_entries st space"
  have tab: "table_ok (st_space st space) fl busy" and tree: "tree_ok st space" using ok by (auto simp: space_ok_def)
  note tok = tree_okD [OF tree table_okD(1) [OF tab]]
  have d: "distinct (map fst ?es)"
    using splay_tree.entries_ascending [OF tok(1)] by (simp add: tree_entries_def ascending_distinct)
  have "(n, Table k) \<in> send_names st space \<longleftrightarrow> n = of_nat k \<and> k \<in> sends ?t" for n k
  proof (cases "k < length ?t")
    case True
    then have "MACH_PORT_INDEX n = k \<longleftrightarrow> n = of_nat k" by (rule table_name(2) [OF tab])
    then show ?thesis using True by (auto simp: send_names_def space_names_def sends_def Let_def)
  next
    case False
    then show ?thesis by (auto simp: send_names_def space_names_def sends_def Let_def split: if_splits)
  qed
  moreover have mem: "(n, a) \<in> set ?es \<longleftrightarrow> n = te_name (st_ite st a) \<and> a \<in> snd ` set ?es" for n a
  proof
    assume "(n, a) \<in> set ?es"
    then show "n = te_name (st_ite st a) \<and> a \<in> snd ` set ?es" using tok(8) [of n a] by force
  next
    assume r: "n = te_name (st_ite st a) \<and> a \<in> snd ` set ?es"
    then obtain m where "(m, a) \<in> set ?es" by auto
    then show "(n, a) \<in> set ?es" using tok(8) [of m a] r by simp
  qed
  moreover have "(n, Tree a) \<in> send_names st space \<longleftrightarrow> n = te_name (st_ite st a) \<and> a \<in> tree_sends st ?es" for n a
  proof -
    have "(n, Tree a) \<in> send_names st space \<longleftrightarrow> \<not> MACH_PORT_INDEX n < length ?t \<and> (n, a) \<in> set ?es \<and>
        IE_BITS_TYPE (te_bits (st_ite st a)) = MACH_PORT_TYPE_SEND"
      using d by (auto simp: send_names_def space_names_def Let_def)
    also have "\<dots> \<longleftrightarrow> (n, a) \<in> set ?es \<and> IE_BITS_TYPE (te_bits (st_ite st a)) = MACH_PORT_TYPE_SEND"
      using tok(6) [of n] by force
    also have "\<dots> \<longleftrightarrow> n = te_name (st_ite st a) \<and> a \<in> tree_sends st ?es"
      unfolding mem by (simp add: tree_sends_def)
    finally show ?thesis .
  qed
  ultimately have "(n, e) \<in> send_names st space \<longleftrightarrow> (n, e) \<in> (\<lambda>k. (of_nat k, Table k)) ` sends ?t \<union>
      (\<lambda>a. (te_name (st_ite st a), Tree a)) ` tree_sends st ?es" for n e
    by (cases e) auto
  then show ?thesis by auto
qed

lemma settled_reverse:
  assumes ok: "space_ok st space fl busy" and hash: "hash_ok st space"
  shows "reverse_ok st space" and "entered_names st space = send_names st space"
proof -
  have tab: "table_ok (st_space st space) fl busy" and tree: "tree_ok st space" using ok by (auto simp: space_ok_def)
  note tok = tree_okD [OF tree table_okD(1) [OF tab]]
  have h: "hash_invar (is_table (st_space st space))" "hashed (is_table (st_space st space)) = sends (is_table (st_space st space))"
      "ghash_invar st" "space_entered st space = tree_sends st (tree_entries st space)" "hash_count st space"
      "\<forall>a \<in> tree_sends st (tree_entries st space). \<forall>i \<in> sends (is_table (st_space st space)).
        te_object (st_ite st a) \<noteq> ie_object (is_table (st_space st space) ! i)"
    using hash unfolding hash_ok_def Let_def by blast+
  have "\<forall>a \<in> tree_sends st (tree_entries st space). length (is_table (st_space st space)) \<le> MACH_PORT_INDEX (te_name (st_ite st a))"
  proof
    fix a assume "a \<in> tree_sends st (tree_entries st space)"
    then obtain n where n: "(n, a) \<in> set (tree_entries st space)" by (auto simp: tree_sends_def)
    then have "n \<in> keys (tree_entries st space)" by force
    then show "length (is_table (st_space st space)) \<le> MACH_PORT_INDEX (te_name (st_ite st a))" using tok(6) tok(8) [OF n] by simp
  qed
  then show "reverse_ok st space" using h table_okD(2) [OF tab] by (simp add: reverse_ok_def Let_def)
  show "entered_names st space = send_names st space"
    unfolding send_names_parts [OF ok] entered_names_def h(2,4) by simp
qed

lemma reverse_settled:
  assumes ok: "space_ok st space fl busy" and rev: "reverse_ok st space" and eq: "entered_names st space = send_names st space"
  shows "hash_ok st space"
proof -
  note r = reverse_okD [OF rev]
  have h: "hashed (is_table (st_space st space)) = sends (is_table (st_space st space))"
  proof (rule set_eqI)
    fix k
    have "k \<in> hashed (is_table (st_space st space)) \<longleftrightarrow> (of_nat k, Table k) \<in> entered_names st space" by (simp add: entered_cases)
    also have "\<dots> \<longleftrightarrow> k \<in> sends (is_table (st_space st space))"
      unfolding eq send_names_parts [OF ok] by auto
    finally show "k \<in> hashed (is_table (st_space st space)) \<longleftrightarrow> k \<in> sends (is_table (st_space st space))" .
  qed
  have s: "space_entered st space = tree_sends st (tree_entries st space)"
  proof (rule set_eqI)
    fix a
    have "a \<in> space_entered st space \<longleftrightarrow> (te_name (st_ite st a), Tree a) \<in> entered_names st space" by (simp add: entered_cases)
    also have "\<dots> \<longleftrightarrow> a \<in> tree_sends st (tree_entries st space)" unfolding eq send_names_parts [OF ok] by auto
    finally show "a \<in> space_entered st space \<longleftrightarrow> a \<in> tree_sends st (tree_entries st space)" .
  qed
  show ?thesis unfolding hash_ok_def Let_def using r h s by simp
qed

lemma caps_send_names:
  "(\<exists>e. (n, e) \<in> send_names st space \<and> entry_object st space (n, e) = obj) \<longleftrightarrow>
   (\<exists>bits request. space_caps st space n = Some (bits, obj, request) \<and> IE_BITS_TYPE bits = MACH_PORT_TYPE_SEND)"
  by (auto simp: send_names_def space_caps_def denoted_def)

text \<open>
  C7. A space holds at most one name for send rights to a port, and the reverse lookup finds it: on a
  space at rest \<^verbatim>\<open>ipc_hash_lookup\<close> ends, in whichever of the two tables it has to search, and
  returns a name exactly when that name denotes a pure send right for the object; no capability changes.
\<close>

theorem reverse_lookup_exact:
  assumes "space_settled st space"
  shows "\<exists>r st'. ipc_hash_lookup st space obj = Some (r, st') \<and>
    (\<forall>name. (\<exists>entry. r = Some (name, entry)) \<longleftrightarrow>
       (\<exists>bits request. space_caps st space name = Some (bits, obj, request) \<and> IE_BITS_TYPE bits = MACH_PORT_TYPE_SEND)) \<and>
    space_caps st' space = space_caps st space \<and> space_settled st' space"
proof -
  obtain fl where ok: "space_ok st space fl {}" "hash_ok st space" "tree_typed st space"
    using assms by (auto simp: space_settled_def)
  note s = settled_reverse [OF ok(1,2)]
  obtain r st' where r: "ipc_hash_lookup st space obj = Some (r, st')"
      "\<forall>x. r = Some x \<longleftrightarrow> x \<in> entered_names st space \<and> entry_object st space x = obj"
      "st_space st' = st_space st" "st_ite st' = st_ite st" "ghash_invar st'" "ghash_entered st' = ghash_entered st"
    using hash_lookup_result [OF s(1), of obj] by blast
  have es: "tree_entries st' space = tree_entries st space" by (simp add: tree_entries_def r(3))
  have get: "get_entry st' space = get_entry st space"
  proof
    fix e show "get_entry st' space e = get_entry st space e" by (cases e) (simp_all add: r(3,4))
  qed
  have "space_ok st' space fl {}" using ok(1) by (simp add: space_ok_def tree_ok_def es r(3,4))
  moreover have "hash_ok st' space"
    using ok(2) r(5) by (simp add: hash_ok_def hash_count_def space_entered_def tree_sends_def Let_def es r(3,4,6))
  moreover have "tree_typed st' space" using ok(3) by (simp add: tree_typed_def es r(4))
  ultimately have "space_settled st' space" by (auto simp: space_settled_def)
  moreover have "space_caps st' space = space_caps st space"
    by (simp add: fun_eq_iff space_caps_def space_names_def Let_def es r(3) get)
  moreover have "(\<exists>entry. r = Some (name, entry)) \<longleftrightarrow> (\<exists>bits request. space_caps st space name = Some (bits, obj, request) \<and>
      IE_BITS_TYPE bits = MACH_PORT_TYPE_SEND)" for name
    unfolding caps_send_names [symmetric] s(2) [symmetric] using r(2) by simp
  ultimately show ?thesis using r(1) by blast
qed

theorem reverse_lookup_exact_witness:
  "\<exists>st'. ipc_hash_lookup one_space 0x1000 0x2000 = Some (None, st') \<and> space_settled st' 0x1000"
proof -
  have s: "space_settled one_space 0x1000" using one_space_rest by (simp add: at_rest_def)
  obtain r st' where r: "ipc_hash_lookup one_space 0x1000 0x2000 = Some (r, st')" "\<forall>name. \<not> (\<exists>entry. r = Some (name, entry))"
      "space_settled st' 0x1000"
    using reverse_lookup_exact [OF s, of "0x2000"] unfolding one_space_caps by auto
  then have "r = None" by (cases r) auto
  then show ?thesis using r by blast
qed

end
