(* ===== verification/RightBits.thy ===== *)
theory RightBits
  imports IpcCopy
begin

text \<open>
  A capability keeps the kind of its right and the number of user references in one word. This theory
  shows that counting never spills into the kind, and gives the meaning of the word as a right.
\<close>

unbundle bit_operations_syntax

section \<open>Counting in the low half of a word\<close>

lemma low_half_mask: "(0xffff :: 32 word) = mask 16"
  by (simp add: mask_eq_exp_minus_1)

lemma high_half_and:
  fixes b c m :: "32 word"
  assumes "drop_bit 16 b = drop_bit 16 c" and "m AND 0xffff = 0"
  shows "b AND m = c AND m"
proof (rule bit_word_eqI)
  fix n assume n: "n < LENGTH(32)"
  show "bit (b AND m) n = bit (c AND m) n"
  proof (cases "n < 16")
    case True
    have "bit (m AND 0xffff) n = bit (0 :: 32 word) n" using assms(2) by simp
    moreover have "bit (0xffff :: 32 word) n" unfolding low_half_mask bit_mask_iff using True n by simp
    ultimately show ?thesis by (simp add: bit_and_iff)
  next
    case False
    have "bit (drop_bit 16 b) (n - 16) = bit (drop_bit 16 c) (n - 16)" using assms(1) by simp
    then show ?thesis using False by (simp add: bit_drop_bit_eq bit_and_iff)
  qed
qed

lemma unat_urefs: "unat (IE_BITS_UREFS b) = unat b mod 65536"
proof -
  have "IE_BITS_UREFS b = take_bit 16 b" unfolding IE_BITS_UREFS_def low_half_mask take_bit_eq_mask ..
  then show ?thesis by (simp add: take_bit_eq_mod unat_mod)
qed

lemma unat_high: "unat (drop_bit 16 (b :: 32 word)) = unat b div 65536"
  by (simp add: drop_bit_eq_div unat_div)

lemma urefs_less: "unat (IE_BITS_UREFS b) < 65536"
  by (simp add: unat_urefs)

lemma halves:
  fixes q r :: nat
  assumes "r < 65536"
  shows "(65536 * q + r) div 65536 = q" and "(65536 * q + r) mod 65536 = r"
  using assms by simp_all

lemma urefs_add:
  assumes "unat (IE_BITS_UREFS b) + unat d < 65536"
  shows "drop_bit 16 (b + d) = drop_bit 16 b" and "IE_BITS_UREFS (b + d) = IE_BITS_UREFS b + d"
proof -
  let ?u = "unat b mod 65536" and ?h = "unat b div 65536"
  have small: "?u + unat d < 65536" using assms by (simp add: unat_urefs)
  have b: "unat b = 65536 * ?h + ?u" by simp
  have "?h < 65536" using unsigned_less [of b, where 'a = nat] by (simp add: div_less_iff_less_mult)
  then have "unat b + unat d < 4294967296" using b small by linarith
  then have sum: "unat (b + d) = 65536 * ?h + (?u + unat d)" using b by (simp add: unat_word_ariths)
  have "unat (b + d) div 65536 = ?h" unfolding sum by (rule halves(1) [OF small])
  then show "drop_bit 16 (b + d) = drop_bit 16 b" by (simp add: unat_high word_unat_eq_iff)
  have m: "unat (b + d) mod 65536 = ?u + unat d" unfolding sum by (rule halves(2) [OF small])
  have "unat (IE_BITS_UREFS b + d) = unat (IE_BITS_UREFS b) + unat d"
    using assms by (simp add: unat_word_ariths)
  then show "IE_BITS_UREFS (b + d) = IE_BITS_UREFS b + d" using m by (simp add: unat_urefs word_unat_eq_iff)
qed

lemma urefs_sub:
  assumes "unat d \<le> unat (IE_BITS_UREFS b)"
  shows "drop_bit 16 (b - d) = drop_bit 16 b" and "IE_BITS_UREFS (b - d) = IE_BITS_UREFS b - d"
proof -
  let ?u = "unat b mod 65536" and ?h = "unat b div 65536"
  have small: "unat d \<le> ?u" using assms by (simp add: unat_urefs)
  have "?u \<le> unat b" by simp
  then have "unat d \<le> unat b" using small by linarith
  then have "unat (b - d) = unat b - unat d" by (simp add: unat_sub word_le_nat_alt)
  also have "\<dots> = 65536 * ?h + (?u - unat d)" using small by simp
  finally have sub: "unat (b - d) = 65536 * ?h + (?u - unat d)" .
  have less: "?u - unat d < 65536" by (simp add: less_imp_diff_less)
  have "unat (b - d) div 65536 = ?h" unfolding sub by (rule halves(1) [OF less])
  then show "drop_bit 16 (b - d) = drop_bit 16 b" by (simp add: unat_high word_unat_eq_iff)
  have m: "unat (b - d) mod 65536 = ?u - unat d" unfolding sub by (rule halves(2) [OF less])
  have "unat (IE_BITS_UREFS b - d) = unat (IE_BITS_UREFS b) - unat d"
    using assms by (simp add: unat_sub word_le_nat_alt)
  then show "IE_BITS_UREFS (b - d) = IE_BITS_UREFS b - d" using m by (simp add: unat_urefs word_unat_eq_iff)
qed

section \<open>Checking a change of the count\<close>

lemma sint_cases: "sint (d :: 32 word) = (if uint d < 2147483648 then uint d else uint d - 4294967296)"
proof -
  have less: "uint d < 4294967296" "0 \<le> uint d" using unsigned_less [of d, where 'a = int] by simp_all
  have "sint d = (uint d + 2147483648) mod 4294967296 - 2147483648"
    using int_word_sint [of "uint d", where 'a = 32] by simp
  moreover have "(uint d + 2147483648) mod 4294967296 = uint d - 2147483648" if "\<not> uint d < 2147483648"
    using that less mod_pos_pos_trivial [of "uint d - 2147483648" 4294967296] mod_add_self2 [of "uint d - 2147483648" 4294967296]
    by (simp add: add.commute)
  moreover have "(uint d + 2147483648) mod 4294967296 = uint d + 2147483648" if "uint d < 2147483648"
    using that less by simp
  ultimately show ?thesis by simp
qed

lemma uint_add: "uint u + uint d < 4294967296 \<Longrightarrow> uint (u + d :: 32 word) = uint u + uint d"
  by (simp add: uint_word_ariths)

lemma uint_minus: "d \<noteq> 0 \<Longrightarrow> uint (- d :: 32 word) = 4294967296 - uint d"
proof -
  assume "d \<noteq> 0"
  then have "0 < uint d" using uint_0_iff [of d] unsigned_greater_eq [of d, where 'a = int] by linarith
  moreover have "uint d < 4294967296" using unsigned_less [of d, where 'a = int] by simp
  ultimately show ?thesis by (simp add: uint_word_ariths zmod_zminus1_eq_if)
qed

lemma uint_sum_back:
  assumes "4294967296 \<le> uint u + uint d"
  shows "uint (u + d :: 32 word) = uint u + uint d - 4294967296"
proof -
  have "uint u < 4294967296" "uint d < 4294967296" using unsigned_less [of u, where 'a = int] unsigned_less [of d, where 'a = int] by simp_all
  then have "(uint u + uint d - 4294967296) mod 4294967296 = uint u + uint d - 4294967296"
    using assms by (intro mod_pos_pos_trivial) linarith+
  then show ?thesis using mod_add_self2 [of "uint u + uint d - 4294967296" 4294967296] by (simp add: uint_word_ariths)
qed

lemma urefs_checks:
  assumes "urefs \<le> 0x10000"
  shows "(MACH_PORT_UREFS_UNDERFLOW urefs delta \<longleftrightarrow> uint urefs + sint delta < 0) \<and>
    (MACH_PORT_UREFS_OVERFLOW urefs delta \<longleftrightarrow> 0 < sint delta \<and> 0xffff < uint urefs + sint delta) \<and>
    (\<not> MACH_PORT_UREFS_UNDERFLOW urefs delta \<longrightarrow> \<not> MACH_PORT_UREFS_OVERFLOW urefs delta \<longrightarrow>
       uint (urefs + delta) = uint urefs + sint delta)"
proof -
  have u: "uint urefs \<le> 65536" "0 \<le> uint urefs" using assms by (simp_all add: word_le_def)
  have d: "uint delta < 4294967296" "0 \<le> uint delta" using unsigned_less [of delta, where 'a = int] by simp_all
  show ?thesis
  proof (cases "uint delta < 2147483648")
    case True
    then have s: "sint delta = uint delta" by (simp add: sint_cases)
    have sum: "uint (urefs + delta) = uint urefs + uint delta" using uint_add [of urefs delta] u True by simp
    have "urefs + delta \<le> urefs \<longleftrightarrow> uint delta \<le> 0" by (simp add: word_le_def sum)
    then have "MACH_PORT_UREFS_OVERFLOW urefs delta \<longleftrightarrow> 0 < sint delta \<and> 0xffff < uint urefs + sint delta"
      using s sum by (auto simp: MACH_PORT_UREFS_OVERFLOW_def MACH_PORT_UREFS_MAX_def word_less_def)
    moreover have "\<not> MACH_PORT_UREFS_UNDERFLOW urefs delta" using s d by (simp add: MACH_PORT_UREFS_UNDERFLOW_def)
    moreover have "\<not> uint urefs + sint delta < 0" unfolding s using u d by linarith
    ultimately show ?thesis unfolding s using sum by blast
  next
    case False
    then have s: "sint delta = uint delta - 4294967296" by (simp add: sint_cases)
    have "delta \<noteq> 0" using False by auto
    then have neg: "uint (- delta) = 4294967296 - uint delta" by (rule uint_minus)
    have "MACH_PORT_UREFS_UNDERFLOW urefs delta \<longleftrightarrow> uint urefs + sint delta < 0"
      using s d neg by (auto simp: MACH_PORT_UREFS_UNDERFLOW_def word_less_def)
    moreover have "\<not> MACH_PORT_UREFS_OVERFLOW urefs delta" "\<not> 0 < sint delta" using s d by (auto simp: MACH_PORT_UREFS_OVERFLOW_def)
    moreover have "uint (urefs + delta) = uint urefs + sint delta" if "\<not> uint urefs + sint delta < 0"
      using uint_sum_back [of urefs delta] that s by simp
    ultimately show ?thesis by blast
  qed
qed

text \<open>
  C31. The two checks made before a user-reference count is changed decide exactly whether the result, as
  an integer, is negative or larger than the largest count, for every signed 32-bit change and any count
  that can occur; when neither reports an error the sum of the two words is that integer. The smallest
  negative number, which is its own negation, is no exception.
\<close>

theorem urefs_checks_exact:
  assumes "urefs \<le> 0x10000"
  shows "(MACH_PORT_UREFS_UNDERFLOW urefs delta \<longleftrightarrow> uint urefs + sint delta < 0) \<and>
    (MACH_PORT_UREFS_OVERFLOW urefs delta \<longleftrightarrow> 0 < sint delta \<and> 0xffff < uint urefs + sint delta) \<and>
    (\<not> MACH_PORT_UREFS_UNDERFLOW urefs delta \<longrightarrow> \<not> MACH_PORT_UREFS_OVERFLOW urefs delta \<longrightarrow>
       uint (urefs + delta) = uint urefs + sint delta)"
  using assms by (rule urefs_checks)

theorem urefs_checks_exact_witness:
  "MACH_PORT_UREFS_UNDERFLOW 5 (- 0x80000000) \<and> MACH_PORT_UREFS_OVERFLOW 0xffff 1 \<and> \<not> MACH_PORT_UREFS_UNDERFLOW 5 (- 5) \<and>
   uint (5 + (- 5) :: 32 word) = 0"
  using urefs_checks_exact [of 5 "- 0x80000000"] urefs_checks_exact [of "0xffff" 1] urefs_checks_exact [of 5 "- 5"]
  by (simp add: sint_cases)

end
