(* ===== verification/NamedEntries.thy ===== *)
theory NamedEntries
  imports HashFacts RightBits
begin

text \<open>
  What the code for rights does to the entry that a name denotes: it updates it in place, takes it out
  of or enters it into the reverse tables, and frees it. In between, the entries that are entered are
  not exactly the pure send rights, so the invariant names the set of them.
\<close>

definition space_inv :: "'a ipc_state_scheme \<Rightarrow> ipc_space_t \<Rightarrow> (mach_port_t \<times> ipc_entry_t) set \<Rightarrow> bool" where
  "space_inv st space X \<longleftrightarrow> (\<exists>fl. space_ok st space fl {}) \<and> tree_typed st space \<and> reverse_ok st space \<and>
     entered_names st space = X"

lemma settled_iff: "space_settled st space \<longleftrightarrow> space_inv st space (send_names st space)"
proof
  assume "space_settled st space"
  then obtain fl where ok: "space_ok st space fl {}" "hash_ok st space" "tree_typed st space" by (auto simp: space_settled_def)
  then show "space_inv st space (send_names st space)" using settled_reverse [OF ok(1,2)] by (auto simp: space_inv_def)
next
  assume "space_inv st space (send_names st space)"
  then show "space_settled st space" using reverse_settled by (auto simp: space_inv_def space_settled_def)
qed

lemma space_inv_cong:
  assumes "same_space space st st'"
  shows "space_inv st' space X \<longleftrightarrow> space_inv st space X" and "space_names st' space = space_names st space"
    and "get_entry st' space e = get_entry st space e"
proof -
  note s = assms [unfolded same_space_def Let_def]
  have se: "space_entered st' space = space_entered st space" "ghash_invar st' = ghash_invar st"
    using s by (simp_all add: ghash_invar_def space_entered_def ghash_entered_def ghash_key_def [abs_def])
  have "reverse_ok st' space = reverse_ok st space" using s by (simp add: reverse_ok_def se hash_count_def)
  moreover have "entered_names st' space = entered_names st space" using s by (simp add: entered_names_def se)
  ultimately show "space_inv st' space X \<longleftrightarrow> space_inv st space X"
    by (simp add: space_inv_def space_cong(1,3) [OF assms])
  show "space_names st' space = space_names st space"
    using s by (simp add: fun_eq_iff space_names_def tree_entries_def Let_def)
  show "get_entry st' space e = get_entry st space e" using s by (cases e) simp_all
qed

text \<open>Where a named entry is.\<close>

lemma named_cases:
  assumes ok: "space_ok st space fl busy" and n: "space_names st space n = Some e"
  obtains (table) k where "e = Table k" and "n = of_nat k" and "MACH_PORT_INDEX n = k" and "0 < k"
      and "k < length (is_table (st_space st space))" and "k \<notin> set fl" and "IE_BITS_TYPE (ie_bits (is_table (st_space st space) ! k)) \<noteq> 0"
    | (tree) a where "e = Tree a" and "(n, a) \<in> set (tree_entries st space)" and "length (is_table (st_space st space)) \<le> MACH_PORT_INDEX n"
      and "te_name (st_ite st a) = n" and "te_space (st_ite st a) = space"
proof -
  have tab: "table_ok (st_space st space) fl busy" and ist: "tree_ok st space" using ok by (auto simp: space_ok_def)
  note tok = tree_okD [OF ist table_okD(1) [OF tab]]
  show thesis
  proof (cases "MACH_PORT_INDEX n < length (is_table (st_space st space))")
    case True
    let ?k = "MACH_PORT_INDEX n"
    have e: "e = Table ?k" "IE_BITS_TYPE (ie_bits (is_table (st_space st space) ! ?k)) \<noteq> 0"
      using n True by (auto simp: space_names_def Let_def split: if_splits)
    have "0 < ?k" using e(2) table_ok_type_zero [OF tab] by (auto intro!: gr0I)
    moreover have "?k \<notin> set fl" using e(2) table_okD(3) [OF tab] by (auto simp: free_list_def untyped_def)
    moreover have "n = of_nat ?k" using table_name(2) [OF tab True, of n] by blast
    ultimately show thesis using table e True by blast
  next
    case False
    then obtain a where a: "e = Tree a" "map_of (tree_entries st space) n = Some a"
      using n by (auto simp: space_names_def Let_def)
    then have "(n, a) \<in> set (tree_entries st space)" by (simp add: map_of_SomeD)
    then show thesis using tree [OF a(1)] tok(8) [of n a] False by simp
  qed
qed

lemma named_named:
  assumes "space_ok st space fl busy" and "space_names st space n = Some e"
  shows "named_entry st space (n, e)"
  using assms by (rule named_cases) auto

lemma names_caps: "space_names st space n = Some e \<Longrightarrow> space_caps st space n = Some (denoted (get_entry st space e))"
  by (simp add: space_caps_def)

section \<open>Updating an entry in place\<close>

lemma update_named_table:
  assumes inv: "space_inv st space X" and ok: "space_ok st space fl {}"
    and k: "0 < k" "k < length (is_table (st_space st space))" "k \<notin> set fl"
      "IE_BITS_TYPE (ie_bits (is_table (st_space st space) ! k)) \<noteq> 0"
    and f: "\<And>x. ie_index (f x) = ie_index x"
    and e: "e = f (is_table (st_space st space) ! k)" "IE_BITS_TYPE (ie_bits e) \<noteq> 0" "ie_bits e AND IE_BITS_COLLISION = 0"
    and obj: "k \<in> hashed (is_table (st_space st space)) \<Longrightarrow> ie_object e = ie_object (is_table (st_space st space) ! k)"
  shows "space_inv (upd_entry space (Table k) f st) space X"
    and "space_caps (upd_entry space (Table k) f st) space = (space_caps st space)(of_nat k \<mapsto> denoted e)"
    and "space_names (upd_entry space (Table k) f st) space = space_names st space"
proof -
  let ?t = "is_table (st_space st space)" and ?st = "upd_entry space (Table k) f st"
  have st: "?st = set_table space (?t[k := e]) st" by (simp add: upd_entry_table e(1) del: upd_entry.simps)
  have rev: "reverse_ok st space" and X: "entered_names st space = X" and typed: "tree_typed st space"
    using inv by (auto simp: space_inv_def)
  note r = reverse_okD [OF rev]
  note fill = fill_entry [where f = f, OF ok k(1-3) e]
  have idx: "ie_index e = ie_index (?t ! k)" by (simp add: e(1) f)
  have h: "hash_invar (?t[k := e]) \<and> hashed (?t[k := e]) = hashed ?t"
  proof (cases "k \<in> hashed ?t")
    case True
    have "ie_index (?t[k := e] ! j) = ie_index (?t ! j)" "ie_object (?t[k := e] ! j) = ie_object (?t ! j)" for j
      using obj [OF True] idx k(2) by (cases "j = k"; simp)+
    then show ?thesis using hash_cong [of "?t[k := e]" ?t] r(1) by simp
  next
    case False
    then show ?thesis using hash_invar_fill [OF r(1) k(2) False, of e] idx by simp
  qed
  have "ie_object (?t[k := e] ! j) = ie_object (?t ! j)" if "j \<in> hashed ?t" for j
    using obj that k(2) by (cases "j = k") auto
  then have "reverse_ok ?st space"
    unfolding st using r h by (simp add: reverse_ok_def set_table_def hash_count_upd_space Let_def)
  moreover have "entered_names ?st space = X" unfolding st using h X by (simp add: entered_names_def set_table_def)
  moreover have "tree_typed ?st space" unfolding st using typed by (simp add: tree_typed_def tree_entries_def)
  ultimately show "space_inv ?st space X" using fill(1) by (auto simp: space_inv_def)
  show "space_caps ?st space = (space_caps st space)(of_nat k \<mapsto> denoted e)" by (rule fill(2))
  have "space_names ?st space m = space_names st space m" for m
    unfolding st using set_table_names [of "?t[k := e]" st space m] e(2) k(2,4)
    by (cases "MACH_PORT_INDEX m = k") (auto simp: space_names_def Let_def)
  then show "space_names ?st space = space_names st space" by blast
qed

lemma update_named_tree:
  assumes inv: "space_inv st space X" and ok: "space_ok st space fl {}" and a: "(n, a) \<in> set (tree_entries st space)"
    and e: "e = f (te_entry (st_ite st a))" "IE_BITS_TYPE (ie_bits e) \<noteq> 0" "ie_bits e AND IE_BITS_COLLISION = 0"
    and obj: "a \<in> ghash_entered st \<Longrightarrow> ie_object e = te_object (st_ite st a)"
  shows "space_inv (upd_entry space (Tree a) f st) space X"
    and "space_caps (upd_entry space (Tree a) f st) space = (space_caps st space)(n \<mapsto> denoted e)"
    and "space_names (upd_entry space (Tree a) f st) space = space_names st space"
proof -
  let ?st = "upd_entry space (Tree a) f st"
  have tab: "table_ok (st_space st space) fl {}" and ist: "tree_ok st space" using ok by (auto simp: space_ok_def)
  note tok = tree_okD [OF ist table_okD(1) [OF tab]]
  have rev: "reverse_ok st space" and X: "entered_names st space = X" and typed: "tree_typed st space"
    using inv by (auto simp: space_inv_def)
  note r = reverse_okD [OF rev]
  have es: "tree_entries ?st space = tree_entries st space" by (simp add: tree_entries_def)
  have ite: "te_entry (st_ite ?st b) = (if b = a then e else te_entry (st_ite st b))" "te_name (st_ite ?st b) = te_name (st_ite st b)"
      "te_space (st_ite ?st b) = te_space (st_ite st b)" for b
    by (auto simp: e(1))
  have sp: "st_space ?st = st_space st" "st_bucket ?st = st_bucket st" "ipc_hash_global_mask ?st = ipc_hash_global_mask st" by simp_all
  have ge: "ghash_entered ?st = ghash_entered st" by (simp add: ghash_entered_def)
  have key: "ghash_key ?st b = ghash_key st b" if "b \<in> ghash_entered st" for b
    using obj that unfolding ghash_key_def ite by auto
  have gi: "ghash_invar ?st"
    unfolding ghash_invar_def sp ge
  proof (intro conjI allI ballI)
    show "distinct (st_bucket st h)" for h using r(3) by (simp add: ghash_invar_def)
    show "h = key_hash (ipc_hash_global_mask st) (ghash_key ?st b)" if "b \<in> set (st_bucket st h)" for h b
    proof -
      have "b \<in> ghash_entered st" using that by (auto simp: ghash_entered_def)
      then show ?thesis using key that r(3) by (simp add: ghash_invar_def)
    qed
    show "inj_on (ghash_key ?st) (ghash_entered st)" using r(3) key by (simp add: ghash_invar_def inj_on_def)
  qed
  have se: "space_entered ?st space = space_entered st space" unfolding space_entered_def ge ite ..
  have objs: "ie_object (te_entry (st_ite ?st b)) = te_object (st_ite st b)" if "b \<in> space_entered st space" for b
    unfolding ite using obj that by (auto simp: space_entered_def)
  have "reverse_ok ?st space"
    unfolding reverse_ok_def Let_def se hash_count_def sp ite(2)
    using r gi objs by (simp add: hash_count_def)
  moreover have "entered_names ?st space = X" unfolding entered_names_def se sp ite(2) using X by (simp add: entered_names_def)
  moreover have "tree_typed ?st space"
    unfolding tree_typed_def es ite using typed e(2,3) by (auto simp: tree_typed_def)
  moreover have "space_ok ?st space fl {}"
    using tab ist unfolding space_ok_def tree_ok_def Let_def es sp ite(2,3) by blast
  ultimately show "space_inv ?st space X" by (auto simp: space_inv_def)
  show names: "space_names ?st space = space_names st space"
    unfolding space_names_def es sp ..
  have d: "distinct (map fst (tree_entries st space))"
    using splay_tree.entries_ascending [OF tok(1)] by (simp add: tree_entries_def ascending_distinct)
  have mine: "map_of (tree_entries st space) n = Some a" using a d by simp
  have len: "\<not> MACH_PORT_INDEX n < length (is_table (st_space st space))" using tok(6) a by force
  have "space_caps ?st space m = ((space_caps st space)(n \<mapsto> denoted e)) m" for m
  proof (cases "MACH_PORT_INDEX m < length (is_table (st_space st space))")
    case True
    then have "m \<noteq> n" using len by auto
    then show ?thesis using True caps_in_table [of m st space] caps_in_table [of m ?st space] unfolding sp by simp
  next
    case False
    have other: "b \<noteq> a" if "map_of (tree_entries st space) m = Some b" "m \<noteq> n" for b
    proof
      assume "b = a"
      then have "(m, a) \<in> set (tree_entries st space)" using that(1) by (simp add: map_of_SomeD)
      then show False using tok(8) a that(2) by blast
    qed
    have c: "space_caps ?st space m = map_option (\<lambda>b. denoted (te_entry (st_ite ?st b))) (map_of (tree_entries st space) m)"
      using caps_beyond_table [of m ?st space] False unfolding sp es by blast
    show ?thesis
      unfolding c ite using caps_beyond_table [OF False] mine other
      by (cases "m = n"; cases "map_of (tree_entries st space) m") auto
  qed
  then show "space_caps ?st space = (space_caps st space)(n \<mapsto> denoted e)" by blast
qed

lemma update_named:
  assumes inv: "space_inv st space X" and n: "space_names st space n = Some entry"
    and f: "\<And>x. ie_index (f x) = ie_index x"
    and e: "e = f (get_entry st space entry)" "IE_BITS_TYPE (ie_bits e) \<noteq> 0" "ie_bits e AND IE_BITS_COLLISION = 0"
    and obj: "(n, entry) \<in> X \<Longrightarrow> ie_object e = ie_object (get_entry st space entry)"
  shows "space_inv (upd_entry space entry f st) space X"
    and "space_caps (upd_entry space entry f st) space = (space_caps st space)(n \<mapsto> denoted e)"
    and "space_names (upd_entry space entry f st) space = space_names st space"
    and "get_entry (upd_entry space entry f st) space entry = e"
proof -
  obtain fl where ok: "space_ok st space fl {}" and X: "entered_names st space = X" using inv by (auto simp: space_inv_def)
  have "space_inv (upd_entry space entry f st) space X \<and>
    space_caps (upd_entry space entry f st) space = (space_caps st space)(n \<mapsto> denoted e) \<and>
    space_names (upd_entry space entry f st) space = space_names st space \<and>
    get_entry (upd_entry space entry f st) space entry = e"
    using ok n
  proof (cases rule: named_cases)
    case (table k)
    have e': "e = f (is_table (st_space st space) ! k)" using e(1) table(1) by simp
    have obj': "ie_object e = ie_object (is_table (st_space st space) ! k)" if "k \<in> hashed (is_table (st_space st space))"
      using obj that table(1,2) X entered_cases(1) [of n k st space] by simp
    show ?thesis
      using update_named_table [where f = f, OF inv ok table(4-7) f e' e(2,3) obj'] table(1,2,5) e' by simp
  next
    case (tree a)
    have e': "e = f (te_entry (st_ite st a))" using e(1) tree(1) by simp
    have obj': "ie_object e = te_object (st_ite st a)" if "a \<in> ghash_entered st"
      using obj that tree(1,4,5) X entered_cases(2) [of n a st space] by (simp add: space_entered_def)
    show ?thesis using update_named_tree [where f = f, OF inv ok tree(2) e' e(2,3) obj'] tree(1) e' by simp
  qed
  then show "space_inv (upd_entry space entry f st) space X"
    and "space_caps (upd_entry space entry f st) space = (space_caps st space)(n \<mapsto> denoted e)"
    and "space_names (upd_entry space entry f st) space = space_names st space"
    and "get_entry (upd_entry space entry f st) space entry = e" by blast+
qed

section \<open>Entering and removing an entry\<close>

lemma rehashed_space:
  assumes inv: "space_inv st space X" and re: "rehashed space st st'" and rev: "reverse_ok st' space"
  shows "space_inv st' space (entered_names st' space)" and "space_caps st' space = space_caps st space"
    and "space_names st' space = space_names st space"
    and "space_names st space n = Some e \<Longrightarrow> denoted (get_entry st' space e) = denoted (get_entry st space e)"
proof -
  let ?t = "is_table (st_space st space)" and ?t' = "is_table (st_space st' space)"
  obtain fl where ok: "space_ok st space fl {}" and typed: "tree_typed st space" using inv by (auto simp: space_inv_def)
  have tab: "table_ok (st_space st space) fl {}" and ist: "tree_ok st space" using ok by (auto simp: space_ok_def)
  have ite: "st_ite st' = st_ite st" and same: "same_entries ?t ?t'" using re by (auto simp: rehashed_def)
  obtain t h where sp: "st_space st' = (st_space st)(space := (st_space st space)\<lparr>is_table := t, is_tree_hash := h\<rparr>)"
    using re by (auto simp: rehashed_def)
  have len: "length ?t' = length ?t" using same_entries_length [OF same] .
  have es: "tree_entries st' space = tree_entries st space" using sp by (simp add: tree_entries_def)
  note nth = same_entries_nth [OF same]
  have un: "untyped ?t' = untyped ?t" using nth(2) len by (auto simp: untyped_def)
  have fl: "free_list ?t fl {}" by (rule table_okD(3) [OF tab])
  have "chain (links ?t') 0 fl \<longleftrightarrow> chain (links ?t) 0 fl"
  proof (rule chain_cong)
    fix k assume "k \<in> set (0 # fl)"
    then have "k < length ?t" using free_list_less [OF fl] table_okD(1) [OF tab] by auto
    then show "links ?t' k = links ?t k" using nth(3) by simp
  qed
  moreover have "ie_bits (?t' ! i) = 0 \<and> ie_object (?t' ! i) = IO_NULL" if "i \<in> insert 0 (untyped ?t)" for i
  proof -
    have "i < length ?t" using that table_okD(1) [OF tab] by (auto simp: untyped_def)
    then show ?thesis using nth(1,2) that fl by (auto simp: free_list_def)
  qed
  moreover have "?t' \<noteq> []" using len table_okD(1) [OF tab] by auto
  ultimately have "free_list ?t' fl {}" using fl by (simp add: free_list_def un)
  moreover have "ie_bits (?t' ! i) AND IE_BITS_COLLISION = 0" if "i < length ?t'" for i
    using tab nth(2) [of i] that len by (simp add: table_ok_def)
  ultimately have "table_ok (st_space st' space) fl {}" using tab len sp by (simp add: table_ok_def)
  moreover have "tree_ok st' space" using ist len unfolding tree_ok_def Let_def es ite by (simp add: sp)
  moreover have "tree_typed st' space" using typed by (simp add: tree_typed_def es ite)
  ultimately show "space_inv st' space (entered_names st' space)" using rev by (auto simp: space_inv_def space_ok_def)
  have den: "denoted (?t' ! i) = denoted (?t ! i)" if "i < length ?t" for i using nth that by (simp add: denoted_def)
  show names: "space_names st' space = space_names st space"
    unfolding space_names_def Let_def es len using nth(2) by (auto simp: fun_eq_iff)
  show d: "denoted (get_entry st' space e) = denoted (get_entry st space e)" if "space_names st space n = Some e" for n e
    using ok that by (cases rule: named_cases) (auto simp: den ite)
  show "space_caps st' space = space_caps st space"
  proof
    fix m show "space_caps st' space m = space_caps st space m"
      using d [of m] by (cases "space_names st space m") (simp_all add: space_caps_def names)
  qed
qed

lemma remove_named:
  assumes inv: "space_inv st space X" and x: "(n, entry) \<in> X" and n: "space_names st space n = Some entry"
    and obj: "obj = ie_object (get_entry st space entry)"
  obtains st' where "ipc_hash_delete st space obj n entry = Some st'" and "space_inv st' space (X - {(n, entry)})"
    and "space_caps st' space = space_caps st space" and "space_names st' space = space_names st space"
    and "denoted (get_entry st' space entry) = denoted (get_entry st space entry)"
proof -
  have rev: "reverse_ok st space" and X: "entered_names st space = X" using inv by (auto simp: space_inv_def)
  obtain st' where st': "ipc_hash_delete st space obj n entry = Some st'" "reverse_ok st' space"
      "entered_names st' space = X - {(n, entry)}" "rehashed space st st'"
    using hash_delete_result [OF rev, of n entry] x X obj by auto
  note re = rehashed_space [OF inv st'(4,2)]
  show thesis by (rule that [OF st'(1)]) (use re n st'(3) in auto)
qed

lemma enter_named:
  assumes inv: "space_inv st space X" and n: "space_names st space n = Some entry" and x: "(n, entry) \<notin> X"
    and new: "\<And>m e. (m, e) \<in> X \<Longrightarrow> ie_object (get_entry st space e) \<noteq> obj" and obj: "obj = ie_object (get_entry st space entry)"
  obtains st' where "ipc_hash_insert st space obj n entry = Some st'" and "space_inv st' space (insert (n, entry) X)"
    and "space_caps st' space = space_caps st space" and "space_names st' space = space_names st space"
    and "denoted (get_entry st' space entry) = denoted (get_entry st space entry)"
proof -
  obtain fl where rev: "reverse_ok st space" and X: "entered_names st space = X" and ok: "space_ok st space fl {}"
    using inv by (auto simp: space_inv_def)
  have named: "named_entry st space (n, entry)" by (rule named_named [OF ok n])
  have tree: "a \<notin> ghash_entered st" if "entry = Tree a" for a
    using tree_entered [of st space n a] named x that by (simp add: X)
  have "\<forall>y \<in> entered_names st space. entry_object st space y \<noteq> ie_object (get_entry st space entry)"
    using new obj by (auto simp: X)
  then obtain st' where st': "ipc_hash_insert st space obj n entry = Some st'" "reverse_ok st' space"
      "entered_names st' space = insert (n, entry) X" "rehashed space st st'"
    using hash_insert_result [OF rev named _ tree] x X obj by auto
  note re = rehashed_space [OF inv st'(4,2)]
  show thesis by (rule that [OF st'(1)]) (use re n st'(3) in auto)
qed

section \<open>Freeing an entry\<close>

lemma dealloc_named:
  assumes inv: "space_inv st space X" and n: "space_names st space n = Some entry" and x: "(n, entry) \<notin> X"
    and obj: "ie_object (get_entry st space entry) = IO_NULL"
  obtains st' where "ipc_entry_dealloc st space n entry = Some st'" and "space_inv st' space X"
    and "space_caps st' space = (space_caps st space)(n := None)" and "space_names st' space = (space_names st space)(n := None)"
proof -
  obtain fl where rev: "reverse_ok st space" and X: "entered_names st space = X" and ok: "space_ok st space fl {}" and typed: "tree_typed st space"
    using inv by (auto simp: space_inv_def)
  note r = reverse_okD [OF rev]
  from ok n show thesis
  proof (cases rule: named_cases)
    case (table k)
    let ?t = "is_table (st_space st space)"
    have "ie_bits (?t ! k) AND IE_BITS_COLLISION = 0" using ok table(5) by (simp add: space_ok_def table_ok_def)
    then have d: "ipc_entry_dealloc st space n entry = Some (dealloc_free st space k)"
      using table by (simp add: ipc_entry_dealloc_def in_table_def)
    note df = dealloc_free_result [OF ok table(4-6)]
    have null: "ie_object (?t ! k) = IO_NULL" using obj table(1) by simp
    obtain t2 where t2: "dealloc_free st space k = set_table space t2 st" "length t2 = length ?t"
        "\<And>j. ie_index (t2 ! j) = ie_index (?t ! j)" "\<And>j. ie_object (t2 ! j) = ie_object (?t ! j)"
        "\<And>j. ie_bits (t2 ! j) = (if j = k then 0 else ie_bits (?t ! j))"
    proof -
      define t1 where "t1 = ?t[k := (?t ! k)\<lparr>ie_bits := ie_bits (?t ! k) AND IE_BITS_GEN_MASK, ie_request := ie_next (?t ! 0)\<rparr>]"
      have pos: "0 < length ?t" using table(5) by linarith
      have len1: "length t1 = length ?t" by (simp add: t1_def)
      have t1: "ie_index (t1 ! j) = ie_index (?t ! j)" "ie_object (t1 ! j) = ie_object (?t ! j)" "ie_bits (t1 ! j) = (if j = k then 0 else ie_bits (?t ! j))" for j
        using table(5) by (cases "j = k"; simp add: t1_def)+
      define t2 where "t2 = t1[0 := (t1 ! 0)\<lparr>ie_request := k\<rparr>]"
      have t2: "ie_index (t2 ! j) = ie_index (t1 ! j)" "ie_object (t2 ! j) = ie_object (t1 ! j)" "ie_bits (t2 ! j) = ie_bits (t1 ! j)" for j
        using pos len1 by (cases "j = 0"; simp add: t2_def)+
      show thesis
        by (rule that [of t2]) (use t1 t2 len1 in \<open>simp_all add: dealloc_free_def Let_def t1_def t2_def\<close>)
    qed
    have h: "hash_invar t2 = hash_invar ?t" "hashed t2 = hashed ?t" using hash_cong [OF t2(2-4)] by simp_all
    have "reverse_ok (dealloc_free st space k) space"
      unfolding t2(1) using r h t2(2,4) by (simp add: reverse_ok_def set_table_def hash_count_upd_space Let_def)
    moreover have "entered_names (dealloc_free st space k) space = X" unfolding t2(1) using h X by (simp add: entered_names_def set_table_def)
    moreover have "tree_typed (dealloc_free st space k) space" unfolding t2(1) using typed by (simp add: tree_typed_def tree_entries_def)
    ultimately have "space_inv (dealloc_free st space k) space X" using df(1) [OF null] by (auto simp: space_inv_def)
    moreover have "space_names (dealloc_free st space k) space m = ((space_names st space)(n := None)) m" for m
      unfolding t2(1) set_table_names [OF t2(2)]
      using t2(2,5) table(3,5) index_inject [of m n] by (auto simp: space_names_def Let_def IE_BITS_TYPE_def)
    ultimately show thesis using that [OF d] df(2) [OF null] table(2) by blast
  next
    case (tree a)
    have d: "ipc_entry_dealloc st space n entry = Some (dealloc_tree st space n)"
      using tree(1) by (simp add: ipc_entry_dealloc_def in_table_def)
    have key: "n \<in> keys (tree_entries st space)" using tree(2) by force
    note dt = dealloc_tree_result [OF ok key]
    have tab: "table_ok (st_space st space) fl {}" and ist: "tree_ok st space" using ok by (auto simp: space_ok_def)
    obtain t where t: "ist_entries t = without n (tree_entries st space)"
        "dealloc_tree st space n = upd_space space (\<lambda>s. s\<lparr>is_tree := t, is_tree_total := is_tree_total s - 1,
          is_tree_small := (if MACH_PORT_INDEX n < entries_sizes (is_table_next s) then is_tree_small s - 1
            else is_tree_small s)\<rparr>) st"
      using dealloc_tree_state [OF ist table_okD(1) [OF tab] key] by blast
    have "reverse_ok (dealloc_tree st space n) space"
      unfolding t(2) using r by (simp add: reverse_ok_def hash_count_upd_space Let_def)
    moreover have "entered_names (dealloc_tree st space n) space = X" unfolding t(2) using X by (simp add: entered_names_def)
    moreover have "tree_typed (dealloc_tree st space n) space"
      unfolding t(2) using typed by (auto simp: tree_typed_def tree_entries_def t(1))
    ultimately have "space_inv (dealloc_tree st space n) space X" using dt(1) by (auto simp: space_inv_def)
    moreover have "space_names (dealloc_tree st space n) space m = ((space_names st space)(n := None)) m" for m
      unfolding t(2) using tree(3) map_of_without [of n "tree_entries st space" m]
      by (auto simp: space_names_def Let_def tree_entries_def t(1))
    ultimately show thesis using that [OF d] dt(2) by blast
  qed
qed

section \<open>The pure send rights after an operation\<close>

lemma send_names_iff:
  "(n, e) \<in> send_names st space \<longleftrightarrow> space_names st space n = Some e \<and>
     (\<exists>bits obj request. space_caps st space n = Some (bits, obj, request) \<and> IE_BITS_TYPE bits = MACH_PORT_TYPE_SEND)"
  by (auto simp: send_names_def space_caps_def denoted_def)

lemma send_names_update:
  assumes "space_names st' space = space_names st space" and "space_names st space n = Some e"
    and "space_caps st' space = (space_caps st space)(n \<mapsto> (bits, obj, request))"
  shows "send_names st' space =
    (if IE_BITS_TYPE bits = MACH_PORT_TYPE_SEND then insert (n, e) (send_names st space) else send_names st space - {(n, e)})"
  using assms by (auto simp: send_names_iff split: if_splits)

lemma send_names_dealloc:
  assumes "space_names st' space = (space_names st space)(n := None)" and "space_names st space n = Some e"
    and "space_caps st' space = (space_caps st space)(n := None)"
  shows "send_names st' space = send_names st space - {(n, e)}"
  using assms by (auto simp: send_names_iff split: if_splits)

section \<open>The rest of the kernel\<close>

lemma state_more [simp]:
  "ipc_state.more (upd_space space f st) = ipc_state.more st"
  "ipc_state.more (upd_ite a g st) = ipc_state.more st"
  "ipc_state.more (upd_bucket h b st) = ipc_state.more st"
  "ipc_state.more (set_table space t st) = ipc_state.more st"
  "ipc_state.more (set_tree space tr st) = ipc_state.more st"
  by (simp_all add: upd_space_def upd_ite_def upd_bucket_def set_table_def set_tree_def)

lemma upd_entry_more [simp]: "ipc_state.more (upd_entry space e f st) = ipc_state.more st"
  by (cases e) simp_all

lemma hash_more:
  "ipc_hash_delete st space obj n e = Some st' \<Longrightarrow> ipc_state.more st' = ipc_state.more st"
  "ipc_hash_insert st space obj n e = Some st' \<Longrightarrow> ipc_state.more st' = ipc_state.more st"
  by (auto simp: ipc_hash_delete_def ipc_hash_insert_def local_hash_delete_def local_hash_insert_def
      ipc_hash_global_delete_def ipc_hash_global_insert_def Let_def split: if_splits)

lemma collision_more: "ipc_entry_tree_collision st space n = (c, st') \<Longrightarrow> ipc_state.more st' = ipc_state.more st"
  by (auto simp: ipc_entry_tree_collision_def Let_def split: prod.splits)

lemma global_delete_more [simp]: "ipc_state.more (ipc_hash_global_delete st space obj a) = ipc_state.more st"
  by (simp add: ipc_hash_global_delete_def Let_def)

lemma dealloc_more:
  assumes "ipc_entry_dealloc st space n e = Some st'"
  shows "ipc_state.more st' = ipc_state.more st"
proof -
  have "ipc_state.more (dealloc_free st space k) = ipc_state.more st" for k by (simp add: dealloc_free_def Let_def)
  moreover have "ipc_state.more (dealloc_tree st space n) = ipc_state.more st"
    by (auto simp: dealloc_tree_def Let_def dest!: collision_more split: prod.splits)
  moreover have "dealloc_collision st space k = Some st' \<Longrightarrow> ipc_state.more st' = ipc_state.more st" for k
    by (auto simp: dealloc_collision_def Let_def local_hash_insert_def split: prod.splits option.splits if_splits)
  ultimately show ?thesis using assms by (auto simp: ipc_entry_dealloc_def Let_def split: if_splits)
qed

lemma more_kernel:
  assumes "ipc_state.more st' = ipc_state.more (st :: ipc_kernel)"
  shows "st_port st' = st_port st" and "st_pset st' = st_pset st" and "st_events st' = st_events st"
    and "st_marequest st' = st_marequest st" and "ipc_marequest_table st' = ipc_marequest_table st"
    and "ipc_marequest_mask st' = ipc_marequest_mask st" and "st_thread st' = st_thread st"
  using assms by (cases st; cases st'; simp)+

text \<open>A traversal preserves what its body preserves, and growing the table of a space changes only that space.\<close>

lemma traverse_loop_keeps:
  assumes "traverse_loop body st entry splay = Some (st', splay')" and "P st" and "\<And>st n p. P st \<Longrightarrow> P (fst (body st n p))"
  shows "P st'"
  using assms
proof (induction body st entry splay rule: traverse_loop.induct)
  case (1 body st entry splay)
  show ?case
  proof (cases "entry = ITE_NULL")
    case True
    then show ?thesis using "1.prems" by (simp add: traverse_loop.simps)
  next
    case False
    obtain st1 del where body: "body st (ite_name entry) (ite_addr entry) = (st1, del)" by fastforce
    obtain entry1 splay1 where nx: "ipc_splay_traverse_next splay del = Some (entry1, splay1)"
        "traverse_loop body st1 entry1 splay1 = Some (st', splay')"
      using "1.prems"(1) False body by (subst (asm) traverse_loop.simps) (auto split: option.splits)
    have "P st1" using "1.prems"(3) [OF "1.prems"(2), of "ite_name entry" "ite_addr entry"] body by simp
    then show ?thesis using "1.IH" [OF False body [symmetric] refl nx(1) refl nx(2)] "1.prems"(3) by simp
  qed
qed

lemma traverse_keeps:
  assumes "ipc_splay_traverse body st splay = Some (st', splay')" and "P st" and "\<And>st n p. P st \<Longrightarrow> P (fst (body st n p))"
  shows "P st'"
  using assms(1) traverse_loop_keeps [OF _ assms(2,3)] by (auto simp: ipc_splay_traverse_def split: option.splits)

lemma local_insert_more: "pred_option (\<lambda>s. ipc_state.more s = ipc_state.more st) (local_hash_insert st space obj i)"
  by (simp add: local_hash_insert_def option.pred_map o_def option.pred_True)

lemma grow_move_more:
  assumes "pred_option (\<lambda>s. ipc_state.more s = m) ost"
  shows "pred_option (\<lambda>s. ipc_state.more s = m) (fst (grow_move space ost n p))"
proof (cases ost)
  case (Some st)
  have l: "pred_option (\<lambda>s. ipc_state.more s = m) (local_hash_insert st' space obj i)" if "ipc_state.more st' = m" for st' obj i
    using local_insert_more [of st' space obj i] that by simp
  have "ipc_state.more st = m" using assms Some by simp
  then show ?thesis
    using Some by (simp add: grow_move_def Let_def option.pred_map o_def l del: upd_entry.simps get_entry.simps)
qed (simp add: grow_move_def)

lemma grow_tree_more: "grow_tree st space osize sz nsize = Some st' \<Longrightarrow> ipc_state.more st' = ipc_state.more st"
proof -
  have "pred_option (\<lambda>s. ipc_state.more s = ipc_state.more st) (Some s)"
    if "ipc_splay_traverse (grow_move space) (Some st) move = Some (Some s, move')" for s move move'
    by (rule traverse_keeps [OF that]) (simp, erule grow_move_more)
  then show "grow_tree st space osize sz nsize = Some st' \<Longrightarrow> ipc_state.more st' = ipc_state.more st"
    by (auto simp: grow_tree_def Let_def split: prod.splits option.splits)
qed

lemma grow_install_more: "grow_install st space otable osize sz nsize nits = Some st' \<Longrightarrow> ipc_state.more st' = ipc_state.more st"
  by (auto simp: grow_install_def Let_def dest!: grow_tree_more split: prod.splits option.splits if_splits)

lemma grow_table_more:
  assumes "ipc_entry_grow_table ws st space = Some (kr, st', ws')" and "\<And>w. w \<in> set ws \<Longrightarrow> quiet w"
  shows "ipc_state.more st' = ipc_state.more st \<and> set ws' \<subseteq> set ws"
  using assms
proof (induction ws arbitrary: st)
  case (Cons w ws)
  have w: "\<And>st. win_other w st = st" "\<And>st. win_freed w st = st" using Cons.prems(2) [of w] by (auto simp: quiet_def)
  define st2 where "st2 = upd_space space (\<lambda>s. s\<lparr>is_growing := False\<rparr>) (upd_space space (\<lambda>s. s\<lparr>is_growing := True\<rparr>) st)"
  have m2: "ipc_state.more st2 = ipc_state.more st" by (simp add: st2_def)
  note step = ipc_entry_grow_table.simps(2) [of w ws st space, unfolded Let_def w, folded st2_def]
  consider "(st' = st \<or> st' = st2) \<and> ws' = ws"
    | st3 otable osize sz nsize nits where "grow_install st2 space otable osize sz nsize nits = Some st3"
        "st' = st3 \<and> ws' = ws \<or> ipc_entry_grow_table ws st3 space = Some (kr, st', ws')"
    using Cons.prems(1) unfolding step by (simp split: if_splits option.splits)
  then show ?case
  proof cases
    case 1
    then show ?thesis using m2 by auto
  next
    case 2
    have "ipc_state.more st3 = ipc_state.more st" using grow_install_more [OF 2(1)] m2 by simp
    then show ?thesis using 2(2) Cons.IH [of st3] Cons.prems(2) by auto
  qed
qed simp

lemma get_more: "ipc_entry_get st space = (r, st') \<Longrightarrow> ipc_state.more st' = ipc_state.more st"
  by (auto simp: ipc_entry_get_def Let_def split: if_splits)

lemma alloc_more:
  assumes "ipc_entry_alloc ws st space = Some (r, st', ws')" and "\<And>w. w \<in> set ws \<Longrightarrow> quiet w"
  shows "ipc_state.more st' = ipc_state.more st"
  using assms
proof (induction ws st space rule: ipc_entry_alloc.induct)
  case (1 ws st space)
  obtain q st1 where g: "ipc_entry_get st space = (q, st1)" by fastforce
  note m = get_more [OF g]
  show ?case
  proof (cases "is_active (st_space st space) \<and> (\<exists>kr. q = Inl kr)")
    case False
    then show ?thesis using "1.prems"(1) g m by (subst (asm) ipc_entry_alloc.simps) (auto split: if_splits sum.splits)
  next
    case True
    then obtain kr where q: "q = Inl kr" and act: "is_active (st_space st space)" by blast
    obtain kr2 st2 ws2 where grow: "ipc_entry_grow_table ws st1 space = Some (kr2, st2, ws2)"
      using "1.prems"(1) g q act by (subst (asm) ipc_entry_alloc.simps) (auto split: option.splits)
    note gm = grow_table_more [OF grow "1.prems"(2)]
    show ?thesis
    proof (cases "kr2 = KERN_SUCCESS")
      case True
      have eq: "ipc_entry_alloc ws st space = ipc_entry_alloc ws2 st2 space"
        using True g q act grow by (subst ipc_entry_alloc.simps) simp
      have "ipc_state.more st' = ipc_state.more st2"
        by (rule "1.IH" [OF _ g [symmetric] q grow refl refl]) (use act True eq "1.prems" gm in auto)
      then show ?thesis using gm m by simp
    next
      case False
      then show ?thesis using "1.prems"(1) g q act grow gm m by (subst (asm) ipc_entry_alloc.simps) simp
    qed
  qed
qed

text \<open>Whether a space is active and whether its table is being grown.\<close>

definition life :: "'a ipc_state_scheme \<Rightarrow> ipc_space_t \<Rightarrow> bool \<times> bool" where
  "life st space = (is_active (st_space st space), is_growing (st_space st space))"

lemma life_upd_space: "(\<And>s. is_active (f s) = is_active s \<and> is_growing (f s) = is_growing s) \<Longrightarrow> life (upd_space space f st) = life st"
  by (simp add: life_def fun_eq_iff upd_space_def)

lemma life_simps [simp]:
  "life (upd_ite a g st) = life st" "life (upd_bucket h b st) = life st"
  "life (set_table space t st) = life st" "life (set_tree space tr st) = life st"
  by (simp_all add: set_table_def set_tree_def life_upd_space) (simp_all add: life_def fun_eq_iff upd_ite_def upd_bucket_def)

lemma upd_entry_life [simp]: "life (upd_entry space e f st) = life st"
  by (cases e) (simp_all add: life_upd_space)

lemma hash_life: "ipc_hash_delete st space obj n e = Some st' \<Longrightarrow> life st' = life st"
  by (auto simp: ipc_hash_delete_def local_hash_delete_def ipc_hash_global_delete_def life_upd_space Let_def split: if_splits)

lemma collision_life: "ipc_entry_tree_collision st space n = (c, st') \<Longrightarrow> life st' = life st"
  by (auto simp: ipc_entry_tree_collision_def Let_def split: prod.splits)

lemma dealloc_life:
  assumes "ipc_entry_dealloc st space n e = Some st'"
  shows "life st' = life st"
proof -
  have "life (dealloc_free st space k) = life st" for k by (simp add: dealloc_free_def life_upd_space Let_def)
  moreover have "life (dealloc_tree st space n) = life st"
    by (auto simp: dealloc_tree_def life_upd_space Let_def dest!: collision_life split: prod.splits)
  moreover have "dealloc_collision st space k = Some st' \<Longrightarrow> life st' = life st" for k
    by (auto simp: dealloc_collision_def Let_def local_hash_insert_def ipc_hash_global_delete_def life_upd_space
        split: prod.splits option.splits if_splits)
  ultimately show ?thesis using assms by (auto simp: ipc_entry_dealloc_def Let_def split: if_splits)
qed

section \<open>Filling in a fresh entry\<close>

lemma fill_fresh:
  assumes fresh: "fresh_entry st space name entry" and f: "\<And>x. ie_index (f x) = ie_index x"
    and e: "e = f (get_entry st space entry)" "IE_BITS_TYPE (ie_bits e) \<noteq> 0" "IE_BITS_TYPE (ie_bits e) \<noteq> MACH_PORT_TYPE_SEND"
      "ie_bits e AND IE_BITS_COLLISION = 0"
  shows "space_settled (upd_entry space entry f st) space"
    and "space_caps (upd_entry space entry f st) space = (space_caps st space)(name \<mapsto> denoted e)"
    and "space_names (upd_entry space entry f st) space name = Some entry"
    and "get_entry (upd_entry space entry f st) space entry = e"
proof -
  obtain k fl where k: "entry = Table k" "name = of_nat k" "MACH_PORT_INDEX name = k" "0 < k" "k < length (is_table (st_space st space))"
      "k \<notin> set fl" "space_ok st space fl {k}" and hash: "hash_ok st space" and typed: "tree_typed st space"
      and zero: "ie_bits (get_entry st space entry) = 0"
    using fresh by (auto simp: fresh_entry_def)
  let ?t = "is_table (st_space st space)" and ?st = "upd_entry space entry f st"
  have e1: "e = f (?t ! k)" using e(1) k(1) by simp
  have st: "?st = set_table space (?t[k := e]) st" by (simp add: k(1) upd_entry_table e1 del: upd_entry.simps)
  note fill = fill_entry [where f = f, OF k(7,4-6) e1 e(2,4), folded k(1,2)]
  show "space_caps ?st space = (space_caps st space)(name \<mapsto> denoted e)" by (rule fill(2))
  show "get_entry ?st space entry = e" using k(1,5) e1 by simp
  show "space_names ?st space name = Some entry" unfolding st using set_table_names [of "?t[k := e]" st space name] k(1,3,5) e(2) by simp
  have h: "hash_invar ?t" "hashed ?t = sends ?t" "ghash_invar st" "space_entered st space = tree_sends st (tree_entries st space)"
      "hash_count st space" "\<forall>a \<in> tree_sends st (tree_entries st space). \<forall>i \<in> sends ?t. te_object (st_ite st a) \<noteq> ie_object (?t ! i)"
    using hash unfolding hash_ok_def Let_def by blast+
  have ks: "k \<notin> sends ?t" using zero k(1) by (simp add: sends_def IE_BITS_TYPE_def)
  have s: "sends (?t[k := e]) = sends ?t" using ks e(3) k(5) by (auto simp: sends_def nth_list_update)
  have "ie_index e = ie_index (?t ! k)" by (simp add: e1 f)
  then have hi: "hash_invar (?t[k := e])" "hashed (?t[k := e]) = hashed ?t" using hash_invar_fill [OF h(1) k(5)] ks h(2) by simp_all
  have es: "tree_entries ?st space = tree_entries st space" by (simp add: st tree_entries_def)
  have obj: "ie_object (?t[k := e] ! i) = ie_object (?t ! i)" if "i \<in> sends ?t" for i using that ks by (cases "i = k") simp_all
  have ts: "tree_sends ?st (tree_entries st space) = tree_sends st (tree_entries st space)" by (simp add: st tree_sends_def)
  have "hash_ok ?st space"
    unfolding hash_ok_def Let_def es ts
    using h hi s obj by (simp add: st set_table_def hash_count_upd_space del: upd_entry.simps)
  moreover have "tree_typed ?st space" using typed unfolding tree_typed_def es by (simp add: st del: upd_entry.simps)
  ultimately show "space_settled ?st space" using fill(1) by (auto simp: space_settled_def)
qed

end
