(* ===== verification/RightFacts.thy ===== *)
theory RightFacts
  imports NamedEntries
begin

text \<open>
  An abstract account of rights, and the proof that the operations of \<^verbatim>\<open>ipc/ipc_right.c\<close> on
  user references implement it.
\<close>

unbundle bit_operations_syntax

section \<open>Rights in the abstract\<close>

datatype port_right =
  Send_right nat
| Receive_right
| Send_receive_right nat
| Send_once_right
| Port_set_right
| Dead_name_right nat

text \<open>
  The right that a word stands for. A send right leaves room for the user reference that it gains when it
  turns into a dead name with a notification outstanding. A word that stands for none cannot occur.
\<close>

definition right_of :: "ipc_entry_bits_t \<Rightarrow> port_right option" where
  "right_of bits =
     (let type = IE_BITS_TYPE bits; urefs = unat (IE_BITS_UREFS bits)
      in if type = MACH_PORT_TYPE_SEND \<and> 0 < urefs \<and> urefs < 65535 then Some (Send_right urefs)
         else if type = MACH_PORT_TYPE_RECEIVE \<and> urefs = 0 then Some Receive_right
         else if type = MACH_PORT_TYPE_SEND_RECEIVE \<and> 0 < urefs \<and> urefs < 65535 then Some (Send_receive_right urefs)
         else if type = MACH_PORT_TYPE_SEND_ONCE \<and> urefs = 1 then Some Send_once_right
         else if type = MACH_PORT_TYPE_PORT_SET \<and> urefs = 0 then Some Port_set_right
         else if type = MACH_PORT_TYPE_DEAD_NAME \<and> 0 < urefs then Some (Dead_name_right urefs)
         else None)"

fun is_dead_name :: "port_right \<Rightarrow> bool" where
  "is_dead_name (Dead_name_right u) \<longleftrightarrow> True"
| "is_dead_name _ \<longleftrightarrow> False"

text \<open>
  A dead name has no object and no notification; every other right has an object. Old-style rights and
  rights that are blocked on a msg-accepted request are kept apart.
\<close>

fun cap_ok :: "ipc_entry_bits_t \<times> ipc_object_t \<times> nat \<Rightarrow> bool" where
  "cap_ok (bits, obj, request) \<longleftrightarrow> bits AND IE_BITS_COMPAT = 0 \<and> bits AND IE_BITS_MAREQUEST = 0 \<and>
     (case right_of bits of None \<Rightarrow> False
      | Some r \<Rightarrow> if is_dead_name r then obj = IO_NULL \<and> request = 0 else obj \<noteq> IO_NULL)"

fun old_ok :: "ipc_entry_bits_t \<times> ipc_object_t \<times> nat \<Rightarrow> bool" where
  "old_ok (bits, obj, request) \<longleftrightarrow> (bits AND IE_BITS_COMPAT \<noteq> 0 \<or> bits AND IE_BITS_MAREQUEST \<noteq> 0) \<and>
     right_of bits \<noteq> None \<and> obj \<noteq> IO_NULL"

definition well_typed :: "'a ipc_state_scheme \<Rightarrow> ipc_space_t \<Rightarrow> bool" where
  "well_typed st space \<longleftrightarrow> (\<forall>n c. space_caps st space n = Some c \<longrightarrow> cap_ok c \<or> old_ok c)"

definition plain :: "'a ipc_state_scheme \<Rightarrow> ipc_space_t \<Rightarrow> mach_port_t \<Rightarrow> bool" where
  "plain st space n \<longleftrightarrow> (\<forall>c. space_caps st space n = Some c \<longrightarrow> cap_ok c)"

text \<open>The rights of a space: a name denotes a right for an object, or nothing.\<close>

fun cap_right :: "ipc_entry_bits_t \<times> ipc_object_t \<times> nat \<Rightarrow> (port_right \<times> ipc_object_t) option" where
  "cap_right (bits, obj, request) = map_option (\<lambda>r. (r, obj)) (right_of bits)"

definition space_rights :: "'a ipc_state_scheme \<Rightarrow> ipc_space_t \<Rightarrow> mach_port_t \<rightharpoonup> port_right \<times> ipc_object_t" where
  "space_rights st space n = Option.bind (space_caps st space n) cap_right"

text \<open>What becomes of a right when its port dies, and when a user reference is dropped.\<close>

fun die :: "bool \<Rightarrow> port_right \<Rightarrow> port_right" where
  "die requested (Send_right u) = Dead_name_right (if requested then u + 1 else u)"
| "die requested Send_once_right = Dead_name_right (if requested then 2 else 1)"
| "die requested r = r"

fun drop_uref :: "port_right \<Rightarrow> port_right option" where
  "drop_uref (Send_right u) = (if u = 1 then None else Some (Send_right (u - 1)))"
| "drop_uref (Send_receive_right u) = Some (if u = 1 then Receive_right else Send_receive_right (u - 1))"
| "drop_uref Send_once_right = None"
| "drop_uref (Dead_name_right u) = (if u = 1 then None else Some (Dead_name_right (u - 1)))"
| "drop_uref r = Some r"

text \<open>The outcome of a call on a name: a return code, with what the name denotes afterwards.\<close>

type_synonym right_outcome = "kern_return_t \<times> port_right option"

definition spec_dealloc :: "bool \<Rightarrow> bool \<Rightarrow> port_right \<Rightarrow> right_outcome" where
  "spec_dealloc living requested r =
     (let r = (if living then r else die requested r)
      in if r = Receive_right \<or> r = Port_set_right then (KERN_INVALID_RIGHT, Some r) else (KERN_SUCCESS, drop_uref r))"

section \<open>Words and the rights they stand for\<close>

lemma unat_one_iff: "unat (w :: 32 word) = 1 \<longleftrightarrow> w = 1"
  by (simp add: word_unat_eq_iff)

lemma right_of_cases:
  assumes "right_of bits = Some r"
  obtains u where "r = Send_right u" "IE_BITS_TYPE bits = MACH_PORT_TYPE_SEND" "unat (IE_BITS_UREFS bits) = u" "0 < u" "u < 65535"
    | "r = Receive_right" "IE_BITS_TYPE bits = MACH_PORT_TYPE_RECEIVE" "IE_BITS_UREFS bits = 0"
    | u where "r = Send_receive_right u" "IE_BITS_TYPE bits = MACH_PORT_TYPE_SEND_RECEIVE" "unat (IE_BITS_UREFS bits) = u" "0 < u" "u < 65535"
    | "r = Send_once_right" "IE_BITS_TYPE bits = MACH_PORT_TYPE_SEND_ONCE" "IE_BITS_UREFS bits = 1"
    | "r = Port_set_right" "IE_BITS_TYPE bits = MACH_PORT_TYPE_PORT_SET" "IE_BITS_UREFS bits = 0"
    | u where "r = Dead_name_right u" "IE_BITS_TYPE bits = MACH_PORT_TYPE_DEAD_NAME" "unat (IE_BITS_UREFS bits) = u" "0 < u"
  using assms unfolding right_of_def Let_def
  by (auto split: if_splits simp: unat_eq_zero unat_one_iff [simplified])

lemma right_of_type:
  "IE_BITS_TYPE bits = MACH_PORT_TYPE_SEND \<Longrightarrow> 0 < unat (IE_BITS_UREFS bits) \<Longrightarrow> unat (IE_BITS_UREFS bits) < 65535 \<Longrightarrow>
     right_of bits = Some (Send_right (unat (IE_BITS_UREFS bits)))"
  "IE_BITS_TYPE bits = MACH_PORT_TYPE_RECEIVE \<Longrightarrow> IE_BITS_UREFS bits = 0 \<Longrightarrow> right_of bits = Some Receive_right"
  "IE_BITS_TYPE bits = MACH_PORT_TYPE_SEND_RECEIVE \<Longrightarrow> 0 < unat (IE_BITS_UREFS bits) \<Longrightarrow> unat (IE_BITS_UREFS bits) < 65535 \<Longrightarrow>
     right_of bits = Some (Send_receive_right (unat (IE_BITS_UREFS bits)))"
  "IE_BITS_TYPE bits = MACH_PORT_TYPE_SEND_ONCE \<Longrightarrow> IE_BITS_UREFS bits = 1 \<Longrightarrow> right_of bits = Some Send_once_right"
  "IE_BITS_TYPE bits = MACH_PORT_TYPE_DEAD_NAME \<Longrightarrow> 0 < unat (IE_BITS_UREFS bits) \<Longrightarrow>
     right_of bits = Some (Dead_name_right (unat (IE_BITS_UREFS bits)))"
  by (simp_all add: right_of_def)

lemma type_tests:
  assumes "IE_BITS_TYPE bits = t"
  shows "bits AND MACH_PORT_TYPE_SEND = t AND MACH_PORT_TYPE_SEND"
    and "bits AND MACH_PORT_TYPE_RECEIVE = t AND MACH_PORT_TYPE_RECEIVE"
    and "bits AND MACH_PORT_TYPE_SEND_ONCE = t AND MACH_PORT_TYPE_SEND_ONCE"
    and "bits AND MACH_PORT_TYPE_PORT_SET = t AND MACH_PORT_TYPE_PORT_SET"
    and "bits AND MACH_PORT_TYPE_DEAD_NAME = t AND MACH_PORT_TYPE_DEAD_NAME"
    and "bits AND MACH_PORT_TYPE_SEND_RIGHTS = t AND MACH_PORT_TYPE_SEND_RIGHTS"
    and "bits AND MACH_PORT_TYPE_SEND_RECEIVE = t AND MACH_PORT_TYPE_SEND_RECEIVE"
  using assms by (simp_all add: IE_BITS_TYPE_def and.assoc flip: assms)

lemma right_of_bits:
  assumes "right_of bits = Some r"
  shows "IE_BITS_TYPE bits \<noteq> 0"
  using assms by (auto elim!: right_of_cases)

text \<open>Words with the same high half: the kind and the flags are the same.\<close>

lemma same_high:
  assumes "drop_bit 16 b = drop_bit 16 (c :: 32 word)"
  shows "IE_BITS_TYPE b = IE_BITS_TYPE c" and "b AND IE_BITS_COLLISION = c AND IE_BITS_COLLISION"
    and "b AND IE_BITS_COMPAT = c AND IE_BITS_COMPAT" and "b AND IE_BITS_MAREQUEST = c AND IE_BITS_MAREQUEST"
  unfolding IE_BITS_TYPE_def by (rule high_half_and [OF assms]; simp)+

lemma minus_one:
  assumes "0 < unat (IE_BITS_UREFS b)"
  shows "unat (IE_BITS_UREFS (b - 1)) = unat (IE_BITS_UREFS b) - 1" and "drop_bit 16 (b - 1) = drop_bit 16 b"
  using urefs_sub [of 1 b] assms by (simp_all add: unat_sub word_le_nat_alt)

lemma plus_one:
  assumes "unat (IE_BITS_UREFS b) < 65535"
  shows "unat (IE_BITS_UREFS (b + 1)) = unat (IE_BITS_UREFS b) + 1" and "drop_bit 16 (b + 1) = drop_bit 16 b"
  using urefs_add [of b 1] assms by (simp_all add: unat_word_ariths)

lemma dead_bits:
  defines "c b \<equiv> (b AND NOT IE_BITS_TYPE_MASK) OR MACH_PORT_TYPE_DEAD_NAME"
  shows "IE_BITS_TYPE (c b) = MACH_PORT_TYPE_DEAD_NAME" and "IE_BITS_UREFS (c b) = IE_BITS_UREFS b"
    and "c b AND IE_BITS_COLLISION = b AND IE_BITS_COLLISION" and "c b AND IE_BITS_COMPAT = b AND IE_BITS_COMPAT"
    and "c b AND IE_BITS_MAREQUEST = b AND IE_BITS_MAREQUEST"
  by (simp_all add: c_def IE_BITS_TYPE_def IE_BITS_UREFS_def bit.conj_disj_distrib2 and.assoc)

lemma drop_right_of:
  assumes "right_of bits = Some r" and "drop_uref r = Some r'" and "r' \<noteq> Receive_right" and "r \<noteq> Port_set_right" 
  shows "right_of (bits - 1) = Some r'" and "drop_bit 16 (bits - 1) = drop_bit 16 bits"
proof -
  have u: "0 < unat (IE_BITS_UREFS bits)" using assms by (cases r) (auto elim!: right_of_cases)
  note m = minus_one [OF u]
  show "drop_bit 16 (bits - 1) = drop_bit 16 bits" by (rule m(2))
  show "right_of (bits - 1) = Some r'"
    using assms(1)
  proof (cases rule: right_of_cases)
    case (1 u)
    then show ?thesis using assms(2) m(1) same_high(1) [OF m(2)] by (auto simp: right_of_def Let_def split: if_splits)
  next
    case (3 u)
    then show ?thesis using assms(2,3) m(1) same_high(1) [OF m(2)] by (auto simp: right_of_def Let_def split: if_splits)
  next
    case (6 u)
    then show ?thesis using assms(2) m(1) same_high(1) [OF m(2)] by (auto simp: right_of_def Let_def split: if_splits)
  qed (use assms in auto)
qed

section \<open>A capability at rest\<close>

text \<open>
  A name of a settled space, its entry and what it denotes. An entry with an old-style or a
  msg-accepted request attached is left to the code for those.
\<close>

definition holds ::
  "ipc_kernel \<Rightarrow> ipc_space_t \<Rightarrow> mach_port_t \<Rightarrow> ipc_entry_t \<Rightarrow> ipc_entry_bits_t \<Rightarrow> ipc_object_t \<Rightarrow> nat \<Rightarrow> bool" where
  "holds st space name entry bits obj request \<longleftrightarrow>
     space_settled st space \<and> space_names st space name = Some entry \<and>
     denoted (get_entry st space entry) = (bits, obj, request) \<and>
     bits AND IE_BITS_COMPAT = 0 \<and> bits AND IE_BITS_MAREQUEST = 0"

lemma holds_caps: "holds st space name entry bits obj request \<Longrightarrow> space_caps st space name = Some (bits, obj, request)"
  by (simp add: holds_def space_caps_def)

lemma holdsD:
  assumes "holds st space name entry bits obj request"
  shows "space_inv st space (send_names st space)" and "space_names st space name = Some entry"
    and "ie_bits (get_entry st space entry) = bits" and "ie_object (get_entry st space entry) = obj"
    and "ie_request (get_entry st space entry) = request" and "bits AND IE_BITS_COMPAT = 0" and "bits AND IE_BITS_MAREQUEST = 0"
    and "(name, entry) \<in> send_names st space \<longleftrightarrow> IE_BITS_TYPE bits = MACH_PORT_TYPE_SEND"
    and "bits AND IE_BITS_COLLISION = 0"
proof -
  show inv: "space_inv st space (send_names st space)" and n: "space_names st space name = Some entry"
    and b: "ie_bits (get_entry st space entry) = bits" and "ie_object (get_entry st space entry) = obj"
    and "ie_request (get_entry st space entry) = request" and "bits AND IE_BITS_COMPAT = 0" and "bits AND IE_BITS_MAREQUEST = 0"
    using assms by (auto simp: holds_def settled_iff denoted_def)
  show "(name, entry) \<in> send_names st space \<longleftrightarrow> IE_BITS_TYPE bits = MACH_PORT_TYPE_SEND"
    using n b by (simp add: send_names_def)
  obtain fl where ok: "space_ok st space fl {}" and typed: "tree_typed st space" using inv by (auto simp: space_inv_def)
  from ok n show "bits AND IE_BITS_COLLISION = 0"
  proof (cases rule: named_cases)
    case (table k)
    then show ?thesis using ok b by (auto simp: space_ok_def table_ok_def)
  next
    case (tree a)
    then show ?thesis using typed b by (auto simp: tree_typed_def)
  qed
qed

text \<open>A change of the entry in place, when the set of pure send rights is as it should be afterwards.\<close>

lemma update_settles:
  assumes inv: "space_inv st space X" and n: "space_names st space name = Some entry"
    and f: "\<And>x. ie_index (f x) = ie_index x" and e: "denoted (f (get_entry st space entry)) = (bits, obj, request)"
    and ty: "IE_BITS_TYPE bits \<noteq> 0" "bits AND IE_BITS_COLLISION = 0"
    and obj: "(name, entry) \<in> X \<Longrightarrow> obj = ie_object (get_entry st space entry)"
    and X: "X = (if IE_BITS_TYPE bits = MACH_PORT_TYPE_SEND then insert (name, entry) (send_names st space)
      else send_names st space - {(name, entry)})"
  shows "space_settled (upd_entry space entry f st) space"
    and "space_caps (upd_entry space entry f st) space = (space_caps st space)(name \<mapsto> (bits, obj, request))"
    and "space_names (upd_entry space entry f st) space = space_names st space"
    and "denoted (get_entry (upd_entry space entry f st) space entry) = (bits, obj, request)"
proof -
  have e': "ie_bits (f (get_entry st space entry)) = bits" "ie_object (f (get_entry st space entry)) = obj"
    using e by (simp_all add: denoted_def)
  note u = update_named [where f = f, OF inv n f refl, unfolded e', OF ty obj]
  show caps: "space_caps (upd_entry space entry f st) space = (space_caps st space)(name \<mapsto> (bits, obj, request))"
    and names: "space_names (upd_entry space entry f st) space = space_names st space"
    and "denoted (get_entry (upd_entry space entry f st) space entry) = (bits, obj, request)"
    using u e by simp_all
  show "space_settled (upd_entry space entry f st) space"
    unfolding settled_iff send_names_update [OF names n caps] X [symmetric] by (rule u(1))
qed

lemma dealloc_settles:
  assumes inv: "space_inv st space X" and n: "space_names st space name = Some entry"
    and X: "X = send_names st space - {(name, entry)}" and obj: "ie_object (get_entry st space entry) = IO_NULL"
  obtains st' where "ipc_entry_dealloc st space name entry = Some st'" and "space_settled st' space"
    and "space_caps st' space = (space_caps st space)(name := None)" and "ipc_state.more st' = ipc_state.more st"
proof -
  have x: "(name, entry) \<notin> X" using X by simp
  obtain st' where st': "ipc_entry_dealloc st space name entry = Some st'" "space_inv st' space X"
      "space_caps st' space = (space_caps st space)(name := None)" "space_names st' space = (space_names st space)(name := None)"
    using dealloc_named [OF inv n x obj] by blast
  have "space_settled st' space"
    unfolding settled_iff send_names_dealloc [OF st'(4) n st'(3)] X [symmetric] by (rule st'(2))
  then show thesis using that st'(1,3) dealloc_more [OF st'(1)] by blast
qed

section \<open>The death of a port\<close>

text \<open>Operations on ports do not touch the space.\<close>

definition space_part :: "ipc_kernel \<Rightarrow> (ipc_space_t \<Rightarrow> ipc_space) \<times> (ite_t \<Rightarrow> ipc_tree_data) \<times> (nat \<Rightarrow> ite_t list) \<times> 32 word" where
  "space_part st = (st_space st, st_ite st, st_bucket st, ipc_hash_global_mask st)"

lemma port_only: "space_part st' = space_part st \<Longrightarrow> same_space space st st'"
  by (simp add: space_part_def same_space_def)

lemma space_part_simps [simp]:
  "space_part (upd_port p f st) = space_part st" "space_part (emit e st) = space_part st"
  "space_part (ip_reference p st) = space_part st" "space_part (ip_release p st) = space_part st"
  "space_part (notify_no_senders n m st) = space_part st" "space_part (notify_port_deleted n name st) = space_part st"
  by (simp_all add: space_part_def notify_no_senders_def notify_port_deleted_def)

lemma drop_send_part: "drop_send port st = (nsrequest, mscount, st') \<Longrightarrow> space_part st' = space_part st"
  by (auto simp: drop_send_def Let_def split: if_splits)

lemma holds_cong:
  assumes "space_part st' = space_part st"
  shows "holds st' space name entry bits obj request \<longleftrightarrow> holds st space name entry bits obj request"
    and "space_caps st' space = space_caps st space"
  using space_cong(4,5) [OF port_only [OF assms]] space_inv_cong(2,3) [OF port_only [OF assms]] by (simp_all add: holds_def)

text \<open>The ports and spaces that are alive, and who receives from a port under which name.\<close>

definition receiving :: "ipc_port \<Rightarrow> bool \<times> 32 word \<times> mach_port_t" where
  "receiving p = (ip_active p, ip_data p, ip_receiver_name p)"

definition alive :: "ipc_kernel \<Rightarrow> (ipc_port_t \<Rightarrow> bool \<times> 32 word \<times> mach_port_t) \<times> (ipc_space_t \<Rightarrow> bool \<times> bool)" where
  "alive st = (\<lambda>port. receiving (st_port st port), life st)"

lemma space_part_life: "space_part st' = space_part st \<Longrightarrow> life st' = life st"
  by (simp add: space_part_def life_def fun_eq_iff)

lemma alive_simps [simp]:
  "alive (upd_entry space entry f st) = alive st" "alive (emit e st) = alive st"
  "alive (ip_reference p st) = alive st" "alive (ip_release p st) = alive st"
  "alive (notify_no_senders n m st) = alive st" "alive (notify_port_deleted n name st) = alive st"
  by (simp_all add: alive_def receiving_def fun_eq_iff notify_no_senders_def notify_port_deleted_def) (simp_all add: life_def)

lemma dealloc_alive: "ipc_entry_dealloc st space n e = Some st' \<Longrightarrow> alive st' = alive st"
  by (simp add: alive_def dealloc_life more_kernel(1) [OF dealloc_more])

lemma hash_delete_alive: "ipc_hash_delete st space obj n e = Some st' \<Longrightarrow> alive st' = alive st"
  by (simp add: alive_def hash_life more_kernel(1) [OF hash_more(1)])

lemma drop_send_alive: "drop_send port st = (nsrequest, mscount, st') \<Longrightarrow> alive st' = alive st"
  using space_part_life [OF drop_send_part]
  by (auto simp: drop_send_def Let_def alive_def receiving_def fun_eq_iff split: if_splits)

lemma request_alive:
  "\<exists>t. st_port st' = (st_port st)(p := (st_port st p)\<lparr>ip_dnrequests := t\<rparr>) \<Longrightarrow> life st' = life st \<Longrightarrow> alive st' = alive st"
  by (auto simp: alive_def receiving_def intro!: ext split: if_splits)

definition dead_word :: "ipc_entry_bits_t \<Rightarrow> nat \<Rightarrow> ipc_entry_bits_t" where
  "dead_word bits request =
     (let bits = (bits AND NOT IE_BITS_TYPE_MASK) OR MACH_PORT_TYPE_DEAD_NAME in if request \<noteq> 0 then bits + 1 else bits)"

lemma dead_word_right:
  assumes "right_of bits = Some r" and "r = Send_once_right \<or> (\<exists>u. r = Send_right u \<or> r = Send_receive_right u)"
  shows "\<exists>u. right_of (dead_word bits request) = Some (Dead_name_right (if request \<noteq> 0 then u + 1 else u)) \<and> unat (IE_BITS_UREFS bits) = u"
    and "IE_BITS_TYPE (dead_word bits request) = MACH_PORT_TYPE_DEAD_NAME"
    and "dead_word bits request AND IE_BITS_COLLISION = bits AND IE_BITS_COLLISION"
    and "dead_word bits request AND IE_BITS_COMPAT = bits AND IE_BITS_COMPAT"
    and "dead_word bits request AND IE_BITS_MAREQUEST = bits AND IE_BITS_MAREQUEST"
proof -
  let ?c = "(bits AND NOT IE_BITS_TYPE_MASK) OR MACH_PORT_TYPE_DEAD_NAME"
  have u: "0 < unat (IE_BITS_UREFS bits)" "unat (IE_BITS_UREFS bits) < 65535"
    using assms by (auto elim!: right_of_cases)
  note c = dead_bits [of bits]
  have p: "unat (IE_BITS_UREFS (?c + 1)) = unat (IE_BITS_UREFS bits) + 1" "drop_bit 16 (?c + 1) = drop_bit 16 ?c"
    using plus_one [of ?c] u c(2) by simp_all
  note h = same_high [OF p(2)]
  show "IE_BITS_TYPE (dead_word bits request) = MACH_PORT_TYPE_DEAD_NAME"
    and "dead_word bits request AND IE_BITS_COLLISION = bits AND IE_BITS_COLLISION"
    and "dead_word bits request AND IE_BITS_COMPAT = bits AND IE_BITS_COMPAT"
    and "dead_word bits request AND IE_BITS_MAREQUEST = bits AND IE_BITS_MAREQUEST"
    using h c by (simp_all add: dead_word_def Let_def)
  show "\<exists>u. right_of (dead_word bits request) = Some (Dead_name_right (if request \<noteq> 0 then u + 1 else u)) \<and> unat (IE_BITS_UREFS bits) = u"
    using right_of_type(5) [of ?c] right_of_type(5) [of "?c + 1"] u c(1,2) h(1) p(1) by (simp add: dead_word_def Let_def)
qed

lemma right_check_dies:
  assumes h: "holds st space name entry bits port request" and r: "right_of bits = Some r" "r = Send_once_right \<or> r = Send_right u"
    and dead: "\<not> ip_active (st_port st port)"
  obtains st' where "ipc_right_check space port name entry st = Some (True, st')"
    and "holds st' space name entry (dead_word bits request) IO_NULL 0"
    and "space_caps st' space = (space_caps st space)(name \<mapsto> (dead_word bits request, IO_NULL, 0))"
    and "right_of (dead_word bits request) = Some (die (request \<noteq> 0) r)"
    and "st_port st' = (st_port st)(port := (st_port st port)\<lparr>ip_references := ip_references (st_port st port) - 1\<rparr>)"
    and "st_events st' = st_events st" and "alive st' = alive st"
proof -
  note d = holdsD [OF h]
  have r': "r = Send_once_right \<or> (\<exists>u. r = Send_right u \<or> r = Send_receive_right u)" using r(2) by auto
  note w = dead_word_right [OF r(1) r']
  have ty: "IE_BITS_TYPE bits = (if r = Send_once_right then MACH_PORT_TYPE_SEND_ONCE else MACH_PORT_TYPE_SEND)"
    using r by (auto elim!: right_of_cases)
  obtain st1 where st1: "(if bits AND MACH_PORT_TYPE_SEND \<noteq> 0 then ipc_hash_delete st space port name entry else Some st) = Some st1"
      "space_inv st1 space (send_names st space - {(name, entry)})" "space_caps st1 space = space_caps st space"
      "space_names st1 space = space_names st space" "denoted (get_entry st1 space entry) = denoted (get_entry st space entry)"
      "ipc_state.more st1 = ipc_state.more st" "alive st1 = alive st"
  proof (cases "r = Send_once_right")
    case True
    then have t: "IE_BITS_TYPE bits = MACH_PORT_TYPE_SEND_ONCE" using ty by simp
    then have "bits AND MACH_PORT_TYPE_SEND = 0" "(name, entry) \<notin> send_names st space" using type_tests(1) [OF t] d(8) by simp_all
    then show thesis using that [of st] d(1) by simp
  next
    case False
    then have t: "IE_BITS_TYPE bits = MACH_PORT_TYPE_SEND" using ty by simp
    then have "bits AND MACH_PORT_TYPE_SEND \<noteq> 0" using type_tests(1) [OF t] by simp
    moreover obtain s where "ipc_hash_delete st space port name entry = Some s"
        "space_inv s space (send_names st space - {(name, entry)})" "space_caps s space = space_caps st space"
        "space_names s space = space_names st space" "denoted (get_entry s space entry) = denoted (get_entry st space entry)"
      using remove_named [OF d(1) _ d(2) d(4) [symmetric]] d(8) t by blast
    ultimately show thesis using that [of s] by (auto dest: hash_more(1) hash_delete_alive)
  qed
  have more: "st_port st1 = st_port st" "st_events st1 = st_events st" using more_kernel [OF st1(6)] by simp_all
  define st2 where "st2 = ip_release port st1"
  have same: "same_space space st1 st2" by (rule port_only) (simp add: st2_def)
  note c = space_inv_cong [OF same] space_cong(5) [OF same]
  have den: "ie_request (get_entry st2 space entry) = request" "ie_bits (get_entry st1 space entry) = bits"
    using st1(5) d(3,5) c(3) by (simp_all add: denoted_def)
  define f :: "ipc_entry \<Rightarrow> ipc_entry" where "f = (\<lambda>e. e\<lparr>ie_request := 0, ie_bits := dead_word bits request, ie_object := IO_NULL\<rparr>)"
  define st3 where "st3 = upd_entry space entry f st2"
  have "ipc_right_check space port name entry st = Some (True, st3)"
  proof (cases "bits AND MACH_PORT_TYPE_SEND \<noteq> 0")
    case True
    then show ?thesis
      using dead st1(1) d(3,6,7) den by (simp add: ipc_right_check_def Let_def st3_def st2_def f_def dead_word_def)
  next
    case False
    then show ?thesis
      using dead st1(1) d(3,6) den by (simp add: ipc_right_check_def Let_def st3_def st2_def f_def dead_word_def)
  qed
  moreover have sn: "send_names st2 space = send_names st space"
    using st1(3,4) c(2,4) by (auto simp: send_names_iff)
  have inv2: "space_inv st2 space (send_names st space - {(name, entry)})" using st1(2) c(1) by simp
  have n2: "space_names st2 space name = Some entry" using st1(4) c(2) d(2) by simp
  have f: "ie_index (f x) = ie_index x" for x by (simp add: f_def)
  have e: "denoted (f (get_entry st2 space entry)) = (dead_word bits request, IO_NULL, 0)" by (simp add: f_def denoted_def)
  have ty: "IE_BITS_TYPE (dead_word bits request) \<noteq> 0" "dead_word bits request AND IE_BITS_COLLISION = 0" using w(2,3) d(9) by simp_all
  have X: "send_names st space - {(name, entry)} = (if IE_BITS_TYPE (dead_word bits request) = MACH_PORT_TYPE_SEND
      then insert (name, entry) (send_names st2 space) else send_names st2 space - {(name, entry)})" using w(2) sn by simp
  note u = update_settles [where f = f, OF inv2 n2 f e ty _ X, folded st3_def, simplified]
  have "holds st3 space name entry (dead_word bits request) IO_NULL 0"
    using u w(4,5) d(2,6,7) st1(4) c(2) by (simp add: holds_def)
  moreover have "right_of (dead_word bits request) = Some (die (request \<noteq> 0) r)"
    using w(1) r by (auto elim!: right_of_cases)
  ultimately show thesis
    using that [of st3] u(2) st1(3,7) c(4) more by (simp add: st3_def st2_def)
qed

section \<open>Changing the word and dropping the name\<close>

lemma holds_rebits:
  assumes h: "holds st space name entry bits obj request" and ty: "IE_BITS_TYPE bits' = MACH_PORT_TYPE_SEND \<longleftrightarrow> IE_BITS_TYPE bits = MACH_PORT_TYPE_SEND" "IE_BITS_TYPE bits' \<noteq> 0"
    and col: "bits' AND IE_BITS_COLLISION = 0"
  shows "space_settled (upd_entry space entry (\<lambda>e. e\<lparr>ie_bits := bits'\<rparr>) st) space"
    and "space_caps (upd_entry space entry (\<lambda>e. e\<lparr>ie_bits := bits'\<rparr>) st) space = (space_caps st space)(name \<mapsto> (bits', obj, request))"
proof -
  note d = holdsD [OF h]
  have e: "denoted ((get_entry st space entry)\<lparr>ie_bits := bits'\<rparr>) = (bits', obj, request)" using d(4,5) by (simp add: denoted_def)
  have X: "send_names st space = (if IE_BITS_TYPE bits' = MACH_PORT_TYPE_SEND then insert (name, entry) (send_names st space)
      else send_names st space - {(name, entry)})" using d(8) ty by auto
  show "space_settled (upd_entry space entry (\<lambda>e. e\<lparr>ie_bits := bits'\<rparr>) st) space"
    "space_caps (upd_entry space entry (\<lambda>e. e\<lparr>ie_bits := bits'\<rparr>) st) space = (space_caps st space)(name \<mapsto> (bits', obj, request))"
    by (rule update_settles [where f = "\<lambda>e. e\<lparr>ie_bits := bits'\<rparr>", OF d(1,2) _ e _ col _ X]; use ty d(4) in simp)+
qed

lemma holds_request:
  assumes h: "holds st space name entry bits obj request" and ty: "IE_BITS_TYPE bits \<noteq> 0"
  shows "holds (upd_entry space entry (\<lambda>e. e\<lparr>ie_request := r\<rparr>) st) space name entry bits obj r"
    and "space_caps (upd_entry space entry (\<lambda>e. e\<lparr>ie_request := r\<rparr>) st) space = (space_caps st space)(name \<mapsto> (bits, obj, r))"
proof -
  note d = holdsD [OF h]
  have e: "denoted ((get_entry st space entry)\<lparr>ie_request := r\<rparr>) = (bits, obj, r)" using d(3,4) by (simp add: denoted_def)
  have X: "send_names st space = (if IE_BITS_TYPE bits = MACH_PORT_TYPE_SEND then insert (name, entry) (send_names st space)
      else send_names st space - {(name, entry)})" using d(8) by auto
  note u = update_settles [where f = "\<lambda>e. e\<lparr>ie_request := r\<rparr>", OF d(1,2) _ e ty d(9) _ X]
  show "space_caps (upd_entry space entry (\<lambda>e. e\<lparr>ie_request := r\<rparr>) st) space = (space_caps st space)(name \<mapsto> (bits, obj, r))"
    using u d(4) by simp
  show "holds (upd_entry space entry (\<lambda>e. e\<lparr>ie_request := r\<rparr>) st) space name entry bits obj r"
    using u d by (simp add: holds_def)
qed

text \<open>Cancelling the dead-name request of an entry.\<close>

lemma dncancel_part: "ipc_port_dncancel port i st = (soright, st') \<Longrightarrow> space_part st' = space_part st \<and> st_events st' = st_events st \<and>
    (\<exists>t. st_port st' = (st_port st)(port := (st_port st port)\<lparr>ip_dnrequests := t\<rparr>))"
proof -
  assume c: "ipc_port_dncancel port i st = (soright, st')"
  show ?thesis
  proof (cases "ip_dnrequests (st_port st port)")
    case None
    then have "st' = st" using c by (simp add: ipc_port_dncancel_def)
    then show ?thesis by (auto simp: fun_upd_idem intro!: exI [of _ "ip_dnrequests (st_port st port)"])
  next
    case (Some t)
    then show ?thesis using c by (auto simp: ipc_port_dncancel_def Let_def split: prod.splits)
  qed
qed

lemma dncancel_holds:
  assumes h: "holds st space name entry bits obj request" and ty: "IE_BITS_TYPE bits \<noteq> 0"
    and c: "ipc_right_dncancel_macro space obj name entry st = (dnrequest, st')"
  shows "holds st' space name entry bits obj 0" and "space_caps st' space = (space_caps st space)(name \<mapsto> (bits, obj, 0))"
    and "st_events st' = st_events st" and "\<exists>t. st_port st' = (st_port st)(obj := (st_port st obj)\<lparr>ip_dnrequests := t\<rparr>)"
    and "alive st' = alive st"
proof -
  have "holds st' space name entry bits obj 0 \<and> space_caps st' space = (space_caps st space)(name \<mapsto> (bits, obj, 0)) \<and>
    st_events st' = st_events st \<and> (\<exists>t. st_port st' = (st_port st)(obj := (st_port st obj)\<lparr>ip_dnrequests := t\<rparr>)) \<and> alive st' = alive st"
  proof (cases "request = 0")
    case True
    then have "st' = st" using c holdsD(5) [OF h] by (simp add: ipc_right_dncancel_macro_def)
    then show ?thesis
      using h True holds_caps [OF h] by (auto simp: fun_upd_idem intro!: exI [of _ "ip_dnrequests (st_port st obj)"])
  next
    case False
    obtain s1 where s1: "ipc_port_dncancel obj request st = (dnrequest, s1)" "st' = upd_entry space entry (\<lambda>e. e\<lparr>ie_request := 0\<rparr>) s1"
    proof -
      obtain q s1 where q: "ipc_port_dncancel obj request st = (q, s1)" by fastforce
      have h1: "holds s1 space name entry bits obj request" using holds_cong(1) [OF conjunct1 [OF dncancel_part [OF q]]] h by blast
      note h2 = holdsD(3,6) [OF holds_request(1) [OF h1 ty, of 0]]
      have "ipc_right_dncancel_macro space obj name entry st = (q, upd_entry space entry (\<lambda>e. e\<lparr>ie_request := 0\<rparr>) s1)"
        using False q h2 holdsD(5) [OF h] by (simp add: ipc_right_dncancel_macro_def ipc_right_dncancel_def)
      then show thesis using that q c by simp
    qed
    have p: "space_part s1 = space_part st" "st_events s1 = st_events st"
        "\<exists>t. st_port s1 = (st_port st)(obj := (st_port st obj)\<lparr>ip_dnrequests := t\<rparr>)"
      using dncancel_part [OF s1(1)] by auto
    have h1: "holds s1 space name entry bits obj request" using holds_cong(1) [OF p(1)] h by simp
    have "alive s1 = alive st" using request_alive [OF p(3) space_part_life [OF p(1)]] .
    then show ?thesis using holds_request [OF h1 ty, of 0] p s1(2) holds_cong(2) [OF p(1)] by simp
  qed
  then show "holds st' space name entry bits obj 0" and "space_caps st' space = (space_caps st space)(name \<mapsto> (bits, obj, 0))"
    and "st_events st' = st_events st" and "\<exists>t. st_port st' = (st_port st)(obj := (st_port st obj)\<lparr>ip_dnrequests := t\<rparr>)"
    and "alive st' = alive st" by blast+
qed

lemma free_entry:
  assumes inv: "space_inv st space (send_names st space - {(name, entry)})" and n: "space_names st space name = Some entry"
    and ty: "IE_BITS_TYPE (ie_bits (get_entry st space entry)) \<noteq> 0" "ie_bits (get_entry st space entry) AND IE_BITS_COLLISION = 0"
  obtains st' where "ipc_entry_dealloc (upd_entry space entry (\<lambda>e. e\<lparr>ie_object := IO_NULL\<rparr>) st) space name entry = Some st'"
    and "space_settled st' space" and "space_caps st' space = (space_caps st space)(name := None)"
    and "ipc_state.more st' = ipc_state.more st"
proof -
  let ?f = "\<lambda>e. e\<lparr>ie_object := IO_NULL\<rparr>" and ?X = "send_names st space - {(name, entry)}"
  let ?e = "?f (get_entry st space entry)" and ?st = "upd_entry space entry (\<lambda>e. e\<lparr>ie_object := IO_NULL\<rparr>) st"
  have u: "space_inv ?st space ?X" "space_caps ?st space = (space_caps st space)(name \<mapsto> denoted ?e)"
      "space_names ?st space = space_names st space" "get_entry ?st space entry = ?e"
    using update_named [where f = ?f, OF inv n _ refl] ty by simp_all
  have "?X = send_names ?st space - {(name, entry)}"
    using u(2,3) n by (auto simp: send_names_iff split: if_splits)
  moreover have "space_names ?st space name = Some entry" using u(3) n by simp
  moreover have "ie_object (get_entry ?st space entry) = IO_NULL" using u(4) by simp
  ultimately obtain st' where "ipc_entry_dealloc ?st space name entry = Some st'" "space_settled st' space"
      "space_caps st' space = (space_caps ?st space)(name := None)" "ipc_state.more st' = ipc_state.more ?st"
    using dealloc_settles [OF u(1)] by blast
  then show thesis using that u(2) by simp
qed

section \<open>Giving up a right\<close>

lemma dealloc_dead_name_result:
  assumes h: "holds st space name entry bits IO_NULL 0" and r: "right_of bits = Some (Dead_name_right u)"
  obtains st' where "dealloc_dead_name space name entry st = Some (KERN_SUCCESS, st')" and "space_settled st' space"
    and "space_caps st' space = (space_caps st space)(name :=
      (if u = 1 then None else Some (bits - 1, IO_NULL, 0)))" and "st_port st' = st_port st" and "st_events st' = st_events st"
    and "alive st' = alive st"
proof -
  note d = holdsD [OF h]
  have ty: "IE_BITS_TYPE bits = MACH_PORT_TYPE_DEAD_NAME" "unat (IE_BITS_UREFS bits) = u" "0 < u"
    using r by (auto elim: right_of_cases)
  show thesis
  proof (cases "u = 1")
    case True
    have "(name, entry) \<notin> send_names st space" using d(8) ty by simp
    then obtain st' where st': "ipc_entry_dealloc st space name entry = Some st'" "space_settled st' space"
        "space_caps st' space = (space_caps st space)(name := None)" "ipc_state.more st' = ipc_state.more st"
      using dealloc_settles [OF d(1,2) _ d(4)] by blast
    have "IE_BITS_UREFS bits = 1" using True ty(2) unat_one_iff by simp
    then show thesis
      using that [of st'] True st' d(3) more_kernel [OF st'(4)] dealloc_alive [OF st'(1)] by (simp add: dealloc_dead_name_def)
  next
    case False
    have m: "drop_bit 16 (bits - 1) = drop_bit 16 bits" using minus_one(2) ty by simp
    note rb = holds_rebits [OF h, of "bits - 1"]
    have "IE_BITS_UREFS bits \<noteq> 1" using False ty(2) by auto
    then show thesis
      using that rb same_high(1,2) [OF m] d(3,9) False ty(1) by (simp add: dealloc_dead_name_def)
  qed
qed

lemma dealloc_send_once_result:
  assumes h: "holds st space name entry bits port request" and r: "right_of bits = Some Send_once_right"
  obtains st' where "dealloc_send_once space name entry port st = Some (KERN_SUCCESS, st')" and "space_settled st' space"
    and "space_caps st' space = (space_caps st space)(name := None)" and "alive st' = alive st"
proof -
  obtain dnrequest s1 where c: "ipc_right_dncancel_macro space port name entry st = (dnrequest, s1)" by fastforce
  have ty: "IE_BITS_TYPE bits = MACH_PORT_TYPE_SEND_ONCE" using r by (auto elim: right_of_cases)
  then have "IE_BITS_TYPE bits \<noteq> 0" by simp
  note dn = dncancel_holds [OF h this c]
  note d = holdsD [OF dn(1)]
  have "(name, entry) \<notin> send_names s1 space" using d(8) ty by simp
  then have inv: "space_inv s1 space (send_names s1 space - {(name, entry)})" using d(1) by simp
  obtain s2 where s2: "ipc_entry_dealloc (upd_entry space entry (\<lambda>e. e\<lparr>ie_object := IO_NULL\<rparr>) s1) space name entry = Some s2"
      "space_settled s2 space" "space_caps s2 space = (space_caps s1 space)(name := None)" "ipc_state.more s2 = ipc_state.more s1"
    using free_entry [OF inv d(2)] d(3,9) ty by auto
  define st' where "st' = notify_port_deleted dnrequest name (emit (Notify_send_once port) s2)"
  have "dealloc_send_once space name entry port st = Some (KERN_SUCCESS, st')"
    using c s2(1) by (simp add: dealloc_send_once_def st'_def)
  moreover have "alive st' = alive st" using dealloc_alive [OF s2(1)] dn(5) by (simp add: st'_def)
  moreover have p: "space_part st' = space_part s2" by (simp add: st'_def)
  ultimately show thesis
    using that s2(2,3) dn(2) space_cong(4,5) [OF port_only [OF p]] by simp
qed

lemma dealloc_last_send_result:
  assumes h: "holds st space name entry bits port request" and ty: "IE_BITS_TYPE bits = MACH_PORT_TYPE_SEND"
  obtains st' where "dealloc_last_send space name entry port st = Some st'" and "space_settled st' space"
    and "space_caps st' space = (space_caps st space)(name := None)"
    and "ip_srights (st_port st' port) = ip_srights (st_port st port) - 1" and "alive st' = alive st"
proof -
  obtain nsrequest mscount s1 where c1: "drop_send port st = (nsrequest, mscount, s1)" by (cases "drop_send port st") auto
  note p1 = drop_send_part [OF c1]
  have sr1: "ip_srights (st_port s1 port) = ip_srights (st_port st port) - 1"
    using c1 by (auto simp: drop_send_def Let_def split: if_splits)
  have h1: "holds s1 space name entry bits port request" using h holds_cong(1) [OF p1] by simp
  obtain dnrequest s2 where c2: "ipc_right_dncancel_macro space port name entry s1 = (dnrequest, s2)" by fastforce
  have "IE_BITS_TYPE bits \<noteq> 0" using ty by simp
  note dn = dncancel_holds [OF h1 this c2]
  note d = holdsD [OF dn(1)]
  have "(name, entry) \<in> send_names s2 space" using d(8) ty by simp
  then obtain s3 where s3: "ipc_hash_delete s2 space port name entry = Some s3" "space_inv s3 space (send_names s2 space - {(name, entry)})"
      "space_caps s3 space = space_caps s2 space" "space_names s3 space = space_names s2 space"
      "denoted (get_entry s3 space entry) = denoted (get_entry s2 space entry)"
    using remove_named [OF d(1) _ d(2) d(4) [symmetric]] by blast
  note m3 = more_kernel [OF hash_more(1) [OF s3(1)]]
  define s4 where "s4 = ip_release port s3"
  have same: "same_space space s3 s4" by (rule port_only) (simp add: s4_def)
  note c4 = space_inv_cong [OF same] space_cong(5) [OF same]
  have sn: "send_names s4 space = send_names s2 space" using s3(3,4) c4(2,4) by (auto simp: send_names_iff)
  have inv: "space_inv s4 space (send_names s4 space - {(name, entry)})" unfolding sn using s3(2) c4(1) by simp
  have n4: "space_names s4 space name = Some entry" using s3(4) c4(2) d(2) by simp
  have b4: "ie_bits (get_entry s4 space entry) = bits" using s3(5) c4(3) d(3) by (simp add: denoted_def)
  obtain s5 where s5: "ipc_entry_dealloc (upd_entry space entry (\<lambda>e. e\<lparr>ie_object := IO_NULL\<rparr>) s4) space name entry = Some s5"
      "space_settled s5 space" "space_caps s5 space = (space_caps s4 space)(name := None)" "ipc_state.more s5 = ipc_state.more s4"
    using free_entry [OF inv n4] b4 ty d(9) by auto
  define st' where "st' = notify_port_deleted dnrequest name (notify_no_senders nsrequest mscount s5)"
  have "dealloc_last_send space name entry port st = Some st'"
    using c1 c2 s3(1) s5(1) holdsD(3,7) [OF h] by (simp add: dealloc_last_send_def s4_def st'_def)
  moreover have "alive st' = alive st"
    using dealloc_alive [OF s5(1)] hash_delete_alive [OF s3(1)] dn(5) drop_send_alive [OF c1]
    by (simp add: st'_def s4_def)
  moreover have p': "space_part st' = space_part s5" by (simp add: st'_def)
  moreover have "st_port st' = st_port s4"
    using more_kernel(1) [OF s5(4)] by (simp add: st'_def notify_port_deleted_def notify_no_senders_def)
  then have "ip_srights (st_port st' port) = ip_srights (st_port st port) - 1"
    using dn(4) m3(1) sr1 by (auto simp: s4_def)
  ultimately show thesis
    using that s5(2,3) c4(4) s3(3) dn(2) holds_cong(2) [OF p1] space_cong(4,5) [OF port_only [OF p']] by simp
qed

lemma count_down:
  assumes h: "holds st space name entry bits obj request" and r: "right_of bits = Some r" "drop_uref r = Some r'"
    and kind: "r' \<noteq> Receive_right" "r \<noteq> Port_set_right"
  shows "space_settled (upd_entry space entry (\<lambda>e. e\<lparr>ie_bits := bits - 1\<rparr>) st) space"
    and "space_caps (upd_entry space entry (\<lambda>e. e\<lparr>ie_bits := bits - 1\<rparr>) st) space = (space_caps st space)(name \<mapsto> (bits - 1, obj, request))"
proof -
  note m = drop_right_of [OF r kind]
  note s = same_high [OF m(2)]
  have ty: "IE_BITS_TYPE (bits - 1) = MACH_PORT_TYPE_SEND \<longleftrightarrow> IE_BITS_TYPE bits = MACH_PORT_TYPE_SEND"
      "IE_BITS_TYPE (bits - 1) \<noteq> 0" "(bits - 1) AND IE_BITS_COLLISION = 0"
    using s right_of_bits [OF r(1)] holdsD(9) [OF h] by simp_all
  show "space_settled (upd_entry space entry (\<lambda>e. e\<lparr>ie_bits := bits - 1\<rparr>) st) space"
    and "space_caps (upd_entry space entry (\<lambda>e. e\<lparr>ie_bits := bits - 1\<rparr>) st) space = (space_caps st space)(name \<mapsto> (bits - 1, obj, request))"
    using holds_rebits [OF h ty] by simp_all
qed

lemma receive_word:
  defines "c b \<equiv> b AND NOT (IE_BITS_UREFS_MASK OR MACH_PORT_TYPE_SEND)"
  assumes "IE_BITS_TYPE b = MACH_PORT_TYPE_SEND_RECEIVE"
  shows "right_of (c b) = Some Receive_right" and "IE_BITS_TYPE (c b) = MACH_PORT_TYPE_RECEIVE"
    and "c b AND IE_BITS_COLLISION = b AND IE_BITS_COLLISION" and "c b AND IE_BITS_COMPAT = b AND IE_BITS_COMPAT"
    and "c b AND IE_BITS_MAREQUEST = b AND IE_BITS_MAREQUEST"
proof -
  have "IE_BITS_TYPE (c b) = IE_BITS_TYPE b AND MACH_PORT_TYPE_RECEIVE OR (b AND 0x1c0000)"
    by (simp add: c_def IE_BITS_TYPE_def and.assoc bit.conj_disj_distrib [symmetric])
  moreover have "b AND 0x1c0000 = IE_BITS_TYPE b AND 0x1c0000" by (simp add: IE_BITS_TYPE_def and.assoc)
  ultimately show ty: "IE_BITS_TYPE (c b) = MACH_PORT_TYPE_RECEIVE" by (simp add: assms(2))
  have "IE_BITS_UREFS (c b) = 0" by (simp add: c_def IE_BITS_UREFS_def and.assoc)
  then show "right_of (c b) = Some Receive_right" using right_of_type(2) [OF ty] by simp
  show "c b AND IE_BITS_COLLISION = b AND IE_BITS_COLLISION" "c b AND IE_BITS_COMPAT = b AND IE_BITS_COMPAT"
      "c b AND IE_BITS_MAREQUEST = b AND IE_BITS_MAREQUEST" by (simp_all add: c_def and.assoc)
qed

lemma drop_send_of_receive_result:
  assumes h: "holds st space name entry bits port request" and ty: "IE_BITS_TYPE bits = MACH_PORT_TYPE_SEND_RECEIVE"
  shows "space_settled (drop_send_of_receive space entry port st) space"
    and "space_caps (drop_send_of_receive space entry port st) space =
      (space_caps st space)(name \<mapsto> (bits AND NOT (IE_BITS_UREFS_MASK OR MACH_PORT_TYPE_SEND), port, request))"
    and "alive (drop_send_of_receive space entry port st) = alive st"
proof -
  let ?c = "bits AND NOT (IE_BITS_UREFS_MASK OR MACH_PORT_TYPE_SEND)"
  obtain nsrequest mscount s1 where c: "drop_send port st = (nsrequest, mscount, s1)" by (cases "drop_send port st") auto
  note p1 = drop_send_part [OF c]
  have h1: "holds s1 space name entry bits port request" using h holds_cong(1) [OF p1] by simp
  note d = holdsD [OF h1]
  note w = receive_word [OF ty]
  define f :: "ipc_entry \<Rightarrow> ipc_entry" where "f = (\<lambda>e. e\<lparr>ie_bits := ie_bits e AND NOT (IE_BITS_UREFS_MASK OR MACH_PORT_TYPE_SEND)\<rparr>)"
  have e: "denoted (f (get_entry s1 space entry)) = (?c, port, request)" using d(3-5) by (simp add: f_def denoted_def)
  have X: "send_names s1 space = (if IE_BITS_TYPE ?c = MACH_PORT_TYPE_SEND then insert (name, entry) (send_names s1 space)
      else send_names s1 space - {(name, entry)})" using d(8) w(2) ty by auto
  have "ie_index (f x) = ie_index x" for x by (simp add: f_def)
  moreover have "IE_BITS_TYPE ?c \<noteq> 0" "?c AND IE_BITS_COLLISION = 0" using w(2,3) d(9) by simp_all
  ultimately have u: "space_settled (upd_entry space entry f s1) space"
      "space_caps (upd_entry space entry f s1) space = (space_caps s1 space)(name \<mapsto> (?c, port, request))"
    using update_settles [where f = f, OF d(1,2) _ e _ _ _ X] d(4) by blast+
  have st': "drop_send_of_receive space entry port st = notify_no_senders nsrequest mscount (upd_entry space entry f s1)"
    using c by (simp add: drop_send_of_receive_def f_def)
  have p: "space_part (drop_send_of_receive space entry port st) = space_part (upd_entry space entry f s1)" by (simp add: st')
  show "space_settled (drop_send_of_receive space entry port st) space"
    and "space_caps (drop_send_of_receive space entry port st) space = (space_caps st space)(name \<mapsto> (?c, port, request))"
    using u space_cong(4,5) [OF port_only [OF p]] holds_cong(2) [OF p1] by simp_all
  show "alive (drop_send_of_receive space entry port st) = alive st" using drop_send_alive [OF c] by (simp add: st')
qed

section \<open>The specification of \<^verbatim>\<open>ipc_right_dealloc\<close>\<close>

definition right_object :: "port_right \<Rightarrow> ipc_object_t \<Rightarrow> ipc_object_t" where
  "right_object r obj = (if is_dead_name r then IO_NULL else obj)"

text \<open>
  \<open>leaves\<close>: the call returned the code, and left a settled space in which only the name may have
  changed, to denote what is given; no port died, came to life or changed hands.
\<close>

definition leaves ::
  "ipc_kernel \<Rightarrow> ipc_space_t \<Rightarrow> mach_port_t \<Rightarrow> ipc_object_t \<Rightarrow> right_outcome
     \<Rightarrow> (kern_return_t \<times> ipc_kernel) option \<Rightarrow> bool" where
  "leaves st space name obj outcome result \<longleftrightarrow>
     (\<exists>st'. result = Some (fst outcome, st') \<and> space_settled st' space \<and> (well_typed st space \<longrightarrow> well_typed st' space) \<and>
        (\<forall>n. plain st space n \<longrightarrow> plain st' space n) \<and> alive st' = alive st \<and>
        space_rights st' space = (space_rights st space)(name := map_option (\<lambda>r. (r, right_object r obj)) (snd outcome)))"

lemma well_typed_update:
  assumes "space_caps st' space = (space_caps st space)(name := c)" and "\<And>x. c = Some x \<Longrightarrow> cap_ok x" and "well_typed st space"
  shows "well_typed st' space"
  using assms by (auto simp: well_typed_def simp del: cap_ok.simps old_ok.simps split: if_splits)

lemma plain_update:
  assumes "space_caps st' space = (space_caps st space)(name := c)" and "\<And>x. c = Some x \<Longrightarrow> cap_ok x" and "plain st space n"
  shows "plain st' space n"
  using assms by (auto simp: plain_def simp del: cap_ok.simps split: if_splits)

lemma leavesI:
  assumes "result = Some (kr, st')" and "space_settled st' space" and "space_caps st' space = (space_caps st space)(name := c)"
    and "alive st' = alive st"
    and "Option.bind c cap_right = map_option (\<lambda>r. (r, right_object r obj)) r"
    and "\<And>x. c = Some x \<Longrightarrow> cap_ok x"
  shows "leaves st space name obj (kr, r) result"
proof -
  have "space_rights st' space = (space_rights st space)(name := Option.bind c cap_right)"
    using assms(3) by (auto simp: space_rights_def fun_eq_iff)
  moreover have "well_typed st space \<longrightarrow> well_typed st' space" using well_typed_update [OF assms(3,6)] by blast
  moreover have "\<forall>n. plain st space n \<longrightarrow> plain st' space n" using plain_update [OF assms(3,6)] by blast
  ultimately show ?thesis using assms(1,2,4,5) by (auto simp: leaves_def)
qed

lemma leaves_freed:
  assumes "result = Some (kr, st')" and "space_settled st' space" and "space_caps st' space = (space_caps st space)(name := None)"
    and "alive st' = alive st"
  shows "leaves st space name obj (kr, None) result"
  using leavesI [OF assms] by simp

lemma leaves_same:
  assumes h: "holds st space name entry bits obj request" and "right_of bits = Some r" and "cap_ok (bits, obj, request)"
    and "result = Some (kr, st)"
  shows "leaves st space name obj (kr, Some r) result"
proof (rule leavesI [where c = "Some (bits, obj, request)"])
  show "result = Some (kr, st)" by (rule assms(4))
  show "space_settled st space" using h by (simp add: holds_def)
  show "space_caps st space = (space_caps st space)(name \<mapsto> (bits, obj, request))" using holds_caps [OF h] by (simp add: fun_upd_idem)
  show "Option.bind (Some (bits, obj, request)) cap_right = map_option (\<lambda>r. (r, right_object r obj)) (Some r)"
    using assms(2,3) by (auto simp: right_object_def)
  show "\<And>x. Some (bits, obj, request) = Some x \<Longrightarrow> cap_ok x" using assms(3) by (simp del: cap_ok.simps)
qed simp

lemma leaves_after:
  assumes "leaves st1 space name obj1 outcome result" and "space_caps st1 space = (space_caps st space)(name := c)"
    and "\<And>x. c = Some x \<Longrightarrow> cap_ok x" and "alive st1 = alive st"
    and "map_option (\<lambda>r. (r, right_object r obj1)) (snd outcome) = map_option (\<lambda>r. (r, right_object r obj)) (snd outcome)"
  shows "leaves st space name obj outcome result"
proof -
  have "space_rights st1 space = (space_rights st space)(name := Option.bind c cap_right)"
    using assms(2) by (auto simp: space_rights_def fun_eq_iff)
  moreover have "well_typed st space \<longrightarrow> well_typed st1 space" using well_typed_update [OF assms(2,3)] by blast
  moreover have "\<forall>n. plain st space n \<longrightarrow> plain st1 space n" using plain_update [OF assms(2,3)] by blast
  ultimately show ?thesis using assms(1,4,5) by (auto simp: leaves_def)
qed

text \<open>A right is found to be dead: the capability is then that of a dead name.\<close>

lemma check_dead:
  assumes h: "holds st space name entry bits obj request" and r: "right_of bits = Some r" "r = Send_once_right \<or> r = Send_right u"
    and dead: "\<not> ip_active (st_port st obj)"
  obtains st' v where "ipc_right_check space obj name entry st = Some (True, st')"
    and "holds st' space name entry (dead_word bits request) IO_NULL 0"
    and "space_caps st' space = (space_caps st space)(name \<mapsto> (dead_word bits request, IO_NULL, 0))"
    and "right_of (dead_word bits request) = Some (Dead_name_right v)" and "die (request \<noteq> 0) r = Dead_name_right v"
    and "cap_ok (dead_word bits request, IO_NULL, 0)" and "alive st' = alive st"
proof -
  obtain v where v: "die (request \<noteq> 0) r = Dead_name_right v" using r(2) by auto
  obtain s1 where s1: "ipc_right_check space obj name entry st = Some (True, s1)"
      "holds s1 space name entry (dead_word bits request) IO_NULL 0"
      "space_caps s1 space = (space_caps st space)(name \<mapsto> (dead_word bits request, IO_NULL, 0))"
      "right_of (dead_word bits request) = Some (die (request \<noteq> 0) r)"
      "alive s1 = alive st"
    using right_check_dies [OF h r dead] by blast
  have "cap_ok (dead_word bits request, IO_NULL, 0)" using s1(4) v holdsD(6,7) [OF s1(2)] by simp
  then show thesis using that [OF s1(1-3)] s1(4,5) v by simp
qed

lemma check_alive: "ip_active (st_port st port) \<Longrightarrow> ipc_right_check space port name entry st = Some (False, st)"
  by (simp add: ipc_right_check_def)

lemma drop_dead_leaves:
  assumes h: "holds st space name entry bits IO_NULL 0" and r: "right_of bits = Some (Dead_name_right u)"
  shows "leaves st space name obj (KERN_SUCCESS, drop_uref (Dead_name_right u)) (dealloc_dead_name space name entry st)"
proof -
  obtain st' where st': "dealloc_dead_name space name entry st = Some (KERN_SUCCESS, st')" "space_settled st' space"
      "space_caps st' space = (space_caps st space)(name := (if u = 1 then None else Some (bits - 1, IO_NULL, 0)))"
      and a: "alive st' = alive st"
    using dealloc_dead_name_result [OF h r] by blast
  show ?thesis
  proof (cases "u = 1")
    case False
    then have r': "drop_uref (Dead_name_right u) = Some (Dead_name_right (u - 1))" by simp
    note d = drop_right_of [OF r r']
    have "cap_ok (bits - 1, IO_NULL, 0)" using d(1) same_high(3,4) [OF d(2)] holdsD(6,7) [OF h] by simp
    then show ?thesis using leavesI [OF st'(1-3) a] d(1) False by (auto simp: right_object_def)
  qed (use leaves_freed [OF st'(1,2) _ a] st'(3) in simp)
qed

text \<open>Counting a user reference down when it is not the last.\<close>

lemma count_down_leaves:
  assumes h: "holds st space name entry bits obj request" and r: "right_of bits = Some r" "drop_uref r = Some r'"
    and kind: "r' \<noteq> Receive_right" "r \<noteq> Port_set_right" "\<not> is_dead_name r" and obj: "obj \<noteq> IO_NULL"
  shows "leaves st space name obj (KERN_SUCCESS, Some r')
    (Some (KERN_SUCCESS, upd_entry space entry (\<lambda>e. e\<lparr>ie_bits := bits - 1\<rparr>) st))"
proof -
  note cd = count_down [OF h r kind(1,2)] and d = drop_right_of [OF r kind(1,2)]
  have k: "\<not> is_dead_name r'" using r(2) kind(3) by (cases r) (auto split: if_splits)
  then have "cap_ok (bits - 1, obj, request)" using d(1) same_high(3,4) [OF d(2)] holdsD(6,7) [OF h] obj by simp
  then show ?thesis using leavesI [OF refl cd] d(1) k by (simp add: right_object_def)
qed

lemma dealloc_send_leaves:
  assumes h: "holds st space name entry bits obj request" and r: "right_of bits = Some (Send_right u)" and obj: "obj \<noteq> IO_NULL"
  shows "leaves st space name obj (spec_dealloc (ip_active (st_port st obj)) (request \<noteq> 0) (Send_right u))
    (ipc_right_dealloc space name entry st)"
proof -
  note d = holdsD [OF h]
  have ty: "IE_BITS_TYPE bits = MACH_PORT_TYPE_SEND" "unat (IE_BITS_UREFS bits) = u" using r by (auto elim: right_of_cases)
  show ?thesis
  proof (cases "ip_active (st_port st obj)")
    case True
    note live = check_alive [OF True]
    show ?thesis
    proof (cases "u = 1")
      case last: True
      then have one: "IE_BITS_UREFS bits = 1" using ty(2) unat_one_iff by simp
      obtain st' where "dealloc_last_send space name entry obj st = Some st'" and st': "space_settled st' space"
          "space_caps st' space = (space_caps st space)(name := None)" "alive st' = alive st"
        using dealloc_last_send_result [OF h ty(1)] by blast
      then show ?thesis
        using leaves_freed [OF refl st'] live ty(1) one d(3,4) True last by (simp add: ipc_right_dealloc_def spec_dealloc_def)
    next
      case False
      then have one: "IE_BITS_UREFS bits \<noteq> 1" using ty(2) by auto
      have r': "drop_uref (Send_right u) = Some (Send_right (u - 1))" using False by simp
      show ?thesis
        using count_down_leaves [OF h r r'] live ty(1) one d(3,4) obj True False by (simp add: ipc_right_dealloc_def spec_dealloc_def)
    qed
  next
    case False
    have ru: "Send_right u = Send_once_right \<or> Send_right u = Send_right u" by simp
    obtain s1 v where s1: "ipc_right_check space obj name entry st = Some (True, s1)"
        "holds s1 space name entry (dead_word bits request) IO_NULL 0"
        "space_caps s1 space = (space_caps st space)(name \<mapsto> (dead_word bits request, IO_NULL, 0))"
        "right_of (dead_word bits request) = Some (Dead_name_right v)" "die (request \<noteq> 0) (Send_right u) = Dead_name_right v"
        "cap_ok (dead_word bits request, IO_NULL, 0)" "alive s1 = alive st"
      using check_dead [OF h r ru False] by blast
    have "ipc_right_dealloc space name entry st = dealloc_dead_name space name entry s1"
      using s1(1) ty(1) d(3,4,6) by (simp add: ipc_right_dealloc_def)
    then have "leaves s1 space name obj (KERN_SUCCESS, drop_uref (Dead_name_right v)) (ipc_right_dealloc space name entry st)"
      using drop_dead_leaves [OF s1(2,4)] by simp
    from leaves_after [OF this s1(3) _ s1(7)] show ?thesis
      using s1(5,6) False by (simp add: spec_dealloc_def del: cap_ok.simps)
  qed
qed

lemma dealloc_send_once_leaves:
  assumes h: "holds st space name entry bits obj request" and r: "right_of bits = Some Send_once_right"
  shows "leaves st space name obj (spec_dealloc (ip_active (st_port st obj)) (request \<noteq> 0) Send_once_right)
    (ipc_right_dealloc space name entry st)"
proof -
  note d = holdsD [OF h]
  have ty: "IE_BITS_TYPE bits = MACH_PORT_TYPE_SEND_ONCE" using r by (auto elim: right_of_cases)
  show ?thesis
  proof (cases "ip_active (st_port st obj)")
    case True
    obtain st' where st': "dealloc_send_once space name entry obj st = Some (KERN_SUCCESS, st')" "space_settled st' space"
        "space_caps st' space = (space_caps st space)(name := None)" "alive st' = alive st"
      using dealloc_send_once_result [OF h r] by blast
    then show ?thesis
      using leaves_freed [OF st'] check_alive [OF True] ty d(3,4) True by (simp add: ipc_right_dealloc_def spec_dealloc_def)
  next
    case False
    have ru: "Send_once_right = Send_once_right \<or> Send_once_right = Send_right 0" by simp
    obtain s1 v where s1: "ipc_right_check space obj name entry st = Some (True, s1)"
        "holds s1 space name entry (dead_word bits request) IO_NULL 0"
        "space_caps s1 space = (space_caps st space)(name \<mapsto> (dead_word bits request, IO_NULL, 0))"
        "right_of (dead_word bits request) = Some (Dead_name_right v)" "die (request \<noteq> 0) Send_once_right = Dead_name_right v"
        "cap_ok (dead_word bits request, IO_NULL, 0)" "alive s1 = alive st"
      using check_dead [OF h r ru False] by blast
    have "ipc_right_dealloc space name entry st = dealloc_dead_name space name entry s1"
      using s1(1) ty d(3,4,6) by (simp add: ipc_right_dealloc_def)
    then have "leaves s1 space name obj (KERN_SUCCESS, drop_uref (Dead_name_right v)) (ipc_right_dealloc space name entry st)"
      using drop_dead_leaves [OF s1(2,4)] by simp
    from leaves_after [OF this s1(3) _ s1(7)] show ?thesis
      using s1(5,6) False by (simp add: spec_dealloc_def del: cap_ok.simps)
  qed
qed

lemma drop_send_of_receive_leaves:
  assumes h: "holds st space name entry bits obj request" and ty: "IE_BITS_TYPE bits = MACH_PORT_TYPE_SEND_RECEIVE" and obj: "obj \<noteq> IO_NULL"
  shows "leaves st space name obj (KERN_SUCCESS, Some Receive_right) (Some (KERN_SUCCESS, drop_send_of_receive space entry obj st))"
proof -
  note w = receive_word [OF ty]
  have "cap_ok (bits AND NOT (IE_BITS_UREFS_MASK OR MACH_PORT_TYPE_SEND), obj, request)" using w(1,4,5) holdsD(6,7) [OF h] obj by simp
  then show ?thesis using leavesI [OF refl drop_send_of_receive_result [OF h ty]] w(1) by (simp add: right_object_def)
qed

lemma dealloc_send_receive_leaves:
  assumes h: "holds st space name entry bits obj request" and r: "right_of bits = Some (Send_receive_right u)" and obj: "obj \<noteq> IO_NULL"
  shows "leaves st space name obj (KERN_SUCCESS, drop_uref (Send_receive_right u)) (ipc_right_dealloc space name entry st)"
proof -
  note d = holdsD [OF h]
  have ty: "IE_BITS_TYPE bits = MACH_PORT_TYPE_SEND_RECEIVE" "unat (IE_BITS_UREFS bits) = u" using r by (auto elim: right_of_cases)
  show ?thesis
  proof (cases "u = 1")
    case True
    then have "IE_BITS_UREFS bits = 1" using ty(2) unat_one_iff by simp
    then show ?thesis using drop_send_of_receive_leaves [OF h ty(1) obj] ty(1) d(3,4) True by (simp add: ipc_right_dealloc_def)
  next
    case False
    then have one: "IE_BITS_UREFS bits \<noteq> 1" using ty(2) by auto
    have r': "drop_uref (Send_receive_right u) = Some (Send_receive_right (u - 1))" using False by simp
    show ?thesis using count_down_leaves [OF h r r'] ty(1) one d(3,4) obj False by (simp add: ipc_right_dealloc_def)
  qed
qed

text \<open>The operation implements its specification, for every kind of right.\<close>

lemma right_dealloc_leaves:
  assumes h: "holds st space name entry bits obj request" and r: "right_of bits = Some r" and c: "cap_ok (bits, obj, request)"
  shows "leaves st space name obj (spec_dealloc (ip_active (st_port st obj)) (request \<noteq> 0) r)
    (ipc_right_dealloc space name entry st)"
proof -
  note d = holdsD [OF h]
  have obj: "is_dead_name r \<Longrightarrow> obj = IO_NULL \<and> request = 0" "\<not> is_dead_name r \<Longrightarrow> obj \<noteq> IO_NULL" using r c by simp_all
  note same = leaves_same [OF h r c]
  show ?thesis
  proof (cases r)
    case (Send_right u)
    then show ?thesis using dealloc_send_leaves [OF h] r obj(2) by simp
  next
    case Receive_right
    then have "IE_BITS_TYPE bits = MACH_PORT_TYPE_RECEIVE" using r by (auto elim: right_of_cases)
    then show ?thesis using same d(3) Receive_right by (simp add: ipc_right_dealloc_def spec_dealloc_def)
  next
    case (Send_receive_right u)
    then show ?thesis using dealloc_send_receive_leaves [OF h] r obj(2) by (simp add: spec_dealloc_def)
  next
    case Send_once_right
    then show ?thesis using dealloc_send_once_leaves [OF h] r by simp
  next
    case Port_set_right
    then have "IE_BITS_TYPE bits = MACH_PORT_TYPE_PORT_SET" using r by (auto elim: right_of_cases)
    then show ?thesis using same d(3) Port_set_right by (simp add: ipc_right_dealloc_def spec_dealloc_def)
  next
    case (Dead_name_right u)
    have "IE_BITS_TYPE bits = MACH_PORT_TYPE_DEAD_NAME" using Dead_name_right r by (auto elim: right_of_cases)
    then have "ipc_right_dealloc space name entry st = dealloc_dead_name space name entry st"
      using d(3) by (simp add: ipc_right_dealloc_def)
    then show ?thesis
      using drop_dead_leaves [of st space name entry bits u obj] h r obj(1) Dead_name_right by (simp add: spec_dealloc_def)
  qed
qed

section \<open>A space with one right\<close>

definition first_kernel :: ipc_kernel where
  "first_kernel = snd (ipc_entry_get one_space 0x1000)"

definition right_kernel :: "ipc_entry_bits_t \<Rightarrow> ipc_object_t \<Rightarrow> nat \<Rightarrow> ipc_kernel" where
  "right_kernel bits obj request =
     upd_entry 0x1000 (Table 1) (\<lambda>e. e\<lparr>ie_bits := bits, ie_object := obj, ie_request := request\<rparr>) first_kernel"

lemma first_kernel_fresh: "fresh_entry first_kernel 0x1000 1 (Table 1)" and first_kernel_caps: "space_caps first_kernel 0x1000 = Map.empty"
proof -
  have t: "is_table (st_space one_space 0x1000) = new_table 4" by (simp add: one_space_def entries_sizes_small)
  have "fst (ipc_entry_get one_space 0x1000) = Inr (1, Table 1)"
    by (simp add: ipc_entry_get_def Let_def t new_table_nth MACH_PORT_MAKE_def)
  then have g: "ipc_entry_get one_space 0x1000 = (Inr (1, Table 1), first_kernel)" by (simp add: first_kernel_def prod_eq_iff)
  show "fresh_entry first_kernel 0x1000 1 (Table 1)" "space_caps first_kernel 0x1000 = Map.empty"
    using get_fresh [OF one_space_rest g] one_space_caps by simp_all
qed

lemma right_kernel_holds:
  assumes "IE_BITS_TYPE bits \<noteq> 0" and "IE_BITS_TYPE bits \<noteq> MACH_PORT_TYPE_SEND" and "bits AND IE_BITS_COLLISION = 0"
    and "bits AND IE_BITS_COMPAT = 0" and "bits AND IE_BITS_MAREQUEST = 0"
  shows "holds (right_kernel bits obj request) 0x1000 1 (Table 1) bits obj request"
    and "space_caps (right_kernel bits obj request) 0x1000 = [1 \<mapsto> (bits, obj, request)]"
proof -
  let ?f = "\<lambda>e. e\<lparr>ie_bits := bits, ie_object := obj, ie_request := request\<rparr>"
  have u: "space_settled (right_kernel bits obj request) 0x1000"
      "space_caps (right_kernel bits obj request) 0x1000 = (space_caps first_kernel 0x1000)(1 \<mapsto> (bits, obj, request))"
      "space_names (right_kernel bits obj request) 0x1000 1 = Some (Table 1)"
      "denoted (get_entry (right_kernel bits obj request) 0x1000 (Table 1)) = (bits, obj, request)"
    using fill_fresh [where f = ?f, OF first_kernel_fresh _ refl] assms unfolding right_kernel_def by (simp_all add: denoted_def)
  then show "holds (right_kernel bits obj request) 0x1000 1 (Table 1) bits obj request"
    and "space_caps (right_kernel bits obj request) 0x1000 = [1 \<mapsto> (bits, obj, request)]"
    using assms first_kernel_caps by (simp_all add: holds_def)
qed

end
