(* ===== verification/DeltaFacts.thy ===== *)
theory DeltaFacts
  imports RightFacts
begin

text \<open>
  What \<^verbatim>\<open>ipc_right_delta\<close> promises for each kind of right, and the proof that it keeps the promise:
  a refused request changes nothing, and a count is never changed past its bounds.
\<close>

unbundle bit_operations_syntax

section \<open>The specification\<close>

fun send_urefs :: "port_right \<Rightarrow> nat option" where
  "send_urefs (Send_right u) = Some u"
| "send_urefs (Send_receive_right u) = Some u"
| "send_urefs _ = None"

fun add_urefs :: "int \<Rightarrow> port_right \<Rightarrow> port_right option" where
  "add_urefs d (Send_right u) = (if int u + d = 0 then None else Some (Send_right (nat (int u + d))))"
| "add_urefs d (Send_receive_right u) =
     Some (if int u + d = 0 then Receive_right else Send_receive_right (nat (int u + d)))"
| "add_urefs d (Dead_name_right u) = (if int u + d = 0 then None else Some (Dead_name_right (nat (int u + d))))"
| "add_urefs d r = Some r"

definition spec_delta_send :: "bool \<Rightarrow> bool \<Rightarrow> int \<Rightarrow> port_right \<Rightarrow> right_outcome" where
  "spec_delta_send living requested d r =
     (case send_urefs r of
        None \<Rightarrow> (KERN_INVALID_RIGHT, Some r)
      | Some u \<Rightarrow>
          if int u + d < 0 then (KERN_INVALID_VALUE, Some r)
          else if 65535 \<le> int u + d then (KERN_UREFS_OVERFLOW, Some r)
          else if \<not> living then (KERN_INVALID_RIGHT, Some (die requested r))
          else (KERN_SUCCESS, add_urefs d r))"

definition spec_delta_send_once :: "bool \<Rightarrow> bool \<Rightarrow> int \<Rightarrow> port_right \<Rightarrow> right_outcome" where
  "spec_delta_send_once living requested d r =
     (if r \<noteq> Send_once_right then (KERN_INVALID_RIGHT, Some r)
      else if 0 < d \<or> d < - 1 then (KERN_INVALID_VALUE, Some r)
      else if \<not> living then (KERN_INVALID_RIGHT, Some (die requested r))
      else (KERN_SUCCESS, if d = 0 then Some r else None))"

definition spec_delta_dead_name :: "bool \<Rightarrow> bool \<Rightarrow> int \<Rightarrow> port_right \<Rightarrow> right_outcome" where
  "spec_delta_dead_name living requested d r =
     (let r = (if living then r else die requested r)
      in case r of
           Dead_name_right u \<Rightarrow>
             if int u + d < 0 then (KERN_INVALID_VALUE, Some r)
             else if 65535 < int u + d then (KERN_UREFS_OVERFLOW, Some r)
             else (KERN_SUCCESS, add_urefs d r)
         | _ \<Rightarrow> (KERN_INVALID_RIGHT, Some r))"

definition spec_delta_port_set :: "int \<Rightarrow> port_right \<Rightarrow> right_outcome" where
  "spec_delta_port_set d r =
     (if r \<noteq> Port_set_right then (KERN_INVALID_RIGHT, Some r)
      else if d = 0 then (KERN_SUCCESS, Some r)
      else if d \<noteq> - 1 then (KERN_INVALID_VALUE, Some r)
      else (KERN_SUCCESS, None))"

section \<open>Changing the count of a word\<close>

lemma change_word:
  assumes "0 \<le> int (unat (IE_BITS_UREFS bits)) + sint delta" and "int (unat (IE_BITS_UREFS bits)) + sint delta \<le> 65535"
  shows "int (unat (IE_BITS_UREFS (bits + delta))) = int (unat (IE_BITS_UREFS bits)) + sint delta"
    and "drop_bit 16 (bits + delta) = drop_bit 16 bits"
proof -
  let ?u = "unat (IE_BITS_UREFS bits)"
  have d: "uint delta < 4294967296" using unsigned_less [of delta, where 'a = int] by simp
  have "int (unat (IE_BITS_UREFS (bits + delta))) = int ?u + sint delta \<and> drop_bit 16 (bits + delta) = drop_bit 16 bits"
  proof (cases "uint delta < 2147483648")
    case True
    then have s: "sint delta = uint delta" by (simp add: sint_cases)
    then have "int (?u + unat delta) < 65536" using assms(2) by simp
    then have sm: "?u + unat delta < 65536" by linarith
    then have "unat (IE_BITS_UREFS bits + delta) = ?u + unat delta" by (simp add: unat_word_ariths)
    then show ?thesis using urefs_add [OF sm] s by simp
  next
    case False
    then have s: "sint delta = uint delta - 4294967296" and nz: "delta \<noteq> 0" by (auto simp: sint_cases)
    have m: "int (unat (- delta)) = - sint delta" using uint_minus [OF nz] s by simp
    then have le: "unat (- delta) \<le> ?u" using assms(1) by linarith
    then have "unat (IE_BITS_UREFS bits - - delta) = ?u - unat (- delta)" by (simp only: unat_sub word_le_nat_alt)
    moreover have "IE_BITS_UREFS (bits + delta) = IE_BITS_UREFS bits - - delta" "drop_bit 16 (bits + delta) = drop_bit 16 bits"
      using urefs_sub [OF le] by simp_all
    ultimately show ?thesis using m le by (simp only: of_nat_diff diff_minus_eq_add simp_thms)
  qed
  then show "int (unat (IE_BITS_UREFS (bits + delta))) = int ?u + sint delta" "drop_bit 16 (bits + delta) = drop_bit 16 bits"
    by simp_all
qed

lemma change_right:
  assumes "right_of bits = Some r" and "add_urefs (sint delta) r = Some r'" and "r' \<noteq> Receive_right"
    and "send_urefs r = Some u \<and> int u + sint delta < 65535 \<or> r = Dead_name_right u \<and> int u + sint delta \<le> 65535"
    and "0 \<le> int u + sint delta"
  shows "right_of (bits + delta) = Some r'" and "drop_bit 16 (bits + delta) = drop_bit 16 bits"
proof -
  have u: "unat (IE_BITS_UREFS bits) = u" using assms(1,4) by (auto elim!: right_of_cases)
  have b: "0 \<le> int (unat (IE_BITS_UREFS bits)) + sint delta" "int (unat (IE_BITS_UREFS bits)) + sint delta \<le> 65535"
    using assms(4,5) unfolding u by auto
  note c = change_word [OF b]
  show "drop_bit 16 (bits + delta) = drop_bit 16 bits" by (rule c(2))
  have n: "unat (IE_BITS_UREFS (bits + delta)) = nat (int u + sint delta)" using c(1) u by linarith
  have nz: "int u + sint delta \<noteq> 0" using assms(2,3,4) by (cases r) (auto split: if_splits)
  then have pos: "0 < int u + sint delta" using assms(5) by linarith
  show "right_of (bits + delta) = Some r'" using assms(1)
  proof (cases rule: right_of_cases)
    case (1 v)
    then show ?thesis using right_of_type(1) [of "bits + delta"] same_high(1) [OF c(2)] n assms(2,4) pos by auto
  next
    case (3 v)
    then show ?thesis using right_of_type(3) [of "bits + delta"] same_high(1) [OF c(2)] n assms(2,4) pos nz by auto
  next
    case (6 v)
    then show ?thesis using right_of_type(5) [of "bits + delta"] same_high(1) [OF c(2)] n assms(2,4) pos by auto
  qed (use assms(4) in auto)
qed

lemma sint_zero: "(d :: 32 word) = 0 \<longleftrightarrow> sint d = 0"
  using sint_cases [of d] unsigned_less [of d, where 'a = int] uint_0_iff [of d] by (auto split: if_splits)

lemma sint_minus_one: "(d :: 32 word) = - 1 \<longleftrightarrow> sint d = - 1"
  using sint_zero [of "d + 1"] sint_cases [of d] by (metis signed_minus_1 signed_word_eqI sint_n1)

lemma dead_checks:
  defines "u b \<equiv> int (unat (IE_BITS_UREFS b))"
  shows "MACH_PORT_UREFS_UNDERFLOW (IE_BITS_UREFS b) delta \<longleftrightarrow> u b + sint delta < 0"
    and "MACH_PORT_UREFS_OVERFLOW (IE_BITS_UREFS b) delta \<longleftrightarrow> 65535 < u b + sint delta"
    and "0 \<le> u b + sint delta \<Longrightarrow> u b + sint delta \<le> 65535 \<Longrightarrow> IE_BITS_UREFS b + delta = 0 \<longleftrightarrow> u b + sint delta = 0"
proof -
  have less: "unat (IE_BITS_UREFS b) < 65536" by (rule urefs_less)
  then have le: "IE_BITS_UREFS b \<le> 0x10000" by (simp add: word_le_nat_alt)
  have u: "uint (IE_BITS_UREFS b) = u b" by (simp add: u_def)
  have ub: "u b \<le> 65535" using less unfolding u_def by linarith
  note c = urefs_checks [OF le, of delta, unfolded u]
  show un: "MACH_PORT_UREFS_UNDERFLOW (IE_BITS_UREFS b) delta \<longleftrightarrow> u b + sint delta < 0" using c by blast
  have "MACH_PORT_UREFS_OVERFLOW (IE_BITS_UREFS b) delta \<longleftrightarrow> 0 < sint delta \<and> 65535 < u b + sint delta" using c by simp
  then show ov: "MACH_PORT_UREFS_OVERFLOW (IE_BITS_UREFS b) delta \<longleftrightarrow> 65535 < u b + sint delta" using ub by linarith
  assume "0 \<le> u b + sint delta" "u b + sint delta \<le> 65535"
  then have "uint (IE_BITS_UREFS b + delta) = u b + sint delta" using c un ov by linarith
  then show "IE_BITS_UREFS b + delta = 0 \<longleftrightarrow> u b + sint delta = 0" using uint_0_iff by metis
qed

lemma send_overflow:
  assumes "unat (IE_BITS_UREFS b) < 65535"
  shows "MACH_PORT_UREFS_OVERFLOW (IE_BITS_UREFS b + 1) delta \<longleftrightarrow> 65535 \<le> int (unat (IE_BITS_UREFS b)) + sint delta"
proof -
  let ?u = "int (unat (IE_BITS_UREFS b))"
  have n: "unat (IE_BITS_UREFS b + 1) = unat (IE_BITS_UREFS b) + 1" using assms by (simp add: unat_word_ariths)
  then have le: "IE_BITS_UREFS b + 1 \<le> 0x10000" using assms by (simp add: word_le_nat_alt)
  have "uint (IE_BITS_UREFS b + 1) = ?u + 1" using n by (metis of_nat_1 of_nat_add uint_nat)
  then have "MACH_PORT_UREFS_OVERFLOW (IE_BITS_UREFS b + 1) delta \<longleftrightarrow> 0 < sint delta \<and> 65535 < ?u + 1 + sint delta"
    using urefs_checks [OF le, of delta] by simp
  then show ?thesis using assms by linarith
qed

lemma right_tests:
  assumes "right_of bits = Some r"
  shows "bits AND MACH_PORT_TYPE_SEND = 0 \<longleftrightarrow> send_urefs r = None"
    and "bits AND MACH_PORT_TYPE_SEND_ONCE = 0 \<longleftrightarrow> r \<noteq> Send_once_right"
    and "bits AND MACH_PORT_TYPE_PORT_SET = 0 \<longleftrightarrow> r \<noteq> Port_set_right"
    and "bits AND MACH_PORT_TYPE_DEAD_NAME = 0 \<longleftrightarrow> \<not> is_dead_name r"
    and "bits AND MACH_PORT_TYPE_SEND_RIGHTS = 0 \<longleftrightarrow> send_urefs r = None \<and> r \<noteq> Send_once_right"
    and "bits AND MACH_PORT_TYPE_RECEIVE = 0 \<longleftrightarrow> r \<noteq> Receive_right \<and> (\<forall>u. r \<noteq> Send_receive_right u)"
  using assms
  by (cases rule: right_of_cases; simp add: type_tests [of bits "IE_BITS_TYPE bits", OF refl])+

section \<open>The proof\<close>

text \<open>A right is found to be dead, and nothing else happens.\<close>

lemma leaves_dead:
  assumes h: "holds st space name entry bits obj request" and r: "right_of bits = Some r" "r = Send_once_right \<or> r = Send_right u"
    and dead: "\<not> ip_active (st_port st obj)"
    and result: "\<And>st'. ipc_right_check space obj name entry st = Some (True, st') \<Longrightarrow> result = Some (kr, st')"
  shows "leaves st space name obj (kr, Some (die (request \<noteq> 0) r)) result"
proof -
  obtain s1 v where s1: "ipc_right_check space obj name entry st = Some (True, s1)"
      "holds s1 space name entry (dead_word bits request) IO_NULL 0"
      "space_caps s1 space = (space_caps st space)(name \<mapsto> (dead_word bits request, IO_NULL, 0))"
      "right_of (dead_word bits request) = Some (Dead_name_right v)" "die (request \<noteq> 0) r = Dead_name_right v"
      "cap_ok (dead_word bits request, IO_NULL, 0)" "alive s1 = alive st"
    using check_dead [OF h r dead] by blast
  have "space_settled s1 space" using s1(2) by (simp add: holds_def)
  from leavesI [OF result [OF s1(1)] this s1(3,7)] show ?thesis
    using s1(4-6) by (simp add: right_object_def del: cap_ok.simps)
qed

lemma leaves_changed:
  assumes h: "holds st space name entry bits obj request" and r: "right_of bits = Some r" and c: "cap_ok (bits, obj, request)"
    and a: "add_urefs (sint delta) r = Some r'" "r' \<noteq> Receive_right"
    and u: "send_urefs r = Some u \<and> int u + sint delta < 65535 \<or> r = Dead_name_right u \<and> int u + sint delta \<le> 65535"
      "0 \<le> int u + sint delta"
  shows "leaves st space name obj (KERN_SUCCESS, Some r')
    (Some (KERN_SUCCESS, upd_entry space entry (\<lambda>e. e\<lparr>ie_bits := bits + delta\<rparr>) st))"
proof -
  note m = change_right [OF r a u]
  note s = same_high [OF m(2)]
  have ty: "IE_BITS_TYPE (bits + delta) \<noteq> 0" using right_of_bits [OF m(1)] .
  have col: "(bits + delta) AND IE_BITS_COLLISION = 0" using s(2) holdsD(9) [OF h] by simp
  note e = holds_rebits [OF h _ ty col] 
  have st: "IE_BITS_TYPE (bits + delta) = MACH_PORT_TYPE_SEND \<longleftrightarrow> IE_BITS_TYPE bits = MACH_PORT_TYPE_SEND" using s(1) by simp
  have k: "is_dead_name r' = is_dead_name r" using a(1) u(1) by (cases r) (auto split: if_splits)
  then have "cap_ok (bits + delta, obj, request)" "right_object r' obj = obj" using m(1) r c s(3,4) by (auto simp: right_object_def)
  then show ?thesis using leavesI [OF refl e(1) [OF st] e(2) [OF st]] m(1) by simp
qed

lemma delta_send_leaves:
  assumes h: "holds st space name entry bits obj request" and r: "right_of bits = Some r" and c: "cap_ok (bits, obj, request)"
    and alive: "IE_BITS_TYPE bits = MACH_PORT_TYPE_SEND_RECEIVE \<Longrightarrow> ip_active (st_port st obj)"
  shows "leaves st space name obj (spec_delta_send (ip_active (st_port st obj)) (request \<noteq> 0) (sint delta) r)
    (delta_send space name entry delta st)"
proof (cases "send_urefs r")
  case None
  then have "bits AND MACH_PORT_TYPE_SEND = 0" using right_tests(1) [OF r] by simp
  then show ?thesis using leaves_same [OF h r c] None holdsD(3) [OF h] by (simp add: delta_send_def spec_delta_send_def)
next
  case (Some u)
  note d = holdsD [OF h]
  have ty: "IE_BITS_TYPE bits = MACH_PORT_TYPE_SEND \<and> r = Send_right u \<or>
      IE_BITS_TYPE bits = MACH_PORT_TYPE_SEND_RECEIVE \<and> r = Send_receive_right u" and u: "unat (IE_BITS_UREFS bits) = u" "u < 65535"
    using r Some by (auto elim!: right_of_cases)
  have send: "bits AND MACH_PORT_TYPE_SEND \<noteq> 0" using ty type_tests(1) [of bits] by auto
  have und: "MACH_PORT_UREFS_UNDERFLOW (IE_BITS_UREFS bits) delta \<longleftrightarrow> int u + sint delta < 0" using dead_checks(1) [of bits delta] u by simp
  have ovf: "MACH_PORT_UREFS_OVERFLOW (IE_BITS_UREFS bits + 1) delta \<longleftrightarrow> 65535 \<le> int u + sint delta"
    using send_overflow [of bits delta] u by simp
  note D = delta_send_def [of space name entry delta st, unfolded Let_def d(3,4), simplified send und ovf if_False not_False_eq_True]
  consider "int u + sint delta < 0" | "\<not> int u + sint delta < 0" "65535 \<le> int u + sint delta"
    | "0 \<le> int u + sint delta" "int u + sint delta < 65535" by linarith
  then show ?thesis
  proof cases
    case 1
    then show ?thesis using leaves_same [OF h r c] Some D by (simp add: spec_delta_send_def)
  next
    case 2
    then show ?thesis using leaves_same [OF h r c] Some D by (simp add: spec_delta_send_def)
  next
    case 3
    have zero: "IE_BITS_UREFS bits + delta = 0 \<longleftrightarrow> int u + sint delta = 0" using dead_checks(3) [of bits delta] u 3 by simp
    show ?thesis
    proof (cases "ip_active (st_port st obj)")
      case False
      then have "r = Send_once_right \<or> r = Send_right u" using ty alive by blast
      from leaves_dead [OF h r this False] show ?thesis
        using 3 Some False D d(6) by (simp add: spec_delta_send_def)
    next
      case True
      have spec: "spec_delta_send (ip_active (st_port st obj)) (request \<noteq> 0) (sint delta) r = (KERN_SUCCESS, add_urefs (sint delta) r)"
        using 3 Some True by (simp add: spec_delta_send_def)
      show ?thesis
      proof (cases "int u + sint delta = 0")
        case False
        then obtain r' where r': "add_urefs (sint delta) r = Some r'" "r' \<noteq> Receive_right" using ty by auto
        have "send_urefs r = Some u \<and> int u + sint delta < 65535 \<or> r = Dead_name_right u \<and> int u + sint delta \<le> 65535" using 3 Some by simp
        from leaves_changed [OF h r c r' this] show ?thesis
          unfolding spec r'(1) using 3 D False zero check_alive [OF True] by simp
      next
        case last: True
        note D = D [simplified check_alive [OF True] zero last]
        show ?thesis using ty
        proof (elim disjE conjE)
          assume s: "IE_BITS_TYPE bits = MACH_PORT_TYPE_SEND" "r = Send_right u"
          obtain st' where "dealloc_last_send space name entry obj st = Some st'" and st': "space_settled st' space"
              "space_caps st' space = (space_caps st space)(name := None)" "alive st' = alive st"
            using dealloc_last_send_result [OF h s(1)] by blast
          then show ?thesis
            unfolding spec using leaves_freed [OF refl st'] D s last type_tests(2) [OF s(1)] by simp
        next
          assume s: "IE_BITS_TYPE bits = MACH_PORT_TYPE_SEND_RECEIVE" "r = Send_receive_right u"
          have "obj \<noteq> IO_NULL" using c r s(2) by simp
          then show ?thesis
            unfolding spec using drop_send_of_receive_leaves [OF h s(1)] D s last type_tests(2) [OF s(1)] by simp
        qed
      qed
    qed
  qed
qed

lemma delta_send_once_leaves:
  assumes h: "holds st space name entry bits obj request" and r: "right_of bits = Some r" and c: "cap_ok (bits, obj, request)"
  shows "leaves st space name obj (spec_delta_send_once (ip_active (st_port st obj)) (request \<noteq> 0) (sint delta) r)
    (delta_send_once space name entry delta st)"
proof (cases "r = Send_once_right")
  case False
  then have "bits AND MACH_PORT_TYPE_SEND_ONCE = 0"
    using right_tests(2) [OF r] by simp
  then show ?thesis
    using leaves_same [OF h r c] False holdsD(3) [OF h] by (simp add: delta_send_once_def spec_delta_send_once_def)
next
  case True
  note d = holdsD [OF h]
  have ty: "IE_BITS_TYPE bits = MACH_PORT_TYPE_SEND_ONCE" using r True by (auto elim: right_of_cases)
  have once: "bits AND MACH_PORT_TYPE_SEND_ONCE \<noteq> 0" by (simp add: type_tests [OF ty])
  note D = delta_send_once_def [of space name entry delta st, unfolded Let_def d(3,4), simplified once if_False not_False_eq_True]
  have z: "delta = 0 \<longleftrightarrow> sint delta = 0" by (rule sint_zero)
  show ?thesis
  proof (cases "0 < sint delta \<or> sint delta < - 1")
    case refuse: True
    then show ?thesis using leaves_same [OF h r c] D True by (simp add: spec_delta_send_once_def)
  next
    case range: False
    show ?thesis
    proof (cases "ip_active (st_port st obj)")
      case False
      have ru: "r = Send_once_right \<or> r = Send_right 0" using True by simp
      from leaves_dead [OF h r ru False] show ?thesis
        using range D True False d(6) by (simp add: spec_delta_send_once_def)
    next
      case alive: True
      obtain st' where st': "dealloc_send_once space name entry obj st = Some (KERN_SUCCESS, st')" "space_settled st' space"
          "space_caps st' space = (space_caps st space)(name := None)" "alive st' = alive st"
        using dealloc_send_once_result [OF h] r True by blast
      note freed = leaves_freed [OF st']
      show ?thesis
        using freed leaves_same [OF h r c refl, of KERN_SUCCESS] D True alive range check_alive [OF alive] z
        by (simp add: spec_delta_send_once_def)
    qed
  qed
qed

text \<open>The change of a count once the name is known to be dead.\<close>

lemma change_dead_leaves:
  assumes h: "holds st space name entry bits IO_NULL 0" and r: "right_of bits = Some (Dead_name_right u)"
    and "int u + sint delta < 0 \<Longrightarrow> result = Some (KERN_INVALID_VALUE, st)"
    and "65535 < int u + sint delta \<Longrightarrow> result = Some (KERN_UREFS_OVERFLOW, st)"
    and "int u + sint delta = 0 \<Longrightarrow> result = Option.bind (ipc_entry_dealloc st space name entry) (\<lambda>st. Some (KERN_SUCCESS, st))"
    and "0 < int u + sint delta \<Longrightarrow> int u + sint delta \<le> 65535 \<Longrightarrow>
      result = Some (KERN_SUCCESS, upd_entry space entry (\<lambda>e. e\<lparr>ie_bits := bits + delta\<rparr>) st)"
  shows "leaves st space name IO_NULL (spec_delta_dead_name True False (sint delta) (Dead_name_right u)) result"
proof -
  have c: "cap_ok (bits, IO_NULL, 0)" using r holdsD(6,7) [OF h] by simp
  note same = leaves_same [OF h r c]
  consider "int u + sint delta < 0" | "65535 < int u + sint delta" | "int u + sint delta = 0"
    | "0 < int u + sint delta" "int u + sint delta \<le> 65535" by linarith
  then show ?thesis
  proof cases
    case 1
    then show ?thesis using same [OF assms(3) [OF 1]] by (simp add: spec_delta_dead_name_def)
  next
    case 2
    then show ?thesis using same [OF assms(4) [OF 2]] by (simp add: spec_delta_dead_name_def)
  next
    case 3
    note d = holdsD [OF h]
    have ty: "IE_BITS_TYPE bits = MACH_PORT_TYPE_DEAD_NAME" using r by (auto elim: right_of_cases)
    have X: "send_names st space = send_names st space - {(name, entry)}" using d(8) ty by simp
    obtain st' where st': "ipc_entry_dealloc st space name entry = Some st'" "space_settled st' space"
        "space_caps st' space = (space_caps st space)(name := None)"
      using dealloc_settles [OF d(1,2) X d(4)] by blast
    note freed = leaves_freed [OF _ st'(2,3) dealloc_alive [OF st'(1)], of result KERN_SUCCESS]
    show ?thesis using freed assms(5) [OF 3] st'(1) 3 by (simp add: spec_delta_dead_name_def)
  next
    case 4
    then have a: "add_urefs (sint delta) (Dead_name_right u) = Some (Dead_name_right (nat (int u + sint delta)))" by simp
    show ?thesis
      using leaves_changed [OF h r c a _ _, of u] 4 assms(6) by (simp add: spec_delta_dead_name_def)
  qed
qed

lemma spec_dead_is_dead:
  "map_option (\<lambda>r. (r, right_object r obj1)) (snd (spec_delta_dead_name True False d (Dead_name_right u))) =
   map_option (\<lambda>r. (r, right_object r obj)) (snd (spec_delta_dead_name True False d (Dead_name_right u)))"
  by (simp add: spec_delta_dead_name_def right_object_def Let_def)

lemma delta_dead_name_leaves:
  assumes h: "holds st space name entry bits obj request" and r: "right_of bits = Some r" and c: "cap_ok (bits, obj, request)"
    and alive: "IE_BITS_TYPE bits = MACH_PORT_TYPE_SEND_RECEIVE \<Longrightarrow> ip_active (st_port st obj)"
  shows "leaves st space name obj (spec_delta_dead_name (ip_active (st_port st obj)) (request \<noteq> 0) (sint delta) r)
    (delta_dead_name space name entry delta st)"
proof -
  note d = holdsD [OF h]
  note t = right_tests [OF r]
  note D = delta_dead_name_def [of space name entry delta st, unfolded Let_def d(3,4) dead_checks(1,2) t]
  consider (rights) "\<not> (send_urefs r = None \<and> r \<noteq> Send_once_right)" "ip_active (st_port st obj)"
    | (dead) "\<not> (send_urefs r = None \<and> r \<noteq> Send_once_right)" "\<not> ip_active (st_port st obj)"
    | (other) "send_urefs r = None" "r \<noteq> Send_once_right" "\<not> is_dead_name r"
    | (name) "is_dead_name r" by (cases r) auto
  then show ?thesis
  proof cases
    case rights
    then have "spec_delta_dead_name True (request \<noteq> 0) (sint delta) r = (KERN_INVALID_RIGHT, Some r)"
      by (cases r) (simp_all add: spec_delta_dead_name_def)
    then show ?thesis using leaves_same [OF h r c] D rights check_alive [OF rights(2)] by simp
  next
    case other
    then have "spec_delta_dead_name a (request \<noteq> 0) (sint delta) r = (KERN_INVALID_RIGHT, Some r)" for a
      by (cases r) (simp_all add: spec_delta_dead_name_def)
    then show ?thesis using leaves_same [OF h r c] D other by simp
  next
    case name
    then obtain u where u: "r = Dead_name_right u" by (cases r) auto
    have obj: "obj = IO_NULL" "request = 0" using c r u by simp_all
    have n: "unat (IE_BITS_UREFS bits) = u" using r u by (auto elim: right_of_cases)
    have "leaves st space name IO_NULL (spec_delta_dead_name True False (sint delta) r) (delta_dead_name space name entry delta st)"
      unfolding u by (rule change_dead_leaves [OF h [unfolded obj] r [unfolded u]])
        (use D u n dead_checks(3) [of bits delta] in auto)
    then show ?thesis using obj u by (simp add: spec_delta_dead_name_def)
  next
    case dead
    then obtain v where ru: "r = Send_once_right \<or> r = Send_right v" using alive r by (cases r) (auto elim!: right_of_cases)
    obtain s1 u where s1: "ipc_right_check space obj name entry st = Some (True, s1)"
        "holds s1 space name entry (dead_word bits request) IO_NULL 0"
        "space_caps s1 space = (space_caps st space)(name \<mapsto> (dead_word bits request, IO_NULL, 0))"
        "right_of (dead_word bits request) = Some (Dead_name_right u)" and u: "die (request \<noteq> 0) r = Dead_name_right u"
        and s1': "cap_ok (dead_word bits request, IO_NULL, 0)" "alive s1 = alive st"
      using check_dead [OF h r ru dead(2)] by blast
    have n: "unat (IE_BITS_UREFS (dead_word bits request)) = u" using s1(4) by (auto elim: right_of_cases)
    note b = holdsD(3) [OF s1(2)]
    have "leaves s1 space name IO_NULL (spec_delta_dead_name True False (sint delta) (Dead_name_right u)) (delta_dead_name space name entry delta st)"
      by (rule change_dead_leaves [OF s1(2,4)])
        (use D dead s1(1) b n d(6) dead_checks(3) [of "dead_word bits request" delta] in auto)
    then have "leaves st space name obj (spec_delta_dead_name True False (sint delta) (Dead_name_right u)) (delta_dead_name space name entry delta st)"
      by (rule leaves_after [OF _ s1(3) _ s1'(2) spec_dead_is_dead]) (use s1'(1) in auto)
    moreover have "spec_delta_dead_name True False (sint delta) (Dead_name_right u) =
        spec_delta_dead_name (ip_active (st_port st obj)) (request \<noteq> 0) (sint delta) r"
      using u dead(2) by (simp add: spec_delta_dead_name_def)
    ultimately show ?thesis by simp
  qed
qed

lemma pset_destroy_part: "space_part (ipc_pset_destroy pset st) = space_part st" "alive (ipc_pset_destroy pset st) = alive st"
proof -
  have w: "space_part (fold (wake mr) ths st) = space_part st \<and> st_port (fold (wake mr) ths st) = st_port st" for mr ths st
    by (induction ths arbitrary: st) (simp_all add: wake_def space_part_def)
  then have "st_space (fold (wake mr) ths st) = st_space st" for mr ths st by (simp add: space_part_def)
  then show "space_part (ipc_pset_destroy pset st) = space_part st" "alive (ipc_pset_destroy pset st) = alive st"
    using w by (simp_all add: ipc_pset_destroy_def ipc_mqueue_changed_def ips_release_def space_part_def alive_def receiving_def life_def fun_eq_iff)
qed

lemma delta_port_set_leaves:
  assumes h: "holds st space name entry bits obj request" and r: "right_of bits = Some r" and c: "cap_ok (bits, obj, request)"
  shows "leaves st space name obj (spec_delta_port_set (sint delta) r) (delta_port_set space name entry delta st)"
proof -
  note d = holdsD [OF h]
  note D = delta_port_set_def [of space name entry delta st, unfolded Let_def d(3,4) right_tests [OF r] sint_zero [of delta] sint_minus_one [of delta]]
  note same = leaves_same [OF h r c]
  consider "r \<noteq> Port_set_right \<or> sint delta \<noteq> - 1" | "r = Port_set_right" "sint delta = - 1" by blast
  then show ?thesis
  proof cases
    case 1
    then show ?thesis using same D by (auto simp: spec_delta_port_set_def)
  next
    case 2
    have ty: "IE_BITS_TYPE bits = MACH_PORT_TYPE_PORT_SET" using r 2(1) by (auto elim: right_of_cases)
    have X: "send_names st space - {(name, entry)} = send_names st space" using d(8) ty by simp
    obtain st1 where st1: "ipc_entry_dealloc (upd_entry space entry (\<lambda>e. e\<lparr>ie_object := IO_NULL\<rparr>) st) space name entry = Some st1"
        "space_settled st1 space" "space_caps st1 space = (space_caps st space)(name := None)" "ipc_state.more st1 = ipc_state.more st"
      using free_entry [of st space name entry] d(1,2,3,9) ty X by (metis right_of_bits r)
    note p = pset_destroy_part [of obj st1]
    have "space_settled (ipc_pset_destroy obj st1) space" "space_caps (ipc_pset_destroy obj st1) space = (space_caps st space)(name := None)"
        "alive (ipc_pset_destroy obj st1) = alive st"
      using space_inv_cong(2) [OF port_only [OF p(1)]] space_cong(4,5) [OF port_only [OF p(1)]] st1(2,3) p(2) dealloc_alive [OF st1(1)] by simp_all
    from leaves_freed [OF refl this] show ?thesis using 2 D st1(1) by (simp add: spec_delta_port_set_def)
  qed
qed

lemmas right_codes = MACH_PORT_RIGHT_SEND_def MACH_PORT_RIGHT_RECEIVE_def MACH_PORT_RIGHT_SEND_ONCE_def
  MACH_PORT_RIGHT_PORT_SET_def MACH_PORT_RIGHT_DEAD_NAME_def

end
