(* ===== verification/MachPort.thy ===== *)
theory MachPort
  imports IpcObject
begin

text \<open>
  The calls of \<^verbatim>\<open>ipc/mach_port.c\<close> through which tasks manage the rights of a space. A task is known by
  its space. Memory obtained for an answer, and what other threads do while it is obtained, are
  parameters; the answer itself is a list.
\<close>

unbundle bit_operations_syntax

section \<open>Sizes of answers\<close>

definition PAGE_MASK :: vm_offset_t where "PAGE_MASK = 0xfff"

definition round_page :: "vm_offset_t \<Rightarrow> vm_offset_t" where
  "round_page x = (x + PAGE_MASK) AND NOT PAGE_MASK"

abbreviation sizeof_mach_port_t :: vm_offset_t where "sizeof_mach_port_t \<equiv> 4"

section \<open>Listing the names of a space\<close>

text \<open>
  The helper appends to two arrays that have room for \<open>room\<close> elements each; to write past their end
  is the result \<open>None\<close>.
\<close>

definition mach_port_names_helper ::
  "32 word \<Rightarrow> ipc_entry \<Rightarrow> mach_port_t \<Rightarrow> nat \<Rightarrow> (mach_port_t \<times> mach_port_type_t) list \<Rightarrow> ipc_kernel
     \<Rightarrow> (mach_port_t \<times> mach_port_type_t) list option" where
  "mach_port_names_helper timestamp entry name room names st =
     (let bits = ie_bits entry;
          request = ie_request entry;
          put = (\<lambda>bits request.
            let type = IE_BITS_TYPE bits;
                type = (if bits AND IE_BITS_COMPAT \<noteq> 0 then type OR MACH_PORT_TYPE_COMPAT
                        else if request \<noteq> 0 then type OR MACH_PORT_TYPE_DNREQUEST else type);
                type = (if bits AND IE_BITS_MAREQUEST \<noteq> 0 then type OR MACH_PORT_TYPE_MAREQUEST else type)
            in if length names < room then Some (names @ [(name, type)]) else None)
      in if bits AND MACH_PORT_TYPE_SEND_RIGHTS \<noteq> 0 then
           let port = st_port st (ie_object entry);
               died = (\<not> ip_active port \<and> IP_TIMESTAMP_ORDER (ip_timestamp port) timestamp)
           in if died then
                if bits AND IE_BITS_COMPAT \<noteq> 0 then Some names
                else
                  let bits = bits AND NOT (IE_BITS_TYPE_MASK OR IE_BITS_MAREQUEST);
                      bits = bits OR MACH_PORT_TYPE_DEAD_NAME;
                      bits = (if request \<noteq> 0 then bits + 1 else bits)
                  in put bits (0 :: nat)
              else put bits request
         else put bits request)"

text \<open>
  Memory for the answer is obtained with the space unlocked, until it is large enough. Each element of the list
  tells whether the two allocations succeed, and what happens meanwhile. The result is the size obtained.
\<close>

type_synonym memory_window = "bool \<times> bool \<times> (ipc_kernel \<Rightarrow> ipc_kernel)"

fun names_memory ::
  "memory_window list \<Rightarrow> vm_offset_t \<Rightarrow> ipc_space_t \<Rightarrow> ipc_kernel \<Rightarrow> ((kern_return_t + vm_offset_t) \<times> ipc_kernel) option" where
  "names_memory ms sz space st =
     (if \<not> is_active (st_space st space) then Some (Inl KERN_INVALID_TASK, st)
      else
        let bound = is_table_size (st_space st space) + is_tree_total (st_space st space);
            size_needed = round_page (of_nat bound * sizeof_mach_port_t)
        in if size_needed \<le> sz then Some (Inr sz, st)
           else (case ms of
                   [] \<Rightarrow> None
                 | (names, types, other) # ms \<Rightarrow>
                     if \<not> names \<or> \<not> types then Some (Inl KERN_RESOURCE_SHORTAGE, other st)
                     else names_memory ms size_needed space (other st)))"

declare names_memory.simps [simp del]

fun names_table ::
  "32 word \<Rightarrow> nat \<Rightarrow> ipc_space_t \<Rightarrow> nat list \<Rightarrow> (mach_port_t \<times> mach_port_type_t) list \<Rightarrow> ipc_kernel
     \<Rightarrow> (mach_port_t \<times> mach_port_type_t) list option" where
  "names_table timestamp room space [] names st = Some names"
| "names_table timestamp room space (index # indices) names st =
     (let entry = get_entry st space (Table index);
          bits = ie_bits entry
      in if IE_BITS_TYPE bits \<noteq> MACH_PORT_TYPE_NONE then do {
           names \<leftarrow> mach_port_names_helper timestamp entry (MACH_PORT_MAKEB index bits) room names st;
           names_table timestamp room space indices names st
         }
         else names_table timestamp room space indices names st)"

definition names_tree_entry ::
  "32 word \<Rightarrow> nat \<Rightarrow> ipc_space_t \<Rightarrow> ipc_kernel \<Rightarrow> (mach_port_t \<times> mach_port_type_t) list option \<Rightarrow> mach_port_t \<Rightarrow> ite_t
     \<Rightarrow> (mach_port_t \<times> mach_port_type_t) list option \<times> bool" where
  "names_tree_entry timestamp room space st onames name tentry =
     (do {
        names \<leftarrow> onames;
        mach_port_names_helper timestamp (get_entry st space (Tree tentry)) name room names st
      }, False)"

definition mach_port_names ::
  "memory_window list \<Rightarrow> ipc_space_t \<Rightarrow> ipc_kernel
     \<Rightarrow> ((kern_return_t + (mach_port_t \<times> mach_port_type_t) list) \<times> ipc_kernel) option" where
  "mach_port_names ms space st =
     (if space = IS_NULL then Some (Inl KERN_INVALID_TASK, st)
      else
        (case names_memory ms 0 space st of
           None \<Rightarrow> None
         | Some (Inl kr, st) \<Rightarrow> Some (Inl kr, st)
         | Some (Inr sz, st) \<Rightarrow> do {
             let (timestamp, st) = ipc_port_timestamp st;
             let room = unat sz div 4;
             names \<leftarrow> names_table timestamp room space [0..<is_table_size (st_space st space)] [] st;
             (onames, tree) \<leftarrow> ipc_splay_traverse (names_tree_entry timestamp room space st) (Some names)
                                (is_tree (st_space st space));
             names \<leftarrow> onames;
             Some (Inr names, set_tree space tree st)
           }))"

section \<open>Types, names and allocation\<close>

definition mach_port_type ::
  "ipc_space_t \<Rightarrow> mach_port_t \<Rightarrow> ipc_kernel \<Rightarrow> ((kern_return_t + mach_port_type_t) \<times> ipc_kernel) option" where
  "mach_port_type space name st =
     (if space = IS_NULL then Some (Inl KERN_INVALID_TASK, st)
      else
        (case ipc_right_lookup_write space name st of
           (Inl kr, st) \<Rightarrow> Some (Inl kr, st)
         | (Inr entry, st) \<Rightarrow>
             (case ipc_right_info space name entry st of
                None \<Rightarrow> None
              | Some (Inl kr, st) \<Rightarrow> Some (Inl kr, st)
              | Some (Inr (type, urefs), st) \<Rightarrow> Some (Inr type, st))))"

definition mach_port_rename ::
  "kernel_window list \<Rightarrow> ipc_space_t \<Rightarrow> mach_port_t \<Rightarrow> mach_port_t \<Rightarrow> ipc_kernel
     \<Rightarrow> (kern_return_t \<times> ipc_kernel \<times> kernel_window list) option" where
  "mach_port_rename ws space oname nname st =
     (if space = IS_NULL then Some (KERN_INVALID_TASK, st, ws)
      else if \<not> MACH_PORT_VALID nname then Some (KERN_INVALID_VALUE, st, ws)
      else ipc_object_rename ws space oname nname st)"

text \<open>\<open>object\<close> is the memory for the port or the port set.\<close>

definition mach_port_allocate_name ::
  "kernel_window list \<Rightarrow> ipc_object_t \<Rightarrow> ipc_space_t \<Rightarrow> nat \<Rightarrow> mach_port_t \<Rightarrow> ipc_kernel
     \<Rightarrow> (kern_return_t \<times> ipc_kernel \<times> kernel_window list) option" where
  "mach_port_allocate_name ws object space right name st =
     (if space = IS_NULL then Some (KERN_INVALID_TASK, st, ws)
      else if \<not> MACH_PORT_VALID name then Some (KERN_INVALID_VALUE, st, ws)
      else if right = MACH_PORT_RIGHT_RECEIVE then ipc_port_alloc_name ws object space name st
      else if right = MACH_PORT_RIGHT_PORT_SET then ipc_pset_alloc_name ws object space name st
      else if right = MACH_PORT_RIGHT_DEAD_NAME then ipc_object_alloc_dead_name ws space name st
      else Some (KERN_INVALID_VALUE, st, ws))"

definition mach_port_allocate ::
  "kernel_window list \<Rightarrow> ipc_object_t \<Rightarrow> ipc_space_t \<Rightarrow> nat \<Rightarrow> ipc_kernel
     \<Rightarrow> ((kern_return_t + mach_port_t) \<times> ipc_kernel \<times> kernel_window list) option" where
  "mach_port_allocate ws object space right st =
     (if space = IS_NULL then Some (Inl KERN_INVALID_TASK, st, ws)
      else if right = MACH_PORT_RIGHT_RECEIVE then ipc_port_alloc ws object space st
      else if right = MACH_PORT_RIGHT_PORT_SET then ipc_pset_alloc ws object space st
      else if right = MACH_PORT_RIGHT_DEAD_NAME then ipc_object_alloc_dead ws space st
      else Some (Inl KERN_INVALID_VALUE, st, ws))"

definition mach_port_destroy ::
  "bool \<Rightarrow> ipc_space_t \<Rightarrow> mach_port_t \<Rightarrow> ipc_kernel \<Rightarrow> (kern_return_t \<times> ipc_kernel) option" where
  "mach_port_destroy locked space name st =
     (if space = IS_NULL then Some (KERN_INVALID_TASK, st)
      else
        (case ipc_right_lookup_write space name st of
           (Inl kr, st) \<Rightarrow> Some (kr, st)
         | (Inr entry, st) \<Rightarrow> ipc_right_destroy locked space name entry st))"

definition mach_port_deallocate ::
  "ipc_space_t \<Rightarrow> mach_port_t \<Rightarrow> ipc_kernel \<Rightarrow> (kern_return_t \<times> ipc_kernel) option" where
  "mach_port_deallocate space name st =
     (if space = IS_NULL then Some (KERN_INVALID_TASK, st)
      else
        (case ipc_right_lookup_write space name st of
           (Inl kr, st) \<Rightarrow> Some (kr, st)
         | (Inr entry, st) \<Rightarrow> ipc_right_dealloc space name entry st))"

section \<open>User references\<close>

definition MACH_PORT_RIGHT_NUMBER :: nat where "MACH_PORT_RIGHT_NUMBER = 5"

definition mach_port_get_refs ::
  "ipc_space_t \<Rightarrow> mach_port_t \<Rightarrow> nat \<Rightarrow> ipc_kernel \<Rightarrow> ((kern_return_t + 32 word) \<times> ipc_kernel) option" where
  "mach_port_get_refs space name right st =
     (if space = IS_NULL then Some (Inl KERN_INVALID_TASK, st)
      else if MACH_PORT_RIGHT_NUMBER \<le> right then Some (Inl KERN_INVALID_VALUE, st)
      else
        (case ipc_right_lookup_write space name st of
           (Inl kr, st) \<Rightarrow> Some (Inl kr, st)
         | (Inr entry, st) \<Rightarrow>
             (case ipc_right_info space name entry st of
                None \<Rightarrow> None
              | Some (Inl kr, st) \<Rightarrow> Some (Inl kr, st)
              | Some (Inr (type, urefs), st) \<Rightarrow>
                  if type AND MACH_PORT_TYPE right \<noteq> 0 then
                    if right = MACH_PORT_RIGHT_SEND_ONCE \<or> right = MACH_PORT_RIGHT_PORT_SET \<or> right = MACH_PORT_RIGHT_RECEIVE
                    then Some (Inr 1, st)
                    else if right = MACH_PORT_RIGHT_DEAD_NAME \<or> right = MACH_PORT_RIGHT_SEND then Some (Inr urefs, st)
                    else None
                  else Some (Inr 0, st))))"

definition mach_port_mod_refs ::
  "bool \<Rightarrow> ipc_space_t \<Rightarrow> mach_port_t \<Rightarrow> nat \<Rightarrow> 32 word \<Rightarrow> ipc_kernel \<Rightarrow> (kern_return_t \<times> ipc_kernel) option" where
  "mach_port_mod_refs locked space name right delta st =
     (if space = IS_NULL then Some (KERN_INVALID_TASK, st)
      else if MACH_PORT_RIGHT_NUMBER \<le> right then Some (KERN_INVALID_VALUE, st)
      else
        (case ipc_right_lookup_write space name st of
           (Inl kr, st) \<Rightarrow> Some (kr, st)
         | (Inr entry, st) \<Rightarrow> ipc_right_delta locked space name entry right delta st))"

section \<open>Attributes of a receive right\<close>

abbreviation ipc_port_translate_receive ::
  "ipc_space_t \<Rightarrow> mach_port_t \<Rightarrow> ipc_kernel \<Rightarrow> (kern_return_t + ipc_port_t) \<times> ipc_kernel" where
  "ipc_port_translate_receive space name \<equiv> ipc_object_translate space name MACH_PORT_RIGHT_RECEIVE"

definition ipc_port_set_mscount :: "ipc_port_t \<Rightarrow> 32 word \<Rightarrow> ipc_kernel \<Rightarrow> ipc_kernel" where
  "ipc_port_set_mscount port mscount = upd_port port (\<lambda>p. p\<lparr>ip_mscount := mscount\<rparr>)"

definition mach_port_set_qlimit ::
  "ipc_space_t \<Rightarrow> mach_port_t \<Rightarrow> nat \<Rightarrow> ipc_kernel \<Rightarrow> kern_return_t \<times> ipc_kernel" where
  "mach_port_set_qlimit space name qlimit st =
     (if space = IS_NULL then (KERN_INVALID_TASK, st)
      else if MACH_PORT_QLIMIT_MAX < qlimit then (KERN_INVALID_VALUE, st)
      else
        (case ipc_port_translate_receive space name st of
           (Inl kr, st) \<Rightarrow> (kr, st)
         | (Inr port, st) \<Rightarrow> (KERN_SUCCESS, ipc_port_set_qlimit port qlimit st)))"

definition mach_port_set_mscount ::
  "ipc_space_t \<Rightarrow> mach_port_t \<Rightarrow> 32 word \<Rightarrow> ipc_kernel \<Rightarrow> kern_return_t \<times> ipc_kernel" where
  "mach_port_set_mscount space name mscount st =
     (if space = IS_NULL then (KERN_INVALID_TASK, st)
      else
        (case ipc_port_translate_receive space name st of
           (Inl kr, st) \<Rightarrow> (kr, st)
         | (Inr port, st) \<Rightarrow> (KERN_SUCCESS, ipc_port_set_mscount port mscount st)))"

definition mach_port_set_seqno ::
  "ipc_space_t \<Rightarrow> mach_port_t \<Rightarrow> 32 word \<Rightarrow> ipc_kernel \<Rightarrow> kern_return_t \<times> ipc_kernel" where
  "mach_port_set_seqno space name seqno st =
     (if space = IS_NULL then (KERN_INVALID_TASK, st)
      else
        (case ipc_port_translate_receive space name st of
           (Inl kr, st) \<Rightarrow> (kr, st)
         | (Inr port, st) \<Rightarrow> (KERN_SUCCESS, ipc_port_set_seqno port seqno st)))"

record mach_port_status_t =
  mps_pset :: mach_port_t
  mps_seqno :: "32 word"
  mps_mscount :: "32 word"
  mps_qlimit :: nat
  mps_msgcount :: nat
  mps_sorights :: nat
  mps_srights :: bool
  mps_pdrequest :: bool
  mps_nsrequest :: bool

text \<open>A member of a port set that has died is taken out of it when this is noticed.\<close>

definition containing_pset :: "ipc_port_t \<Rightarrow> ipc_kernel \<Rightarrow> mach_port_t \<times> ipc_kernel" where
  "containing_pset port st =
     (let pset = ip_pset (st_port st port)
      in if pset \<noteq> IPS_NULL then
           if \<not> ips_active (st_pset st pset) then (MACH_PORT_NULL, ipc_pset_remove pset port st)
           else (ips_local_name (st_pset st pset), st)
         else (MACH_PORT_NULL, st))"

definition mach_port_get_receive_status ::
  "ipc_space_t \<Rightarrow> mach_port_t \<Rightarrow> ipc_kernel \<Rightarrow> (kern_return_t + mach_port_status_t) \<times> ipc_kernel" where
  "mach_port_get_receive_status space name st =
     (if space = IS_NULL then (Inl KERN_INVALID_TASK, st)
      else
        (case ipc_port_translate_receive space name st of
           (Inl kr, st) \<Rightarrow> (Inl kr, st)
         | (Inr port, st) \<Rightarrow>
             let (pset, st) = containing_pset port st;
                 p = st_port st port
             in (Inr \<lparr>mps_pset = pset, mps_seqno = ip_seqno p, mps_mscount = ip_mscount p, mps_qlimit = ip_qlimit p,
                      mps_msgcount = ip_msgcount p, mps_sorights = ip_sorights p, mps_srights = (0 < ip_srights p),
                      mps_pdrequest = (ip_pdrequest p \<noteq> IP_NULL), mps_nsrequest = (ip_nsrequest p \<noteq> IP_NULL)\<rparr>, st)))"

record old_mach_port_status_t =
  omps_pset :: mach_port_t
  omps_mscount :: "32 word"
  omps_qlimit :: nat
  omps_msgcount :: nat
  omps_sorights :: nat
  omps_srights :: bool
  omps_pdrequest :: bool
  omps_nsrequest :: bool

definition old_mach_port_get_receive_status ::
  "ipc_space_t \<Rightarrow> mach_port_t \<Rightarrow> ipc_kernel \<Rightarrow> (kern_return_t + old_mach_port_status_t) \<times> ipc_kernel" where
  "old_mach_port_get_receive_status space name st =
     (case mach_port_get_receive_status space name st of
        (Inl kr, st) \<Rightarrow> (Inl kr, st)
      | (Inr s, st) \<Rightarrow>
          (Inr \<lparr>omps_pset = mps_pset s, omps_mscount = mps_mscount s, omps_qlimit = mps_qlimit s,
                omps_msgcount = mps_msgcount s, omps_sorights = mps_sorights s, omps_srights = mps_srights s,
                omps_pdrequest = mps_pdrequest s, omps_nsrequest = mps_nsrequest s\<rparr>, st))"

section \<open>Port sets\<close>

text \<open>Names are recorded while there is room; all members are counted.\<close>

definition mach_port_gst_helper ::
  "ipc_pset_t \<Rightarrow> ipc_port_t \<Rightarrow> nat \<Rightarrow> ipc_kernel \<Rightarrow> mach_port_t list \<times> nat \<Rightarrow> mach_port_t list \<times> nat" where
  "mach_port_gst_helper pset port maxnames st = (\<lambda>(names, actual).
     if pset = ip_pset (st_port st port)
     then (if actual < maxnames then names @ [ip_receiver_name (st_port st port)] else names, actual + 1)
     else (names, actual))"

definition gst_entry ::
  "ipc_pset_t \<Rightarrow> nat \<Rightarrow> ipc_space_t \<Rightarrow> ipc_kernel \<Rightarrow> ipc_entry_t \<Rightarrow> mach_port_t list \<times> nat \<Rightarrow> mach_port_t list \<times> nat" where
  "gst_entry pset maxnames space st entry acc =
     (let e = get_entry st space entry
      in if ie_bits e AND MACH_PORT_TYPE_RECEIVE \<noteq> 0
         then mach_port_gst_helper pset (ie_object e) maxnames st acc else acc)"

fun get_set_status_loop ::
  "(bool \<times> (ipc_kernel \<Rightarrow> ipc_kernel)) list \<Rightarrow> vm_offset_t \<Rightarrow> ipc_space_t \<Rightarrow> mach_port_t \<Rightarrow> ipc_kernel
     \<Rightarrow> ((kern_return_t + mach_port_t list) \<times> ipc_kernel) option" where
  "get_set_status_loop [] sz space name st = None"
| "get_set_status_loop ((memory, other) # ms) sz space name st =
     (if \<not> memory then Some (Inl KERN_RESOURCE_SHORTAGE, other st)
      else
        (case ipc_right_lookup_write space name (other st) of
           (Inl kr, st) \<Rightarrow> Some (Inl kr, st)
         | (Inr entry, st) \<Rightarrow>
             let e = get_entry st space entry
             in if IE_BITS_TYPE (ie_bits e) \<noteq> MACH_PORT_TYPE_PORT_SET then Some (Inl KERN_INVALID_RIGHT, st)
                else
                  let maxnames = unat sz div 4;
                      acc = fold (\<lambda>index. gst_entry (ie_object e) maxnames space st (Table index))
                              [0..<is_table_size (st_space st space)] ([], 0)
                  in (case ipc_splay_traverse (\<lambda>acc name tentry. (gst_entry (ie_object e) maxnames space st (Tree tentry) acc, False))
                             acc (is_tree (st_space st space)) of
                        None \<Rightarrow> None
                      | Some ((names, actual), tree) \<Rightarrow>
                          let st = set_tree space tree st
                          in if actual \<le> maxnames then Some (Inr names, st)
                             else get_set_status_loop ms (round_page (of_nat actual * sizeof_mach_port_t) + of_nat PAGE_SIZE) space name st)))"

definition mach_port_get_set_status ::
  "(bool \<times> (ipc_kernel \<Rightarrow> ipc_kernel)) list \<Rightarrow> ipc_space_t \<Rightarrow> mach_port_t \<Rightarrow> ipc_kernel
     \<Rightarrow> ((kern_return_t + mach_port_t list) \<times> ipc_kernel) option" where
  "mach_port_get_set_status ms space name st =
     (if space = IS_NULL then Some (Inl KERN_INVALID_TASK, st)
      else get_set_status_loop ms (of_nat PAGE_SIZE) space name st)"

definition mach_port_move_member ::
  "ipc_space_t \<Rightarrow> mach_port_t \<Rightarrow> mach_port_t \<Rightarrow> ipc_kernel \<Rightarrow> kern_return_t \<times> ipc_kernel" where
  "mach_port_move_member space member after st =
     (if space = IS_NULL then (KERN_INVALID_TASK, st)
      else
        (case ipc_right_lookup_write space member st of
           (Inl kr, st) \<Rightarrow> (kr, st)
         | (Inr entry, st) \<Rightarrow>
             let e = get_entry st space entry;
                 port = ie_object e
             in if ie_bits e AND MACH_PORT_TYPE_RECEIVE = 0 then (KERN_INVALID_RIGHT, st)
                else if after = MACH_PORT_NULL then ipc_pset_move port IPS_NULL st
                else
                  (case ipc_entry_lookup st space after of
                     (None, st) \<Rightarrow> (KERN_INVALID_NAME, st)
                   | (Some entry, st) \<Rightarrow>
                       let e = get_entry st space entry
                       in if ie_bits e AND MACH_PORT_TYPE_PORT_SET = 0 then (KERN_INVALID_RIGHT, st)
                          else ipc_pset_move port (ie_object e) st)))"

section \<open>Notifications\<close>

definition MACH_NOTIFY_PORT_DESTROYED :: nat where "MACH_NOTIFY_PORT_DESTROYED = 69"
definition MACH_NOTIFY_NO_SENDERS :: nat where "MACH_NOTIFY_NO_SENDERS = 70"
definition MACH_NOTIFY_DEAD_NAME :: nat where "MACH_NOTIFY_DEAD_NAME = 72"

text \<open>The result is the right registered before, if any.\<close>

definition mach_port_request_notification ::
  "dn_window list \<Rightarrow> ipc_space_t \<Rightarrow> mach_port_t \<Rightarrow> nat \<Rightarrow> 32 word \<Rightarrow> ipc_port_t \<Rightarrow> ipc_kernel
     \<Rightarrow> ((kern_return_t + ipc_port_t) \<times> ipc_kernel) option" where
  "mach_port_request_notification gs space name msgid sync notify st =
     (if space = IS_NULL then Some (Inl KERN_INVALID_TASK, st)
      else if notify = IP_DEAD then Some (Inl KERN_INVALID_CAPABILITY, st)
      else if msgid = MACH_NOTIFY_PORT_DESTROYED then
        if sync \<noteq> 0 then Some (Inl KERN_INVALID_VALUE, st)
        else
          (case ipc_port_translate_receive space name st of
             (Inl kr, st) \<Rightarrow> Some (Inl kr, st)
           | (Inr port, st) \<Rightarrow>
               let (previous, st) = ipc_port_pdrequest port notify st
               in if previous \<noteq> IP_NULL \<and> ip_pdsendp previous
                  then Some (Inr IP_NULL, ipc_port_release_send (ip_pdsend previous) st)
                  else Some (Inr previous, st))
      else if msgid = MACH_NOTIFY_NO_SENDERS then
        (case ipc_port_translate_receive space name st of
           (Inl kr, st) \<Rightarrow> Some (Inl kr, st)
         | (Inr port, st) \<Rightarrow>
             let (previous, st) = ipc_port_nsrequest port sync notify st in Some (Inr previous, st))
      else if msgid = MACH_NOTIFY_DEAD_NAME then ipc_right_dnrequest gs space name (sync \<noteq> 0) notify st
      else Some (Inl KERN_INVALID_VALUE, st))"

section \<open>Rights put into and taken out of a space\<close>

definition MACH_MSG_TYPE_PORT_ANY :: "mach_msg_type_name_t \<Rightarrow> bool" where
  "MACH_MSG_TYPE_PORT_ANY x \<longleftrightarrow> MACH_MSG_TYPE_MOVE_RECEIVE \<le> x \<and> x \<le> MACH_MSG_TYPE_MAKE_SEND_ONCE"

definition MACH_MSG_TYPE_PORT_ANY_RIGHT :: "mach_msg_type_name_t \<Rightarrow> bool" where
  "MACH_MSG_TYPE_PORT_ANY_RIGHT x \<longleftrightarrow> MACH_MSG_TYPE_MOVE_RECEIVE \<le> x \<and> x \<le> MACH_MSG_TYPE_MOVE_SEND_ONCE"

definition mach_port_insert_right ::
  "kernel_window list \<Rightarrow> ipc_space_t \<Rightarrow> mach_port_t \<Rightarrow> ipc_port_t \<Rightarrow> mach_msg_type_name_t \<Rightarrow> ipc_kernel
     \<Rightarrow> (kern_return_t \<times> ipc_kernel \<times> kernel_window list) option" where
  "mach_port_insert_right ws space name poly polyPoly st =
     (if space = IS_NULL then Some (KERN_INVALID_TASK, st, ws)
      else if \<not> MACH_PORT_VALID name \<or> \<not> MACH_MSG_TYPE_PORT_ANY_RIGHT polyPoly then Some (KERN_INVALID_VALUE, st, ws)
      else if \<not> IP_VALID poly then Some (KERN_INVALID_CAPABILITY, st, ws)
      else ipc_object_copyout_name ws space poly polyPoly False name st)"

text \<open>The result is the object with the kind of right taken.\<close>

definition mach_port_extract_right ::
  "ipc_space_t \<Rightarrow> mach_port_t \<Rightarrow> mach_msg_type_name_t \<Rightarrow> ipc_kernel
     \<Rightarrow> ((kern_return_t + ipc_object_t \<times> mach_msg_type_name_t) \<times> ipc_kernel) option" where
  "mach_port_extract_right space name msgt_name st =
     (if space = IS_NULL then Some (Inl KERN_INVALID_TASK, st)
      else if \<not> MACH_MSG_TYPE_PORT_ANY msgt_name then Some (Inl KERN_INVALID_VALUE, st)
      else
        (case ipc_object_copyin space name msgt_name st of
           None \<Rightarrow> None
         | Some (Inl kr, st) \<Rightarrow> Some (Inl kr, st)
         | Some (Inr poly, st) \<Rightarrow> do {
             polyPoly \<leftarrow> ipc_object_copyin_type msgt_name;
             Some (Inr (poly, polyPoly), st)
           }))"

end
