(* ===== verification/PortCompat.thy ===== *)
theory PortCompat
  imports MachPort
begin

text \<open>
  The old-style calls at the end of \<^verbatim>\<open>ipc/mach_port.c\<close>, compiled for \<^verbatim>\<open>MACH_IPC_COMPAT\<close>. They use
  the operations of the new interface and translate rights and return codes.
\<close>

unbundle bit_operations_syntax

section \<open>Translation\<close>

definition port_translate_compat ::
  "ipc_space_t \<Rightarrow> mach_port_t \<Rightarrow> ipc_kernel \<Rightarrow> ((kern_return_t + ipc_port_t) \<times> ipc_kernel) option" where
  "port_translate_compat space name st =
     (case ipc_right_lookup_write space name st of
        (Inl kr, st) \<Rightarrow> Some (Inl KERN_INVALID_ARGUMENT, st)
      | (Inr entry, st) \<Rightarrow>
          (case ipc_right_info space name entry st of
             None \<Rightarrow> None
           | Some (Inl kr, st) \<Rightarrow> Some (Inl KERN_INVALID_ARGUMENT, st)
           | Some (Inr (type, urefs), st) \<Rightarrow>
               if type AND MACH_PORT_TYPE_RECEIVE = 0 then
                 Some (Inl (if type AND MACH_PORT_TYPE_PORT_OR_DEAD \<noteq> 0 then KERN_NOT_RECEIVER else KERN_INVALID_ARGUMENT), st)
               else Some (Inr (ie_object (get_entry st space entry)), st)))"

abbreviation MACH_PORT_TYPE_ALL_RIGHTS :: mach_port_type_t where "MACH_PORT_TYPE_ALL_RIGHTS \<equiv> 0x001f0000"

definition PORT_TYPE_SEND :: mach_port_type_t where "PORT_TYPE_SEND = 1"
definition PORT_TYPE_RECEIVE_OWN :: mach_port_type_t where "PORT_TYPE_RECEIVE_OWN = 7"
definition PORT_TYPE_SET :: mach_port_type_t where "PORT_TYPE_SET = 9"

text \<open>A type that is none of these makes the kernel panic.\<close>

definition convert_port_type :: "mach_port_type_t \<Rightarrow> mach_port_type_t option" where
  "convert_port_type type =
     (let t = type AND MACH_PORT_TYPE_ALL_RIGHTS
      in if t = MACH_PORT_TYPE_SEND \<or> t = MACH_PORT_TYPE_SEND_ONCE \<or> t = MACH_PORT_TYPE_DEAD_NAME then Some PORT_TYPE_SEND
         else if t = MACH_PORT_TYPE_RECEIVE \<or> t = MACH_PORT_TYPE_SEND_RECEIVE then Some PORT_TYPE_RECEIVE_OWN
         else if t = MACH_PORT_TYPE_PORT_SET then Some PORT_TYPE_SET
         else None)"

section \<open>Names and types\<close>

fun convert_types :: "(mach_port_t \<times> mach_port_type_t) list \<Rightarrow> (mach_port_t \<times> mach_port_type_t) list option" where
  "convert_types [] = Some []"
| "convert_types ((name, type) # names) = do {
     type \<leftarrow> convert_port_type type;
     names \<leftarrow> convert_types names;
     Some ((name, type) # names)
   }"

text \<open>\<open>copyout\<close> is whether the types could be mapped again to be converted.\<close>

definition port_names ::
  "memory_window list \<Rightarrow> bool \<Rightarrow> ipc_space_t \<Rightarrow> ipc_kernel
     \<Rightarrow> ((kern_return_t + (mach_port_t \<times> mach_port_type_t) list) \<times> ipc_kernel) option" where
  "port_names ms copyout space st =
     (case mach_port_names ms space st of
        None \<Rightarrow> None
      | Some (Inl kr, st) \<Rightarrow> Some (Inl (if kr \<noteq> KERN_RESOURCE_SHORTAGE then KERN_INVALID_ARGUMENT else kr), st)
      | Some (Inr names, st) \<Rightarrow>
          if \<not> copyout then Some (Inl KERN_RESOURCE_SHORTAGE, st)
          else do {
            names \<leftarrow> convert_types names;
            Some (Inr names, st)
          })"

definition port_type ::
  "ipc_space_t \<Rightarrow> mach_port_t \<Rightarrow> ipc_kernel \<Rightarrow> ((kern_return_t + mach_port_type_t) \<times> ipc_kernel) option" where
  "port_type space name st =
     (case mach_port_type space name st of
        None \<Rightarrow> None
      | Some (Inl kr, st) \<Rightarrow> Some (Inl KERN_INVALID_ARGUMENT, st)
      | Some (Inr type, st) \<Rightarrow> do {
          type \<leftarrow> convert_port_type type;
          Some (Inr type, st)
        })"

definition port_rename ::
  "kernel_window list \<Rightarrow> ipc_space_t \<Rightarrow> mach_port_t \<Rightarrow> mach_port_t \<Rightarrow> ipc_kernel
     \<Rightarrow> (kern_return_t \<times> ipc_kernel \<times> kernel_window list) option" where
  "port_rename ws space old_name new_name st = do {
     (kr, st, ws) \<leftarrow> mach_port_rename ws space old_name new_name st;
     Some (if kr \<noteq> KERN_SUCCESS \<and> kr \<noteq> KERN_NAME_EXISTS then KERN_INVALID_ARGUMENT else kr, st, ws)
   }"

section \<open>Ports\<close>

definition port_allocate ::
  "kernel_window list \<Rightarrow> ipc_port_t \<Rightarrow> ipc_port_request list option \<Rightarrow> ipc_space_t \<Rightarrow> ipc_kernel
     \<Rightarrow> ((kern_return_t + mach_port_t) \<times> ipc_kernel \<times> kernel_window list) option" where
  "port_allocate ws port alloc space st =
     (if space = IS_NULL then Some (Inl KERN_INVALID_ARGUMENT, st, ws)
      else
        (case ipc_port_alloc_compat ws port alloc space st of
           None \<Rightarrow> None
         | Some (Inl kr, st, ws) \<Rightarrow> Some (Inl (if kr \<noteq> KERN_RESOURCE_SHORTAGE then KERN_INVALID_ARGUMENT else kr), st, ws)
         | Some (Inr name, st, ws) \<Rightarrow> Some (Inr name, st, ws)))"

definition port_deallocate ::
  "bool \<Rightarrow> ipc_space_t \<Rightarrow> mach_port_t \<Rightarrow> ipc_kernel \<Rightarrow> (kern_return_t \<times> ipc_kernel) option" where
  "port_deallocate locked space name st =
     (if space = IS_NULL then Some (KERN_INVALID_ARGUMENT, st)
      else
        (case ipc_right_lookup_write space name st of
           (Inl kr, st) \<Rightarrow> Some (KERN_INVALID_ARGUMENT, st)
         | (Inr entry, st) \<Rightarrow>
             (case ipc_right_info space name entry st of
                None \<Rightarrow> None
              | Some (Inl kr, st) \<Rightarrow> Some (KERN_INVALID_ARGUMENT, st)
              | Some (Inr (type, urefs), st) \<Rightarrow>
                  if type AND MACH_PORT_TYPE_PORT_OR_DEAD = 0 then Some (KERN_INVALID_ARGUMENT, st)
                  else do {
                    (_, st) \<leftarrow> ipc_right_destroy locked space name entry st;
                    Some (KERN_SUCCESS, st)
                  })))"

definition PORT_BACKLOG_MAX :: int where "PORT_BACKLOG_MAX = 16"

definition port_set_backlog ::
  "ipc_space_t \<Rightarrow> mach_port_t \<Rightarrow> int \<Rightarrow> ipc_kernel \<Rightarrow> (kern_return_t \<times> ipc_kernel) option" where
  "port_set_backlog space name backlog st =
     (if space = IS_NULL \<or> backlog \<le> 0 \<or> PORT_BACKLOG_MAX < backlog then Some (KERN_INVALID_ARGUMENT, st)
      else
        (case port_translate_compat space name st of
           None \<Rightarrow> None
         | Some (Inl kr, st) \<Rightarrow> Some (kr, st)
         | Some (Inr port, st) \<Rightarrow> Some (KERN_SUCCESS, ipc_port_set_qlimit port (nat backlog) st)))"

definition port_set_backup ::
  "ipc_space_t \<Rightarrow> mach_port_t \<Rightarrow> ipc_port_t \<Rightarrow> ipc_kernel \<Rightarrow> ((kern_return_t + ipc_port_t) \<times> ipc_kernel) option" where
  "port_set_backup space name backup st =
     (if space = IS_NULL then Some (Inl KERN_INVALID_ARGUMENT, st)
      else
        let backup = (if backup = IP_DEAD then IP_NULL else if backup \<noteq> IP_NULL then ip_pdsendm backup else backup)
        in (case port_translate_compat space name st of
              None \<Rightarrow> None
            | Some (Inl kr, st) \<Rightarrow> Some (Inl kr, st)
            | Some (Inr port, st) \<Rightarrow>
                let (previous, st) = ipc_port_pdrequest port backup st
                in if previous \<noteq> IP_NULL then
                     if ip_pdsendp previous then Some (Inr (ip_pdsend previous), st)
                     else Some (Inr IP_NULL, emit (Notify_send_once previous) st)
                   else Some (Inr previous, st)))"

text \<open>The set that enables the port, the messages queued, the backlog, ownership and the right to receive.\<close>

definition port_status ::
  "ipc_space_t \<Rightarrow> mach_port_t \<Rightarrow> ipc_kernel
     \<Rightarrow> ((kern_return_t + mach_port_t \<times> int \<times> int \<times> bool \<times> bool) \<times> ipc_kernel) option" where
  "port_status space name st =
     (if space = IS_NULL then Some (Inl KERN_INVALID_ARGUMENT, st)
      else
        (case ipc_right_lookup_write space name st of
           (Inl kr, st) \<Rightarrow> Some (Inl KERN_INVALID_ARGUMENT, st)
         | (Inr entry, st) \<Rightarrow>
             (case ipc_right_info space name entry st of
                None \<Rightarrow> None
              | Some (Inl kr, st) \<Rightarrow> Some (Inl KERN_INVALID_ARGUMENT, st)
              | Some (Inr (type, urefs), st) \<Rightarrow>
                  if type AND MACH_PORT_TYPE_PORT_OR_DEAD = 0 then Some (Inl KERN_INVALID_ARGUMENT, st)
                  else if type AND MACH_PORT_TYPE_RECEIVE \<noteq> 0 then
                    let port = ie_object (get_entry st space entry);
                        (enabled, st) = containing_pset port st
                    in Some (Inr (enabled, int (ip_msgcount (st_port st port)), int (ip_qlimit (st_port st port)), True, True), st)
                  else Some (Inr (MACH_PORT_NULL, - 1, 0, False, False), st))))"

section \<open>Port sets\<close>

definition port_set_allocate ::
  "kernel_window list \<Rightarrow> ipc_pset_t \<Rightarrow> ipc_space_t \<Rightarrow> ipc_kernel
     \<Rightarrow> ((kern_return_t + mach_port_t) \<times> ipc_kernel \<times> kernel_window list) option" where
  "port_set_allocate ws pset space st =
     (if space = IS_NULL then Some (Inl KERN_INVALID_ARGUMENT, st, ws)
      else
        (case ipc_pset_alloc ws pset space st of
           None \<Rightarrow> None
         | Some (Inl kr, st, ws) \<Rightarrow> Some (Inl (if kr \<noteq> KERN_RESOURCE_SHORTAGE then KERN_INVALID_ARGUMENT else kr), st, ws)
         | Some (Inr name, st, ws) \<Rightarrow> Some (Inr name, st, ws)))"

definition port_set_deallocate ::
  "bool \<Rightarrow> ipc_space_t \<Rightarrow> mach_port_t \<Rightarrow> ipc_kernel \<Rightarrow> (kern_return_t \<times> ipc_kernel) option" where
  "port_set_deallocate locked space name st =
     (if space = IS_NULL then Some (KERN_INVALID_ARGUMENT, st)
      else
        (case ipc_right_lookup_write space name st of
           (Inl kr, st) \<Rightarrow> Some (kr, st)
         | (Inr entry, st) \<Rightarrow>
             if ie_bits (get_entry st space entry) AND MACH_PORT_TYPE_PORT_SET = 0 then Some (KERN_INVALID_ARGUMENT, st)
             else ipc_right_destroy locked space name entry st))"

text \<open>
  The next two calls look the port up as \<^verbatim>\<open>port_translate_compat\<close> does, with the same code written out.
\<close>

definition port_set_add ::
  "ipc_space_t \<Rightarrow> mach_port_t \<Rightarrow> mach_port_t \<Rightarrow> ipc_kernel \<Rightarrow> (kern_return_t \<times> ipc_kernel) option" where
  "port_set_add space set_name port_name st =
     (if space = IS_NULL then Some (KERN_INVALID_ARGUMENT, st)
      else
        (case port_translate_compat space port_name st of
           None \<Rightarrow> None
         | Some (Inl kr, st) \<Rightarrow> Some (kr, st)
         | Some (Inr port, st) \<Rightarrow>
             (case ipc_entry_lookup st space set_name of
                (None, st) \<Rightarrow> Some (KERN_INVALID_ARGUMENT, st)
              | (Some entry, st) \<Rightarrow>
                  let e = get_entry st space entry
                  in if ie_bits e AND MACH_PORT_TYPE_PORT_SET = 0 then Some (KERN_INVALID_ARGUMENT, st)
                     else Some (ipc_pset_move port (ie_object e) st))))"

definition port_set_remove ::
  "ipc_space_t \<Rightarrow> mach_port_t \<Rightarrow> ipc_kernel \<Rightarrow> (kern_return_t \<times> ipc_kernel) option" where
  "port_set_remove space name st =
     (if space = IS_NULL then Some (KERN_INVALID_ARGUMENT, st)
      else
        (case port_translate_compat space name st of
           None \<Rightarrow> None
         | Some (Inl kr, st) \<Rightarrow> Some (kr, st)
         | Some (Inr port, st) \<Rightarrow> Some (ipc_pset_move port IPS_NULL st)))"

definition port_set_status ::
  "(bool \<times> (ipc_kernel \<Rightarrow> ipc_kernel)) list \<Rightarrow> ipc_space_t \<Rightarrow> mach_port_t \<Rightarrow> ipc_kernel
     \<Rightarrow> ((kern_return_t + mach_port_t list) \<times> ipc_kernel) option" where
  "port_set_status ms space name st =
     (case mach_port_get_set_status ms space name st of
        None \<Rightarrow> None
      | Some (Inl kr, st) \<Rightarrow> Some (Inl (if kr \<noteq> KERN_RESOURCE_SHORTAGE then KERN_INVALID_ARGUMENT else kr), st)
      | Some (Inr members, st) \<Rightarrow> Some (Inr members, st))"

section \<open>Rights put into and taken out of a space\<close>

definition insert_result :: "kern_return_t \<Rightarrow> kern_return_t" where
  "insert_result kr =
     (if kr = KERN_SUCCESS \<or> kr = KERN_NAME_EXISTS \<or> kr = KERN_RESOURCE_SHORTAGE then kr
      else if kr = KERN_RIGHT_EXISTS then KERN_FAILURE
      else KERN_INVALID_ARGUMENT)"

definition port_insert_send ::
  "kernel_window list \<Rightarrow> dn_window list \<Rightarrow> ipc_space_t \<Rightarrow> ipc_port_t \<Rightarrow> mach_port_t \<Rightarrow> ipc_kernel
     \<Rightarrow> (kern_return_t \<times> ipc_kernel \<times> kernel_window list) option" where
  "port_insert_send ws gs space port name st =
     (if space = IS_NULL \<or> \<not> MACH_PORT_VALID name \<or> \<not> IP_VALID port then Some (KERN_INVALID_ARGUMENT, st, ws)
      else do {
        (kr, st, ws) \<leftarrow> ipc_object_copyout_name_compat ws gs space port MACH_MSG_TYPE_PORT_SEND name st;
        Some (insert_result kr, st, ws)
      })"

definition port_insert_receive ::
  "kernel_window list \<Rightarrow> dn_window list \<Rightarrow> ipc_space_t \<Rightarrow> ipc_port_t \<Rightarrow> mach_port_t \<Rightarrow> ipc_kernel
     \<Rightarrow> (kern_return_t \<times> ipc_kernel \<times> kernel_window list) option" where
  "port_insert_receive ws gs space port name st =
     (if space = IS_NULL \<or> \<not> MACH_PORT_VALID name \<or> \<not> IP_VALID port then Some (KERN_INVALID_ARGUMENT, st, ws)
      else do {
        (kr, st, ws) \<leftarrow> ipc_object_copyout_name_compat ws gs space port MACH_MSG_TYPE_PORT_RECEIVE name st;
        Some (insert_result kr, st, ws)
      })"

definition port_extract_send ::
  "ipc_space_t \<Rightarrow> mach_port_t \<Rightarrow> ipc_kernel \<Rightarrow> ((kern_return_t + ipc_port_t) \<times> ipc_kernel) option" where
  "port_extract_send space name st =
     (if space = IS_NULL then Some (Inl KERN_INVALID_ARGUMENT, st)
      else
        (case ipc_object_copyin_compat space name MSG_TYPE_PORT True st of
           None \<Rightarrow> None
         | Some (Inl kr, st) \<Rightarrow> Some (Inl KERN_INVALID_ARGUMENT, st)
         | Some (Inr port, st) \<Rightarrow> Some (Inr port, st)))"

definition port_extract_receive ::
  "ipc_space_t \<Rightarrow> mach_port_t \<Rightarrow> ipc_kernel \<Rightarrow> ((kern_return_t + ipc_port_t) \<times> ipc_kernel) option" where
  "port_extract_receive space name st =
     (if space = IS_NULL then Some (Inl KERN_INVALID_ARGUMENT, st)
      else
        (case ipc_object_copyin_compat space name MSG_TYPE_PORT_ALL True st of
           None \<Rightarrow> None
         | Some (Inl kr, st) \<Rightarrow> Some (Inl KERN_INVALID_ARGUMENT, st)
         | Some (Inr port, st) \<Rightarrow> Some (Inr port, st)))"

end
