(* ===== verification/PortCalls.thy ===== *)
theory PortCalls
  imports DeltaFacts PortCompat
begin

text \<open>
  The calls of \<^verbatim>\<open>ipc/mach_port.c\<close> as operations on the rights of a space: each implements its
  specification for every name, and none breaks the invariant of the space.
\<close>

unbundle bit_operations_syntax

section \<open>Spaces between calls\<close>

fun is_receive :: "port_right \<Rightarrow> bool" where
  "is_receive Receive_right \<longleftrightarrow> True"
| "is_receive (Send_receive_right u) \<longleftrightarrow> True"
| "is_receive _ \<longleftrightarrow> False"

text \<open>The space is alive and settled, its capabilities are well formed, and the ports it receives from are alive.\<close>

definition rights_ok :: "ipc_kernel \<Rightarrow> ipc_space_t \<Rightarrow> bool" where
  "rights_ok st space \<longleftrightarrow> space \<noteq> IS_NULL \<and> at_rest st space \<and> well_typed st space \<and>
     (\<forall>n r obj. space_rights st space n = Some (r, obj) \<longrightarrow> is_receive r \<longrightarrow> ip_active (st_port st obj))"

lemma caps_rights:
  assumes "well_typed st space" and "space_caps st space n = Some (bits, obj, request)"
  obtains r where "right_of bits = Some r" and "space_rights st space n = Some (r, obj)"
proof -
  have "cap_ok (bits, obj, request) \<or> old_ok (bits, obj, request)" using assms by (simp add: well_typed_def del: cap_ok.simps old_ok.simps)
  then obtain r where "right_of bits = Some r" by (auto split: option.splits)
  then show thesis using that assms(2) by (simp add: space_rights_def)
qed

lemma plainD: "plain st space n \<Longrightarrow> space_caps st space n = Some c \<Longrightarrow> cap_ok c"
  by (simp add: plain_def del: cap_ok.simps)

section \<open>Looking a name up\<close>

lemma lookup_write_state:
  assumes "space_settled st space" and "is_active (st_space st space)"
  obtains r st1 where "ipc_right_lookup_write space name st = (case space_names st space name of None \<Rightarrow> Inl KERN_INVALID_NAME | Some e \<Rightarrow> Inr e, st1)"
    and "space_settled st1 space" and "space_caps st1 space = space_caps st space" and "space_names st1 space = space_names st space"
    and "ipc_state.more st1 = ipc_state.more st" and "life st1 = life st"
    and "\<And>e. get_entry st1 space e = get_entry st space e"
proof -
  obtain r st1 where l: "ipc_entry_lookup st space name = (r, st1)" by fastforce
  obtain t where t: "r = space_names st space name" "st1 = set_tree space t st" "ist_entries t = tree_entries st space" "ist_invar t"
      "space_settled st1 space"
    using lookup_settled [OF assms(1) l] by blast
  note re = retree [OF t(3,4), folded t(2)]
  have "get_entry st1 space e = get_entry st space e" for e by (cases e) (simp_all add: t(2))
  moreover have "ipc_right_lookup_write space name st = (case space_names st space name of None \<Rightarrow> Inl KERN_INVALID_NAME | Some e \<Rightarrow> Inr e, st1)"
    using assms(2) l t(1) by (auto simp: ipc_right_lookup_write_def split: option.splits)
  ultimately show thesis using that [of st1] re(1,2) t(2,5) by simp
qed

lemma alive_restI: "ipc_state.more st1 = ipc_state.more st \<Longrightarrow> life st1 = life st \<Longrightarrow> alive st1 = alive st"
  by (drule more_kernel(1)) (simp add: alive_def)

lemma lookup_holds:
  assumes ok: "rights_ok st space" and pl: "plain st space name" and c: "space_caps st space name = Some (bits, obj, request)"
  obtains entry st1 where "ipc_right_lookup_write space name st = (Inr entry, st1)"
    and "holds st1 space name entry bits obj request" and "space_caps st1 space = space_caps st space"
    and "st_port st1 = st_port st" and "alive st1 = alive st"
proof -
  have s: "space_settled st space" "is_active (st_space st space)"
    using ok by (auto simp: rights_ok_def at_rest_def)
  obtain st1 where l: "ipc_right_lookup_write space name st = (case space_names st space name of None \<Rightarrow> Inl KERN_INVALID_NAME | Some e \<Rightarrow> Inr e, st1)"
      "space_settled st1 space" "space_caps st1 space = space_caps st space" "space_names st1 space = space_names st space"
      "ipc_state.more st1 = ipc_state.more st" "life st1 = life st" "\<And>e. get_entry st1 space e = get_entry st space e"
    using lookup_write_state [OF s] by metis
  obtain entry where e: "space_names st space name = Some entry" "denoted (get_entry st space entry) = (bits, obj, request)"
    using c by (auto simp: space_caps_def)
  have "cap_ok (bits, obj, request)" by (rule plainD [OF pl c])
  then have "holds st1 space name entry bits obj request" using l(2,4,7) e by (auto simp: holds_def split: option.splits)
  then show thesis using that [of entry st1] l(1,3) e(1) more_kernel(1) [OF l(5)] alive_restI [OF l(5,6)] by simp
qed

lemma lookup_fails:
  assumes ok: "rights_ok st space" and c: "space_caps st space name = None"
  obtains st1 where "ipc_right_lookup_write space name st = (Inl KERN_INVALID_NAME, st1)" and "space_settled st1 space"
    and "space_caps st1 space = space_caps st space" and "alive st1 = alive st"
proof -
  have s: "space_settled st space" "is_active (st_space st space)" using ok by (auto simp: rights_ok_def at_rest_def)
  have "space_names st space name = None" using c by (simp add: space_caps_def)
  then show thesis using lookup_write_state [OF s, of name] that by (metis alive_restI option.simps(4))
qed

text \<open>A call that makes no receive right leaves the space well formed.\<close>

lemma leaves_ok:
  assumes ok: "rights_ok st space" and l: "leaves st space name obj outcome (Some (kr, st'))"
    and new: "\<And>r'. snd outcome = Some r' \<Longrightarrow> is_receive r' \<Longrightarrow> \<exists>r. space_rights st space name = Some (r, obj) \<and> is_receive r"
  shows "rights_ok st' space"
proof -
  have l': "space_settled st' space" "well_typed st' space" "alive st' = alive st"
      "space_rights st' space = (space_rights st space)(name := map_option (\<lambda>r. (r, right_object r obj)) (snd outcome))"
    using l ok by (auto simp: leaves_def rights_ok_def)
  have rest: "at_rest st' space" using l'(1,3) ok by (auto simp: rights_ok_def at_rest_def alive_def receiving_def life_def fun_eq_iff)
  have act: "ip_active (st_port st' p) = ip_active (st_port st p)" for p using l'(3) by (auto simp: alive_def receiving_def fun_eq_iff)
  have "ip_active (st_port st q)" if n: "space_rights st' space n = Some (r', q)" "is_receive r'" for n r' q
  proof (cases "n = name")
    case True
    then have o: "snd outcome = Some r'" "q = right_object r' obj" using n(1) l'(4) by auto
    have "q = obj" using o(2) n(2) by (cases r') (simp_all add: right_object_def)
    then show ?thesis using new [OF o(1) n(2)] ok by (auto simp: rights_ok_def)
  qed (use n ok l'(4) in \<open>auto simp: rights_ok_def\<close>)
  then show ?thesis using ok rest l'(2) act by (simp add: rights_ok_def)
qed

section \<open>Operations on the right that a name denotes\<close>

definition cap_object :: "ipc_kernel \<Rightarrow> ipc_space_t \<Rightarrow> mach_port_t \<Rightarrow> ipc_object_t" where
  "cap_object st space name = (case space_caps st space name of None \<Rightarrow> IO_NULL | Some (bits, obj, request) \<Rightarrow> obj)"

text \<open>
  The outcome of a call on a name: \<open>spec\<close> is told whether the port is alive, whether a dead-name
  notification has been requested, and the right.
\<close>

definition call_outcome ::
  "ipc_kernel \<Rightarrow> ipc_space_t \<Rightarrow> mach_port_t \<Rightarrow> (bool \<Rightarrow> bool \<Rightarrow> port_right \<Rightarrow> right_outcome) \<Rightarrow> right_outcome" where
  "call_outcome st space name spec =
     (case space_caps st space name of
        None \<Rightarrow> (KERN_INVALID_NAME, None)
      | Some (bits, obj, request) \<Rightarrow> spec (ip_active (st_port st obj)) (request \<noteq> 0) (the (right_of bits)))"

definition by_name ::
  "(ipc_space_t \<Rightarrow> mach_port_t \<Rightarrow> ipc_entry_t \<Rightarrow> ipc_kernel \<Rightarrow> (kern_return_t \<times> ipc_kernel) option)
     \<Rightarrow> ipc_space_t \<Rightarrow> mach_port_t \<Rightarrow> ipc_kernel \<Rightarrow> (kern_return_t \<times> ipc_kernel) option" where
  "by_name opn space name st =
     (case ipc_right_lookup_write space name st of
        (Inl kr, st) \<Rightarrow> Some (kr, st)
      | (Inr entry, st) \<Rightarrow> opn space name entry st)"

text \<open>An operation on the entry of a name that implements a specification on rights, and makes no receive right.\<close>

locale name_operation =
  fixes spec :: "bool \<Rightarrow> bool \<Rightarrow> port_right \<Rightarrow> right_outcome"
    and opn :: "ipc_space_t \<Rightarrow> mach_port_t \<Rightarrow> ipc_entry_t \<Rightarrow> ipc_kernel \<Rightarrow> (kern_return_t \<times> ipc_kernel) option"
  assumes implements: "holds st space name entry bits obj request \<Longrightarrow> right_of bits = Some r \<Longrightarrow> cap_ok (bits, obj, request) \<Longrightarrow>
      (is_receive r \<Longrightarrow> ip_active (st_port st obj)) \<Longrightarrow>
      leaves st space name obj (spec (ip_active (st_port st obj)) (request \<noteq> 0) r) (opn space name entry st)"
    and no_new_receiver: "snd (spec living requested r) = Some r' \<Longrightarrow> is_receive r' \<Longrightarrow> is_receive r"
begin

lemma by_name_leaves:
  assumes ok: "rights_ok st space" and pl: "plain st space name"
  shows "leaves st space name (cap_object st space name) (call_outcome st space name spec) (by_name opn space name st)"
proof (cases "space_caps st space name")
  case None
  obtain st1 where l: "ipc_right_lookup_write space name st = (Inl KERN_INVALID_NAME, st1)" "space_settled st1 space"
      "space_caps st1 space = space_caps st space" "alive st1 = alive st"
    using lookup_fails [OF ok None] by blast
  have "space_caps st1 space = (space_caps st space)(name := None)" using l(3) None by (simp add: fun_upd_idem)
  from leaves_freed [OF refl l(2) this l(4)] show ?thesis
    using l(1) None by (simp add: by_name_def call_outcome_def)
next
  case (Some c)
  obtain bits obj request where c: "c = (bits, obj, request)" by (cases c)
  have wt: "well_typed st space" using ok by (simp add: rights_ok_def)
  obtain r where r: "right_of bits = Some r" "space_rights st space name = Some (r, obj)" using caps_rights [OF wt] Some c by blast
  have cap: "cap_ok (bits, obj, request)" using plainD [OF pl] Some c by blast
  obtain entry st1 where l: "ipc_right_lookup_write space name st = (Inr entry, st1)" "holds st1 space name entry bits obj request"
      "space_caps st1 space = space_caps st space" "st_port st1 = st_port st" "alive st1 = alive st"
    using lookup_holds [OF ok pl] Some c by blast
  have "ip_active (st_port st1 obj)" if "is_receive r" using ok that r(2) l(4) by (auto simp: rights_ok_def)
  note step = implements [OF l(2) r(1) cap this]
  have "space_caps st1 space = (space_caps st space)(name \<mapsto> (bits, obj, request))" using l(3) Some c by (simp add: fun_upd_idem)
  from leaves_after [OF step this _ l(5) refl] show ?thesis
    using r cap l(1,4) Some c by (simp add: by_name_def call_outcome_def cap_object_def del: cap_ok.simps)
qed

lemma by_name_ok:
  assumes ok: "rights_ok st space" and pl: "plain st space name" and result: "by_name opn space name st = Some (kr, st')"
  shows "rights_ok st' space"
proof -
  have l: "leaves st space name (cap_object st space name) (call_outcome st space name spec) (Some (kr, st'))"
    using by_name_leaves [OF ok pl] result by simp
  show ?thesis
  proof (rule leaves_ok [OF ok l])
    fix r' assume r': "snd (call_outcome st space name spec) = Some r'" "is_receive r'"
    then obtain bits p request where c: "space_caps st space name = Some (bits, p, request)"
      by (auto simp: call_outcome_def split: option.splits)
    have wt: "well_typed st space" using ok by (simp add: rights_ok_def)
    obtain q where q: "right_of bits = Some q" "space_rights st space name = Some (q, p)" using caps_rights [OF wt c] by blast
    have "is_receive q" using no_new_receiver [of _ _ q r'] r' c q(1) by (simp add: call_outcome_def)
    then show "\<exists>r. space_rights st space name = Some (r, cap_object st space name) \<and> is_receive r" using q(2) c by (simp add: cap_object_def)
  qed
qed

end

interpretation dealloc_op: name_operation spec_dealloc ipc_right_dealloc
proof
  show "leaves st space name obj (spec_dealloc (ip_active (st_port st obj)) (request \<noteq> 0) r) (ipc_right_dealloc space name entry st)"
    if "holds st space name entry bits obj request" "right_of bits = Some r" "cap_ok (bits, obj, request)"
    for st space name entry bits obj request r using right_dealloc_leaves [OF that] .
  show "is_receive r" if "snd (spec_dealloc living requested r) = Some r'" "is_receive r'" for living requested r r'
    using that by (cases r) (auto simp: spec_dealloc_def Let_def split: if_splits)
qed

interpretation send_delta: name_operation "\<lambda>living requested. spec_delta_send living requested (sint delta)"
    "\<lambda>space name entry. delta_send space name entry delta" for delta
proof
  show "leaves st space name obj (spec_delta_send (ip_active (st_port st obj)) (request \<noteq> 0) (sint delta) r) (delta_send space name entry delta st)"
    if "holds st space name entry bits obj request" "right_of bits = Some r" "cap_ok (bits, obj, request)"
      "is_receive r \<Longrightarrow> ip_active (st_port st obj)" for st space name entry bits obj request r
    by (rule delta_send_leaves [OF that(1-3)]) (use that(2,4) in \<open>auto elim!: right_of_cases\<close>)
  show "is_receive r" if "snd (spec_delta_send living requested (sint delta) r) = Some r'" "is_receive r'" for living requested r r'
    using that by (cases r) (auto simp: spec_delta_send_def split: if_splits)
qed

interpretation send_once_delta: name_operation "\<lambda>living requested. spec_delta_send_once living requested (sint delta)"
    "\<lambda>space name entry. delta_send_once space name entry delta" for delta
proof
  show "leaves st space name obj (spec_delta_send_once (ip_active (st_port st obj)) (request \<noteq> 0) (sint delta) r) (delta_send_once space name entry delta st)"
    if "holds st space name entry bits obj request" "right_of bits = Some r" "cap_ok (bits, obj, request)"
    for st space name entry bits obj request r using delta_send_once_leaves [OF that] .
  show "is_receive r" if "snd (spec_delta_send_once living requested (sint delta) r) = Some r'" "is_receive r'" for living requested r r'
    using that by (auto simp: spec_delta_send_once_def split: if_splits)
qed

interpretation dead_name_delta: name_operation "\<lambda>living requested. spec_delta_dead_name living requested (sint delta)"
    "\<lambda>space name entry. delta_dead_name space name entry delta" for delta
proof
  show "leaves st space name obj (spec_delta_dead_name (ip_active (st_port st obj)) (request \<noteq> 0) (sint delta) r) (delta_dead_name space name entry delta st)"
    if "holds st space name entry bits obj request" "right_of bits = Some r" "cap_ok (bits, obj, request)"
      "is_receive r \<Longrightarrow> ip_active (st_port st obj)" for st space name entry bits obj request r
    by (rule delta_dead_name_leaves [OF that(1-3)]) (use that(2,4) in \<open>auto elim!: right_of_cases\<close>)
  show "is_receive r" if "snd (spec_delta_dead_name living requested (sint delta) r) = Some r'" "is_receive r'" for living requested r r'
    using that by (cases r) (auto simp: spec_delta_dead_name_def Let_def split: if_splits)
qed

interpretation port_set_delta: name_operation "\<lambda>living requested. spec_delta_port_set (sint delta)"
    "\<lambda>space name entry. delta_port_set space name entry delta" for delta
proof
  show "leaves st space name obj (spec_delta_port_set (sint delta) r) (delta_port_set space name entry delta st)"
    if "holds st space name entry bits obj request" "right_of bits = Some r" "cap_ok (bits, obj, request)"
    for st space name entry bits obj request r using delta_port_set_leaves [OF that] .
  show "is_receive r" if "snd (spec_delta_port_set (sint delta) r) = Some r'" "is_receive r'" for r r'
    using that by (auto simp: spec_delta_port_set_def split: if_splits)
qed

lemma mod_refs_by_name:
  assumes "space \<noteq> IS_NULL"
  shows "mach_port_mod_refs locked space name MACH_PORT_RIGHT_SEND delta st = by_name (\<lambda>space name entry. delta_send space name entry delta) space name st"
    and "mach_port_mod_refs locked space name MACH_PORT_RIGHT_SEND_ONCE delta st = by_name (\<lambda>space name entry. delta_send_once space name entry delta) space name st"
    and "mach_port_mod_refs locked space name MACH_PORT_RIGHT_DEAD_NAME delta st = by_name (\<lambda>space name entry. delta_dead_name space name entry delta) space name st"
    and "mach_port_mod_refs locked space name MACH_PORT_RIGHT_PORT_SET delta st = by_name (\<lambda>space name entry. delta_port_set space name entry delta) space name st"
  using assms
  by (simp_all add: mach_port_mod_refs_def by_name_def ipc_right_delta_def right_codes MACH_PORT_RIGHT_NUMBER_def split: prod.split sum.split)

lemma deallocate_by_name: "space \<noteq> IS_NULL \<Longrightarrow> mach_port_deallocate space name st = by_name ipc_right_dealloc space name st"
  by (simp add: mach_port_deallocate_def by_name_def)

text \<open>What \<^verbatim>\<open>mach_port_mod_refs\<close> promises for each kind of right but the receive right.\<close>

definition spec_mod_refs :: "nat \<Rightarrow> int \<Rightarrow> bool \<Rightarrow> bool \<Rightarrow> port_right \<Rightarrow> right_outcome" where
  "spec_mod_refs right d living requested r =
     (if right = MACH_PORT_RIGHT_SEND then spec_delta_send living requested d r
      else if right = MACH_PORT_RIGHT_SEND_ONCE then spec_delta_send_once living requested d r
      else if right = MACH_PORT_RIGHT_DEAD_NAME then spec_delta_dead_name living requested d r
      else spec_delta_port_set d r)"

lemma right_kinds:
  assumes "right < MACH_PORT_RIGHT_NUMBER" and "right \<noteq> MACH_PORT_RIGHT_RECEIVE"
  obtains "right = MACH_PORT_RIGHT_SEND" | "right = MACH_PORT_RIGHT_SEND_ONCE" | "right = MACH_PORT_RIGHT_DEAD_NAME" | "right = MACH_PORT_RIGHT_PORT_SET"
  using assms unfolding right_codes MACH_PORT_RIGHT_NUMBER_def by linarith

lemma mod_refs_ok:
  assumes ok: "rights_ok st space" "plain st space name" and right: "right < MACH_PORT_RIGHT_NUMBER" "right \<noteq> MACH_PORT_RIGHT_RECEIVE"
    and r: "mach_port_mod_refs locked space name right delta st = Some (kr, st')"
  shows "rights_ok st' space"
proof -
  have null: "space \<noteq> IS_NULL" using ok(1) by (simp add: rights_ok_def)
  show ?thesis using right
  proof (cases rule: right_kinds)
    case 1 then show ?thesis using r mod_refs_by_name(1) [OF null] send_delta.by_name_ok [OF ok] by simp
  next
    case 2 then show ?thesis using r mod_refs_by_name(2) [OF null] send_once_delta.by_name_ok [OF ok] by simp
  next
    case 3 then show ?thesis using r mod_refs_by_name(3) [OF null] dead_name_delta.by_name_ok [OF ok] by simp
  next
    case 4 then show ?thesis using r mod_refs_by_name(4) [OF null] port_set_delta.by_name_ok [OF ok] by simp
  qed
qed

lemma mod_refs_leaves:
  assumes ok: "rights_ok st space" "plain st space name" and "right < MACH_PORT_RIGHT_NUMBER" and "right \<noteq> MACH_PORT_RIGHT_RECEIVE"
  shows "leaves st space name (cap_object st space name) (call_outcome st space name (spec_mod_refs right (sint delta)))
    (mach_port_mod_refs locked space name right delta st)"
proof -
  have null: "space \<noteq> IS_NULL" using assms(1) by (simp add: rights_ok_def)
  note m = mod_refs_by_name [OF null]
  have s: "spec_mod_refs MACH_PORT_RIGHT_SEND d = (\<lambda>living requested. spec_delta_send living requested d)"
      "spec_mod_refs MACH_PORT_RIGHT_SEND_ONCE d = (\<lambda>living requested. spec_delta_send_once living requested d)"
      "spec_mod_refs MACH_PORT_RIGHT_DEAD_NAME d = (\<lambda>living requested. spec_delta_dead_name living requested d)"
      "spec_mod_refs MACH_PORT_RIGHT_PORT_SET d = (\<lambda>living requested. spec_delta_port_set d)" for d
    by (simp_all add: spec_mod_refs_def right_codes fun_eq_iff)
  from assms(3,4) show ?thesis
  proof (cases rule: right_kinds)
    case 1 then show ?thesis using m(1) s(1) send_delta.by_name_leaves [OF ok] by simp
  next
    case 2 then show ?thesis using m(2) s(2) send_once_delta.by_name_leaves [OF ok] by simp
  next
    case 3 then show ?thesis using m(3) s(3) dead_name_delta.by_name_leaves [OF ok] by simp
  next
    case 4 then show ?thesis using m(4) s(4) port_set_delta.by_name_leaves [OF ok] by simp
  qed
qed

section \<open>A space with a dead name\<close>

definition dead_kernel :: ipc_kernel where
  "dead_kernel = right_kernel 0x100003 IO_NULL 0"

lemma dead_kernel_caps: "space_caps dead_kernel 0x1000 = [1 \<mapsto> (0x100003, IO_NULL, 0)]"
  and dead_kernel_ok: "rights_ok dead_kernel 0x1000"
proof -
  have h: "holds dead_kernel 0x1000 1 (Table 1) 0x100003 IO_NULL 0" and caps: "space_caps dead_kernel 0x1000 = [1 \<mapsto> (0x100003, IO_NULL, 0)]"
    unfolding dead_kernel_def by (rule right_kernel_holds; simp add: IE_BITS_TYPE_def)+
  have "life dead_kernel 0x1000 = life first_kernel 0x1000" unfolding dead_kernel_def right_kernel_def by (simp only: upd_entry_life)
  then have "at_rest dead_kernel 0x1000" using h first_kernel_fresh by (auto simp: at_rest_def holds_def life_def fresh_entry_def)
  moreover have r: "right_of 0x100003 = Some (Dead_name_right 3)" by (simp add: right_of_def IE_BITS_TYPE_def IE_BITS_UREFS_def)
  then have "cap_ok (0x100003, IO_NULL, 0)" by simp
  then have "well_typed dead_kernel 0x1000" using caps by (simp add: well_typed_def del: cap_ok.simps old_ok.simps)
  moreover have "space_rights dead_kernel 0x1000 = [1 \<mapsto> (Dead_name_right 3, IO_NULL)]"
    using caps r by (auto simp: space_rights_def fun_eq_iff)
  ultimately show "rights_ok dead_kernel 0x1000" by (simp add: rights_ok_def)
  show "space_caps dead_kernel 0x1000 = [1 \<mapsto> (0x100003, IO_NULL, 0)]" by (rule caps)
qed

lemma dead_kernel_right: "right_of 0x100003 = Some (Dead_name_right 3)"
  by (simp add: right_of_def IE_BITS_TYPE_def IE_BITS_UREFS_def)

lemma dead_kernel_plain: "plain dead_kernel 0x1000 n"
  using dead_kernel_right by (simp add: plain_def dead_kernel_caps)

lemma dead_name_specs:
  "spec_dealloc living requested (Dead_name_right 3) = (KERN_SUCCESS, Some (Dead_name_right 2))"
  "spec_mod_refs MACH_PORT_RIGHT_DEAD_NAME (- 4) living requested (Dead_name_right 3) = (KERN_INVALID_VALUE, Some (Dead_name_right 3))"
  by (simp_all add: spec_dealloc_def spec_mod_refs_def spec_delta_dead_name_def right_codes)

text \<open>
  C2. \<^verbatim>\<open>mach_port_deallocate\<close> implements its specification on the rights of a space. A name that
  denotes nothing gives \<^verbatim>\<open>KERN_INVALID_NAME\<close>; a receive right or a port set gives
  \<^verbatim>\<open>KERN_INVALID_RIGHT\<close>; nothing changes then. For every other right one user reference
  goes: the name of the last one is freed, except that the send half of a send-and-receive right leaves
  the receive right behind. A right whose port has died is treated as the dead name it has become,
  with one more reference if a notification was outstanding. No other name changes, the space stays
  settled and well formed, and no port dies.
\<close>

theorem mach_port_deallocate_refines:
  assumes "rights_ok st space" and "plain st space name"
  shows "leaves st space name (cap_object st space name) (call_outcome st space name spec_dealloc) (mach_port_deallocate space name st)"
  using dealloc_op.by_name_leaves [OF assms] deallocate_by_name assms(1) by (simp add: rights_ok_def)

theorem mach_port_deallocate_refines_witness:
  "leaves dead_kernel 0x1000 1 IO_NULL (KERN_SUCCESS, Some (Dead_name_right 2)) (mach_port_deallocate 0x1000 1 dead_kernel)"
  using mach_port_deallocate_refines [OF dead_kernel_ok dead_kernel_plain, of 1]
  by (simp add: cap_object_def call_outcome_def dead_kernel_caps dead_kernel_right dead_name_specs)

text \<open>
  C1. \<^verbatim>\<open>mach_port_mod_refs\<close> implements its specification for send rights, send-once rights, port
  sets and dead names and every signed 32-bit change. A change is refused with
  \<^verbatim>\<open>KERN_INVALID_NAME\<close> or \<^verbatim>\<open>KERN_INVALID_RIGHT\<close> when the name denotes no such right, with
  \<^verbatim>\<open>KERN_INVALID_VALUE\<close> when the count would become negative, with \<^verbatim>\<open>KERN_UREFS_OVERFLOW\<close> when it
  would exceed its bound, which for a send right is one less than for a dead name; a refused call leaves
  the rights of the space as they are, save that a right whose port has died has become a dead name.
  Otherwise the count becomes the sum, and at zero the name is freed or becomes a receive right. No
  other name changes, and the space stays settled and well formed.
\<close>

theorem mach_port_mod_refs_refines:
  assumes "rights_ok st space" and "plain st space name" and "right < MACH_PORT_RIGHT_NUMBER" and "right \<noteq> MACH_PORT_RIGHT_RECEIVE"
  shows "leaves st space name (cap_object st space name) (call_outcome st space name (spec_mod_refs right (sint delta)))
    (mach_port_mod_refs locked space name right delta st)"
  using assms by (rule mod_refs_leaves)

theorem mach_port_mod_refs_refines_witness:
  "leaves dead_kernel 0x1000 1 IO_NULL (KERN_INVALID_VALUE, Some (Dead_name_right 3))
     (mach_port_mod_refs False 0x1000 1 MACH_PORT_RIGHT_DEAD_NAME (- 4) dead_kernel)"
  using mach_port_mod_refs_refines [OF dead_kernel_ok dead_kernel_plain, of MACH_PORT_RIGHT_DEAD_NAME 1 "- 4" False]
  by (simp add: cap_object_def call_outcome_def dead_kernel_caps dead_kernel_right dead_name_specs [unfolded right_codes]
      right_codes MACH_PORT_RIGHT_NUMBER_def)

end
