(* ===== verification/PortAlloc.thy ===== *)
theory PortAlloc
  imports PortCalls
begin

text \<open>
  Allocating rights: \<^verbatim>\<open>mach_port_allocate\<close> gives a name that denoted nothing a right of the kind
  asked for, and a new port is as its documentation says.
\<close>

unbundle bit_operations_syntax

lemma rest_cong:
  assumes "space_part st' = space_part st"
  shows "at_rest st' space \<longleftrightarrow> at_rest st space"
proof -
  have "st_space st' = st_space st" using assms by (simp add: space_part_def)
  then show ?thesis using space_cong(4) [OF port_only [OF assms]] by (simp add: at_rest_def)
qed

lemma caps_cong: "space_part st' = space_part st \<Longrightarrow> space_caps st' space = space_caps st space"
  by (rule space_cong(5) [OF port_only])

text \<open>A new entry, filled in with a right that is not a pure send right.\<close>

lemma fill_new:
  assumes fresh: "fresh_entry st space name entry" and f: "\<And>x. ie_index (f x) = ie_index x"
    and e: "\<And>x. ie_bits x = 0 \<Longrightarrow> ie_object x = IO_NULL \<Longrightarrow> ie_request x = 0 \<Longrightarrow> denoted (f x) = (bits, obj, 0)"
    and bits: "cap_ok (bits, obj, 0)" "IE_BITS_TYPE bits \<noteq> MACH_PORT_TYPE_SEND" "bits AND IE_BITS_COLLISION = 0"
  shows "at_rest (upd_entry space entry f st) space"
    and "space_caps (upd_entry space entry f st) space = (space_caps st space)(name \<mapsto> (bits, obj, 0))"
    and "MACH_PORT_VALID name" and "space_caps st space name = None"
proof -
  let ?e = "f (get_entry st space entry)"
  have fr: "ie_bits (get_entry st space entry) = 0" "ie_object (get_entry st space entry) = IO_NULL" "ie_request (get_entry st space entry) = 0"
      "is_active (st_space st space)" "\<not> is_growing (st_space st space)" and fr': "MACH_PORT_VALID name" "space_caps st space name = None"
    using fresh by (auto simp: fresh_entry_def)
  have d: "denoted ?e = (bits, obj, 0)" using e [OF fr(1-3)] .
  then have b: "ie_bits ?e = bits" by (simp add: denoted_def)
  obtain r where "right_of bits = Some r" using bits(1) by (auto split: option.splits)
  then have ty: "IE_BITS_TYPE (ie_bits ?e) \<noteq> 0" "IE_BITS_TYPE (ie_bits ?e) \<noteq> MACH_PORT_TYPE_SEND" "ie_bits ?e AND IE_BITS_COLLISION = 0"
    unfolding b using right_of_bits bits(2,3) by blast+
  note fill = fill_fresh [where f = f, OF fresh f refl ty]
  have "life (upd_entry space entry f st) space = life st space" by (simp only: upd_entry_life)
  then show "at_rest (upd_entry space entry f st) space" using fill(1) fr(4,5) by (simp only: at_rest_def life_def prod.inject simp_thms)
  show "space_caps (upd_entry space entry f st) space = (space_caps st space)(name \<mapsto> (bits, obj, 0))" using fill(2) d by simp
  show "MACH_PORT_VALID name" "space_caps st space name = None" by (rule fr')+
qed

text \<open>A space in which only one name has changed, while ports may have come to life.\<close>

lemma rights_ok_new:
  assumes ok: "rights_ok st space" and "at_rest st' space" and caps: "space_caps st' space = (space_caps st space)(name \<mapsto> (bits, obj, 0))"
    and c: "cap_ok (bits, obj, 0)" and r: "right_of bits = Some r"
    and act: "\<And>p. ip_active (st_port st p) \<Longrightarrow> ip_active (st_port st' p)" and new: "is_receive r \<Longrightarrow> ip_active (st_port st' obj)"
  shows "rights_ok st' space" and "space_rights st' space = (space_rights st space)(name \<mapsto> (r, obj))"
proof -
  show rights: "space_rights st' space = (space_rights st space)(name \<mapsto> (r, obj))"
    using caps r by (auto simp: space_rights_def fun_eq_iff)
  have "well_typed st' space" using well_typed_update [OF caps] c ok by (simp add: rights_ok_def del: cap_ok.simps)
  moreover have "ip_active (st_port st' q)" if "space_rights st' space n = Some (s, q)" "is_receive s" for n s q
    using that rights act new ok by (auto simp: rights_ok_def split: if_splits)
  ultimately show "rights_ok st' space" using ok assms(2) by (auto simp: rights_ok_def)
qed

lemma rights_ok_same:
  assumes ok: "rights_ok st space" and "at_rest st' space" and caps: "space_caps st' space = space_caps st space"
    and act: "\<And>p. ip_active (st_port st p) \<Longrightarrow> ip_active (st_port st' p)"
  shows "rights_ok st' space" and "space_rights st' space = space_rights st space"
proof -
  show rights: "space_rights st' space = space_rights st space" using caps by (simp add: space_rights_def fun_eq_iff)
  have "well_typed st' space" using caps ok by (simp add: rights_ok_def well_typed_def del: cap_ok.simps old_ok.simps)
  then show "rights_ok st' space" using ok assms(2) act rights by (auto simp: rights_ok_def)
qed

section \<open>The three kinds of right\<close>

definition enough :: "kernel_window list \<Rightarrow> ipc_space \<Rightarrow> bool" where
  "enough ws s \<longleftrightarrow> (\<forall>w \<in> set ws. quiet w) \<and> ipc_table_entries_size \<le> length ws + is_table_next s"

lemma alloc_dead_ok:
  assumes ok: "rights_ok st space" and ws: "enough ws (st_space st space)"
  shows "\<exists>r st' ws'. ipc_object_alloc_dead ws space st = Some (r, st', ws') \<and> rights_ok st' space \<and>
    (case r of Inl kr \<Rightarrow> kr = KERN_NO_SPACE \<and> space_rights st' space = space_rights st space
     | Inr name \<Rightarrow> MACH_PORT_VALID name \<and> space_rights st space name = None \<and>
         space_rights st' space = (space_rights st space)(name \<mapsto> (Dead_name_right 1, IO_NULL)))"
proof -
  have rest: "at_rest st space" using ok by (simp add: rights_ok_def)
  obtain r st1 ws1 where a: "ipc_entry_alloc ws st space = Some (r, st1, ws1)" "space_caps st1 space = space_caps st space"
      "case r of Inr (name, entry) \<Rightarrow> fresh_entry st1 space name entry
       | Inl kr \<Rightarrow> kr = KERN_NO_SPACE \<and> at_rest st1 space \<and> largest_table (st_space st1 space)"
    using alloc_quiet [OF rest] ws unfolding enough_def by metis
  have p1: "st_port st1 = st_port st" using more_kernel(1) [OF alloc_more [OF a(1)]] ws by (auto simp: enough_def)
  show ?thesis
  proof (cases r)
    case (Inl kr)
    then have "at_rest st1 space" "kr = KERN_NO_SPACE" using a(3) by simp_all
    then show ?thesis using rights_ok_same [OF ok, of st1] a(1,2) p1 Inl by (simp add: ipc_object_alloc_dead_def)
  next
    case (Inr x)
    then obtain name entry where r: "r = Inr (name, entry)" by (cases x) auto
    let ?f = "\<lambda>e. e\<lparr>ie_bits := ie_bits e OR (MACH_PORT_TYPE_DEAD_NAME OR 1)\<rparr>"
    let ?st = "upd_entry space entry ?f st1"
    have fr: "fresh_entry st1 space name entry" using a(3) r by simp
    have ro: "right_of 0x100001 = Some (Dead_name_right 1)" by (simp add: right_of_def IE_BITS_TYPE_def IE_BITS_UREFS_def)
    have c: "cap_ok (0x100001, IO_NULL, 0)" using ro by simp
    have b: "IE_BITS_TYPE 0x100001 \<noteq> MACH_PORT_TYPE_SEND" "0x100001 AND IE_BITS_COLLISION = 0" by (simp_all add: IE_BITS_TYPE_def)
    note fill = fill_new [where f = ?f, OF fr _ _ c b]
    have f: "at_rest ?st space" "space_caps ?st space = (space_caps st space)(name \<mapsto> (0x100001, IO_NULL, 0))"
        "MACH_PORT_VALID name" "space_caps st space name = None"
      using fill a(2) by (simp_all add: denoted_def)
    have "rights_ok ?st space" "space_rights ?st space = (space_rights st space)(name \<mapsto> (Dead_name_right 1, IO_NULL))"
      using rights_ok_new [OF ok f(1,2) c ro] p1 by simp_all
    then show ?thesis using a(1) r f(3,4) by (simp add: ipc_object_alloc_dead_def space_rights_def)
  qed
qed

lemma object_part [simp]:
  "space_part (bzero_object otype object st) = space_part st" "space_part (init_object otype object st) = space_part st"
  "space_part (ipc_port_init port space name st) = space_part st" "space_part (ipc_target_init_pset pset name st) = space_part st"
  by (cases otype; simp add: space_part_def ipc_port_init_def ipc_target_init_port_def ipc_target_init_pset_def ipc_mqueue_init_def Let_def)+

lemma object_alloc_ok:
  assumes rest: "at_rest st space" and ws: "enough ws (st_space st space)" and obj: "object \<noteq> IO_NULL"
    and type: "cap_ok (type, object, 0)" "IE_BITS_TYPE type \<noteq> MACH_PORT_TYPE_SEND" "type AND IE_BITS_COLLISION = 0"
  obtains r st' ws' where "ipc_object_alloc ws object space otype type 0 st = Some (r, st', ws')" and "at_rest st' space"
    and "case r of Inl kr \<Rightarrow> kr = KERN_NO_SPACE \<and> space_caps st' space = space_caps st space \<and> st_port st' = st_port (bzero_object otype object st)
      | Inr name \<Rightarrow> MACH_PORT_VALID name \<and> space_caps st space name = None \<and>
          space_caps st' space = (space_caps st space)(name \<mapsto> (type, object, 0)) \<and>
          st_port st' = st_port (init_object otype object (bzero_object otype object st))"
proof -
  let ?st = "bzero_object otype object st"
  have p: "space_part ?st = space_part st" by simp
  then have sp: "st_space ?st = st_space st" by (simp add: space_part_def)
  have rest': "at_rest ?st space" using rest rest_cong [OF p] by simp
  obtain r st1 ws1 where a: "ipc_entry_alloc ws ?st space = Some (r, st1, ws1)" "space_caps st1 space = space_caps ?st space"
      "case r of Inr (name, entry) \<Rightarrow> fresh_entry st1 space name entry
       | Inl kr \<Rightarrow> kr = KERN_NO_SPACE \<and> at_rest st1 space \<and> largest_table (st_space st1 space)"
    using alloc_quiet [OF rest'] ws sp unfolding enough_def by metis
  have p1: "st_port st1 = st_port ?st" using more_kernel(1) [OF alloc_more [OF a(1)]] ws by (auto simp: enough_def)
  have caps: "space_caps st1 space = space_caps st space" using a(2) caps_cong [OF p] by simp
  show thesis
  proof (cases r)
    case (Inl kr)
    then show thesis using that [of "Inl kr" st1 ws1] a(1,3) caps p1 obj by (simp add: ipc_object_alloc_def)
  next
    case (Inr x)
    then obtain name entry where r: "r = Inr (name, entry)" by (cases x) auto
    let ?f = "\<lambda>e. e\<lparr>ie_bits := ie_bits e OR (type OR 0), ie_object := object\<rparr>"
    let ?st2 = "upd_entry space entry ?f st1"
    have fr: "fresh_entry st1 space name entry" using a(3) r by simp
    note fill = fill_new [where f = ?f, OF fr _ _ type]
    have f: "at_rest ?st2 space" "space_caps ?st2 space = (space_caps st space)(name \<mapsto> (type, object, 0))"
        "MACH_PORT_VALID name" "space_caps st space name = None"
      using fill caps by (simp_all add: denoted_def)
    have p2: "space_part (init_object otype object ?st2) = space_part ?st2" by simp
    have "st_port (init_object otype object ?st2) = st_port (init_object otype object ?st)" using p1 by (cases otype) simp_all
    then show thesis
      using that [of "Inr name" "init_object otype object ?st2" ws1] a(1) r f rest_cong [OF p2] caps_cong [OF p2] obj
      by (simp add: ipc_object_alloc_def)
  qed
qed

text \<open>A port as \<^verbatim>\<open>mach_port_allocate\<close> promises it.\<close>

definition new_port :: "ipc_port \<Rightarrow> ipc_space_t \<Rightarrow> mach_port_t \<Rightarrow> bool" where
  "new_port p space name \<longleftrightarrow> ip_active p \<and> ip_receiver p = space \<and> ip_receiver_name p = name \<and> ip_srights p = 0 \<and> ip_sorights p = 0 \<and>
     ip_msgcount p = 0 \<and> imq_messages (ip_messages p) = [] \<and> ip_qlimit p = MACH_PORT_QLIMIT_DEFAULT \<and> ip_mscount p = 0 \<and>
     ip_pset p = IPS_NULL \<and> ip_nsrequest p = IP_NULL \<and> ip_pdrequest p = IP_NULL"

lemma port_init_port:
  "st_port (ipc_port_init port space name st) p = (if p = port then st_port (ipc_port_init port space name st) port else st_port st p)"
  "ip_active (st_port st port) \<Longrightarrow> new_port (st_port (ipc_port_init port space name st) port) space name"
  by (auto simp: ipc_port_init_def ipc_target_init_port_def ipc_mqueue_init_def new_port_def Let_def)

lemma port_alloc_ok:
  assumes ok: "rights_ok st space" and ws: "enough ws (st_space st space)" and obj: "port \<noteq> IP_NULL" "\<not> ip_active (st_port st port)"
  shows "\<exists>r st' ws'. ipc_port_alloc ws port space st = Some (r, st', ws') \<and> rights_ok st' space \<and>
    (case r of Inl kr \<Rightarrow> kr = KERN_NO_SPACE \<and> space_rights st' space = space_rights st space
     | Inr name \<Rightarrow> MACH_PORT_VALID name \<and> space_rights st space name = None \<and>
         space_rights st' space = (space_rights st space)(name \<mapsto> (Receive_right, port)) \<and> new_port (st_port st' port) space name)"
proof -
  have rest: "at_rest st space" using ok by (simp add: rights_ok_def)
  have ro: "right_of MACH_PORT_TYPE_RECEIVE = Some Receive_right" by (simp add: right_of_def IE_BITS_TYPE_def IE_BITS_UREFS_def)
  have c: "cap_ok (MACH_PORT_TYPE_RECEIVE, port, 0)" using ro obj by simp
  have ty: "IE_BITS_TYPE MACH_PORT_TYPE_RECEIVE \<noteq> MACH_PORT_TYPE_SEND" "MACH_PORT_TYPE_RECEIVE AND IE_BITS_COLLISION = 0" by (simp_all add: IE_BITS_TYPE_def)
  obtain r st1 ws1 where a: "ipc_object_alloc ws port space IOT_PORT MACH_PORT_TYPE_RECEIVE 0 st = Some (r, st1, ws1)" "at_rest st1 space"
      "case r of Inl kr \<Rightarrow> kr = KERN_NO_SPACE \<and> space_caps st1 space = space_caps st space \<and> st_port st1 = st_port (bzero_object IOT_PORT port st)
      | Inr name \<Rightarrow> MACH_PORT_VALID name \<and> space_caps st space name = None \<and>
          space_caps st1 space = (space_caps st space)(name \<mapsto> (MACH_PORT_TYPE_RECEIVE, port, 0)) \<and>
          st_port st1 = st_port (init_object IOT_PORT port (bzero_object IOT_PORT port st))"
    by (rule object_alloc_ok [OF rest ws obj(1) c ty])
  show ?thesis
  proof (cases r)
    case (Inl kr)
    have "ip_active (st_port st1 p)" if "ip_active (st_port st p)" for p using that a(3) Inl obj(2) by (auto split: if_splits)
    then show ?thesis using rights_ok_same [OF ok a(2)] a(1,3) Inl by (simp add: ipc_port_alloc_def)
  next
    case (Inr name)
    let ?st = "ipc_port_init port space name st1"
    have p: "space_part ?st = space_part st1" by simp
    have pa: "ip_active (st_port st1 port)" using a(3) Inr by simp
    note np = port_init_port(1) [of port space name st1] and new = port_init_port(2) [OF pa, of space name]
    have act: "ip_active (st_port ?st p)" if "ip_active (st_port st p)" for p
      using that a(3) Inr new np [of p] by (auto simp: new_port_def split: if_splits)
    have rest': "at_rest ?st space" using a(2) rest_cong [OF p] by simp
    have caps: "space_caps ?st space = (space_caps st space)(name \<mapsto> (MACH_PORT_TYPE_RECEIVE, port, 0))"
      using a(3) Inr caps_cong [OF p] by simp
    have "rights_ok ?st space" "space_rights ?st space = (space_rights st space)(name \<mapsto> (Receive_right, port))"
      using rights_ok_new [OF ok rest' caps c ro act] new by (simp_all add: new_port_def)
    then show ?thesis using a(1,3) Inr new by (simp add: ipc_port_alloc_def space_rights_def)
  qed
qed

lemma pset_alloc_ok:
  assumes ok: "rights_ok st space" and ws: "enough ws (st_space st space)" and obj: "pset \<noteq> IPS_NULL"
  shows "\<exists>r st' ws'. ipc_pset_alloc ws pset space st = Some (r, st', ws') \<and> rights_ok st' space \<and>
    (case r of Inl kr \<Rightarrow> kr = KERN_NO_SPACE \<and> space_rights st' space = space_rights st space
     | Inr name \<Rightarrow> MACH_PORT_VALID name \<and> space_rights st space name = None \<and>
         space_rights st' space = (space_rights st space)(name \<mapsto> (Port_set_right, pset)))"
proof -
  have rest: "at_rest st space" using ok by (simp add: rights_ok_def)
  have ro: "right_of MACH_PORT_TYPE_PORT_SET = Some Port_set_right" by (simp add: right_of_def IE_BITS_TYPE_def IE_BITS_UREFS_def)
  have c: "cap_ok (MACH_PORT_TYPE_PORT_SET, pset, 0)" using ro obj by simp
  have ty: "IE_BITS_TYPE MACH_PORT_TYPE_PORT_SET \<noteq> MACH_PORT_TYPE_SEND" "MACH_PORT_TYPE_PORT_SET AND IE_BITS_COLLISION = 0" by (simp_all add: IE_BITS_TYPE_def)
  obtain r st1 ws1 where a: "ipc_object_alloc ws pset space IOT_PORT_SET MACH_PORT_TYPE_PORT_SET 0 st = Some (r, st1, ws1)" "at_rest st1 space"
      "case r of Inl kr \<Rightarrow> kr = KERN_NO_SPACE \<and> space_caps st1 space = space_caps st space \<and> st_port st1 = st_port (bzero_object IOT_PORT_SET pset st)
      | Inr name \<Rightarrow> MACH_PORT_VALID name \<and> space_caps st space name = None \<and>
          space_caps st1 space = (space_caps st space)(name \<mapsto> (MACH_PORT_TYPE_PORT_SET, pset, 0)) \<and>
          st_port st1 = st_port (init_object IOT_PORT_SET pset (bzero_object IOT_PORT_SET pset st))"
    by (rule object_alloc_ok [OF rest ws obj c ty])
  have p1: "st_port st1 = st_port st" using a(3) by (cases r) simp_all
  show ?thesis
  proof (cases r)
    case (Inl kr)
    then show ?thesis using rights_ok_same [OF ok a(2)] a(1,3) p1 by (simp add: ipc_pset_alloc_def)
  next
    case (Inr name)
    let ?st = "ipc_target_init_pset pset name st1"
    have p: "space_part ?st = space_part st1" by simp
    have rest': "at_rest ?st space" using a(2) rest_cong [OF p] by simp
    have caps: "space_caps ?st space = (space_caps st space)(name \<mapsto> (MACH_PORT_TYPE_PORT_SET, pset, 0))"
      using a(3) Inr caps_cong [OF p] by simp
    have "st_port ?st = st_port st" using p1 by (simp add: ipc_target_init_pset_def ipc_mqueue_init_def)
    then have "rights_ok ?st space" "space_rights ?st space = (space_rights st space)(name \<mapsto> (Port_set_right, pset))"
      using rights_ok_new [OF ok rest' caps c ro] by simp_all
    then show ?thesis using a(1,3) Inr by (simp add: ipc_pset_alloc_def space_rights_def)
  qed
qed

end
