(* ===== verification/PortInfo.thy ===== *)
theory PortInfo
  imports PortAlloc
begin

text \<open>
  What the calls that ask about rights answer: \<^verbatim>\<open>mach_port_get_refs\<close>, \<^verbatim>\<open>mach_port_type\<close> and
  \<^verbatim>\<open>mach_port_names\<close>.
\<close>

unbundle bit_operations_syntax

section \<open>Types and counts of rights\<close>

fun type_of :: "port_right \<Rightarrow> mach_port_type_t" where
  "type_of (Send_right u) = MACH_PORT_TYPE_SEND"
| "type_of Receive_right = MACH_PORT_TYPE_RECEIVE"
| "type_of (Send_receive_right u) = MACH_PORT_TYPE_SEND_RECEIVE"
| "type_of Send_once_right = MACH_PORT_TYPE_SEND_ONCE"
| "type_of Port_set_right = MACH_PORT_TYPE_PORT_SET"
| "type_of (Dead_name_right u) = MACH_PORT_TYPE_DEAD_NAME"

text \<open>The user references that a right has of the kind asked for.\<close>

fun refs_of :: "nat \<Rightarrow> port_right \<Rightarrow> nat" where
  "refs_of right (Send_right u) = (if right = MACH_PORT_RIGHT_SEND then u else 0)"
| "refs_of right Receive_right = (if right = MACH_PORT_RIGHT_RECEIVE then 1 else 0)"
| "refs_of right (Send_receive_right u) =
     (if right = MACH_PORT_RIGHT_SEND then u else if right = MACH_PORT_RIGHT_RECEIVE then 1 else 0)"
| "refs_of right Send_once_right = (if right = MACH_PORT_RIGHT_SEND_ONCE then 1 else 0)"
| "refs_of right Port_set_right = (if right = MACH_PORT_RIGHT_PORT_SET then 1 else 0)"
| "refs_of right (Dead_name_right u) = (if right = MACH_PORT_RIGHT_DEAD_NAME then u else 0)"

text \<open>The right a name denotes now, and whether a dead-name notification is still requested for it.\<close>

definition current :: "bool \<Rightarrow> bool \<Rightarrow> port_right \<Rightarrow> port_right \<times> bool" where
  "current living requested r = (let r' = (if living then r else die requested r) in (r', requested \<and> r' = r))"

definition type_word :: "port_right \<times> bool \<Rightarrow> mach_port_type_t" where
  "type_word = (\<lambda>(r, requested). if requested then type_of r OR MACH_PORT_TYPE_DNREQUEST else type_of r)"

lemma type_of_bits: "right_of bits = Some r \<Longrightarrow> IE_BITS_TYPE bits = type_of r"
  by (erule right_of_cases) auto

lemma info_result:
  assumes h: "holds st space name entry bits obj request" and r: "right_of bits = Some r" and c: "cap_ok (bits, obj, request)"
    and alive: "is_receive r \<Longrightarrow> ip_active (st_port st obj)"
  defines "cur \<equiv> current (ip_active (st_port st obj)) (request \<noteq> 0) r"
  obtains st' urefs where "ipc_right_info space name entry st = Some (Inr (type_word cur, urefs), st')"
    and "leaves st space name obj (KERN_SUCCESS, Some (fst cur)) (Some (KERN_SUCCESS, st'))"
    and "\<exists>b. right_of b = Some (fst cur) \<and> urefs = IE_BITS_UREFS b"
proof -
  note d = holdsD [OF h]
  note t = right_tests [OF r]
  note D = ipc_right_info_def [of space name entry st, unfolded Let_def d(3,4) t]
  show thesis
  proof (cases "(send_urefs r \<noteq> None \<or> r = Send_once_right) \<and> \<not> ip_active (st_port st obj)")
    case True
    then obtain u where ru: "r = Send_once_right \<or> r = Send_right u" using alive by (cases r) auto
    obtain s1 v where s1: "ipc_right_check space obj name entry st = Some (True, s1)"
        "holds s1 space name entry (dead_word bits request) IO_NULL 0"
        "space_caps s1 space = (space_caps st space)(name \<mapsto> (dead_word bits request, IO_NULL, 0))"
        "right_of (dead_word bits request) = Some (Dead_name_right v)" "die (request \<noteq> 0) r = Dead_name_right v"
        "cap_ok (dead_word bits request, IO_NULL, 0)" "alive s1 = alive st"
      using check_dead [OF h r ru] True by blast
    note d1 = holdsD [OF s1(2)]
    have cur: "cur = (Dead_name_right v, False)" using True s1(5) ru by (auto simp: cur_def current_def Let_def)
    have "ipc_right_info space name entry st = Some (Inr (type_word cur, IE_BITS_UREFS (dead_word bits request)), s1)"
      using True s1(1) d1(3,5,6,7) d(6) type_of_bits [OF s1(4)] cur by (auto simp: D type_word_def)
    moreover have "leaves st space name obj (KERN_SUCCESS, Some (fst cur)) (Some (KERN_SUCCESS, s1))"
      using leaves_dead [OF h r ru, of _ KERN_SUCCESS] True s1(1,5) cur by simp
    ultimately show thesis using that s1(4) cur by auto
  next
    case False
    have cur: "cur = (r, request \<noteq> 0)"
    proof (cases "ip_active (st_port st obj)")
      case dead: False
      then have "die (request \<noteq> 0) r = r" using False by (cases r) auto
      then show ?thesis using dead by (simp add: cur_def current_def)
    qed (simp add: cur_def current_def)
    have "ipc_right_info space name entry st = Some (Inr (type_word cur, IE_BITS_UREFS bits), st)"
      using False d(3,5,6,7) type_of_bits [OF r] cur check_alive [of st obj] by (auto simp: D type_word_def)
    then show thesis using that leaves_same [OF h r c refl, of KERN_SUCCESS] r cur by auto
  qed
qed

lemma refs_word:
  assumes "right_of b = Some r" and "right < MACH_PORT_RIGHT_NUMBER"
  shows "type_word (r, requested) AND MACH_PORT_TYPE right \<noteq> 0 \<longleftrightarrow> refs_of right r \<noteq> 0"
    and "right = MACH_PORT_RIGHT_DEAD_NAME \<or> right = MACH_PORT_RIGHT_SEND \<Longrightarrow> refs_of right r \<noteq> 0 \<Longrightarrow>
      IE_BITS_UREFS b = of_nat (refs_of right r)"
    and "right \<noteq> MACH_PORT_RIGHT_DEAD_NAME \<Longrightarrow> right \<noteq> MACH_PORT_RIGHT_SEND \<Longrightarrow> refs_of right r \<noteq> 0 \<Longrightarrow> refs_of right r = 1"
proof -
  have k: "right = 0 \<or> right = 1 \<or> right = 2 \<or> right = 3 \<or> right = 4" using assms(2) unfolding MACH_PORT_RIGHT_NUMBER_def by linarith
  have ty: "MACH_PORT_TYPE 0 = MACH_PORT_TYPE_SEND" "MACH_PORT_TYPE 1 = MACH_PORT_TYPE_RECEIVE" "MACH_PORT_TYPE 2 = MACH_PORT_TYPE_SEND_ONCE"
      "MACH_PORT_TYPE 3 = MACH_PORT_TYPE_PORT_SET" "MACH_PORT_TYPE 4 = MACH_PORT_TYPE_DEAD_NAME"
    using mach_port_type_values unfolding right_codes by simp_all
  have un: "IE_BITS_UREFS b = of_nat n" if "unat (IE_BITS_UREFS b) = n" for n using that by auto
  from assms(1) show "type_word (r, requested) AND MACH_PORT_TYPE right \<noteq> 0 \<longleftrightarrow> refs_of right r \<noteq> 0"
  proof (cases rule: right_of_cases)
  qed (use k ty in \<open>auto simp: type_word_def right_codes bit.conj_disj_distrib2\<close>)
  show "IE_BITS_UREFS b = of_nat (refs_of right r)"
    if "right = MACH_PORT_RIGHT_DEAD_NAME \<or> right = MACH_PORT_RIGHT_SEND" "refs_of right r \<noteq> 0"
    using assms(1) by (cases rule: right_of_cases) (use that un in \<open>auto simp: right_codes\<close>)
  show "right \<noteq> MACH_PORT_RIGHT_DEAD_NAME \<Longrightarrow> right \<noteq> MACH_PORT_RIGHT_SEND \<Longrightarrow> refs_of right r \<noteq> 0 \<Longrightarrow> refs_of right r = 1"
    by (cases r) (auto split: if_splits)
qed

section \<open>The answers\<close>

definition current_at :: "ipc_kernel \<Rightarrow> ipc_space_t \<Rightarrow> mach_port_t \<Rightarrow> (port_right \<times> bool) option" where
  "current_at st space name =
     (case space_caps st space name of
        None \<Rightarrow> None
      | Some (bits, obj, request) \<Rightarrow> Some (current (ip_active (st_port st obj)) (request \<noteq> 0) (the (right_of bits))))"

lemma current_receive: "is_receive (fst (current living requested r)) \<Longrightarrow> is_receive r"
  by (cases r) (auto simp: current_def Let_def split: if_splits)

text \<open>The state after a question: a right that was found dead is now a dead name, all else is as it was.\<close>

definition asked :: "ipc_kernel \<Rightarrow> ipc_space_t \<Rightarrow> mach_port_t \<Rightarrow> ipc_kernel \<Rightarrow> bool" where
  "asked st space name st' \<longleftrightarrow> rights_ok st' space \<and> (\<forall>n. plain st space n \<longrightarrow> plain st' space n) \<and> alive st' = alive st \<and>
     space_rights st' space = (space_rights st space)(name :=
       map_option (\<lambda>(r, requested). (r, right_object r (cap_object st space name))) (current_at st space name))"

lemma info_answer:
  assumes ok: "rights_ok st space" and pl: "plain st space name" and cur: "current_at st space name = Some cur"
  obtains entry st1 st' urefs b where "ipc_right_lookup_write space name st = (Inr entry, st1)"
    and "ipc_right_info space name entry st1 = Some (Inr (type_word cur, urefs), st')"
    and "right_of b = Some (fst cur)" and "urefs = IE_BITS_UREFS b" and "asked st space name st'"
proof -
  obtain bits obj request where c: "space_caps st space name = Some (bits, obj, request)" using cur by (auto simp: current_at_def split: option.splits)
  have wt: "well_typed st space" using ok by (simp add: rights_ok_def)
  obtain r where r: "right_of bits = Some r" "space_rights st space name = Some (r, obj)" using caps_rights [OF wt c] by blast
  have cap: "cap_ok (bits, obj, request)" by (rule plainD [OF pl c])
  obtain entry st1 where l: "ipc_right_lookup_write space name st = (Inr entry, st1)" "holds st1 space name entry bits obj request"
      "space_caps st1 space = space_caps st space" "st_port st1 = st_port st" "alive st1 = alive st"
    using lookup_holds [OF ok pl c] by blast
  have act: "is_receive r \<Longrightarrow> ip_active (st_port st1 obj)" using ok r(2) l(4) by (auto simp: rights_ok_def)
  obtain st' urefs where i: "ipc_right_info space name entry st1 = Some (Inr (type_word (current (ip_active (st_port st1 obj)) (request \<noteq> 0) r), urefs), st')"
      "leaves st1 space name obj (KERN_SUCCESS, Some (fst (current (ip_active (st_port st1 obj)) (request \<noteq> 0) r))) (Some (KERN_SUCCESS, st'))"
      "\<exists>b. right_of b = Some (fst (current (ip_active (st_port st1 obj)) (request \<noteq> 0) r)) \<and> urefs = IE_BITS_UREFS b"
    by (rule info_result [OF l(2) r(1) cap act])
  have cu: "cur = current (ip_active (st_port st1 obj)) (request \<noteq> 0) r" using cur c r(1) l(4) by (simp add: current_at_def)
  have "space_caps st1 space = (space_caps st space)(name \<mapsto> (bits, obj, request))" using l(3) c by (simp add: fun_upd_idem)
  from leaves_after [OF i(2) this _ l(5) refl] cap
  have lv: "leaves st space name obj (KERN_SUCCESS, Some (fst cur)) (Some (KERN_SUCCESS, st'))" by (simp add: cu del: cap_ok.simps)
  have "rights_ok st' space"
    by (rule leaves_ok [OF ok lv]) (use r(2) in \<open>auto simp: cu dest: current_receive\<close>)
  moreover have "cap_object st space name = obj" using c by (simp add: cap_object_def)
  ultimately have "asked st space name st'" using lv cur by (auto simp: asked_def leaves_def split_beta)
  moreover obtain b where "right_of b = Some (fst cur)" "urefs = IE_BITS_UREFS b" using i(3) cu by blast
  ultimately show thesis using that [OF l(1)] i(1) cu by simp
qed

lemma type_answer:
  assumes ok: "rights_ok st space" and pl: "plain st space name" and cur: "current_at st space name = Some cur"
  shows "\<exists>st'. mach_port_type space name st = Some (Inr (type_word cur), st') \<and> asked st space name st'"
proof -
  obtain entry st1 st' urefs b where "ipc_right_lookup_write space name st = (Inr entry, st1)"
      "ipc_right_info space name entry st1 = Some (Inr (type_word cur, urefs), st')" "right_of b = Some (fst cur)"
      "urefs = IE_BITS_UREFS b" "asked st space name st'"
    by (rule info_answer [OF assms])
  then show ?thesis using ok by (simp add: mach_port_type_def rights_ok_def)
qed

lemma refs_answer:
  assumes ok: "rights_ok st space" and pl: "plain st space name" and cur: "current_at st space name = Some (r, requested)" and right: "right < MACH_PORT_RIGHT_NUMBER"
  shows "\<exists>st'. mach_port_get_refs space name right st = Some (Inr (of_nat (refs_of right r)), st') \<and> asked st space name st'"
proof -
  obtain entry st1 st' urefs b where i: "ipc_right_lookup_write space name st = (Inr entry, st1)"
      "ipc_right_info space name entry st1 = Some (Inr (type_word (r, requested), urefs), st')" "right_of b = Some (fst (r, requested))"
      "urefs = IE_BITS_UREFS b" "asked st space name st'"
    by (rule info_answer [OF ok pl cur])
  note w = refs_word [OF i(3) [unfolded fst_conv] right]
  have k: "right = MACH_PORT_RIGHT_SEND_ONCE \<or> right = MACH_PORT_RIGHT_PORT_SET \<or> right = MACH_PORT_RIGHT_RECEIVE"
    if "right \<noteq> MACH_PORT_RIGHT_DEAD_NAME" "right \<noteq> MACH_PORT_RIGHT_SEND"
    using right that unfolding right_codes MACH_PORT_RIGHT_NUMBER_def by linarith
  have n: "\<not> MACH_PORT_RIGHT_NUMBER \<le> right" "space \<noteq> IS_NULL" using right ok by (simp_all add: rights_ok_def)
  show ?thesis
  proof (cases "refs_of right r = 0")
    case True
    then show ?thesis using i(1,2,5) n w(1) by (simp add: mach_port_get_refs_def)
  next
    case False
    show ?thesis
    proof (cases "right = MACH_PORT_RIGHT_DEAD_NAME \<or> right = MACH_PORT_RIGHT_SEND")
      case True
      then have "right \<noteq> MACH_PORT_RIGHT_SEND_ONCE" "right \<noteq> MACH_PORT_RIGHT_PORT_SET" "right \<noteq> MACH_PORT_RIGHT_RECEIVE" by (auto simp: right_codes)
      then show ?thesis using i(1,2,4,5) n w(1,2) True False by (simp add: mach_port_get_refs_def)
    next
      case other: False
      then have "refs_of right r = 1" using w(3) False by blast
      then show ?thesis using i(1,2,5) n w(1) other k by (simp add: mach_port_get_refs_def)
    qed
  qed
qed

lemma none_answer:
  assumes ok: "rights_ok st space" and cur: "current_at st space name = None"
  shows "\<exists>st'. ipc_right_lookup_write space name st = (Inl KERN_INVALID_NAME, st') \<and> asked st space name st'"
proof -
  have c: "space_caps st space name = None" using cur by (auto simp: current_at_def split: option.splits)
  obtain st1 where st1: "ipc_right_lookup_write space name st = (Inl KERN_INVALID_NAME, st1)" "space_settled st1 space"
      "space_caps st1 space = space_caps st space" "alive st1 = alive st"
    using lookup_fails [OF ok c] .
  have act: "ip_active (st_port st p) \<Longrightarrow> ip_active (st_port st1 p)" for p using st1(4) by (simp add: alive_def receiving_def fun_eq_iff)
  have "at_rest st1 space" using st1(2,4) ok by (auto simp: rights_ok_def at_rest_def alive_def receiving_def life_def fun_eq_iff)
  note same = rights_ok_same [OF ok this st1(3) act]
  have "space_rights st space name = None" using c by (simp add: space_rights_def)
  then have "asked st space name st1" using same cur st1(3,4) by (simp add: asked_def fun_upd_idem plain_def del: cap_ok.simps)
  then show ?thesis using st1(1) by blast
qed

definition spec_type :: "(port_right \<times> bool) option \<Rightarrow> kern_return_t + mach_port_type_t" where
  "spec_type cur = (case cur of None \<Rightarrow> Inl KERN_INVALID_NAME | Some c \<Rightarrow> Inr (type_word c))"

definition spec_refs :: "nat \<Rightarrow> (port_right \<times> bool) option \<Rightarrow> kern_return_t + 32 word" where
  "spec_refs right cur = (case cur of None \<Rightarrow> Inl KERN_INVALID_NAME | Some c \<Rightarrow> Inr (of_nat (refs_of right (fst c))))"

lemma type_always:
  assumes ok: "rights_ok st space" and pl: "plain st space name"
  shows "\<exists>st'. mach_port_type space name st = Some (spec_type (current_at st space name), st') \<and> asked st space name st'"
proof (cases "current_at st space name")
  case None
  then show ?thesis using none_answer [OF ok None] ok by (auto simp: spec_type_def mach_port_type_def rights_ok_def)
next
  case (Some c)
  then show ?thesis using type_answer [OF ok pl Some] by (simp add: spec_type_def)
qed

lemma refs_always:
  assumes ok: "rights_ok st space" and pl: "plain st space name" and right: "right < MACH_PORT_RIGHT_NUMBER"
  shows "\<exists>st'. mach_port_get_refs space name right st = Some (spec_refs right (current_at st space name), st') \<and> asked st space name st'"
proof (cases "current_at st space name")
  case None
  then show ?thesis using none_answer [OF ok None] ok right by (auto simp: spec_refs_def mach_port_get_refs_def rights_ok_def)
next
  case (Some c)
  then show ?thesis using refs_answer [OF ok pl _ right] by (cases c) (simp add: spec_refs_def)
qed

section \<open>A change of the count and a question\<close>

lemma current_rights:
  assumes ok: "rights_ok st space"
  shows "case space_rights st space name of None \<Rightarrow> current_at st space name = None
    | Some (r, obj) \<Rightarrow> \<exists>requested. current_at st space name = Some (current (ip_active (st_port st obj)) requested r)"
proof (cases "space_caps st space name")
  case None
  then show ?thesis by (simp add: space_rights_def current_at_def)
next
  case (Some c)
  obtain bits obj request where c: "c = (bits, obj, request)" by (cases c)
  have wt: "well_typed st space" using ok by (simp add: rights_ok_def)
  obtain r where "right_of bits = Some r" "space_rights st space name = Some (r, obj)" using caps_rights [OF wt] Some c by blast
  then show ?thesis using Some c by (auto simp: current_at_def)
qed

lemma current_again:
  "fst (current living q r) = r' \<Longrightarrow> is_dead_name r' \<or> living' = living \<Longrightarrow> fst (current living' q' r') = r'"
  by (cases r) (auto simp: current_def Let_def)

text \<open>A change that succeeds adds to the count, and what is left is current.\<close>

lemma spec_mod_counts:
  assumes "spec_mod_refs right d living requested r = (KERN_SUCCESS, left)" and "right < MACH_PORT_RIGHT_NUMBER" and "right \<noteq> MACH_PORT_RIGHT_RECEIVE"
  shows "case left of None \<Rightarrow> int (refs_of right (fst (current living requested r))) + d = 0
    | Some r' \<Rightarrow> int (refs_of right r') = int (refs_of right (fst (current living requested r))) + d \<and>
        fst (current living requested r') = r'"
  using assms(2,3,1)
proof (cases rule: right_kinds)
  case 1
  then show ?thesis using assms(1)
    by (cases r) (auto simp: spec_mod_refs_def spec_delta_send_def current_def Let_def right_codes split: if_splits)
next
  case 2
  then show ?thesis using assms(1)
    by (cases r) (auto simp: spec_mod_refs_def spec_delta_send_once_def current_def Let_def right_codes split: if_splits)
next
  case 3
  then show ?thesis using assms(1)
    by (cases r) (auto simp: spec_mod_refs_def spec_delta_dead_name_def current_def Let_def right_codes split: if_splits)
next
  case 4
  then show ?thesis using assms(1)
    by (cases r) (auto simp: spec_mod_refs_def spec_delta_port_set_def current_def Let_def right_codes split: if_splits)
qed

lemma refs_small:
  assumes ok: "rights_ok st space" and pl: "plain st space name" and cur: "current_at st space name = Some c"
  shows "refs_of right (fst c) < 2 ^ 16"
proof -
  obtain b where "right_of b = Some (fst c)" by (rule info_answer [OF assms])
  then show ?thesis using urefs_less [of b] by (elim right_of_cases) auto
qed

lemma mod_then_current:
  assumes ok: "rights_ok st space" and pl: "plain st space name" and right: "right < MACH_PORT_RIGHT_NUMBER" "right \<noteq> MACH_PORT_RIGHT_RECEIVE"
    and cur: "current_at st space name = Some c"
    and r: "mach_port_mod_refs locked space name right delta st = Some (KERN_SUCCESS, st')"
  shows "rights_ok st' space" and "plain st' space name"
    and "case current_at st' space name of None \<Rightarrow> int (refs_of right (fst c)) + sint delta = 0
      | Some c' \<Rightarrow> int (refs_of right (fst c')) = int (refs_of right (fst c)) + sint delta"
proof -
  show ok': "rights_ok st' space" by (rule mod_refs_ok [OF ok pl right r])
  obtain bits obj request where caps: "space_caps st space name = Some (bits, obj, request)"
      and c: "c = current (ip_active (st_port st obj)) (request \<noteq> 0) (the (right_of bits))"
    using cur by (auto simp: current_at_def split: option.splits)
  define out where "out = spec_mod_refs right (sint delta) (ip_active (st_port st obj)) (request \<noteq> 0) (the (right_of bits))"
  have "leaves st space name obj out (Some (KERN_SUCCESS, st'))"
    using mod_refs_leaves [OF ok pl right, of delta locked] r caps by (simp add: call_outcome_def cap_object_def out_def)
  then have l: "fst out = KERN_SUCCESS" "alive st' = alive st" and pl': "plain st' space name"
      and l3: "space_rights st' space name = map_option (\<lambda>r. (r, right_object r obj)) (snd out)"
    using pl by (auto simp: leaves_def)
  show "plain st' space name" by (rule pl')
  have "out = (KERN_SUCCESS, snd out)" using l(1) by (simp add: prod_eq_iff)
  note counts = spec_mod_counts [OF this [unfolded out_def] right, folded out_def c]
  show "case current_at st' space name of None \<Rightarrow> int (refs_of right (fst c)) + sint delta = 0
      | Some c' \<Rightarrow> int (refs_of right (fst c')) = int (refs_of right (fst c)) + sint delta"
  proof (cases "snd out")
    case None
    then show ?thesis using counts current_rights [OF ok', of name] l3 by simp
  next
    case (Some r')
    then have k: "int (refs_of right r') = int (refs_of right (fst c)) + sint delta"
        "fst (current (ip_active (st_port st obj)) (request \<noteq> 0) r') = r'" using counts by simp_all
    obtain q where q: "current_at st' space name = Some (current (ip_active (st_port st' (right_object r' obj))) q r')"
      using current_rights [OF ok', of name] l3 Some by auto
    have "is_dead_name r' \<or> ip_active (st_port st' (right_object r' obj)) = ip_active (st_port st obj)"
      using l(2) by (auto simp: right_object_def alive_def receiving_def fun_eq_iff)
    from current_again [OF k(2) this] show ?thesis using q k(1) by simp
  qed
qed

lemma asked_current:
  assumes a: "asked st space name st'" and cur: "current_at st space name = Some c"
  shows "\<exists>c'. current_at st' space name = Some c' \<and> fst c' = fst c"
proof -
  obtain bits obj request where caps: "space_caps st space name = Some (bits, obj, request)"
      and c: "c = current (ip_active (st_port st obj)) (request \<noteq> 0) (the (right_of bits))"
    using cur by (auto simp: current_at_def split: option.splits)
  have s: "space_rights st' space name = Some (fst c, right_object (fst c) obj)" "rights_ok st' space" "alive st' = alive st"
    using a cur caps by (auto simp: asked_def cap_object_def split_beta)
  obtain q where q: "current_at st' space name = Some (current (ip_active (st_port st' (right_object (fst c) obj))) q (fst c))"
    using current_rights [OF s(2), of name] s(1) by auto
  have "is_dead_name (fst c) \<or> ip_active (st_port st' (right_object (fst c) obj)) = ip_active (st_port st obj)"
    using s(3) by (auto simp: right_object_def alive_def receiving_def fun_eq_iff)
  from current_again [OF _ this] show ?thesis using q c by simp
qed

lemma refs_sint:
  assumes "rights_ok st space" and "plain st space name" and "current_at st space name = Some c"
  shows "sint (of_nat (refs_of right (fst c)) :: 32 word) = int (refs_of right (fst c))"
proof -
  have "refs_of right (fst c) < 2 ^ 16" by (rule refs_small [OF assms])
  then show ?thesis by (simp add: signed_of_nat signed_take_bit_int_eq_self)
qed

text \<open>
  C11. \<^verbatim>\<open>mach_port_get_refs\<close> counts what \<^verbatim>\<open>mach_port_mod_refs\<close> changes. When a task asks for the user
  references of a right, changes them successfully by any signed amount and asks again, the second
  answer is the first one plus the change; if the name denotes nothing any more, the sum was zero.
  Both questions are answered in every well-formed space, and the space is well formed afterwards.
\<close>

theorem mod_refs_get_refs:
  assumes "rights_ok st space" and "plain st space name" and "right < MACH_PORT_RIGHT_NUMBER" and "right \<noteq> MACH_PORT_RIGHT_RECEIVE"
    and "mach_port_get_refs space name right st = Some (Inr n, st0)"
    and "mach_port_mod_refs locked space name right delta st0 = Some (KERN_SUCCESS, st1)"
  shows "\<exists>answer st2. mach_port_get_refs space name right st1 = Some (answer, st2) \<and> rights_ok st2 space \<and>
    (case answer of Inr m \<Rightarrow> sint m = sint n + sint delta | Inl kr \<Rightarrow> kr = KERN_INVALID_NAME \<and> sint n + sint delta = 0)"
proof -
  obtain st0' where "mach_port_get_refs space name right st = Some (spec_refs right (current_at st space name), st0')" "asked st space name st0'"
    using refs_always [OF assms(1-3)] by blast
  then have a: "asked st space name st0" "spec_refs right (current_at st space name) = Inr n" using assms(5) by simp_all
  then obtain c where c: "current_at st space name = Some c" "n = of_nat (refs_of right (fst c))"
    by (auto simp: spec_refs_def split: option.splits)
  obtain c0 where c0: "current_at st0 space name = Some c0" "fst c0 = fst c" using asked_current [OF a(1) c(1)] by blast
  have ok0: "rights_ok st0 space" "plain st0 space name" using a(1) assms(2) by (simp_all add: asked_def)
  note m = mod_then_current [OF ok0 assms(3,4) c0(1) assms(6)]
  have n: "sint n = int (refs_of right (fst c0))" using refs_sint [OF assms(1,2) c(1)] c(2) c0(2) by simp
  obtain st2 where st2: "mach_port_get_refs space name right st1 = Some (spec_refs right (current_at st1 space name), st2)" "asked st1 space name st2"
    using refs_always [OF m(1,2) assms(3)] by blast
  show ?thesis
  proof (cases "current_at st1 space name")
    case None
    then show ?thesis using st2 m(3) n by (simp add: spec_refs_def asked_def)
  next
    case (Some c')
    then show ?thesis using st2 m(3) n refs_sint [OF m(1,2) Some] by (simp add: spec_refs_def asked_def)
  qed
qed

lemma dead_kernel_current: "current_at dead_kernel 0x1000 1 = Some (Dead_name_right 3, False)"
  by (simp add: current_at_def dead_kernel_caps dead_kernel_right current_def Let_def)

theorem mod_refs_get_refs_witness:
  "\<exists>st0 st1 st2. mach_port_get_refs 0x1000 1 MACH_PORT_RIGHT_DEAD_NAME dead_kernel = Some (Inr 3, st0) \<and>
     mach_port_mod_refs False 0x1000 1 MACH_PORT_RIGHT_DEAD_NAME (- 2) st0 = Some (KERN_SUCCESS, st1) \<and>
     (\<exists>m. mach_port_get_refs 0x1000 1 MACH_PORT_RIGHT_DEAD_NAME st1 = Some (Inr m, st2) \<and> sint m = 1)"
proof -
  have n: "MACH_PORT_RIGHT_DEAD_NAME < MACH_PORT_RIGHT_NUMBER" "MACH_PORT_RIGHT_DEAD_NAME \<noteq> MACH_PORT_RIGHT_RECEIVE"
    by (simp_all add: right_codes MACH_PORT_RIGHT_NUMBER_def)
  obtain st0 where st0: "mach_port_get_refs 0x1000 1 MACH_PORT_RIGHT_DEAD_NAME dead_kernel = Some (Inr 3, st0)" "asked dead_kernel 0x1000 1 st0"
    using refs_always [OF dead_kernel_ok dead_kernel_plain n(1), of 1] by (auto simp: dead_kernel_current spec_refs_def)
  have ok: "rights_ok st0 0x1000" "plain st0 0x1000 1" using st0(2) dead_kernel_plain by (simp_all add: asked_def)
  have "space_rights st0 0x1000 1 = Some (Dead_name_right 3, IO_NULL)"
    using st0(2) by (simp add: asked_def dead_kernel_current right_object_def)
  then obtain bits obj request where caps: "space_caps st0 0x1000 1 = Some (bits, obj, request)" "right_of bits = Some (Dead_name_right 3)"
    by (auto simp: space_rights_def bind_eq_Some_conv)
  have spec: "spec_mod_refs MACH_PORT_RIGHT_DEAD_NAME (- 2) living requested (Dead_name_right 3) = (KERN_SUCCESS, Some (Dead_name_right 1))"
    for living requested by (simp add: spec_mod_refs_def spec_delta_dead_name_def right_codes)
  obtain st1 where st1: "mach_port_mod_refs False 0x1000 1 MACH_PORT_RIGHT_DEAD_NAME (- 2) st0 = Some (KERN_SUCCESS, st1)"
    using mod_refs_leaves [OF ok n, of "- 2" False] caps by (auto simp: call_outcome_def spec leaves_def)
  obtain answer st2 where a: "mach_port_get_refs 0x1000 1 MACH_PORT_RIGHT_DEAD_NAME st1 = Some (answer, st2)"
      "case answer of Inr m \<Rightarrow> sint m = sint (3 :: 32 word) + sint (- 2 :: 32 word) | Inl kr \<Rightarrow> kr = KERN_INVALID_NAME \<and> sint (3 :: 32 word) + sint (- 2 :: 32 word) = 0"
    using mod_refs_get_refs [OF dead_kernel_ok dead_kernel_plain n st0(1) st1] by blast
  show ?thesis using st0(1) st1 a by (cases answer) auto
qed

text \<open>
  C10. \<^verbatim>\<open>mach_port_type\<close> and \<^verbatim>\<open>mach_port_get_refs\<close> answer in every well-formed space, with the kind and
  the count of the right that the name denotes at the time of the call: a name that denotes nothing
  gives \<^verbatim>\<open>KERN_INVALID_NAME\<close>, an unknown kind of right \<^verbatim>\<open>KERN_INVALID_VALUE\<close>, a right of another kind the
  count zero, and a send or send-once right whose port has died counts as a dead name, with one more
  reference if a notification was outstanding. The question itself leaves every other name alone and
  the space well formed.
\<close>

theorem mach_port_queries_exact:
  assumes "rights_ok st space" and "plain st space name"
  shows "(\<exists>st'. mach_port_type space name st = Some (spec_type (current_at st space name), st') \<and> asked st space name st') \<and>
    (\<exists>st'. mach_port_get_refs space name right st =
        Some (if right < MACH_PORT_RIGHT_NUMBER then spec_refs right (current_at st space name) else Inl KERN_INVALID_VALUE, st') \<and>
      (if right < MACH_PORT_RIGHT_NUMBER then asked st space name st' else st' = st))"
  using type_always [OF assms] refs_always [OF assms, of right] assms(1)
  by (simp_all add: mach_port_get_refs_def rights_ok_def)

theorem mach_port_queries_exact_witness:
  "(\<exists>st'. mach_port_type 0x1000 1 dead_kernel = Some (Inr MACH_PORT_TYPE_DEAD_NAME, st')) \<and>
   (\<exists>st'. mach_port_get_refs 0x1000 1 MACH_PORT_RIGHT_SEND dead_kernel = Some (Inr 0, st'))"
  using mach_port_queries_exact [OF dead_kernel_ok dead_kernel_plain, of 1 MACH_PORT_RIGHT_SEND]
  by (auto simp: dead_kernel_current spec_type_def spec_refs_def type_word_def right_codes MACH_PORT_RIGHT_NUMBER_def)

end
