(* ===== verification/PortNames.thy ===== *)
theory PortNames
  imports PortInfo
begin

text \<open>
  The answer of \<^verbatim>\<open>mach_port_names\<close>: it fits the memory obtained for it and lists each name of the
  space once, with the type that \<^verbatim>\<open>mach_port_type\<close> gives it.
\<close>

unbundle bit_operations_syntax

section \<open>The memory for the answer\<close>

lemma and_not_minus: "x AND NOT m = x - (x AND m)" for x m :: "'a :: len word"
proof -
  have "NOT x AND (x AND m) = 0" by (rule bit_word_eqI) (simp add: bit_simps)
  from disjunctive_diff_eq_and_not [OF this] have "x - (x AND m) = x AND NOT (x AND m)" .
  also have "\<dots> = x AND NOT m" by (rule bit_word_eqI) (auto simp: bit_simps)
  finally show ?thesis by simp
qed

lemma and_not_or:
  fixes x m t :: "'a :: len word"
  assumes "x AND m = 0"
  shows "x AND NOT (t OR m) = x AND NOT t"
proof -
  have "x AND NOT (t OR m) = (x AND NOT m) AND NOT t" by (rule bit_word_eqI) (auto simp: bit_simps)
  then show ?thesis using assms by (simp add: and_not_minus [of x m])
qed

lemma round_page_enough:
  assumes "unat x + 4095 < 2 ^ 32"
  shows "x \<le> round_page x"
proof -
  have u: "unat (x + PAGE_MASK) = unat x + 4095"
    using assms by (simp add: PAGE_MASK_def unat_word_ariths)
  define low where "low = (x + PAGE_MASK) AND PAGE_MASK"
  have low: "unat low \<le> 4095" using word_and_le1 [of "x + PAGE_MASK" PAGE_MASK] by (simp add: low_def PAGE_MASK_def word_le_nat_alt)
  have "low \<le> x + PAGE_MASK" using low u by (simp add: word_le_nat_alt)
  then have "unat (round_page x) = unat (x + PAGE_MASK) - unat low"
    using and_not_minus [of "x + PAGE_MASK" PAGE_MASK] by (simp add: round_page_def unat_sub flip: low_def)
  then show ?thesis using low u by (simp add: word_le_nat_alt)
qed

lemma room_enough:
  assumes n: "n < 2 ^ 30 - 1024" and sz: "round_page (of_nat n * sizeof_mach_port_t) \<le> sz"
  shows "n \<le> unat sz div 4"
proof -
  have "unat (of_nat n * 4 :: 32 word) = n * 4" using n by (simp add: unat_word_ariths unsigned_of_nat take_bit_nat_eq_self)
  moreover from this have "of_nat n * 4 \<le> round_page (of_nat n * 4)" using n by (intro round_page_enough) simp
  ultimately show ?thesis using sz by (simp add: word_le_nat_alt)
qed

lemma memory_enough:
  assumes "names_memory ms sz space st = Some (Inr sz', st')"
    and "is_table_size (st_space st' space) + is_tree_total (st_space st' space) < 2 ^ 30 - 1024"
  shows "is_table_size (st_space st' space) + is_tree_total (st_space st' space) \<le> unat sz' div 4"
  using assms
proof (induction ms arbitrary: sz st)
  case Nil
  then show ?case by (auto simp: names_memory.simps [of "[]"] Let_def simp del: of_nat_add intro: room_enough split: if_splits)
next
  case (Cons m ms)
  obtain names types other where m: "m = (names, types, other)" by (cases m)
  show ?case using Cons.prems Cons.IH
    by (auto simp: m names_memory.simps [of "_ # _"] Let_def simp del: of_nat_add intro: room_enough split: if_splits)
qed

section \<open>One entry\<close>

definition settled_alive :: "32 word \<Rightarrow> ipc_port \<Rightarrow> bool" where
  "settled_alive timestamp port \<longleftrightarrow> ip_active port \<or> \<not> IP_TIMESTAMP_ORDER (ip_timestamp port) timestamp"

fun listed :: "32 word \<Rightarrow> ipc_kernel \<Rightarrow> mach_port_t \<times> ipc_entry_bits_t \<times> ipc_object_t \<times> nat \<Rightarrow> mach_port_t \<times> mach_port_type_t" where
  "listed timestamp st (name, bits, obj, request) =
     (name, type_word (current (settled_alive timestamp (st_port st obj)) (request \<noteq> 0) (the (right_of bits))))"

lemma helper_lists:
  assumes d: "denoted entry = (bits, obj, request)" and c: "cap_ok (bits, obj, request)" and r: "right_of bits = Some r"
    and live: "is_receive r \<Longrightarrow> ip_active (st_port st obj)" and room: "length names < room"
  shows "mach_port_names_helper timestamp entry name room names st = Some (names @ [listed timestamp st (name, bits, obj, request)])"
proof -
  have e: "ie_bits entry = bits" "ie_object entry = obj" "ie_request entry = request" using d by (simp_all add: denoted_def)
  have b: "bits AND IE_BITS_COMPAT = 0" "bits AND IE_BITS_MAREQUEST = 0" using c by (auto split: option.splits)
  note D = mach_port_names_helper_def [of timestamp entry name room names st, unfolded Let_def e right_tests [OF r]]
  show ?thesis
  proof (cases "(send_urefs r \<noteq> None \<or> r = Send_once_right) \<and> \<not> settled_alive timestamp (st_port st obj)")
    case True
    then obtain u where ru: "r = Send_once_right \<or> r = Send_right u" using live by (cases r) (auto simp: settled_alive_def)
    then have w: "IE_BITS_TYPE (dead_word bits request) = MACH_PORT_TYPE_DEAD_NAME" "dead_word bits request AND IE_BITS_COMPAT = 0"
        "dead_word bits request AND IE_BITS_MAREQUEST = 0"
      using dead_word_right(2,4,5) [OF r, of request] b by auto
    have "bits AND NOT (IE_BITS_TYPE_MASK OR IE_BITS_MAREQUEST) = bits AND NOT IE_BITS_TYPE_MASK"
      by (rule and_not_or [OF b(2)])
    then have "mach_port_names_helper timestamp entry name room names st = Some (names @ [(name, MACH_PORT_TYPE_DEAD_NAME)])"
      using True b w room by (auto simp: D settled_alive_def dead_word_def Let_def split: if_splits)
    moreover have "current (settled_alive timestamp (st_port st obj)) (request \<noteq> 0) r = (die (request \<noteq> 0) r, False)"
      using True ru by (auto simp: current_def Let_def)
    ultimately show ?thesis using ru r by (auto simp: type_word_def)
  next
    case False
    have "current (settled_alive timestamp (st_port st obj)) (request \<noteq> 0) r = (r, request \<noteq> 0)"
    proof (cases "settled_alive timestamp (st_port st obj)")
      case dead: False
      then have "die (request \<noteq> 0) r = r" using False by (cases r) auto
      then show ?thesis using dead by (simp add: current_def)
    qed (simp add: current_def)
    then show ?thesis using False b room type_of_bits [OF r] r by (auto simp: D settled_alive_def type_word_def)
  qed
qed

text \<open>What one entry contributes: nothing or one element.\<close>

definition shown_type :: "ipc_entry_bits_t \<Rightarrow> nat \<Rightarrow> mach_port_type_t" where
  "shown_type bits request =
     (let type = IE_BITS_TYPE bits;
          type = (if bits AND IE_BITS_COMPAT \<noteq> 0 then type OR MACH_PORT_TYPE_COMPAT
                  else if request \<noteq> 0 then type OR MACH_PORT_TYPE_DNREQUEST else type)
      in if bits AND IE_BITS_MAREQUEST \<noteq> 0 then type OR MACH_PORT_TYPE_MAREQUEST else type)"

fun listed_type :: "32 word \<Rightarrow> ipc_kernel \<Rightarrow> ipc_entry_bits_t \<times> ipc_object_t \<times> nat \<Rightarrow> mach_port_type_t option" where
  "listed_type timestamp st (bits, obj, request) =
     (if bits AND MACH_PORT_TYPE_SEND_RIGHTS \<noteq> 0 \<and> \<not> settled_alive timestamp (st_port st obj) then
        if bits AND IE_BITS_COMPAT \<noteq> 0 then None
        else
          let bits = (bits AND NOT (IE_BITS_TYPE_MASK OR IE_BITS_MAREQUEST)) OR MACH_PORT_TYPE_DEAD_NAME
          in Some (shown_type (if request \<noteq> 0 then bits + 1 else bits) 0)
      else Some (shown_type bits request))"

fun entry_lists :: "32 word \<Rightarrow> ipc_kernel \<Rightarrow> mach_port_t \<times> ipc_entry_bits_t \<times> ipc_object_t \<times> nat \<Rightarrow> (mach_port_t \<times> mach_port_type_t) list" where
  "entry_lists timestamp st (name, c) = (case listed_type timestamp st c of None \<Rightarrow> [] | Some type \<Rightarrow> [(name, type)])"

lemma entry_name: "x \<in> set (entry_lists timestamp st (n, c)) \<Longrightarrow> fst x = n" "length (entry_lists timestamp st (n, c)) \<le> 1"
  by (auto split: option.splits)

lemma helper_appends:
  assumes "length names < room"
  shows "mach_port_names_helper timestamp entry name room names st = Some (names @ entry_lists timestamp st (name, denoted entry))"
proof -
  have put: "(if length names < room then Some (names @ [(name, type)]) else None) = Some (names @ [(name, type)])" for type using assms by simp
  show ?thesis
    unfolding mach_port_names_helper_def Let_def put denoted_def
    by (simp add: settled_alive_def shown_type_def Let_def)
qed

lemma plain_lists:
  assumes ok: "rights_ok st space" and pl: "plain st space n" and c: "space_caps st space n = Some c"
  shows "entry_lists timestamp st (n, c) = [listed timestamp st (n, c)]"
proof -
  obtain bits obj request where c': "c = (bits, obj, request)" by (cases c)
  have wt: "well_typed st space" using ok by (simp add: rights_ok_def)
  obtain r where r: "right_of bits = Some r" "space_rights st space n = Some (r, obj)" using caps_rights [OF wt] c c' by blast
  let ?e = "zero_entry\<lparr>ie_bits := bits, ie_object := obj, ie_request := request\<rparr>"
  have e: "denoted ?e = c" by (simp add: denoted_def c')
  have "mach_port_names_helper timestamp ?e n 1 [] st = Some ([] @ [listed timestamp st (n, bits, obj, request)])"
    using plainD [OF pl c] r ok e by (intro helper_lists) (auto simp: c' rights_ok_def simp del: cap_ok.simps)
  moreover have "mach_port_names_helper timestamp ?e n 1 [] st = Some ([] @ entry_lists timestamp st (n, c))"
    using helper_appends [of "[]" 1 timestamp ?e n st] unfolding e by simp
  ultimately show ?thesis by (simp add: c' del: listed.simps entry_lists.simps)
qed

section \<open>All entries\<close>

definition table_listing :: "ipc_kernel \<Rightarrow> ipc_space_t \<Rightarrow> nat list \<Rightarrow> (mach_port_t \<times> ipc_entry_bits_t \<times> ipc_object_t \<times> nat) list" where
  "table_listing st space indices =
     map (\<lambda>i. (of_nat i, denoted (is_table (st_space st space) ! i)))
       (filter (\<lambda>i. IE_BITS_TYPE (ie_bits (is_table (st_space st space) ! i)) \<noteq> 0) indices)"

definition tree_listing :: "ipc_kernel \<Rightarrow> (mach_port_t \<times> ite_t) list \<Rightarrow> (mach_port_t \<times> ipc_entry_bits_t \<times> ipc_object_t \<times> nat) list" where
  "tree_listing st = map (\<lambda>(n, a). (n, denoted (te_entry (st_ite st a))))"

abbreviation lists_all ::
  "32 word \<Rightarrow> ipc_kernel \<Rightarrow> (mach_port_t \<times> ipc_entry_bits_t \<times> ipc_object_t \<times> nat) list \<Rightarrow> (mach_port_t \<times> mach_port_type_t) list" where
  "lists_all timestamp st cs \<equiv> concat (map (entry_lists timestamp st) cs)"

lemma lists_all_length: "length (lists_all timestamp st cs) \<le> length cs"
proof (induction cs)
  case (Cons x cs)
  obtain n c where x: "x = (n, c)" by (cases x)
  then show ?case using Cons entry_name(2) [of timestamp st n c] by (simp del: entry_lists.simps)
qed simp

lemma names_table_lists:
  assumes "length names + length (table_listing st space indices) \<le> room"
  shows "names_table timestamp room space indices names st = Some (names @ lists_all timestamp st (table_listing st space indices))"
  using assms
proof (induction indices arbitrary: names)
  case (Cons i ks)
  show ?case
  proof (cases "IE_BITS_TYPE (ie_bits (is_table (st_space st space) ! i)) = 0")
    case True
    then show ?thesis using Cons by (simp add: table_listing_def)
  next
    case False
    let ?p = "entry_lists timestamp st (of_nat i, denoted (is_table (st_space st space) ! i))"
    have tl: "table_listing st space (i # ks) = (of_nat i, denoted (is_table (st_space st space) ! i)) # table_listing st space ks"
      using False by (simp add: table_listing_def)
    have r: "length names < room" using Cons.prems tl by simp
    have "length (names @ ?p) + length (table_listing st space ks) \<le> room"
      using Cons.prems tl entry_name(2) [of timestamp st "of_nat i" "denoted (is_table (st_space st space) ! i)"] by (simp del: entry_lists.simps)
    then show ?thesis using Cons.IH [of "names @ ?p"] False helper_appends [OF r]
      unfolding tl by (simp add: MACH_PORT_MAKEB_def MACH_PORT_MAKE_def del: entry_lists.simps)
  qed
qed (simp add: table_listing_def)

lemma names_tree_lists:
  assumes "length names + length (tree_listing st es) \<le> room"
  shows "visit (names_tree_entry timestamp room space st) (Some names) es = (Some (names @ lists_all timestamp st (tree_listing st es)), es)"
  using assms
proof (induction es arbitrary: names)
  case (Cons x es)
  obtain n a where x: "x = (n, a)" by (cases x)
  let ?p = "entry_lists timestamp st (n, denoted (te_entry (st_ite st a)))"
  have tl: "tree_listing st ((n, a) # es) = (n, denoted (te_entry (st_ite st a))) # tree_listing st es" by (simp add: tree_listing_def)
  have r: "length names < room" using Cons.prems tl x by simp
  have room: "length (names @ ?p) + length (tree_listing st es) \<le> room"
    using Cons.prems tl x entry_name(2) [of timestamp st n "denoted (te_entry (st_ite st a))"] by (simp del: entry_lists.simps)
  have "names_tree_entry timestamp room space st (Some names) n a = (Some (names @ ?p), False)"
    using helper_appends [OF r] by (simp add: names_tree_entry_def del: entry_lists.simps)
  from visit_Cons [of "names_tree_entry timestamp room space st" "Some names" n a, OF this, of es]
  show ?case using Cons.IH [OF room] unfolding x tl by (simp del: entry_lists.simps)
qed (simp add: tree_listing_def)

definition space_listing :: "ipc_kernel \<Rightarrow> ipc_space_t \<Rightarrow> (mach_port_t \<times> ipc_entry_bits_t \<times> ipc_object_t \<times> nat) list" where
  "space_listing st space = table_listing st space [0..<is_table_size (st_space st space)] @ tree_listing st (tree_entries st space)"

lemma listing_caps:
  assumes ok: "space_ok st space fl busy"
  shows "(n, c) \<in> set (space_listing st space) \<longleftrightarrow> space_caps st space n = Some c" and "distinct (map fst (space_listing st space))"
    and "length (space_listing st space) \<le> is_table_size (st_space st space) + is_tree_total (st_space st space)"
proof -
  let ?t = "is_table (st_space st space)"
  have tab: "table_ok (st_space st space) fl busy" "tree_ok st space" using ok by (simp_all add: space_ok_def)
  note tree = tree_okD [OF tab(2) table_okD(1) [OF tab(1)]]
  have asc: "distinct (map fst (tree_entries st space))"
    using splay_tree.entries_ascending [OF tree(1)] by (simp add: tree_entries_def ascending_distinct)
  have tl: "(n, c) \<in> set (table_listing st space [0..<length ?t]) \<longleftrightarrow> MACH_PORT_INDEX n < length ?t \<and> space_caps st space n = Some c" for n c
  proof -
    have "(n, c) \<in> set (table_listing st space [0..<length ?t]) \<longleftrightarrow>
        (\<exists>i < length ?t. MACH_PORT_INDEX n = i \<and> IE_BITS_TYPE (ie_bits (?t ! i)) \<noteq> 0 \<and> c = denoted (?t ! i))"
      unfolding table_listing_def using table_name(2) [OF tab(1), of _ n] by (simp only: set_map set_filter image_iff mem_Collect_eq prod.inject set_upt atLeastLessThan_iff le0 simp_thms) blast
    also have "\<dots> \<longleftrightarrow> MACH_PORT_INDEX n < length ?t \<and> IE_BITS_TYPE (ie_bits (?t ! MACH_PORT_INDEX n)) \<noteq> 0 \<and> c = denoted (?t ! MACH_PORT_INDEX n)" by blast
    also have "\<dots> \<longleftrightarrow> MACH_PORT_INDEX n < length ?t \<and> space_caps st space n = Some c"
      using caps_in_table [of n st space] by (cases "MACH_PORT_INDEX n < length ?t") (auto split: if_splits)
    finally show ?thesis .
  qed
  have tr: "(n, c) \<in> set (tree_listing st (tree_entries st space)) \<longleftrightarrow> \<not> MACH_PORT_INDEX n < length ?t \<and> space_caps st space n = Some c" for n c
  proof
    assume "(n, c) \<in> set (tree_listing st (tree_entries st space))"
    then obtain a where a: "(n, a) \<in> set (tree_entries st space)" "c = denoted (te_entry (st_ite st a))" by (auto simp: tree_listing_def)
    then have "\<not> MACH_PORT_INDEX n < length ?t" using tree(6) [of n] by force
    then show "\<not> MACH_PORT_INDEX n < length ?t \<and> space_caps st space n = Some c"
      using a caps_beyond_table [of n st space] map_of_is_SomeI [OF asc a(1)] by simp
  next
    assume "\<not> MACH_PORT_INDEX n < length ?t \<and> space_caps st space n = Some c"
    then obtain a where "map_of (tree_entries st space) n = Some a" "c = denoted (te_entry (st_ite st a))"
      using caps_beyond_table [of n st space] by (cases "map_of (tree_entries st space) n") auto
    then show "(n, c) \<in> set (tree_listing st (tree_entries st space))" by (auto simp: tree_listing_def dest!: map_of_SomeD intro!: image_eqI [rotated])
  qed
  show "(n, c) \<in> set (space_listing st space) \<longleftrightarrow> space_caps st space n = Some c" using tl tr by (auto simp: space_listing_def)
  have "inj_on (of_nat :: nat \<Rightarrow> mach_port_t) {0..<length ?t}"
    using table_name(1) [OF tab(1)] by (intro inj_on_inverseI [where g = MACH_PORT_INDEX]) simp
  then have d1: "distinct (map fst (table_listing st space [0..<length ?t]))"
    unfolding table_listing_def map_map comp_def fst_conv distinct_map
    by (intro conjI distinct_filter distinct_upt) (erule inj_on_subset, force)
  have d2: "distinct (map fst (tree_listing st (tree_entries st space)))"
    using asc by (simp add: tree_listing_def split_beta comp_def)
  have "fst x \<noteq> fst y" if "x \<in> set (table_listing st space [0..<length ?t])" "y \<in> set (tree_listing st (tree_entries st space))" for x y
    using tl [of "fst x" "snd x"] tr [of "fst y" "snd y"] that by auto
  then show "distinct (map fst (space_listing st space))" using d1 d2 by (auto simp: space_listing_def)
  show "length (space_listing st space) \<le> is_table_size (st_space st space) + is_tree_total (st_space st space)"
    using tree(4) length_filter_le [of "\<lambda>i. IE_BITS_TYPE (ie_bits (?t ! i)) \<noteq> 0" "[0..<length ?t]"]
    by (simp add: space_listing_def table_listing_def tree_listing_def)
qed

section \<open>The whole answer\<close>

lemma names_result:
  assumes ok: "rights_ok st space"
    and memory: "names_memory ms 0 space st0 = Some (Inr sz, st)"
    and size: "is_table_size (st_space st space) + is_tree_total (st_space st space) < 2 ^ 30 - 1024"
  obtains st' where "mach_port_names ms space st0 = Some (Inr (lists_all (fst (ipc_port_timestamp st)) st (space_listing st space)), st')"
    and "rights_ok st' space" and "space_caps st' space = space_caps st space" and "st_port st' = st_port st"
proof -
  define ts st1 where "ts = fst (ipc_port_timestamp st)" and "st1 = snd (ipc_port_timestamp st)"
  let ?s = "st_space st space"
  have st1: "ipc_port_timestamp st = (ts, st1)" by (simp add: ts_def st1_def)
  have part: "space_part st1 = space_part st" "st_port st1 = st_port st" "st_space st1 = st_space st" "st_ite st1 = st_ite st"
    by (simp_all add: st1_def ipc_port_timestamp_def space_part_def)
  have same: "table_listing st1 = table_listing st" "tree_listing st1 = tree_listing st" "tree_entries st1 = tree_entries st"
      "entry_lists ts st1 = entry_lists ts st"
    using part by (auto simp: fun_eq_iff table_listing_def tree_listing_def tree_entries_def mach_port_names_helper_def)
  obtain fl where fl: "space_ok st space fl {}" and set: "space_settled st space" using ok by (auto simp: rights_ok_def at_rest_def space_settled_def)
  have room: "length (space_listing st space) \<le> unat sz div 4"
    using listing_caps(3) [OF fl] memory_enough [OF memory size] by simp
  let ?tab = "lists_all ts st (table_listing st space [0..<is_table_size ?s])"
  have tab: "names_table ts (unat sz div 4) space [0..<is_table_size ?s] [] st1 = Some ?tab"
    using names_table_lists [of "[]" st1 space "[0..<is_table_size ?s]" "unat sz div 4" ts] room same by (simp add: space_listing_def)
  have vis: "visit (names_tree_entry ts (unat sz div 4) space st1) (Some ?tab) (tree_entries st space) =
      (Some (?tab @ lists_all ts st (tree_listing st (tree_entries st space))), tree_entries st space)"
    using names_tree_lists [of ?tab st1 "tree_entries st space" "unat sz div 4" ts space] room same
      lists_all_length [of ts st "table_listing st space [0..<is_table_size ?s]"] by (simp add: space_listing_def)
  have inv: "ist_invar (is_tree ?s)" using tree_okD(1) [of st space] table_okD(1) fl by (auto simp: space_ok_def)
  obtain t where t: "ipc_splay_traverse (names_tree_entry ts (unat sz div 4) space st1) (Some ?tab) (is_tree ?s) =
      Some (Some (?tab @ lists_all ts st (tree_listing st (tree_entries st space))), t)" "ist_entries t = tree_entries st space" "ist_invar t"
    using traverse_correct [OF inv, of "names_tree_entry ts (unat sz div 4) space st1" "Some ?tab"] vis by (auto simp: tree_entries_def)
  have "at_rest st1 space" using ok rest_cong [OF part(1), of space] by (simp only: rights_ok_def)
  note rest1 = rights_ok_same(1) [OF ok this caps_cong [OF part(1)]] caps_cong [OF part(1), of space]
  have ok1: "rights_ok st1 space" using rest1(1) part(2) by simp
  then have set1: "space_settled st1 space" by (simp only: rights_ok_def at_rest_def)
  have t1: "ist_entries t = tree_entries st1 space" using t(2) same(3) by simp
  have life: "life (set_tree space t st1) space = life st1 space" by simp
  have "at_rest (set_tree space t st1) space"
    using retree_settled [OF set1 t1 t(3)] life ok1 unfolding rights_ok_def at_rest_def life_def by simp
  moreover have "space_caps (set_tree space t st1) space = space_caps st1 space" by (rule retree(2) [OF t1 t(3)])
  moreover have p2: "st_port (set_tree space t st1) = st_port st1" by (simp add: set_tree_def upd_space_def)
  ultimately have ok2: "rights_ok (set_tree space t st1) space" using rights_ok_same(1) [OF ok1] by simp
  have "space \<noteq> IS_NULL" using ok by (simp add: rights_ok_def)
  then have "mach_port_names ms space st0 = Some (Inr (lists_all ts st (space_listing st space)), set_tree space t st1)"
    using memory st1 tab t(1) part(3) by (simp add: mach_port_names_def space_listing_def)
  then show thesis using that ok2 retree(2) [OF t1 t(3)] rest1(2) p2 part(2) by (simp add: ts_def)
qed

lemma lists_all_names:
  "distinct (map fst cs) \<Longrightarrow> distinct (map fst (lists_all timestamp st cs)) \<and> fst ` set (lists_all timestamp st cs) \<subseteq> fst ` set cs"
proof (induction cs)
  case (Cons x cs)
  obtain n c where x: "x = (n, c)" by (cases x)
  note e = entry_name(2) [of timestamp st n c] entry_name(1) [of _ timestamp st n c]
  have "map fst (entry_lists timestamp st (n, c)) = [] \<or> map fst (entry_lists timestamp st (n, c)) = [n]"
    using e by (cases "entry_lists timestamp st (n, c)") (auto simp del: entry_lists.simps)
  then have k: "distinct (map fst (entry_lists timestamp st (n, c)))" "fst ` set (entry_lists timestamp st (n, c)) \<subseteq> {n}"
    by (auto simp flip: set_map simp del: entry_lists.simps)
  moreover have ih: "distinct (map fst (lists_all timestamp st cs))" "fst ` set (lists_all timestamp st cs) \<subseteq> fst ` set cs" "n \<notin> fst ` set cs"
    using Cons unfolding x by (simp_all del: entry_lists.simps)
  ultimately have "distinct (map fst (entry_lists timestamp st (n, c)) @ map fst (lists_all timestamp st cs))"
    unfolding distinct_append set_map by blast
  moreover have "fst ` (set (entry_lists timestamp st (n, c)) \<union> set (lists_all timestamp st cs)) \<subseteq> insert n (fst ` set cs)"
    using ih(2) k by blast
  moreover have "lists_all timestamp st (x # cs) = entry_lists timestamp st (n, c) @ lists_all timestamp st cs" by (simp add: x del: entry_lists.simps)
  ultimately show ?case by (simp only: x map_append set_append list.set image_insert fst_conv simp_thms)
qed simp

definition deaths_before :: "32 word \<Rightarrow> ipc_kernel \<Rightarrow> ipc_space_t \<Rightarrow> bool" where
  "deaths_before timestamp st space \<longleftrightarrow>
     (\<forall>n r port. space_rights st space n = Some (r, port) \<and> (send_urefs r \<noteq> None \<or> r = Send_once_right) \<longrightarrow>
        ip_active (st_port st port) \<or> IP_TIMESTAMP_ORDER (ip_timestamp (st_port st port)) timestamp)"

lemma listed_current:
  assumes ok: "rights_ok st space" and c: "space_caps st space n = Some c" and d: "deaths_before timestamp st space"
  shows "listed timestamp st (n, c) = (n, type_word (the (current_at st space n)))"
proof -
  obtain bits obj request where c': "c = (bits, obj, request)" by (cases c)
  have wt: "well_typed st space" using ok by (simp add: rights_ok_def)
  obtain r where r: "right_of bits = Some r" "space_rights st space n = Some (r, obj)" using caps_rights [OF wt] c c' by blast
  have "current (settled_alive timestamp (st_port st obj)) q r = current (ip_active (st_port st obj)) q r" for q
  proof (cases "send_urefs r \<noteq> None \<or> r = Send_once_right")
    case True
    then have "settled_alive timestamp (st_port st obj) = ip_active (st_port st obj)"
      using d r(2) unfolding deaths_before_def settled_alive_def by blast
    then show ?thesis by simp
  next
    case False
    then have "die q r = r" by (cases r) auto
    then show ?thesis by (simp add: current_def)
  qed
  then show ?thesis using c c' r(1) by (simp add: current_at_def)
qed

text \<open>
  C5. \<^verbatim>\<open>mach_port_names\<close> lists exactly the names of a space. With the memory that it has obtained, it
  never writes past the end of the answer; it lists no name twice, and a name of the new interface with
  a type exactly when \<^verbatim>\<open>mach_port_type\<close> then gives that type for the name; any other name in the answer
  is an old-style one of the space. It changes no right. The answer has fewer than \<open>2 ^ 30 - 1024\<close> elements,
  beyond which its size in bytes would wrap around, and the ports that have died did so before the call,
  as their timestamps tell.
\<close>

theorem mach_port_names_exact:
  assumes "names_memory ms 0 space st0 = Some (Inr sz, st)" and "rights_ok st space"
    and "is_table_size (st_space st space) + is_tree_total (st_space st space) < 2 ^ 30 - 1024"
    and "deaths_before (fst (ipc_port_timestamp st)) st space"
  shows "\<exists>names st'. mach_port_names ms space st0 = Some (Inr names, st') \<and> rights_ok st' space \<and>
    space_caps st' space = space_caps st space \<and> distinct (map fst names) \<and> fst ` set names \<subseteq> dom (space_caps st space) \<and>
    (\<forall>n t. plain st space n \<longrightarrow> ((n, t) \<in> set names \<longleftrightarrow> (\<exists>st''. mach_port_type space n st' = Some (Inr t, st''))))"
proof -
  let ?ts = "fst (ipc_port_timestamp st)"
  define names where "names = lists_all ?ts st (space_listing st space)"
  obtain st' where st': "mach_port_names ms space st0 = Some (Inr names, st')" "rights_ok st' space"
      "space_caps st' space = space_caps st space" "st_port st' = st_port st"
    unfolding names_def by (rule names_result [OF assms(2,1,3)])
  obtain fl where fl: "space_ok st space fl {}" using assms(2) by (auto simp: rights_ok_def at_rest_def space_settled_def)
  note caps = listing_caps(1) [OF fl]
  have cur: "current_at st' space n = current_at st space n" for n unfolding current_at_def st'(3,4) ..
  have d: "distinct (map fst names)" "fst ` set names \<subseteq> fst ` set (space_listing st space)"
    using lists_all_names [OF listing_caps(2) [OF fl]] unfolding names_def by blast+
  moreover have "fst ` set (space_listing st space) \<subseteq> dom (space_caps st space)" using caps by (auto simp: dom_def)
  moreover have "(n, t) \<in> set names \<longleftrightarrow> (\<exists>st''. mach_port_type space n st' = Some (Inr t, st''))" if pl: "plain st space n" for n t
  proof -
    have pl': "plain st' space n" using pl st'(3) unfolding plain_def by simp
    have e: "entry_lists ?ts st (n, c) = [(n, type_word (the (current_at st space n)))]" if "space_caps st space n = Some c" for c
      using plain_lists [OF assms(2) pl that] listed_current [OF assms(2) that assms(4)] by simp
    have "(n, t) \<in> set names \<longleftrightarrow> (\<exists>c. (n, c) \<in> set (space_listing st space) \<and> (n, t) \<in> set (entry_lists ?ts st (n, c)))"
      using entry_name(1) unfolding names_def set_concat set_map by (fastforce simp del: entry_lists.simps)
    also have "\<dots> \<longleftrightarrow> (\<exists>c. space_caps st space n = Some c \<and> t = type_word (the (current_at st space n)))" using caps e by (auto simp del: entry_lists.simps)
    also have "\<dots> \<longleftrightarrow> spec_type (current_at st space n) = Inr t"
      by (auto simp: spec_type_def current_at_def split: option.splits)
    also have "\<dots> \<longleftrightarrow> (\<exists>st''. mach_port_type space n st' = Some (Inr t, st''))"
      using type_always [OF st'(2) pl'] cur by auto
    finally show ?thesis .
  qed
  ultimately show ?thesis using st'(1-3) by blast
qed

theorem mach_port_names_exact_witness:
  "\<exists>names st'. mach_port_names [(True, True, \<lambda>st. st)] 0x1000 dead_kernel = Some (Inr names, st') \<and> distinct (map fst names) \<and>
     (\<forall>n t. (n, t) \<in> set names \<longleftrightarrow> (\<exists>st''. mach_port_type 0x1000 n st' = Some (Inr t, st'')))"
proof -
  let ?s = "st_space dead_kernel 0x1000"
  have act: "is_active ?s" using dead_kernel_ok by (simp add: rights_ok_def at_rest_def)
  have s: "is_table_size ?s + is_tree_total ?s = 4"
    by (simp add: dead_kernel_def right_kernel_def first_kernel_def ipc_entry_get_def one_space_def Let_def entries_sizes_small)
  have "names_memory [(True, True, \<lambda>st. st)] 0 0x1000 dead_kernel = Some (Inr (round_page 16), dead_kernel)"
    using act s by (simp add: names_memory.simps Let_def)
  moreover have "deaths_before ts dead_kernel 0x1000" for ts
    by (auto simp: deaths_before_def space_rights_def dead_kernel_caps dead_kernel_right split: if_splits)
  ultimately show ?thesis using mach_port_names_exact [OF _ dead_kernel_ok] s dead_kernel_plain by fastforce
qed

end
