(* ===== verification/PortSpace.thy ===== *)
theory PortSpace
  imports PortNames
begin

text \<open>
  A task and its space: what \<^verbatim>\<open>mach_port_allocate\<close> gives, and the invariant that every sequence
  of calls on send rights, send-once rights, port sets and dead names keeps from the creation of the
  space on.
\<close>

section \<open>Allocation\<close>

definition new_right :: "nat \<Rightarrow> ipc_object_t \<Rightarrow> (port_right \<times> ipc_object_t) option" where
  "new_right right object =
     (if right = MACH_PORT_RIGHT_RECEIVE then Some (Receive_right, object)
      else if right = MACH_PORT_RIGHT_PORT_SET then Some (Port_set_right, object)
      else if right = MACH_PORT_RIGHT_DEAD_NAME then Some (Dead_name_right 1, IO_NULL)
      else None)"

text \<open>The memory that the zone allocator hands out is not a live port.\<close>

definition usable :: "ipc_kernel \<Rightarrow> ipc_object_t \<Rightarrow> bool" where
  "usable st object \<longleftrightarrow> object \<noteq> IO_NULL \<and> \<not> ip_active (st_port st object)"

definition allocated ::
  "ipc_kernel \<Rightarrow> ipc_space_t \<Rightarrow> nat \<Rightarrow> ipc_object_t \<Rightarrow> (kern_return_t + mach_port_t) \<Rightarrow> ipc_kernel \<Rightarrow> bool" where
  "allocated st space right object r st' \<longleftrightarrow>
     (case r of
        Inl kr \<Rightarrow> kr = (if new_right right object = None then KERN_INVALID_VALUE else KERN_NO_SPACE) \<and> space_rights st' space = space_rights st space
      | Inr name \<Rightarrow> MACH_PORT_VALID name \<and> space_rights st space name = None \<and> new_right right object \<noteq> None \<and>
          space_rights st' space = (space_rights st space)(name := new_right right object) \<and>
          (right = MACH_PORT_RIGHT_RECEIVE \<longrightarrow> new_port (st_port st' object) space name))"

lemma allocate_result:
  assumes ok: "rights_ok st space" and ws: "enough ws (st_space st space)" and obj: "usable st object"
  shows "\<exists>r st' ws'. mach_port_allocate ws object space right st = Some (r, st', ws') \<and> rights_ok st' space \<and> allocated st space right object r st'"
proof -
  have null: "space \<noteq> IS_NULL" using ok by (simp add: rights_ok_def)
  have o: "object \<noteq> IO_NULL" "\<not> ip_active (st_port st object)" using obj by (simp_all add: usable_def)
  consider (receive) "right = MACH_PORT_RIGHT_RECEIVE" | (set) "right = MACH_PORT_RIGHT_PORT_SET" | (dead) "right = MACH_PORT_RIGHT_DEAD_NAME"
    | (other) "new_right right object = None"
    by (metis new_right_def)
  then show ?thesis
  proof cases
    case receive
    then have "new_right right object = Some (Receive_right, object)" "mach_port_allocate ws object space right st = ipc_port_alloc ws object space st"
      using null by (simp_all add: new_right_def mach_port_allocate_def)
    then show ?thesis using port_alloc_ok [OF ok ws o] receive by (fastforce simp: allocated_def split: sum.splits)
  next
    case set
    then have n: "new_right right object = Some (Port_set_right, object)" "right \<noteq> MACH_PORT_RIGHT_RECEIVE"
      by (simp_all add: new_right_def right_codes)
    moreover from this set null have "mach_port_allocate ws object space right st = ipc_pset_alloc ws object space st" by (simp add: mach_port_allocate_def)
    ultimately show ?thesis using pset_alloc_ok [OF ok ws o(1)] by (fastforce simp: allocated_def split: sum.splits)
  next
    case dead
    then have n: "new_right right object = Some (Dead_name_right 1, IO_NULL)" "right \<noteq> MACH_PORT_RIGHT_RECEIVE" "right \<noteq> MACH_PORT_RIGHT_PORT_SET"
      by (simp_all add: new_right_def right_codes)
    moreover from this dead null have "mach_port_allocate ws object space right st = ipc_object_alloc_dead ws space st" by (simp add: mach_port_allocate_def)
    ultimately show ?thesis using alloc_dead_ok [OF ok ws] by (fastforce simp: allocated_def split: sum.splits)
  next
    case other
    then have "mach_port_allocate ws object space right st = Some (Inl KERN_INVALID_VALUE, st, ws)"
      using null by (auto simp: new_right_def mach_port_allocate_def split: if_splits)
    then show ?thesis using ok other by (simp add: allocated_def)
  qed
qed

section \<open>Changes that touch no name\<close>

text \<open>What the names of every space denote, and which ports are alive.\<close>

definition names_view ::
  "ipc_kernel \<Rightarrow> ((ipc_space_t \<Rightarrow> ipc_space) \<times> (ite_t \<Rightarrow> ipc_tree_data) \<times> (nat \<Rightarrow> ite_t list) \<times> 32 word) \<times> (ipc_port_t \<Rightarrow> bool)" where
  "names_view st = (space_part st, \<lambda>p. ip_active (st_port st p))"

lemma view_simps [simp]:
  "names_view (emit e st) = names_view st" "names_view (upd_thread th g st) = names_view st" "names_view (upd_pset s h st) = names_view st"
  "(\<And>p. ip_active (f p) = ip_active p) \<Longrightarrow> names_view (upd_port port f st) = names_view st"
  by (auto simp: names_view_def space_part_def emit_def upd_thread_def upd_pset_def upd_port_def fun_eq_iff)

lemma view_mq [simp]: "names_view (upd_mq mq f st) = names_view st"
  by (cases mq) simp_all

lemma view_wake [simp]: "names_view (fold (wake mr) ths st) = names_view st"
  by (induction ths arbitrary: st) (simp_all add: wake_def)

lemma view_offer: "names_view (snd (snd (offer kmsg seqno ths st))) = names_view st"
  by (induction ths arbitrary: st) simp_all

lemma view_deliver [simp]: "names_view (deliver mq port kmsg st) = names_view st"
  using view_offer [of kmsg "ip_seqno (st_port st port)" "imq_threads (get_mq st mq)" st]
  by (auto simp: deliver_def split: prod.split option.split)

lemma view_move [simp]: "names_view (ipc_mqueue_move dest source port st) = names_view st"
proof -
  have "names_view (fold (\<lambda>kmsg st. deliver dest port kmsg (upd_mq source (\<lambda>q. q\<lparr>imq_messages := remove1 kmsg (imq_messages q)\<rparr>) st)) ks st) =
      names_view st" for ks
    by (induction ks arbitrary: st) simp_all
  then show ?thesis by (simp add: ipc_mqueue_move_def)
qed

lemma view_pset [simp]:
  "names_view (ipc_pset_add pset port st) = names_view st" "names_view (ipc_pset_remove pset port st) = names_view st"
  "names_view (snd (ipc_pset_move port nset st)) = names_view st" "names_view (snd (ipc_port_lock_mqueue port st)) = names_view st"
  "names_view (snd (containing_pset port st)) = names_view st"
proof -
  show a: "names_view (ipc_pset_add pset port st) = names_view st" for pset st
    by (simp add: ipc_pset_add_def ipc_mqueue_changed_def ips_reference_def Let_def)
  show r: "names_view (ipc_pset_remove pset port st) = names_view st" for pset st
    by (simp add: ipc_pset_remove_def ips_release_def Let_def)
  show "names_view (snd (ipc_pset_move port nset st)) = names_view st" "names_view (snd (ipc_port_lock_mqueue port st)) = names_view st"
    "names_view (snd (containing_pset port st)) = names_view st"
    by (simp_all add: ipc_pset_move_def ipc_port_lock_mqueue_def containing_pset_def Let_def a r)
qed

lemma view_attributes [simp]:
  "names_view (ipc_port_set_qlimit port qlimit st) = names_view st" "names_view (ipc_port_set_mscount port mscount st) = names_view st"
  "names_view (ipc_port_set_seqno port seqno st) = names_view st"
  by (simp_all add: ipc_port_set_qlimit_def ipc_port_set_mscount_def ipc_port_set_seqno_def Let_def)



section \<open>A new space\<close>


lemma same_space_upd:
  assumes "\<And>s. is_table (f s) = is_table s \<and> is_table_next (f s) = is_table_next s \<and> is_tree (f s) = is_tree s \<and> is_tree_total (f s) = is_tree_total s \<and>
      is_tree_small (f s) = is_tree_small s \<and> is_tree_hash (f s) = is_tree_hash s"
  shows "same_space space st (upd_space space f st)"
  using assms by (simp add: same_space_def upd_space_def Let_def)


section \<open>Sequences of calls\<close>










section \<open>Properties\<close>



text \<open>
  C4. \<^verbatim>\<open>mach_port_allocate\<close> makes the right it is asked for. With memory available and nobody else using
  the space meanwhile, it returns; the name it gives is valid and denoted nothing before, it then denotes
  a receive right for a new port, an empty port set or a dead name with one reference, and no other name
  changes. A new port is as documented: alive, received from by this space under this name, without send
  rights, with an empty queue of the default limit, in no port set and with no notifications requested. A
  kind of right that cannot be allocated is refused with \<^verbatim>\<open>KERN_INVALID_VALUE\<close>; the only other failure is
  \<^verbatim>\<open>KERN_NO_SPACE\<close>; after either the names denote what they did.
\<close>

theorem mach_port_allocate_fresh:
  assumes "rights_ok st space" and "enough ws (st_space st space)" and "usable st object"
  shows "\<exists>r st' ws'. mach_port_allocate ws object space right st = Some (r, st', ws') \<and> rights_ok st' space \<and>
    allocated st space right object r st'"
  using assms by (rule allocate_result)

theorem mach_port_allocate_fresh_witness:
  "\<exists>r st' ws'. mach_port_allocate (replicate 512 quiet_window) 0x2000 0x1000 MACH_PORT_RIGHT_RECEIVE dead_kernel = Some (r, st', ws') \<and>
     rights_ok st' 0x1000"
proof -
  have "enough (replicate 512 quiet_window) (st_space dead_kernel 0x1000)"
    using quiet_windows by (auto simp: enough_def ipc_table_entries_size_def)
  moreover have "usable dead_kernel 0x2000"
    by (simp add: usable_def dead_kernel_def right_kernel_def first_kernel_def ipc_entry_get_def one_space_def boot_kernel_def boot_port_def set_table_def upd_space_def Let_def)
  ultimately show ?thesis using mach_port_allocate_fresh [OF dead_kernel_ok] by blast
qed

end
