(* ===== verification/OldRights.thy ===== *)
theory OldRights
  imports PortSpace
begin

text \<open>
  Two ways in which rights of the old interface break the invariant of a space: taking a send right
  out of a message of the old format leaves its slot in the reverse hash table behind, and copying in an
  old-style right whose port has died frees its entry twice.
\<close>

unbundle bit_operations_syntax

section \<open>A slot left behind\<close>

lemma old_send_leaves_slot:
  assumes h: "holds st space name (Table k) bits obj 0" and r: "right_of bits = Some (Send_right u)" and live: "ip_active (st_port st obj)"
  shows "\<exists>st'. ipc_right_copyin_compat space name (Table k) MSG_TYPE_PORT True st = Some (Inr obj, st') \<and>
    space_caps st' space name = None \<and> k \<in> hashed (is_table (st_space st' space)) \<and> \<not> hash_ok st' space"
proof -
  note d = holdsD [OF h]
  let ?t = "is_table (st_space st space)"
  have ty: "IE_BITS_TYPE bits = MACH_PORT_TYPE_SEND" using type_of_bits [OF r] by simp
  have k: "MACH_PORT_INDEX name = k" "k < length ?t" using d(2) by (auto simp: space_names_def Let_def split: if_splits)
  obtain fl where ok: "space_ok st space fl {}" "hash_ok st space" using h by (auto simp: holds_def space_settled_def)
  have k0: "k \<noteq> 0" using table_ok_type_zero [of "st_space st space" fl "{}"] ok(1) d(3) ty by (cases k) (auto simp: space_ok_def)
  define st1 where "st1 = upd_entry space (Table k) (\<lambda>e. e\<lparr>ie_object := IO_NULL\<rparr>) st"
  define t' where "t' = is_table (st_space (dealloc_free st1 space k) space)"
  have "ie_bits (get_entry st1 space (Table k)) AND IE_BITS_COLLISION = 0" using d(3,9) k(2) by (simp add: st1_def)
  then have "ipc_entry_dealloc st1 space name (Table k) = Some (dealloc_free st1 space k)"
    using k by (simp add: ipc_entry_dealloc_def in_table_def st1_def)
  then have r1: "ipc_right_copyin_compat space name (Table k) MSG_TYPE_PORT True st = Some (Inr obj, dealloc_free st1 space k)"
    using ty d(3-7) live
    by (simp add: ipc_right_copyin_compat_def compat_move_send_def ipc_right_check_def ipc_right_dncancel_macro_def st1_def notify_port_deleted_def)
  have t': "length t' = length ?t" "ie_index (t' ! i) = ie_index (?t ! i)" if "i < length ?t" for i
    using k(2) k0 that by (cases "i = 0"; cases "i = k"; simp add: t'_def dealloc_free_def st1_def Let_def)+
  have free: "IE_BITS_TYPE (ie_bits (t' ! k)) = 0"
    using k(2) k0 by (simp add: t'_def dealloc_free_def st1_def Let_def IE_BITS_TYPE_def)
  have len: "length t' = length ?t" using t'(1) k(2) by blast
  have "k \<in> hashed ?t" using ok(2) k(2) d(3) ty by (simp add: hash_ok_def sends_def Let_def)
  then have h': "k \<in> hashed t'" using t'(2) len by (auto simp: hashed_def held_def)
  moreover have "k \<notin> sends t'" using free by (simp add: sends_def)
  ultimately have "\<not> hash_ok (dealloc_free st1 space k) space" by (auto simp: hash_ok_def Let_def t'_def)
  moreover have "space_caps (dealloc_free st1 space k) space name = None"
    using caps_in_table [of name "dealloc_free st1 space k" space] k free len by (simp flip: t'_def)
  ultimately show ?thesis using r1 h' t'_def by blast
qed

section \<open>An entry freed twice\<close>

text \<open>
  A space with one old-style send-once right, under the name 1, whose port has died. Copying it in frees the
  entry when the death is noticed and once more on return, so the free list runs into itself:
  the next two names that the space gives out are the same.
\<close>

definition old_kernel :: ipc_kernel where
  "old_kernel = right_kernel (IE_BITS_COMPAT OR MACH_PORT_TYPE_SEND_ONCE OR 1) 0x2000 1"

lemma old_kernel_table:
  "is_table (st_space old_kernel 0x1000) =
     [zero_entry\<lparr>ie_request := 2\<rparr>, zero_entry\<lparr>ie_bits := 0x440001, ie_object := 0x2000, ie_request := 1\<rparr>, zero_entry\<lparr>ie_request := 3\<rparr>, zero_entry]"
proof -
  have u: "[0..<4] = [0, 1, 2, 3]" by (simp add: upt_rec)
  have "new_table 4 = [zero_entry\<lparr>ie_request := 1\<rparr>, zero_entry\<lparr>ie_request := 2\<rparr>, zero_entry\<lparr>ie_request := 3\<rparr>, zero_entry]"
    unfolding new_table_def u by (simp add: zero_entry_def)
  then show ?thesis
    by (simp add: old_kernel_def right_kernel_def first_kernel_def ipc_entry_get_def one_space_def entries_sizes_small Let_def zero_entry_def)
qed

lemma old_kernel_dead: "\<not> ip_active (st_port old_kernel p)" and old_kernel_active: "is_active (st_space old_kernel 0x1000)"
  by (simp_all add: old_kernel_def right_kernel_def first_kernel_def ipc_entry_get_def one_space_def boot_kernel_def boot_port_def
      set_table_def upd_space_def Let_def)

lemma old_copyin_frees_twice:
  "\<exists>st1 st2 st3. ipc_object_copyin 0x1000 1 MACH_MSG_TYPE_COPY_SEND old_kernel = Some (Inl KERN_INVALID_NAME, st1) \<and>
     ipc_entry_get st1 0x1000 = (Inr (1, Table 1), st2) \<and> ipc_entry_get st2 0x1000 = (Inr (1, Table 1), st3)"
proof -
  have l: "ipc_right_lookup_write 0x1000 1 old_kernel = (Inr (Table 1), old_kernel)"
    using old_kernel_active
    by (simp add: ipc_right_lookup_write_def ipc_entry_lookup_def old_kernel_table MACH_PORT_INDEX_def IE_BITS_TYPE_def IE_BITS_GEN_def
        MACH_PORT_GEN_def Let_def zero_entry_def)
  show ?thesis
    unfolding ipc_object_copyin_def l
    by (simp add: ipc_right_copyin_def copyin_send_rights_def ipc_right_check_def old_kernel_dead old_kernel_table ipc_entry_dealloc_def
        in_table_def MACH_PORT_INDEX_def dealloc_free_def ipc_entry_get_def ip_release_def IE_BITS_TYPE_def MACH_PORT_MAKE_def Let_def zero_entry_def)
qed

section \<open>A code that is not documented\<close>

text \<open>
  \<^verbatim>\<open>port_set_deallocate\<close> passes the code of the lookup on, where the old interface promises
  \<^verbatim>\<open>KERN_INVALID_ARGUMENT\<close> for a name that denotes no port set.
\<close>

lemma port_set_deallocate_code:
  assumes ok: "rights_ok st space" and none: "space_caps st space name = None"
  shows "\<exists>st'. port_set_deallocate locked space name st = Some (KERN_INVALID_NAME, st')"
proof -
  obtain st1 where "ipc_right_lookup_write space name st = (Inl KERN_INVALID_NAME, st1)" using lookup_fails [OF ok none] by blast
  then show ?thesis using ok by (simp add: port_set_deallocate_def rights_ok_def)
qed

end
