(* ===== verification/Queues.thy ===== *)
theory Queues
  imports Capability
begin

text \<open>
  The queues of the kernel, down to their pointers: the circular lists of messages
  (\<^verbatim>\<open>ipc/ipc_kmsg.[ch]\<close>) and of threads (\<^verbatim>\<open>ipc/ipc_thread.[ch]\<close>), known by their first element, and the
  general queues of \<^verbatim>\<open>kern/queue.[ch]\<close>, whose head is an element of the circle. The memory is the two
  link fields of every address.
\<close>

type_synonym address = "32 word"

record chain =
  chain_next :: "address \<Rightarrow> address"
  chain_prev :: "address \<Rightarrow> address"

definition set_next :: "address \<Rightarrow> address \<Rightarrow> chain \<Rightarrow> chain" where
  "set_next a b m = m\<lparr>chain_next := (chain_next m)(a := b)\<rparr>"

definition set_prev :: "address \<Rightarrow> address \<Rightarrow> chain \<Rightarrow> chain" where
  "set_prev a b m = m\<lparr>chain_prev := (chain_prev m)(a := b)\<rparr>"

section \<open>Queues of messages\<close>

abbreviation IKM_NULL :: address where "IKM_NULL \<equiv> 0"
definition IKM_BOGUS :: address where "IKM_BOGUS = 0xffffff10"

text \<open>A queue is the pointer to its first message; an operation on it gives the new pointer and the links.\<close>

definition ipc_kmsg_queue_init :: address where
  "ipc_kmsg_queue_init = IKM_NULL"

definition ipc_kmsg_queue_empty :: "address \<Rightarrow> bool" where
  "ipc_kmsg_queue_empty base \<longleftrightarrow> base = IKM_NULL"

definition ipc_kmsg_queue_first :: "address \<Rightarrow> address" where
  "ipc_kmsg_queue_first base = base"

definition ipc_kmsg_enqueue :: "address \<Rightarrow> address \<Rightarrow> chain \<Rightarrow> address \<times> chain" where
  "ipc_kmsg_enqueue base kmsg m =
     (let first = base
      in if first = IKM_NULL then (kmsg, set_prev kmsg kmsg (set_next kmsg kmsg m))
         else
           let last = chain_prev m first
           in (base, set_next last kmsg (set_prev first kmsg (set_prev kmsg last (set_next kmsg first m)))))"

definition ipc_kmsg_rmqueue_first :: "address \<Rightarrow> address \<Rightarrow> chain \<Rightarrow> address \<times> chain" where
  "ipc_kmsg_rmqueue_first base kmsg m =
     (let next = chain_next m kmsg;
          (base, m) =
            (if next = kmsg then (IKM_NULL, m)
             else let prev = chain_prev m kmsg in (next, set_next prev next (set_prev next prev m)))
      in (base, set_prev kmsg IKM_BOGUS (set_next kmsg IKM_BOGUS m)))"

definition ipc_kmsg_dequeue :: "address \<Rightarrow> chain \<Rightarrow> address \<times> address \<times> chain" where
  "ipc_kmsg_dequeue base m =
     (let first = ipc_kmsg_queue_first base
      in if first \<noteq> IKM_NULL then (first, ipc_kmsg_rmqueue_first base first m) else (first, base, m))"

definition ipc_kmsg_rmqueue :: "address \<Rightarrow> address \<Rightarrow> chain \<Rightarrow> address \<times> chain" where
  "ipc_kmsg_rmqueue base kmsg m =
     (let next = chain_next m kmsg;
          prev = chain_prev m kmsg;
          (base, m) =
            (if next = kmsg then (IKM_NULL, m)
             else (if base = kmsg then next else base, set_next prev next (set_prev next prev m)))
      in (base, set_prev kmsg IKM_BOGUS (set_next kmsg IKM_BOGUS m)))"

definition ipc_kmsg_queue_next :: "address \<Rightarrow> address \<Rightarrow> chain \<Rightarrow> address" where
  "ipc_kmsg_queue_next base kmsg m = (let next = chain_next m kmsg in if base = next then IKM_NULL else next)"

section \<open>Queues of threads\<close>

abbreviation ITH_NULL :: address where "ITH_NULL \<equiv> 0"

text \<open>A thread that is in no queue is linked to itself; putting it into an empty queue relies on that.\<close>

definition ipc_thread_links_init :: "address \<Rightarrow> chain \<Rightarrow> chain" where
  "ipc_thread_links_init thread m = set_prev thread thread (set_next thread thread m)"

definition ipc_thread_enqueue :: "address \<Rightarrow> address \<Rightarrow> chain \<Rightarrow> address \<times> chain" where
  "ipc_thread_enqueue base thread m =
     (let first = base
      in if first = ITH_NULL then (thread, m)
         else
           let last = chain_prev m first
           in (base, set_next last thread (set_prev first thread (set_prev thread last (set_next thread first m)))))"

definition ipc_thread_rmqueue_first :: "address \<Rightarrow> address \<Rightarrow> chain \<Rightarrow> address \<times> chain" where
  "ipc_thread_rmqueue_first base thread m =
     (let next = chain_next m thread
      in if next = thread then (ITH_NULL, m)
         else
           let prev = chain_prev m thread
           in (next, ipc_thread_links_init thread (set_next prev next (set_prev next prev m))))"

definition ipc_thread_dequeue :: "address \<Rightarrow> chain \<Rightarrow> address \<times> address \<times> chain" where
  "ipc_thread_dequeue base m =
     (let first = base
      in if first \<noteq> ITH_NULL then (first, ipc_thread_rmqueue_first base first m) else (first, base, m))"

definition ipc_thread_rmqueue :: "address \<Rightarrow> address \<Rightarrow> chain \<Rightarrow> address \<times> chain" where
  "ipc_thread_rmqueue base thread m =
     (let next = chain_next m thread;
          prev = chain_prev m thread
      in if next = thread then (ITH_NULL, m)
         else (if base = thread then next else base,
               ipc_thread_links_init thread (set_next prev next (set_prev next prev m))))"

section \<open>General queues\<close>

text \<open>
  Every statement of the source is one update, in the order of the source, so that the cases in which
  pointers coincide are those of the code.
\<close>

definition queue_init :: "address \<Rightarrow> chain \<Rightarrow> chain" where
  "queue_init q m = set_next q q (set_prev q q m)"

definition queue_empty :: "address \<Rightarrow> chain \<Rightarrow> bool" where
  "queue_empty q m \<longleftrightarrow> q = chain_next m q"

definition enqueue_head :: "address \<Rightarrow> address \<Rightarrow> chain \<Rightarrow> chain" where
  "enqueue_head que elt m =
     (let m = set_next elt (chain_next m que) m;
          m = set_prev elt que m;
          m = set_prev (chain_next m elt) elt m
      in set_next que elt m)"

definition enqueue_tail :: "address \<Rightarrow> address \<Rightarrow> chain \<Rightarrow> chain" where
  "enqueue_tail que elt m =
     (let m = set_next elt que m;
          m = set_prev elt (chain_prev m que) m;
          m = set_next (chain_prev m elt) elt m
      in set_prev que elt m)"

definition dequeue_head :: "address \<Rightarrow> chain \<Rightarrow> address \<times> chain" where
  "dequeue_head que m =
     (if chain_next m que = que then (0, m)
      else
        let elt = chain_next m que;
            m = set_prev (chain_next m elt) que m
        in (elt, set_next que (chain_next m elt) m))"

definition dequeue_tail :: "address \<Rightarrow> chain \<Rightarrow> address \<times> chain" where
  "dequeue_tail que m =
     (if chain_prev m que = que then (0, m)
      else
        let elt = chain_prev m que;
            m = set_next (chain_prev m elt) que m
        in (elt, set_prev que (chain_prev m elt) m))"

definition remqueue :: "address \<Rightarrow> address \<Rightarrow> chain \<Rightarrow> chain" where
  "remqueue que elt m =
     (let m = set_prev (chain_next m elt) (chain_prev m elt) m
      in set_next (chain_prev m elt) (chain_next m elt) m)"

definition insque :: "address \<Rightarrow> address \<Rightarrow> chain \<Rightarrow> chain" where
  "insque entry pred m =
     (let m = set_next entry (chain_next m pred) m;
          m = set_prev entry pred m;
          m = set_prev (chain_next m pred) entry m
      in set_next pred entry m)"

definition remque :: "address \<Rightarrow> chain \<Rightarrow> address \<times> chain" where
  "remque elt m =
     (let m = set_prev (chain_next m elt) (chain_prev m elt) m
      in (elt, set_next (chain_prev m elt) (chain_next m elt) m))"

text \<open>The macros for structures with a chain in them.\<close>

definition queue_enter :: "address \<Rightarrow> address \<Rightarrow> chain \<Rightarrow> chain" where
  "queue_enter head elt m =
     (let prev = chain_prev m head;
          m = (if head = prev then set_next head elt m else set_next prev elt m);
          m = set_prev elt prev m;
          m = set_next elt head m
      in set_prev head elt m)"

definition queue_enter_first :: "address \<Rightarrow> address \<Rightarrow> chain \<Rightarrow> chain" where
  "queue_enter_first head elt m =
     (let next = chain_next m head;
          m = (if head = next then set_prev head elt m else set_prev next elt m);
          m = set_next elt next m;
          m = set_prev elt head m
      in set_next head elt m)"

definition queue_remove :: "address \<Rightarrow> address \<Rightarrow> chain \<Rightarrow> chain" where
  "queue_remove head elt m =
     (let next = chain_next m elt;
          prev = chain_prev m elt;
          m = (if head = next then set_prev head prev m else set_prev next prev m)
      in if head = prev then set_next head next m else set_next prev next m)"

definition queue_remove_first :: "address \<Rightarrow> chain \<Rightarrow> address \<times> chain" where
  "queue_remove_first head m =
     (let entry = chain_next m head;
          next = chain_next m entry;
          m = (if head = next then set_prev head head m else set_prev next head m)
      in (entry, set_next head next m))"

definition queue_remove_last :: "address \<Rightarrow> chain \<Rightarrow> address \<times> chain" where
  "queue_remove_last head m =
     (let entry = chain_prev m head;
          prev = chain_prev m entry;
          m = (if head = prev then set_next head head m else set_next prev head m)
      in (entry, set_prev head prev m))"

definition queue_assign :: "address \<Rightarrow> address \<Rightarrow> chain \<Rightarrow> chain" where
  "queue_assign to from m =
     (let m = set_next (chain_prev m from) to m;
          m = set_prev (chain_next m from) to m
      in set_prev to (chain_prev m from) (set_next to (chain_next m from) m))"

end
