(* ===== verification/QueueRings.thy ===== *)
theory QueueRings
  imports Queues
begin

text \<open>
  The queues of the kernel are lists: a circle of linked elements stands for the list of the elements in
  the order of the links, and each operation on the links is the operation on the list. The links of
  elements of other queues stay as they are.
\<close>

lemma set_links [simp]:
  "chain_next (set_next a b m) = (chain_next m)(a := b)" "chain_prev (set_next a b m) = chain_prev m"
  "chain_next (set_prev a b m) = chain_next m" "chain_prev (set_prev a b m) = (chain_prev m)(a := b)"
  by (simp_all add: set_next_def set_prev_def)

section \<open>Circles\<close>

fun linked :: "chain \<Rightarrow> address list \<Rightarrow> bool" where
  "linked m (a # b # xs) \<longleftrightarrow> chain_next m a = b \<and> chain_prev m b = a \<and> linked m (b # xs)"
| "linked m _ \<longleftrightarrow> True"

definition ring :: "chain \<Rightarrow> address list \<Rightarrow> bool" where
  "ring m xs \<longleftrightarrow> distinct xs \<and> (xs \<noteq> [] \<longrightarrow> linked m (xs @ [hd xs]))"

lemma linked_append: "linked m (xs @ a # ys) \<longleftrightarrow> linked m (xs @ [a]) \<and> linked m (a # ys)"
  by (induction m xs rule: linked.induct) auto

lemma linked_cong:
  assumes "\<And>a. a \<in> set (butlast xs) \<Longrightarrow> chain_next m' a = chain_next m a" and "\<And>a. a \<in> set (tl xs) \<Longrightarrow> chain_prev m' a = chain_prev m a"
  shows "linked m' xs \<longleftrightarrow> linked m xs"
  using assms by (induction m xs rule: linked.induct) auto

lemma ring_cong:
  assumes "\<And>a. a \<in> set xs \<Longrightarrow> chain_next m' a = chain_next m a \<and> chain_prev m' a = chain_prev m a"
  shows "ring m' xs \<longleftrightarrow> ring m xs"
proof -
  have "xs \<noteq> [] \<Longrightarrow> linked m' (xs @ [hd xs]) \<longleftrightarrow> linked m (xs @ [hd xs])"
    using assms by (intro linked_cong) (auto simp: butlast_append dest: list.set_sel(2) [rotated])
  then show ?thesis by (auto simp: ring_def)
qed

lemma ring_rotate1: "ring m (x # xs) \<longleftrightarrow> ring m (xs @ [x])"
proof (cases xs)
  case (Cons y ys)
  have "linked m (x # y # ys @ [x]) \<longleftrightarrow> linked m ((y # ys) @ [x, y])"
    using linked_append [of m "y # ys" x "[y]"] by auto
  then show ?thesis by (auto simp: ring_def Cons)
qed simp

lemma ring_rotate: "ring m (xs @ ys) \<longleftrightarrow> ring m (ys @ xs)"
proof (induction xs arbitrary: ys)
  case (Cons x xs)
  then show ?case using ring_rotate1 [of m x "xs @ ys"] Cons [of "ys @ [x]"] by simp
qed simp

lemma ring_links:
  assumes "ring m (x # xs)"
  shows "chain_next m x = hd (xs @ [x])" and "chain_prev m x = last (x # xs)"
proof -
  have l: "linked m (x # xs @ [x])" using assms by (simp add: ring_def)
  then show "chain_next m x = hd (xs @ [x])" by (cases xs) auto
  have "linked m ((x # xs) @ [x])" using l by simp
  then show "chain_prev m x = last (x # xs)"
    using linked_append [of m "butlast (x # xs)" "last (x # xs)" "[x]"] append_butlast_last_id [of "x # xs"]
    by (metis append.assoc append_Cons append_Nil linked.simps(1) list.distinct(1))
qed

text \<open>An element is put into the circle behind the last one.\<close>

lemma ring_insert:
  assumes r: "ring m xs" "xs \<noteq> []" and k: "k \<notin> set xs"
    and m': "chain_next m' = (chain_next m)(k := hd xs, last xs := k)" "chain_prev m' = (chain_prev m)(k := last xs, hd xs := k)"
  shows "ring m' (xs @ [k])"
proof -
  obtain ys z where xs: "xs = ys @ [z]" using r(2) by (metis append_butlast_last_id)
  have d: "distinct xs" "linked m (xs @ [hd xs])" using r by (simp_all add: ring_def)
  have "linked m xs" using d(2) linked_append [of m ys z "[hd xs]"] unfolding xs by simp
  moreover have "hd xs \<notin> set (tl xs)" using d(1) r(2) by (cases xs) auto
  ultimately have "linked m' xs"
    using d(1) k m' xs by (subst linked_cong [of _ _ m]) (auto dest: list.set_sel(2) [rotated])
  moreover have "chain_next m' z = k" "chain_prev m' k = z" "chain_next m' k = hd xs" "chain_prev m' (hd xs) = k"
    using m' k xs r(2) hd_in_set [OF r(2)] by auto
  ultimately have "linked m' (ys @ [z, k, hd xs])" using linked_append [of m' ys z "[k, hd xs]"] unfolding xs by simp
  then show ?thesis using d(1) k by (auto simp: ring_def xs hd_append)
qed

text \<open>The first element is taken out.\<close>

lemma ring_remove:
  assumes r: "ring m (k # xs)" "xs \<noteq> []"
    and m': "\<And>a. a \<in> set xs \<Longrightarrow> chain_next m' a = ((chain_next m)(last xs := hd xs)) a"
      "\<And>a. a \<in> set xs \<Longrightarrow> chain_prev m' a = ((chain_prev m)(hd xs := last xs)) a"
  shows "ring m' xs"
proof -
  obtain ys z where xs: "xs = ys @ [z]" using r(2) by (metis append_butlast_last_id)
  have d: "distinct xs" "linked m (k # xs @ [k])" using r by (simp_all add: ring_def)
  have "linked m xs" using d(2) linked_append [of m "[]" k "xs @ [k]"] linked_append [of m ys z "[k]"] r(2) unfolding xs by (cases ys) auto
  moreover have "hd xs \<notin> set (tl xs)" using d(1) r(2) by (cases xs) auto
  ultimately have "linked m' xs"
    using d(1) m' xs list.set_sel(2) [OF r(2)] by (subst linked_cong [of _ _ m]) (fastforce simp: butlast_append)+
  moreover have "chain_next m' z = hd xs" "chain_prev m' (hd xs) = z"
    using m'(1) [of z] m'(2) [OF hd_in_set [OF r(2)]] xs by auto
  ultimately have "linked m' (ys @ [z, hd xs])" using linked_append [of m' ys z "[hd xs]"] unfolding xs by simp
  then show ?thesis using d(1) by (simp add: ring_def xs)
qed

section \<open>Queues known by their first element\<close>

text \<open>What both kinds of queue in the IPC code stand for, from the pointer to the first element.\<close>

definition based :: "address \<Rightarrow> chain \<Rightarrow> address list \<Rightarrow> bool" where
  "based base m xs \<longleftrightarrow> ring m xs \<and> 0 \<notin> set xs \<and> base = (case xs of [] \<Rightarrow> 0 | x # _ \<Rightarrow> x)"

definition alone :: "chain \<Rightarrow> address \<Rightarrow> bool" where
  "alone m a \<longleftrightarrow> chain_next m a = a \<and> chain_prev m a = a"

text \<open>The links of every element outside a set are as before.\<close>

definition keeps :: "address set \<Rightarrow> chain \<Rightarrow> chain \<Rightarrow> bool" where
  "keeps A m m' \<longleftrightarrow> (\<forall>a. a \<notin> A \<longrightarrow> chain_next m' a = chain_next m a \<and> chain_prev m' a = chain_prev m a)"

lemma keeps_based: "keeps A m m' \<Longrightarrow> A \<inter> set ws = {} \<Longrightarrow> based b m' ws \<longleftrightarrow> based b m ws"
  using ring_cong [of ws m' m] by (auto simp: keeps_def based_def)

lemma based_simps [simp]:
  "based base m [] \<longleftrightarrow> base = 0"
  "based base m (x # xs) \<longleftrightarrow> base = x \<and> ring m (x # xs) \<and> x \<noteq> 0 \<and> 0 \<notin> set xs"
  by (auto simp: based_def ring_def)

lemma ring_single [simp]: "ring m [x] \<longleftrightarrow> alone m x"
  by (auto simp: ring_def alone_def)

lemma based_first: "based base m xs \<Longrightarrow> base = 0 \<longleftrightarrow> xs = []"
  by (cases xs) auto

text \<open>An element of the list, with the ones before and behind it in the circle.\<close>

lemma ring_at:
  assumes "ring m (ys @ k # zs)"
  shows "ring m (k # zs @ ys)" "chain_next m k = hd (zs @ ys @ [k])" "chain_prev m k = last (k # zs @ ys)"
proof -
  show r: "ring m (k # zs @ ys)" using assms ring_rotate [of m ys "k # zs"] by simp
  show "chain_next m k = hd (zs @ ys @ [k])" "chain_prev m k = last (k # zs @ ys)" using ring_links [OF r] by simp_all
qed

lemma ring_distinct: "ring m xs \<Longrightarrow> distinct xs"
  by (simp add: ring_def)

text \<open>Putting elements in one after another, and taking out as many as asked for.\<close>

fun put_all :: "(address \<Rightarrow> address \<Rightarrow> chain \<Rightarrow> address \<times> chain) \<Rightarrow> address list \<Rightarrow> address \<times> chain \<Rightarrow> address \<times> chain" where
  "put_all enq [] s = s"
| "put_all enq (k # ks) s = put_all enq ks (enq (fst s) k (snd s))"

fun take_all :: "(address \<Rightarrow> chain \<Rightarrow> address \<times> address \<times> chain) \<Rightarrow> nat \<Rightarrow> address \<times> chain \<Rightarrow> address list \<times> address \<times> chain" where
  "take_all deq 0 s = ([], s)"
| "take_all deq (Suc n) s =
     (let (x, s) = deq (fst s) (snd s); (xs, s) = take_all deq n s in (x # xs, s))"

text \<open>
  The contract of such a queue: the elements come out in the order in which they were put in, an element
  can be taken out of the middle, and no other queue is touched. What makes an element fit to be put in is
  up to the queue.
\<close>

locale first_queue =
  fixes fit :: "chain \<Rightarrow> address \<Rightarrow> bool"
    and enq :: "address \<Rightarrow> address \<Rightarrow> chain \<Rightarrow> address \<times> chain"
    and deq :: "address \<Rightarrow> chain \<Rightarrow> address \<times> address \<times> chain"
    and del :: "address \<Rightarrow> address \<Rightarrow> chain \<Rightarrow> address \<times> chain"
  assumes enq: "based base m xs \<Longrightarrow> k \<noteq> 0 \<Longrightarrow> k \<notin> set xs \<Longrightarrow> fit m k \<Longrightarrow> enq base k m = (base', m')
      \<Longrightarrow> based base' m' (xs @ [k]) \<and> keeps (set (xs @ [k])) m m'"
    and deq_none: "deq 0 m = (0, 0, m)"
    and deq: "based base m (x # xs) \<Longrightarrow> deq base m = (y, base', m')
      \<Longrightarrow> y = x \<and> based base' m' xs \<and> fit m' x \<and> keeps (set (x # xs)) m m'"
    and del: "based base m xs \<Longrightarrow> k \<in> set xs \<Longrightarrow> del base k m = (base', m')
      \<Longrightarrow> based base' m' (remove1 k xs) \<and> fit m' k \<and> keeps (set xs) m m'"
    and fit_kept: "keeps A m m' \<Longrightarrow> a \<notin> A \<Longrightarrow> fit m' a = fit m a"
begin

lemma put_all_based:
  "\<lbrakk>based base m xs; distinct (xs @ ks); 0 \<notin> set ks; \<And>k. k \<in> set ks \<Longrightarrow> fit m k; put_all enq ks (base, m) = (base', m')\<rbrakk>
   \<Longrightarrow> based base' m' (xs @ ks)"
proof (induction ks arbitrary: base m xs)
  case (Cons k ks)
  obtain b1 m1 where e: "enq base k m = (b1, m1)" by fastforce
  have s: "based b1 m1 (xs @ [k])" "keeps (set (xs @ [k])) m m1"
    using enq [OF Cons.prems(1) _ _ _ e] Cons.prems(2-4) by auto
  have "fit m1 a" if "a \<in> set ks" for a
    using that Cons.prems(2,4) by (subst fit_kept [OF s(2)]) auto
  then show ?case using Cons.IH [OF s(1)] Cons.prems e by auto
qed simp

lemma take_all_based:
  "based base m (ys @ xs) \<Longrightarrow> take_all deq (length ys) (base, m) = (zs, base', m') \<Longrightarrow> zs = ys \<and> based base' m' xs"
proof (induction ys arbitrary: base m zs)
  case (Cons y ys)
  obtain x b1 m1 where d: "deq base m = (x, b1, m1)" by (cases "deq base m") auto
  have s: "x = y" "based b1 m1 (ys @ xs)" using deq [OF _ d, of y "ys @ xs"] Cons.prems(1) by simp_all
  then show ?case using Cons.IH [OF s(2)] Cons.prems(2) d by (auto split: prod.splits)
qed simp

lemma fifo:
  assumes "distinct ks" "0 \<notin> set ks" "\<And>k. k \<in> set ks \<Longrightarrow> fit m k"
  obtains m' where "take_all deq (length ks) (put_all enq ks (0, m)) = (ks, 0, m')"
proof -
  obtain b1 m1 where e: "put_all enq ks (0, m) = (b1, m1)" by fastforce
  have b: "based b1 m1 ks" using put_all_based [of 0 m "[]" ks] assms e by simp
  obtain us b2 m2 where d: "take_all deq (length ks) (b1, m1) = (us, b2, m2)" by (cases "take_all deq (length ks) (b1, m1)") auto
  show thesis using take_all_based [of b1 m1 ks "[]"] b d e that by simp
qed

end

section \<open>The queues of messages and of threads\<close>

lemma based_enq:
  assumes q: "based base m (x # xs)" and k: "k \<noteq> 0" "k \<notin> set (x # xs)"
    and m': "m' = set_next (chain_prev m x) k (set_prev x k (set_prev k (chain_prev m x) (set_next k x m)))"
  shows "based base m' ((x # xs) @ [k]) \<and> keeps (set ((x # xs) @ [k])) m m'"
proof -
  have r: "ring m (x # xs)" and p: "chain_prev m x = last (x # xs)" using q ring_links(2) by auto
  have "ring m' ((x # xs) @ [k])" by (rule ring_insert [OF r _ k(2)]) (simp_all add: m' p)
  then show ?thesis using q k last_in_set [of "x # xs"] by (auto simp: keeps_def m' p)
qed

lemma based_at:
  assumes "based base m xs" "k \<in> set xs"
  obtains ys zs where "xs = ys @ k # zs" "remove1 k xs = ys @ zs" "k \<notin> set (ys @ zs)" "distinct (ys @ zs)" "ring m (k # zs @ ys)"
    "chain_next m k = hd (zs @ ys @ [k])" "chain_prev m k = last (k # zs @ ys)"
proof -
  obtain ys zs where xs: "xs = ys @ k # zs" using assms(2) by (meson split_list)
  have r: "ring m (ys @ k # zs)" using assms(1) by (simp add: based_def xs)
  show thesis using that [of ys zs] ring_at [OF r] ring_distinct [OF r] xs by (auto simp: remove1_append)
qed

lemma based_alone:
  assumes "based base m xs" "k \<in> set xs"
  shows "chain_next m k = k \<longleftrightarrow> xs = [k]"
proof -
  obtain ys zs where xs: "xs = ys @ k # zs" and d: "k \<notin> set (ys @ zs)" and l: "chain_next m k = hd (zs @ ys @ [k])"
    by (rule based_at [OF assms])
  show ?thesis using d l by (cases zs; cases ys) (auto simp: xs)
qed

lemma based_del:
  assumes q: "based base m xs" "k \<in> set xs" and n: "chain_next m k \<noteq> k"
    and m': "\<And>a. a \<in> set xs \<Longrightarrow> a \<noteq> k \<Longrightarrow> chain_next m' a = ((chain_next m)(chain_prev m k := chain_next m k)) a"
      "\<And>a. a \<in> set xs \<Longrightarrow> a \<noteq> k \<Longrightarrow> chain_prev m' a = ((chain_prev m)(chain_next m k := chain_prev m k)) a"
  shows "based (if base = k then chain_next m k else base) m' (remove1 k xs)"
  using q
proof (rule based_at)
  fix ys zs
  assume xs: "xs = ys @ k # zs" and rm: "remove1 k xs = ys @ zs" and d: "k \<notin> set (ys @ zs)"
    and r: "ring m (k # zs @ ys)" and l: "chain_next m k = hd (zs @ ys @ [k])" "chain_prev m k = last (k # zs @ ys)"
  have ne: "zs @ ys \<noteq> []" using n l(1) by auto
  then have l': "chain_next m k = hd (zs @ ys)" "chain_prev m k = last (zs @ ys)" using l by (auto simp: hd_append)
  have in_xs: "a \<in> set xs" "a \<noteq> k" if "a \<in> set (zs @ ys)" for a using that d xs by auto
  have "ring m' (zs @ ys)" using m' [OF in_xs] unfolding l' by (rule ring_remove [OF r ne])
  then have "ring m' (ys @ zs)" using ring_rotate by blast
  moreover have "0 \<notin> set (ys @ zs)" using q(1) by (simp add: based_def xs)
  moreover have "(if base = k then chain_next m k else base) = (case ys @ zs of [] \<Rightarrow> 0 | x # _ \<Rightarrow> x)"
    using q(1) d ne l'(1) by (cases ys; cases zs) (auto simp: based_def xs)
  ultimately show ?thesis by (simp add: based_def rm)
qed

lemma based_neighbours:
  assumes "based base m xs" "k \<in> set xs"
  shows "chain_next m k \<in> set xs" "chain_prev m k \<in> set xs"
proof -
  obtain ys zs where xs: "xs = ys @ k # zs" and l: "chain_next m k = hd (zs @ ys @ [k])" "chain_prev m k = last (k # zs @ ys)"
    by (rule based_at [OF assms])
  show "chain_next m k \<in> set xs" "chain_prev m k \<in> set xs"
    using hd_in_set [of "zs @ ys @ [k]"] last_in_set [of "k # zs @ ys"] unfolding l xs by auto
qed

text \<open>Taking out the first element is taking out an element, which happens to be the first.\<close>

lemma rmqueue_first: "ipc_kmsg_rmqueue_first k k m = ipc_kmsg_rmqueue k k m" "ipc_thread_rmqueue_first k k m = ipc_thread_rmqueue k k m"
  by (simp_all add: ipc_kmsg_rmqueue_first_def ipc_kmsg_rmqueue_def ipc_thread_rmqueue_first_def ipc_thread_rmqueue_def Let_def)

lemma kmsg_del:
  assumes q: "based base m xs" "k \<in> set xs" and op: "ipc_kmsg_rmqueue base k m = (base', m')"
  shows "based base' m' (remove1 k xs) \<and> keeps (set xs) m m'"
proof (cases "chain_next m k = k")
  case True
  then show ?thesis using q op based_alone [OF q] by (auto simp: ipc_kmsg_rmqueue_def keeps_def)
next
  case False
  have b: "base' = (if base = k then chain_next m k else base)"
    and m': "m' = set_prev k IKM_BOGUS (set_next k IKM_BOGUS (set_next (chain_prev m k) (chain_next m k) (set_prev (chain_next m k) (chain_prev m k) m)))"
    using op False by (auto simp: ipc_kmsg_rmqueue_def Let_def)
  have "based base' m' (remove1 k xs)" unfolding b by (rule based_del [OF q False]) (simp_all add: m')
  moreover have "keeps (set xs) m m'" using based_neighbours [OF q] q(2) by (auto simp: keeps_def m')
  ultimately show ?thesis ..
qed

lemma thread_del:
  assumes q: "based base m xs" "k \<in> set xs" and op: "ipc_thread_rmqueue base k m = (base', m')"
  shows "based base' m' (remove1 k xs) \<and> alone m' k \<and> keeps (set xs) m m'"
proof (cases "chain_next m k = k")
  case True
  then show ?thesis using q op based_alone [OF q] by (auto simp: ipc_thread_rmqueue_def keeps_def)
next
  case False
  have b: "base' = (if base = k then chain_next m k else base)"
    and m': "m' = ipc_thread_links_init k (set_next (chain_prev m k) (chain_next m k) (set_prev (chain_next m k) (chain_prev m k) m))"
    using op False by (auto simp: ipc_thread_rmqueue_def Let_def)
  have "based base' m' (remove1 k xs)" unfolding b by (rule based_del [OF q False]) (simp_all add: m' ipc_thread_links_init_def)
  moreover have "keeps (set xs) m m'" using based_neighbours [OF q] q(2) by (auto simp: keeps_def m' ipc_thread_links_init_def)
  ultimately show ?thesis by (simp add: alone_def m' ipc_thread_links_init_def)
qed

interpretation kmsgs: first_queue "\<lambda>_ _. True" ipc_kmsg_enqueue ipc_kmsg_dequeue ipc_kmsg_rmqueue
proof (unfold_locales, goal_cases)
  case (1 base m xs k base' m')
  show ?case
  proof (cases xs)
    case Nil
    then show ?thesis using 1 by (auto simp: ipc_kmsg_enqueue_def alone_def keeps_def)
  next
    case (Cons x ys)
    then show ?thesis using 1 based_enq [of base m x ys k m'] by (auto simp: ipc_kmsg_enqueue_def Let_def)
  qed
next
  case (3 base m x xs y base' m')
  then show ?case using kmsg_del [OF 3(1), of x base' m'] rmqueue_first(1) [of x m]
    by (auto simp: ipc_kmsg_dequeue_def ipc_kmsg_queue_first_def)
next
  case (4 base m xs k base' m')
  then show ?case using kmsg_del by blast
qed (simp_all add: ipc_kmsg_dequeue_def ipc_kmsg_queue_first_def)

interpretation threads: first_queue alone ipc_thread_enqueue ipc_thread_dequeue ipc_thread_rmqueue
proof (unfold_locales, goal_cases)
  case (1 base m xs k base' m')
  show ?case
  proof (cases xs)
    case Nil
    then show ?thesis using 1 by (auto simp: ipc_thread_enqueue_def keeps_def)
  next
    case (Cons x ys)
    then show ?thesis using 1 based_enq [of base m x ys k m'] by (auto simp: ipc_thread_enqueue_def Let_def)
  qed
next
  case (3 base m x xs y base' m')
  then show ?case using thread_del [OF 3(1), of x base' m'] rmqueue_first(2) [of x m]
    by (auto simp: ipc_thread_dequeue_def)
next
  case (4 base m xs k base' m')
  then show ?case using thread_del by blast
qed (simp_all add: ipc_thread_dequeue_def keeps_def alone_def)

section \<open>General queues\<close>

text \<open>The head is an element of the circle; the list is what stands behind it.\<close>

definition headed :: "address \<Rightarrow> chain \<Rightarrow> address list \<Rightarrow> bool" where
  "headed q m xs \<longleftrightarrow> ring m (q # xs)"

text \<open>An element enters behind another one of the circle.\<close>

lemma ring_after:
  assumes r: "ring m (ys @ p # zs)" and k: "k \<notin> set (ys @ p # zs)"
    and m': "chain_next m' = (chain_next m)(k := chain_next m p, p := k)" "chain_prev m' = (chain_prev m)(k := p, chain_next m p := k)"
  shows "ring m' (ys @ p # k # zs)"
proof -
  have r': "ring m ((zs @ ys) @ [p])" "chain_next m p = hd ((zs @ ys) @ [p])"
    using ring_at(1,2) [OF r] ring_rotate1 [of m p "zs @ ys"] by simp_all
  have "ring m' (((zs @ ys) @ [p]) @ [k])"
    by (rule ring_insert [OF r'(1)]) (use k m' r'(2) in auto)
  then show ?thesis using ring_rotate [of m' zs "ys @ [p, k]"] ring_rotate [of m' "ys @ [p, k]" zs] by simp
qed

lemma ring_before:
  assumes r: "ring m (ys @ p # zs)" and k: "k \<notin> set (ys @ p # zs)"
    and m': "chain_next m' = (chain_next m)(k := p, chain_prev m p := k)" "chain_prev m' = (chain_prev m)(k := chain_prev m p, p := k)"
  shows "ring m' (ys @ k # p # zs)"
proof -
  have r': "ring m (p # zs @ ys)" "chain_prev m p = last (p # zs @ ys)" using ring_at(1,3) [OF r] .
  have "ring m' ((p # zs @ ys) @ [k])"
    by (rule ring_insert [OF r'(1)]) (use k m' r'(2) in auto)
  then show ?thesis using ring_rotate [of m' "p # zs" "ys @ [k]"] by simp
qed

lemma ring_out:
  assumes r: "ring m (ys @ k # zs)" and ne: "ys @ zs \<noteq> []"
    and m': "chain_next m' = (chain_next m)(chain_prev m k := chain_next m k)" "chain_prev m' = (chain_prev m)(chain_next m k := chain_prev m k)"
  shows "ring m' (ys @ zs)"
proof -
  have r': "ring m (k # zs @ ys)" "chain_next m k = hd (zs @ ys)" "chain_prev m k = last (zs @ ys)"
    using ring_at [OF r] ne by (auto simp: hd_append)
  have "ring m' (zs @ ys)" by (rule ring_remove [OF r'(1)]) (use ne m' r'(2,3) in auto)
  then show ?thesis using ring_rotate by blast
qed

lemma head_links:
  assumes "headed q m xs"
  shows "chain_next m q = hd (xs @ [q])" "chain_prev m q = last (q # xs)"
  using ring_links assms by (auto simp: headed_def)

lemma headed_empty: "headed q m xs \<Longrightarrow> queue_empty q m \<longleftrightarrow> xs = []"
  using head_links(1) [of q m xs] ring_distinct [of m "q # xs"] by (cases xs) (auto simp: headed_def queue_empty_def)

lemma headed_enter:
  assumes q: "headed q m xs" and k: "k \<notin> set (q # xs)"
  shows "headed q (enqueue_tail q k m) (xs @ [k])" "headed q (enqueue_head q k m) (k # xs)"
proof -
  have "ring (enqueue_tail q k m) ([] @ k # q # xs)" "ring (enqueue_head q k m) ([] @ q # k # xs)"
    using ring_before [of m "[]" q xs k "enqueue_tail q k m"] ring_after [of m "[]" q xs k "enqueue_head q k m"] q k
    by (auto simp: headed_def enqueue_tail_def enqueue_head_def Let_def)
  then show "headed q (enqueue_tail q k m) (xs @ [k])" "headed q (enqueue_head q k m) (k # xs)"
    using ring_rotate1 [of _ k "q # xs"] by (simp_all add: headed_def)
qed

lemma headed_insque:
  assumes q: "headed q m (ys @ p # zs)" and k: "k \<notin> set (q # ys @ p # zs)"
  shows "headed q (insque k p m) (ys @ p # k # zs)"
proof -
  have "ring (insque k p m) ((q # ys) @ p # k # zs)"
    using q k by (intro ring_after [of m]) (auto simp: headed_def insque_def Let_def)
  then show ?thesis by (simp add: headed_def)
qed

lemma remqueue_links:
  "chain_next (remqueue que k m) = (chain_next m)(chain_prev m k := chain_next m k)"
  "chain_prev (remqueue que k m) = (chain_prev m)(chain_next m k := chain_prev m k)"
  by (simp_all add: remqueue_def Let_def)

lemma headed_remqueue:
  assumes q: "headed q m (ys @ k # zs)"
  shows "headed q (remqueue que k m) (ys @ zs)"
proof -
  have "ring (remqueue que k m) ((q # ys) @ zs)"
    using ring_out [of m "q # ys" k zs "remqueue que k m"] q by (simp add: headed_def remqueue_links)
  then show "headed q (remqueue que k m) (ys @ zs)" by (simp add: headed_def)
qed

lemma remque_remqueue: "remque k m = (k, remqueue que k m)"
  by (simp add: remque_def remqueue_def)

text \<open>Taking an element off an end is removing the element at that end.\<close>

lemma dequeue_ends:
  assumes "headed q m (x # xs)"
  shows "dequeue_head q m = (x, remqueue q x m)" "dequeue_tail q m = (last (x # xs), remqueue q (last (x # xs)) m)"
proof -
  have d: "q \<notin> set (x # xs)" using assms by (simp add: headed_def ring_def)
  have "chain_prev m x = q" using ring_at(3) [of m "[q]" x xs] assms
    by (simp add: headed_def)
  then show "dequeue_head q m = (x, remqueue q x m)"
    using head_links [OF assms] d by (auto simp: dequeue_head_def remqueue_def Let_def)
  obtain ys z where z: "x # xs = ys @ [z]" by (metis append_butlast_last_id list.distinct(1))
  have "chain_next m z = q" using ring_at(2) [of m "q # ys" z "[]"] assms unfolding z headed_def by simp
  then show "dequeue_tail q m = (last (x # xs), remqueue q (last (x # xs)) m)"
    using head_links [OF assms] d unfolding z by (auto simp: dequeue_tail_def remqueue_def Let_def)
qed

lemma dequeue_none: "headed q m [] \<Longrightarrow> dequeue_head q m = (0, m) \<and> dequeue_tail q m = (0, m)"
  using head_links [of q m "[]"] by (simp add: dequeue_head_def dequeue_tail_def)

lemma headed_assign:
  assumes q: "headed q m xs" and t: "t \<notin> set (q # xs)" and ne: "xs \<noteq> []"
  shows "headed t (queue_assign t q m) xs"
proof -
  have d: "distinct (q # xs)" using q by (simp add: headed_def ring_def)
  let ?m = "enqueue_head q t m"
  have "ring ?m ([] @ q # t # xs)" using headed_enter(2) [OF q t] by (simp add: headed_def)
  then have r: "ring (remqueue q q ?m) (t # xs)"
    using ring_out [of ?m "[]" q "t # xs" "remqueue q q ?m"] by (simp add: remqueue_links)
  have n: "hd xs \<noteq> q" "last xs \<noteq> q" "hd xs \<noteq> t" "last xs \<noteq> t" "t \<noteq> q" "chain_next m q = hd xs" "chain_prev m q = last xs"
    using head_links [OF q] hd_in_set [OF ne] last_in_set [OF ne] ne t d by auto
  have "chain_next (queue_assign t q m) = (chain_next m)(last xs := t, t := hd xs)" "chain_prev (queue_assign t q m) = (chain_prev m)(hd xs := t, t := last xs)"
    using n by (simp_all add: queue_assign_def Let_def)
  moreover have "chain_next (remqueue q q ?m) = (chain_next m)(t := hd xs, q := t, last xs := t)"
    "chain_prev (remqueue q q ?m) = (chain_prev m)(t := q, hd xs := t, t := last xs)"
    using n by (simp_all add: remqueue_def enqueue_head_def Let_def)
  ultimately have "chain_next (queue_assign t q m) a = chain_next (remqueue q q ?m) a \<and> chain_prev (queue_assign t q m) a = chain_prev (remqueue q q ?m) a"
    if "a \<in> set (t # xs)" for a
    using that n t d by auto
  then show ?thesis using ring_cong [of "t # xs"] r unfolding headed_def by blast
qed

text \<open>
  An empty queue is not carried over: the first statement makes the old head point to the new one, and the
  second follows that pointer. The new head passes for empty, but its backward link is to the old head.
\<close>

lemma queue_assign_empty:
  assumes "headed q m []" "t \<noteq> q"
  shows "queue_empty t (queue_assign t q m)" "chain_prev (queue_assign t q m) t = q" "\<not> headed t (queue_assign t q m) xs"
proof -
  have l: "chain_next m q = q" "chain_prev m q = q" using head_links [OF assms(1)] by simp_all
  show e: "queue_empty t (queue_assign t q m)" using l assms(2) by (simp add: queue_assign_def queue_empty_def Let_def)
  show p: "chain_prev (queue_assign t q m) t = q" using l assms(2) by (simp add: queue_assign_def Let_def)
  show "\<not> headed t (queue_assign t q m) xs"
    using e p assms(2) headed_empty [of t "queue_assign t q m" xs] head_links(2) [of t "queue_assign t q m" xs] by auto
qed

section \<open>Properties\<close>

lemma message_next:
  assumes "based base m (ys @ k # zs)"
  shows "ipc_kmsg_queue_next base k m = (case zs of [] \<Rightarrow> IKM_NULL | z # _ \<Rightarrow> z)"
proof -
  have r: "ring m (ys @ k # zs)" using assms by (simp add: based_def)
  show ?thesis using assms ring_at(2) [OF r] ring_distinct [OF r]
    by (cases zs; cases ys) (auto simp: based_def ipc_kmsg_queue_next_def Let_def)
qed

text \<open>
  C26. The queue of messages is a list, known by its first message: putting a message in appends it, taking one
  out gives the first and leaves the rest, and an empty queue gives no message; removing a message removes
  it wherever it is; the next message is the one that follows, and none follows the last. Another queue
  with none of the messages stays what it is.
\<close>

theorem message_queue_refines:
  assumes "based base m xs" "based other m ws" "set xs \<inter> set ws = {}"
  shows "(\<forall>k base' m'. k \<noteq> IKM_NULL \<and> k \<notin> set xs \<union> set ws \<and> ipc_kmsg_enqueue base k m = (base', m')
             \<longrightarrow> based base' m' (xs @ [k]) \<and> based other m' ws)
       \<and> (\<forall>k base' m'. ipc_kmsg_dequeue base m = (k, base', m')
             \<longrightarrow> k = (if xs = [] then IKM_NULL else hd xs) \<and> based base' m' (tl xs) \<and> based other m' ws)
       \<and> (\<forall>k base' m'. k \<in> set xs \<and> ipc_kmsg_rmqueue base k m = (base', m')
             \<longrightarrow> based base' m' (remove1 k xs) \<and> based other m' ws)
       \<and> (\<forall>ys k zs. xs = ys @ k # zs \<longrightarrow> ipc_kmsg_queue_next base k m = (case zs of [] \<Rightarrow> IKM_NULL | z # _ \<Rightarrow> z))
       \<and> ipc_kmsg_queue_empty base = (xs = [])"
  (is "?enq \<and> ?deq \<and> ?del \<and> ?next \<and> _")
proof (intro conjI)
  show ?enq using kmsgs.enq [OF assms(1)] keeps_based [OF _ _, of _ m _ ws other] assms(2,3) by fastforce
  show ?deq
  proof (cases xs)
    case Nil
    then show ?thesis using assms kmsgs.deq_none [of m] by auto
  next
    case (Cons x ys)
    then show ?thesis using kmsgs.deq [OF assms(1) [unfolded Cons]] keeps_based [OF _ _, of "set xs" m _ ws other] assms by auto
  qed
  show ?del using kmsgs.del [OF assms(1)] keeps_based [OF _ _, of "set xs" m _ ws other] assms(2,3) by blast
  show ?next using assms(1) message_next by blast
  show "ipc_kmsg_queue_empty base = (xs = [])" using based_first [OF assms(1)] by (simp add: ipc_kmsg_queue_empty_def)
qed

text \<open>Three elements in one queue, one in another, and a queue head with two elements.\<close>

definition sample_links :: chain where
  "sample_links =
     \<lparr>chain_next = id(0x10 := 0x20, 0x20 := 0x30, 0x30 := 0x10, 0x60 := 0x70, 0x70 := 0x80, 0x80 := 0x60),
      chain_prev = id(0x10 := 0x30, 0x20 := 0x10, 0x30 := 0x20, 0x60 := 0x80, 0x70 := 0x60, 0x80 := 0x70)\<rparr>"

lemma sample_based: "based 0x10 sample_links [0x10, 0x20, 0x30]" "based 0x50 sample_links [0x50]" "headed 0x60 sample_links [0x70, 0x80]"
  by (simp_all add: based_def ring_def alone_def headed_def sample_links_def)

theorem message_queue_refines_witness:
  "based 0x10 sample_links [0x10, 0x20, 0x30] \<and> based 0x50 sample_links [0x50]
   \<and> (case ipc_kmsg_rmqueue 0x10 0x20 sample_links of (base, m) \<Rightarrow> based base m [0x10, 0x30] \<and> based 0x50 m [0x50])
   \<and> (case ipc_kmsg_dequeue 0x10 sample_links of (k, base, m) \<Rightarrow> k = 0x10 \<and> based base m [0x20, 0x30] \<and> based 0x50 m [0x50])"
proof (intro conjI sample_based)
  have d: "set [0x10, 0x20, 0x30] \<inter> set [0x50] = ({} :: address set)" by simp
  note q = message_queue_refines [OF sample_based(1,2) d]
  obtain b1 m1 where r: "ipc_kmsg_rmqueue 0x10 0x20 sample_links = (b1, m1)" by fastforce
  then show "case ipc_kmsg_rmqueue 0x10 0x20 sample_links of (base, m) \<Rightarrow> based base m [0x10, 0x30] \<and> based 0x50 m [0x50]"
    using q [THEN conjunct2, THEN conjunct2, THEN conjunct1, rule_format, of "0x20" b1 m1] by (simp del: based_simps)
  obtain k b2 m2 where r: "ipc_kmsg_dequeue 0x10 sample_links = (k, b2, m2)" by (cases "ipc_kmsg_dequeue 0x10 sample_links") auto
  then show "case ipc_kmsg_dequeue 0x10 sample_links of (k, base, m) \<Rightarrow> k = 0x10 \<and> based base m [0x20, 0x30] \<and> based 0x50 m [0x50]"
    using q [THEN conjunct2, THEN conjunct1, rule_format, of k b2 m2] by (simp del: based_simps)
qed

text \<open>
  C27. The queue of threads is a list in the same way, for threads that are linked to themselves while they
  are in no queue; every thread that is taken out is left linked to itself again, ready for the next queue.
\<close>

theorem thread_queue_refines:
  assumes "based base m xs" "based other m ws" "set xs \<inter> set ws = {}"
  shows "(\<forall>k base' m'. k \<noteq> ITH_NULL \<and> k \<notin> set xs \<union> set ws \<and> ipc_thread_enqueue base k (ipc_thread_links_init k m) = (base', m')
             \<longrightarrow> based base' m' (xs @ [k]) \<and> based other m' ws)
       \<and> (\<forall>k base' m'. ipc_thread_dequeue base m = (k, base', m')
             \<longrightarrow> k = (if xs = [] then ITH_NULL else hd xs) \<and> based base' m' (tl xs) \<and> (xs \<noteq> [] \<longrightarrow> alone m' k) \<and> based other m' ws)
       \<and> (\<forall>k base' m'. k \<in> set xs \<and> ipc_thread_rmqueue base k m = (base', m')
             \<longrightarrow> based base' m' (remove1 k xs) \<and> alone m' k \<and> based other m' ws)"
  (is "?enq \<and> ?deq \<and> ?del")
proof (intro conjI)
  have init: "keeps {k} m (ipc_thread_links_init k m)" "alone (ipc_thread_links_init k m) k" for k
    by (simp_all add: keeps_def alone_def ipc_thread_links_init_def)
  show ?enq
  proof (intro allI impI)
    fix k base' m'
    assume k: "k \<noteq> ITH_NULL \<and> k \<notin> set xs \<union> set ws \<and> ipc_thread_enqueue base k (ipc_thread_links_init k m) = (base', m')"
    have q: "based base (ipc_thread_links_init k m) xs" "based other (ipc_thread_links_init k m) ws"
      using keeps_based [OF init(1)] assms k by auto
    have "based base' m' (xs @ [k]) \<and> keeps (set (xs @ [k])) (ipc_thread_links_init k m) m'"
      using threads.enq [OF q(1) _ _ init(2)] k by blast
    then show "based base' m' (xs @ [k]) \<and> based other m' ws"
      using keeps_based [of "set (xs @ [k])" "ipc_thread_links_init k m" m' ws other] q(2) assms(3) k by auto
  qed
  show ?deq
  proof (cases xs)
    case Nil
    then show ?thesis using assms threads.deq_none [of m] by auto
  next
    case (Cons x ys)
    then show ?thesis using threads.deq [OF assms(1) [unfolded Cons]] keeps_based [OF _ _, of "set xs" m _ ws other] assms by auto
  qed
  show ?del using threads.del [OF assms(1)] keeps_based [OF _ _, of "set xs" m _ ws other] assms(2,3) by blast
qed

theorem thread_queue_refines_witness:
  "based 0x10 sample_links [0x10, 0x20, 0x30] \<and> based 0x50 sample_links [0x50]
   \<and> (case ipc_thread_rmqueue 0x10 0x10 sample_links of (base, m) \<Rightarrow> based base m [0x20, 0x30] \<and> alone m 0x10 \<and> based 0x50 m [0x50])
   \<and> (case ipc_thread_enqueue 0x10 0x40 (ipc_thread_links_init 0x40 sample_links) of (base, m) \<Rightarrow> based base m [0x10, 0x20, 0x30, 0x40])"
proof (intro conjI sample_based)
  have d: "set [0x10, 0x20, 0x30] \<inter> set [0x50] = ({} :: address set)" by simp
  note q = thread_queue_refines [OF sample_based(1,2) d]
  obtain b1 m1 where r: "ipc_thread_rmqueue 0x10 0x10 sample_links = (b1, m1)" by fastforce
  then show "case ipc_thread_rmqueue 0x10 0x10 sample_links of (base, m) \<Rightarrow> based base m [0x20, 0x30] \<and> alone m 0x10 \<and> based 0x50 m [0x50]"
    using q [THEN conjunct2, THEN conjunct2, rule_format, of "0x10" b1 m1] by (simp del: based_simps)
  obtain b2 m2 where r: "ipc_thread_enqueue 0x10 0x40 (ipc_thread_links_init 0x40 sample_links) = (b2, m2)" by fastforce
  then show "case ipc_thread_enqueue 0x10 0x40 (ipc_thread_links_init 0x40 sample_links) of (base, m) \<Rightarrow> based base m [0x10, 0x20, 0x30, 0x40]"
    using q [THEN conjunct1, rule_format, of "0x40" b2 m2] by (simp del: based_simps)
qed

text \<open>
  C29. What is sent is received in the order of sending: if distinct messages are put into an empty queue one
  after another, taking out as many gives exactly these messages in that order and leaves the queue empty;
  so it is with threads that wait, each of them linked to itself before.
\<close>

theorem queues_fifo:
  assumes "distinct ks" "0 \<notin> set ks"
  shows "(\<exists>m'. take_all ipc_kmsg_dequeue (length ks) (put_all ipc_kmsg_enqueue ks (ipc_kmsg_queue_init, m)) = (ks, IKM_NULL, m'))
       \<and> ((\<forall>k \<in> set ks. alone m k) \<longrightarrow>
           (\<exists>m'. take_all ipc_thread_dequeue (length ks) (put_all ipc_thread_enqueue ks (ITH_NULL, m)) = (ks, ITH_NULL, m')))"
  using kmsgs.fifo [OF assms, of m] threads.fifo [OF assms, of m] unfolding ipc_kmsg_queue_init_def by metis

theorem queues_fifo_witness:
  "\<exists>m'. take_all ipc_kmsg_dequeue 3 (put_all ipc_kmsg_enqueue [0x70, 0x50, 0x60] (ipc_kmsg_queue_init, sample_links)) = ([0x70, 0x50, 0x60], IKM_NULL, m')"
  using queues_fifo [of "[0x70, 0x50, 0x60]" sample_links] by (simp add: numeral_3_eq_3)

lemma split_remove: "k \<in> set xs \<Longrightarrow> \<exists>ys zs. xs = ys @ k # zs \<and> remove1 k xs = ys @ zs"
  using split_list_first [of k xs] by (metis remove1.simps(2) remove1_append)

lemma headed_take:
  assumes "headed q m xs" "xs \<noteq> []"
  shows "dequeue_head q m = (hd xs, remqueue q (hd xs) m) \<and> headed q (remqueue q (hd xs) m) (tl xs)"
    "dequeue_tail q m = (last xs, remqueue q (last xs) m) \<and> headed q (remqueue q (last xs) m) (butlast xs)"
proof -
  have "headed q m ([] @ hd xs # tl xs)" "headed q m (butlast xs @ last xs # [])" using assms by simp_all
  then show "dequeue_head q m = (hd xs, remqueue q (hd xs) m) \<and> headed q (remqueue q (hd xs) m) (tl xs)"
    "dequeue_tail q m = (last xs, remqueue q (last xs) m) \<and> headed q (remqueue q (last xs) m) (butlast xs)"
    using headed_remqueue dequeue_ends [of q m "hd xs" "tl xs"] assms by fastforce+
qed

text \<open>
  C28. The general queue is the list of the elements that follow the head: an empty one follows its
  initialisation; entering at the tail appends and at the head prepends; taking from the head gives the
  first element and from the tail the last, and nothing from an empty queue; an element anywhere can be
  removed, and another inserted behind it. \<^verbatim>\<open>queue_assign\<close> hands a queue with elements to another head;
  of an empty queue it makes none: the new head passes for empty, but has the old head behind it and
  heads no list of elements.
\<close>

theorem kern_queue_refines:
  "headed q (queue_init q m) []
   \<and> (headed q m xs \<longrightarrow>
        queue_empty q m = (xs = [])
      \<and> (\<forall>k. k \<notin> set (q # xs) \<longrightarrow> headed q (enqueue_tail q k m) (xs @ [k]) \<and> headed q (enqueue_head q k m) (k # xs))
      \<and> (xs = [] \<longrightarrow> dequeue_head q m = (0, m) \<and> dequeue_tail q m = (0, m))
      \<and> (xs \<noteq> [] \<longrightarrow> fst (dequeue_head q m) = hd xs \<and> headed q (snd (dequeue_head q m)) (tl xs)
                      \<and> fst (dequeue_tail q m) = last xs \<and> headed q (snd (dequeue_tail q m)) (butlast xs))
      \<and> (\<forall>k \<in> set xs. headed q (remqueue q k m) (remove1 k xs) \<and> remque k m = (k, remqueue q k m))
      \<and> (\<forall>ys p zs k. xs = ys @ p # zs \<and> k \<notin> set (q # xs) \<longrightarrow> headed q (insque k p m) (ys @ p # k # zs))
      \<and> (\<forall>t. xs \<noteq> [] \<and> t \<notin> set (q # xs) \<longrightarrow> headed t (queue_assign t q m) xs)
      \<and> (\<forall>t ys. xs = [] \<and> t \<noteq> q \<longrightarrow> queue_empty t (queue_assign t q m) \<and> chain_prev (queue_assign t q m) t = q
                                  \<and> \<not> headed t (queue_assign t q m) ys))"
proof (intro conjI impI allI ballI)
  show "headed q (queue_init q m) []" by (simp add: headed_def alone_def queue_init_def)
next
  fix k
  assume q: "headed q m xs" and k: "k \<in> set xs"
  obtain ys zs where "xs = ys @ k # zs" "remove1 k xs = ys @ zs" using split_remove [OF k] by blast
  then show "headed q (remqueue q k m) (remove1 k xs)" "remque k m = (k, remqueue q k m)"
    using headed_remqueue [of q m ys k zs q] remque_remqueue q by simp_all
qed (auto simp: headed_empty headed_enter headed_assign dequeue_none headed_take headed_insque queue_assign_empty simp del: list.set)

theorem kern_queue_refines_witness:
  "headed 0x60 sample_links [0x70, 0x80] \<and> headed 0x60 (enqueue_tail 0x60 0x90 sample_links) [0x70, 0x80, 0x90]
   \<and> fst (dequeue_tail 0x60 sample_links) = 0x80 \<and> headed 0x60 (remqueue 0x60 0x70 sample_links) [0x80]
   \<and> headed 0x60 (insque 0x90 0x70 sample_links) [0x70, 0x90, 0x80]"
proof -
  note q = kern_queue_refines [of "0x60" sample_links "[0x70, 0x80]", THEN conjunct2, rule_format, OF sample_based(3)]
  have "headed 0x60 (insque 0x90 0x70 sample_links) ([] @ 0x70 # 0x90 # [0x80])"
    using q by (elim conjE allE [of _ "[]"] allE [of _ "0x70"] allE [of _ "[0x80]"] allE [of _ "0x90"]) simp
  moreover have "headed 0x60 (remqueue 0x60 0x70 sample_links) [0x80]" using q by simp
  moreover have "headed 0x60 (enqueue_tail 0x60 0x90 sample_links) [0x70, 0x80, 0x90]" using q by (elim conjE allE [of _ "0x90"]) simp
  moreover have "fst (dequeue_tail 0x60 sample_links) = 0x80" using q by simp
  ultimately show ?thesis using sample_based(3) by simp
qed

text \<open>
  C30. The macros for structures with a chain in them do what the functions do: on a queue and an element that
  is not in it, \<^verbatim>\<open>queue_enter\<close> leaves the links that \<^verbatim>\<open>enqueue_tail\<close> leaves and \<^verbatim>\<open>queue_enter_first\<close> those of
  \<^verbatim>\<open>enqueue_head\<close>; \<^verbatim>\<open>queue_remove\<close> leaves those of \<^verbatim>\<open>remqueue\<close>, whatever the element; and on a queue that is not empty
  \<^verbatim>\<open>queue_remove_first\<close> and \<^verbatim>\<open>queue_remove_last\<close> are \<^verbatim>\<open>dequeue_head\<close> and \<^verbatim>\<open>dequeue_tail\<close>.
\<close>

theorem queue_macros_agree:
  "queue_remove q k m = remqueue q k m
   \<and> (headed q m xs \<longrightarrow>
        (k \<notin> set (q # xs) \<longrightarrow> queue_enter q k m = enqueue_tail q k m \<and> queue_enter_first q k m = enqueue_head q k m)
      \<and> (xs \<noteq> [] \<longrightarrow> queue_remove_first q m = dequeue_head q m \<and> queue_remove_last q m = dequeue_tail q m))"
proof (intro conjI impI)
  show "queue_remove q k m = remqueue q k m"
    by (auto simp: queue_remove_def remqueue_def Let_def intro!: chain.equality)
next
  assume q: "headed q m xs" and k: "k \<notin> set (q # xs)"
  have "chain_next m q \<noteq> k" "chain_prev m q \<noteq> k" "k \<noteq> q"
    using head_links [OF q] k hd_in_set [of "xs @ [q]"] last_in_set [of "q # xs"] by auto
  then show "queue_enter q k m = enqueue_tail q k m" "queue_enter_first q k m = enqueue_head q k m"
    by (auto simp: queue_enter_def queue_enter_first_def enqueue_tail_def enqueue_head_def Let_def fun_upd_twist intro!: chain.equality)
next
  assume q: "headed q m xs" and ne: "xs \<noteq> []"
  have "chain_next m q \<noteq> q" "chain_prev m q \<noteq> q"
    using head_links [OF q] ne q hd_in_set [of xs] last_in_set [of xs] ring_distinct [of m "q # xs"] by (auto simp: headed_def)
  then show "queue_remove_first q m = dequeue_head q m" "queue_remove_last q m = dequeue_tail q m"
    by (auto simp: queue_remove_first_def queue_remove_last_def dequeue_head_def dequeue_tail_def Let_def intro!: chain.equality)
qed

theorem queue_macros_agree_witness:
  "headed 0x60 sample_links [0x70, 0x80] \<and> queue_enter 0x60 0x90 sample_links = enqueue_tail 0x60 0x90 sample_links
   \<and> queue_remove_first 0x60 sample_links = dequeue_head 0x60 sample_links"
  using queue_macros_agree [of "0x60" "0x90" sample_links "[0x70, 0x80]"] sample_based(3) by simp

end
