(* ===== verification/Locks.thy ===== *)
theory Locks
  imports Prelude
begin

text \<open>
  Locks for readers and writers (\<^verbatim>\<open>kern/lock.[ch]\<close>). A routine runs under the interlock of the lock, which it
  gives up only while it spins or sleeps in one of its loops; what it does between is one step. The time
  to spin, \<^verbatim>\<open>lock_wait_time\<close>, is a parameter: it is zero on a single processor.
\<close>

record lock =
  lk_thread :: "32 word"
  read_count :: "16 word"
  want_upgrade :: bool
  want_write :: bool
  waiting :: bool
  can_sleep :: bool
  recursion_depth :: "12 word"

definition NO_THREAD :: "32 word" where "NO_THREAD = - 1"

definition lock_init :: "bool \<Rightarrow> lock" where
  "lock_init sleeps =
     \<lparr>lk_thread = NO_THREAD, read_count = 0, want_upgrade = False, want_write = False, waiting = False,
      can_sleep = sleeps, recursion_depth = 0\<rparr>"

definition lock_sleepable :: "bool \<Rightarrow> lock \<Rightarrow> lock" where
  "lock_sleepable sleeps l = l\<lparr>can_sleep := sleeps\<rparr>"

section \<open>Waiting\<close>

text \<open>The loops in which a routine waits, and how it leaves the interlock.\<close>

datatype phase = Want | Drain | Read_wait | Upgrade_wait | Try_upgrade_wait

datatype outcome = Returns | Returns_value bool | Spins phase | Sleeps phase

text \<open>
  \<^verbatim>\<open>while (cond) { if (lock_wait_time > 0) { unlock; spin; lock; } if (can_sleep && cond) sleep; }\<close>, from its
  head and from behind the spinning. A loop that can neither spin nor sleep goes on for ever with the
  interlock held: \<open>None\<close>.
\<close>

definition wait_head ::
  "nat \<Rightarrow> (lock \<Rightarrow> bool) \<Rightarrow> phase \<Rightarrow> (lock \<Rightarrow> (outcome \<times> lock) option) \<Rightarrow> lock \<Rightarrow> (outcome \<times> lock) option" where
  "wait_head lock_wait_time cond ph rest l =
     (if \<not> cond l then rest l
      else if 0 < lock_wait_time then Some (Spins ph, l)
      else if can_sleep l then Some (Sleeps ph, l\<lparr>waiting := True\<rparr>)
      else None)"

definition wait_tail ::
  "nat \<Rightarrow> (lock \<Rightarrow> bool) \<Rightarrow> phase \<Rightarrow> (lock \<Rightarrow> (outcome \<times> lock) option) \<Rightarrow> lock \<Rightarrow> (outcome \<times> lock) option" where
  "wait_tail lock_wait_time cond ph rest l =
     (if can_sleep l \<and> cond l then Some (Sleeps ph, l\<lparr>waiting := True\<rparr>)
      else wait_head lock_wait_time cond ph rest l)"

text \<open>What each loop waits to end.\<close>

fun blocked :: "phase \<Rightarrow> lock \<Rightarrow> bool" where
  "blocked Want l \<longleftrightarrow> want_write l"
| "blocked Drain l \<longleftrightarrow> read_count l \<noteq> 0 \<or> want_upgrade l"
| "blocked Read_wait l \<longleftrightarrow> want_write l \<or> want_upgrade l"
| "blocked Upgrade_wait l \<longleftrightarrow> read_count l \<noteq> 0"
| "blocked Try_upgrade_wait l \<longleftrightarrow> read_count l \<noteq> 0"

text \<open>What follows each loop. The loop of \<^verbatim>\<open>lock_try_read_to_write\<close> sleeps at once.\<close>

fun after_wait :: "nat \<Rightarrow> phase \<Rightarrow> lock \<Rightarrow> (outcome \<times> lock) option" where
  "after_wait time Want l =
     wait_head time (blocked Drain) Drain (\<lambda>l. Some (Returns, l)) (l\<lparr>want_write := True\<rparr>)"
| "after_wait time Drain l = Some (Returns, l)"
| "after_wait time Read_wait l = Some (Returns, l\<lparr>read_count := read_count l + 1\<rparr>)"
| "after_wait time Upgrade_wait l = Some (Returns_value False, l)"
| "after_wait time Try_upgrade_wait l = Some (Returns_value True, l)"

definition try_upgrade_loop :: "lock \<Rightarrow> outcome \<times> lock" where
  "try_upgrade_loop l =
     (if read_count l \<noteq> 0 then (Sleeps Try_upgrade_wait, l\<lparr>waiting := True\<rparr>) else (Returns_value True, l))"

definition resume_spin :: "nat \<Rightarrow> phase \<Rightarrow> lock \<Rightarrow> (outcome \<times> lock) option" where
  "resume_spin time ph l = wait_tail time (blocked ph) ph (after_wait time ph) l"

definition resume_sleep :: "nat \<Rightarrow> phase \<Rightarrow> lock \<Rightarrow> (outcome \<times> lock) option" where
  "resume_sleep time ph l =
     (if ph = Try_upgrade_wait then Some (try_upgrade_loop l)
      else wait_head time (blocked ph) ph (after_wait time ph) l)"

section \<open>Acquiring\<close>

definition lock_write :: "nat \<Rightarrow> 32 word \<Rightarrow> lock \<Rightarrow> (outcome \<times> lock) option" where
  "lock_write time self l =
     (if lk_thread l = self then Some (Returns, l\<lparr>recursion_depth := recursion_depth l + 1\<rparr>)
      else wait_head time (blocked Want) Want (after_wait time Want) l)"

definition lock_read :: "nat \<Rightarrow> 32 word \<Rightarrow> lock \<Rightarrow> (outcome \<times> lock) option" where
  "lock_read time self l =
     (if lk_thread l = self then Some (Returns, l\<lparr>read_count := read_count l + 1\<rparr>)
      else wait_head time (blocked Read_wait) Read_wait (after_wait time Read_wait) l)"

text \<open>The flag tells whether the threads that sleep on the lock are woken up. \<^verbatim>\<open>TRUE\<close> means that the upgrade failed.\<close>

definition lock_read_to_write :: "nat \<Rightarrow> 32 word \<Rightarrow> lock \<Rightarrow> (outcome \<times> lock \<times> bool) option" where
  "lock_read_to_write time self l =
     (let l = l\<lparr>read_count := read_count l - 1\<rparr>
      in if lk_thread l = self then Some (Returns_value False, l\<lparr>recursion_depth := recursion_depth l + 1\<rparr>, False)
         else if want_upgrade l then
           if waiting l \<and> read_count l = 0 then Some (Returns_value True, l\<lparr>waiting := False\<rparr>, True)
           else Some (Returns_value True, l, False)
         else
           map_option (\<lambda>(out, l). (out, l, False))
             (wait_head time (blocked Upgrade_wait) Upgrade_wait (after_wait time Upgrade_wait) (l\<lparr>want_upgrade := True\<rparr>)))"

definition lock_try_write :: "32 word \<Rightarrow> lock \<Rightarrow> bool \<times> lock" where
  "lock_try_write self l =
     (if lk_thread l = self then (True, l\<lparr>recursion_depth := recursion_depth l + 1\<rparr>)
      else if want_write l \<or> want_upgrade l \<or> read_count l \<noteq> 0 then (False, l)
      else (True, l\<lparr>want_write := True\<rparr>))"

definition lock_try_read :: "32 word \<Rightarrow> lock \<Rightarrow> bool \<times> lock" where
  "lock_try_read self l =
     (if lk_thread l = self then (True, l\<lparr>read_count := read_count l + 1\<rparr>)
      else if want_write l \<or> want_upgrade l then (False, l)
      else (True, l\<lparr>read_count := read_count l + 1\<rparr>))"

definition lock_try_read_to_write :: "32 word \<Rightarrow> lock \<Rightarrow> outcome \<times> lock" where
  "lock_try_read_to_write self l =
     (if lk_thread l = self then
        (Returns_value True, l\<lparr>read_count := read_count l - 1, recursion_depth := recursion_depth l + 1\<rparr>)
      else if want_upgrade l then (Returns_value False, l)
      else try_upgrade_loop (l\<lparr>want_upgrade := True, read_count := read_count l - 1\<rparr>))"

section \<open>Releasing\<close>

definition lock_done :: "lock \<Rightarrow> lock \<times> bool" where
  "lock_done l =
     (let l = (if read_count l \<noteq> 0 then l\<lparr>read_count := read_count l - 1\<rparr>
               else if recursion_depth l \<noteq> 0 then l\<lparr>recursion_depth := recursion_depth l - 1\<rparr>
               else if want_upgrade l then l\<lparr>want_upgrade := False\<rparr>
               else l\<lparr>want_write := False\<rparr>)
      in if waiting l \<and> read_count l = 0 then (l\<lparr>waiting := False\<rparr>, True) else (l, False))"

definition lock_write_to_read :: "lock \<Rightarrow> lock \<times> bool" where
  "lock_write_to_read l =
     (let l = l\<lparr>read_count := read_count l + 1\<rparr>;
          l = (if recursion_depth l \<noteq> 0 then l\<lparr>recursion_depth := recursion_depth l - 1\<rparr>
               else if want_upgrade l then l\<lparr>want_upgrade := False\<rparr>
               else l\<lparr>want_write := False\<rparr>)
      in if waiting l then (l\<lparr>waiting := False\<rparr>, True) else (l, False))"

text \<open>Both panic when the caller does not hold the lock as they demand: \<open>None\<close>.\<close>

definition lock_set_recursive :: "32 word \<Rightarrow> lock \<Rightarrow> lock option" where
  "lock_set_recursive self l = (if \<not> want_write l then None else Some (l\<lparr>lk_thread := self\<rparr>))"

definition lock_clear_recursive :: "32 word \<Rightarrow> lock \<Rightarrow> lock option" where
  "lock_clear_recursive self l =
     (if lk_thread l \<noteq> self then None
      else Some (if recursion_depth l = 0 then l\<lparr>lk_thread := NO_THREAD\<rparr> else l))"

section \<open>Threads that share a lock\<close>

datatype mode = Spin | Sleep | Ready

text \<open>What a thread has of the lock, or where it waits for it.\<close>

datatype use = Idle | Reading | Writing | Upgraded | Waiting phase mode

record lock_system =
  sys_lock :: lock
  sys_use :: "32 word \<Rightarrow> use"

fun obtains_use :: "phase \<Rightarrow> use" where
  "obtains_use Want = Writing" | "obtains_use Drain = Writing" | "obtains_use Read_wait = Reading"
| "obtains_use Upgrade_wait = Upgraded" | "obtains_use Try_upgrade_wait = Upgraded"

fun use_after :: "use \<Rightarrow> use \<Rightarrow> outcome \<Rightarrow> use" where
  "use_after yes no Returns = yes"
| "use_after yes no (Returns_value b) = (if b then yes else no)"
| "use_after yes no (Spins ph) = Waiting ph Spin"
| "use_after yes no (Sleeps ph) = Waiting ph Sleep"

text \<open>\<^verbatim>\<open>thread_wakeup\<close> makes every thread that sleeps on the lock ready to run.\<close>

definition wake :: "bool \<Rightarrow> (32 word \<Rightarrow> use) \<Rightarrow> 32 word \<Rightarrow> use" where
  "wake b u t = (case u t of Waiting ph Sleep \<Rightarrow> if b then Waiting ph Ready else u t | _ \<Rightarrow> u t)"

definition set_lock :: "32 word \<Rightarrow> use \<Rightarrow> lock \<Rightarrow> bool \<Rightarrow> lock_system \<Rightarrow> lock_system" where
  "set_lock t use l b s = \<lparr>sys_lock = l, sys_use = (wake b (sys_use s))(t := use)\<rparr>"

text \<open>
  The steps of threads that use the lock as they should: a thread that has nothing acquires, one that has
  the lock releases or changes it; a thread that made the lock its own (\<^verbatim>\<open>lock_set_recursive\<close>) may take it
  again, and gives back what it took before it clears the mark; the counters do not overflow.
\<close>

inductive lock_step :: "nat \<Rightarrow> lock_system \<Rightarrow> lock_system \<Rightarrow> bool" for time where
  acquire_write: "\<lbrakk>t \<noteq> NO_THREAD; sys_use s t = Idle; lock_write time t (sys_lock s) = Some (out, l)\<rbrakk>
     \<Longrightarrow> lock_step time s (set_lock t (use_after Writing Idle out) l False s)"
| acquire_read: "\<lbrakk>t \<noteq> NO_THREAD; sys_use s t = Idle; read_count (sys_lock s) \<noteq> - 1; lock_read time t (sys_lock s) = Some (out, l)\<rbrakk>
     \<Longrightarrow> lock_step time s (set_lock t (use_after Reading Idle out) l False s)"
| try_write: "\<lbrakk>t \<noteq> NO_THREAD; sys_use s t = Idle; lock_try_write t (sys_lock s) = (b, l)\<rbrakk>
     \<Longrightarrow> lock_step time s (set_lock t (if b then Writing else Idle) l False s)"
| try_read: "\<lbrakk>t \<noteq> NO_THREAD; sys_use s t = Idle; read_count (sys_lock s) \<noteq> - 1; lock_try_read t (sys_lock s) = (b, l)\<rbrakk>
     \<Longrightarrow> lock_step time s (set_lock t (if b then Reading else Idle) l False s)"
| read_to_write: "\<lbrakk>sys_use s t = Reading; lock_read_to_write time t (sys_lock s) = Some (out, l, b)\<rbrakk>
     \<Longrightarrow> lock_step time s (set_lock t (use_after Idle Upgraded out) l b s)"
| try_read_to_write: "\<lbrakk>sys_use s t = Reading; lock_try_read_to_write t (sys_lock s) = (out, l)\<rbrakk>
     \<Longrightarrow> lock_step time s (set_lock t (use_after Upgraded Reading out) l False s)"
| write_to_read: "\<lbrakk>sys_use s t = Writing \<or> sys_use s t = Upgraded; lk_thread (sys_lock s) \<noteq> t; lock_write_to_read (sys_lock s) = (l, b)\<rbrakk>
     \<Longrightarrow> lock_step time s (set_lock t Reading l b s)"
| release: "\<lbrakk>sys_use s t \<in> {Reading, Writing, Upgraded}; lk_thread (sys_lock s) \<noteq> t; lock_done (sys_lock s) = (l, b)\<rbrakk>
     \<Longrightarrow> lock_step time s (set_lock t Idle l b s)"
| spun: "\<lbrakk>t \<noteq> NO_THREAD; sys_use s t = Waiting ph Spin; read_count (sys_lock s) \<noteq> - 1; resume_spin time ph (sys_lock s) = Some (out, l)\<rbrakk>
     \<Longrightarrow> lock_step time s (set_lock t (use_after (obtains_use ph) (obtains_use ph) out) l False s)"
| woken: "\<lbrakk>t \<noteq> NO_THREAD; sys_use s t = Waiting ph Ready; read_count (sys_lock s) \<noteq> - 1; resume_sleep time ph (sys_lock s) = Some (out, l)\<rbrakk>
     \<Longrightarrow> lock_step time s (set_lock t (use_after (obtains_use ph) (obtains_use ph) out) l False s)"
| set_recursive: "\<lbrakk>sys_use s t = Writing \<or> sys_use s t = Upgraded; lk_thread (sys_lock s) = NO_THREAD; lock_set_recursive t (sys_lock s) = Some l\<rbrakk>
     \<Longrightarrow> lock_step time s (s\<lparr>sys_lock := l\<rparr>)"
| clear_recursive: "\<lbrakk>t \<noteq> NO_THREAD; read_count (sys_lock s) = 0; lock_clear_recursive t (sys_lock s) = Some l\<rbrakk>
     \<Longrightarrow> lock_step time s (s\<lparr>sys_lock := l\<rparr>)"
| again_write: "\<lbrakk>t \<noteq> NO_THREAD; lk_thread (sys_lock s) = t; recursion_depth (sys_lock s) \<noteq> - 1;
      lock_write time t (sys_lock s) = Some (out, l) \<or> lock_try_write t (sys_lock s) = (b, l)\<rbrakk>
     \<Longrightarrow> lock_step time s (s\<lparr>sys_lock := l\<rparr>)"
| again_read: "\<lbrakk>t \<noteq> NO_THREAD; lk_thread (sys_lock s) = t; read_count (sys_lock s) \<noteq> - 1;
      lock_read time t (sys_lock s) = Some (out, l) \<or> lock_try_read t (sys_lock s) = (b, l)\<rbrakk>
     \<Longrightarrow> lock_step time s (s\<lparr>sys_lock := l\<rparr>)"
| again_upgrade: "\<lbrakk>t \<noteq> NO_THREAD; lk_thread (sys_lock s) = t; read_count (sys_lock s) \<noteq> 0; recursion_depth (sys_lock s) \<noteq> - 1;
      lock_read_to_write time t (sys_lock s) = Some (out, l, b) \<or> lock_try_read_to_write t (sys_lock s) = (out, l)\<rbrakk>
     \<Longrightarrow> lock_step time s (s\<lparr>sys_lock := l\<rparr>)"
| again_downgrade: "\<lbrakk>t \<noteq> NO_THREAD; lk_thread (sys_lock s) = t; recursion_depth (sys_lock s) \<noteq> 0; read_count (sys_lock s) \<noteq> - 1;
      lock_write_to_read (sys_lock s) = (l, b)\<rbrakk>
     \<Longrightarrow> lock_step time s (set_lock t (sys_use s t) l b s)"
| again_release: "\<lbrakk>t \<noteq> NO_THREAD; lk_thread (sys_lock s) = t; read_count (sys_lock s) \<noteq> 0 \<or> recursion_depth (sys_lock s) \<noteq> 0;
      lock_done (sys_lock s) = (l, b)\<rbrakk>
     \<Longrightarrow> lock_step time s (set_lock t (sys_use s t) l b s)"
| sleepable: "lock_step time s (s\<lparr>sys_lock := lock_sleepable sleeps (sys_lock s)\<rparr>)"

definition lock_start :: "bool \<Rightarrow> lock_system" where
  "lock_start sleeps = \<lparr>sys_lock = lock_init sleeps, sys_use = \<lambda>_. Idle\<rparr>"

end
