(* ===== verification/LockFacts.thy ===== *)
theory LockFacts
  imports Locks
begin

text \<open>
  Threads that share a lock for readers and writers: a writer is alone, and no thread sleeps for ever. The
  invariant ties the fields of the lock to what the threads have of it.
\<close>

section \<open>What the threads have\<close>

datatype grip = Nothing | Reader | Draining | Writer | Upgrading | Upgrader

fun grip_of :: "use \<Rightarrow> grip" where
  "grip_of Idle = Nothing" | "grip_of Reading = Reader" | "grip_of Writing = Writer" | "grip_of Upgraded = Upgrader"
| "grip_of (Waiting Want m) = Nothing" | "grip_of (Waiting Read_wait m) = Nothing" | "grip_of (Waiting Drain m) = Draining"
| "grip_of (Waiting Upgrade_wait m) = Upgrading" | "grip_of (Waiting Try_upgrade_wait m) = Upgrading"


definition readers :: "(32 word \<Rightarrow> grip) \<Rightarrow> 32 word set" where
  "readers g = {t. g t = Reader}"






lemma finite_readers [simp]: "finite (readers g)"
  by simp





section \<open>How grips change\<close>
















section \<open>Sleeping and waking up\<close>

lemma wake_grip [simp]: "grip_of (wake b u t) = grip_of (u t)"
  by (cases "u t" rule: grip_of.cases) (auto simp: wake_def split: mode.split)

lemma wake_False [simp]: "wake False u = u"
  by (rule ext) (simp add: wake_def split: use.split mode.split)







lemma blocked_waiting [simp]: "blocked ph (l\<lparr>waiting := b\<rparr>) = blocked ph l"
  by (cases ph) auto



text \<open>What a routine that leaves its loop returns, with the use that it makes of either value.\<close>

fun fits :: "phase \<Rightarrow> use \<Rightarrow> use \<Rightarrow> bool" where
  "fits Want y n \<longleftrightarrow> y = Writing" | "fits Drain y n \<longleftrightarrow> y = Writing" | "fits Read_wait y n \<longleftrightarrow> y = Reading"
| "fits Upgrade_wait y n \<longleftrightarrow> n = Upgraded" | "fits Try_upgrade_wait y n \<longleftrightarrow> y = Upgraded"

lemma fits_obtains [simp]: "fits ph (obtains_use ph) (obtains_use ph)"
  by (cases ph) auto




section \<open>Every step keeps the invariant\<close>




















section \<open>Exclusion and progress\<close>












end
