(* ===== verification/MsgHeader.thy ===== *)
theory MsgHeader
  imports IpcObject
begin

text \<open>
  Copying in the header of a message (\<^verbatim>\<open>ipc_kmsg_copyin_header\<close> of \<^verbatim>\<open>ipc/ipc_kmsg.c\<close>): the names of the
  destination and of the reply port become pointers to ports with rights for them. Three kinds of message
  are common and have code of their own that looks into the table of the space directly; everything else
  goes the general way, which must treat both rights as one.
\<close>

unbundle bit_operations_syntax

section \<open>Headers\<close>

type_synonym mach_msg_bits_t = "32 word"

text \<open>The fields of a header that the code reads or writes.\<close>

record mach_msg_header =
  hdr_bits :: mach_msg_bits_t
  hdr_remote_port :: "32 word"
  hdr_local_port :: "32 word"

abbreviation MACH_MSGH_BITS_PORTS_MASK :: mach_msg_bits_t where "MACH_MSGH_BITS_PORTS_MASK \<equiv> 0xffff"
abbreviation MACH_MSGH_BITS_CIRCULAR :: mach_msg_bits_t where "MACH_MSGH_BITS_CIRCULAR \<equiv> 0x40000000"

definition MACH_MSGH_BITS :: "mach_msg_type_name_t \<Rightarrow> mach_msg_type_name_t \<Rightarrow> mach_msg_bits_t" where
  "MACH_MSGH_BITS remote local = remote OR push_bit 8 local"

definition MACH_MSGH_BITS_REMOTE :: "mach_msg_bits_t \<Rightarrow> mach_msg_type_name_t" where
  "MACH_MSGH_BITS_REMOTE bits = bits AND 0xff"

definition MACH_MSGH_BITS_LOCAL :: "mach_msg_bits_t \<Rightarrow> mach_msg_type_name_t" where
  "MACH_MSGH_BITS_LOCAL bits = drop_bit 8 (bits AND 0xff00)"

definition MACH_MSGH_BITS_PORTS :: "mach_msg_bits_t \<Rightarrow> mach_msg_bits_t" where
  "MACH_MSGH_BITS_PORTS bits = bits AND MACH_MSGH_BITS_PORTS_MASK"

definition MACH_MSGH_BITS_OTHER :: "mach_msg_bits_t \<Rightarrow> mach_msg_bits_t" where
  "MACH_MSGH_BITS_OTHER bits = bits AND NOT MACH_MSGH_BITS_PORTS_MASK"

definition MACH_MSG_TYPE_PORT_ANY_SEND :: "mach_msg_type_name_t \<Rightarrow> bool" where
  "MACH_MSG_TYPE_PORT_ANY_SEND x \<longleftrightarrow> MACH_MSG_TYPE_MOVE_SEND \<le> x \<and> x \<le> MACH_MSG_TYPE_MAKE_SEND_ONCE"

section \<open>The common kinds of message\<close>

text \<open>
  Lookup in the table alone; \<open>None\<close> gives up. \<open>care\<close> are the bits that must be as in \<open>want\<close>, besides the
  generation number.
\<close>

definition fast_lookup :: "ipc_entry_bits_t \<Rightarrow> ipc_entry_bits_t \<Rightarrow> ipc_space_t \<Rightarrow> mach_port_t \<Rightarrow> ipc_kernel \<Rightarrow> nat option" where
  "fast_lookup care want space name st =
     (let index = MACH_PORT_INDEX name;
          gen = MACH_PORT_GEN name
      in if is_table_size (st_space st space) \<le> index then None
         else if ie_bits (is_table (st_space st space) ! index) AND (IE_BITS_GEN_MASK OR care) \<noteq> gen OR want then None
         else Some index)"

text \<open>A message without reply port, to a send right that is copied.\<close>

definition copyin_async :: "ipc_space_t \<Rightarrow> mach_port_t \<Rightarrow> ipc_kernel \<Rightarrow> (ipc_port_t \<times> ipc_kernel) option" where
  "copyin_async space dest_name st =
     (if \<not> is_active (st_space st space) then None
      else
        (case fast_lookup MACH_PORT_TYPE_SEND MACH_PORT_TYPE_SEND space dest_name st of
           None \<Rightarrow> None
         | Some index \<Rightarrow>
             let dest_port = ie_object (is_table (st_space st space) ! index)
             in if \<not> ip_active (st_port st dest_port) then None
                else Some (dest_port,
                       ip_reference dest_port (upd_port dest_port (\<lambda>p. p\<lparr>ip_srights := ip_srights p + 1\<rparr>) st))))"

text \<open>
  A request: the reply goes to a send-once right that is made from a receive right. \<open>lock_try\<close> tells whether
  the reply port could be locked besides the destination.
\<close>

definition copyin_request ::
  "bool \<Rightarrow> ipc_space_t \<Rightarrow> mach_port_t \<Rightarrow> mach_port_t \<Rightarrow> ipc_kernel \<Rightarrow> (ipc_port_t \<times> ipc_port_t \<times> ipc_kernel) option" where
  "copyin_request lock_try space dest_name reply_name st =
     (if \<not> is_active (st_space st space) then None
      else
        (case fast_lookup MACH_PORT_TYPE_SEND MACH_PORT_TYPE_SEND space dest_name st of
           None \<Rightarrow> None
         | Some dest_index \<Rightarrow>
             let dest_port = ie_object (is_table (st_space st space) ! dest_index)
             in (case fast_lookup MACH_PORT_TYPE_RECEIVE MACH_PORT_TYPE_RECEIVE space reply_name st of
                   None \<Rightarrow> None
                 | Some reply_index \<Rightarrow>
                     let reply_port = ie_object (is_table (st_space st space) ! reply_index)
                     in if \<not> ip_active (st_port st dest_port) \<or> \<not> lock_try then None
                        else
                          let st = ip_reference dest_port (upd_port dest_port (\<lambda>p. p\<lparr>ip_srights := ip_srights p + 1\<rparr>) st);
                              st = ip_reference reply_port (upd_port reply_port (\<lambda>p. p\<lparr>ip_sorights := ip_sorights p + 1\<rparr>) st)
                          in Some (dest_port, reply_port, st))))"

text \<open>A reply, which uses up a send-once right; its entry goes to the free list.\<close>

definition copyin_reply :: "ipc_space_t \<Rightarrow> mach_port_t \<Rightarrow> ipc_kernel \<Rightarrow> (ipc_port_t \<times> ipc_kernel) option" where
  "copyin_reply space dest_name st =
     (if \<not> is_active (st_space st space) then None
      else
        (case fast_lookup (IE_BITS_COLLISION OR MACH_PORT_TYPE_SEND_ONCE) MACH_PORT_TYPE_SEND_ONCE space dest_name st of
           None \<Rightarrow> None
         | Some index \<Rightarrow>
             let table = is_table (st_space st space);
                 entry = table ! index;
                 dest_port = ie_object entry
             in if ie_request entry \<noteq> 0 then None
                else if \<not> ip_active (st_port st dest_port) then None
                else
                  let table = table[index := (table ! index)\<lparr>ie_request := ie_next (table ! 0)\<rparr>];
                      table = table[0 := (table ! 0)\<lparr>ie_request := index\<rparr>];
                      table = table[index := (table ! index)\<lparr>ie_bits := MACH_PORT_GEN dest_name, ie_object := IO_NULL\<rparr>]
                  in Some (dest_port, set_table space table st)))"

section \<open>The general way\<close>

text \<open>Destination, reply port, and the send-once rights for port-deleted notifications about either name.\<close>

type_synonym header_rights = "ipc_object_t \<times> ipc_object_t \<times> ipc_port_t \<times> ipc_port_t"
type_synonym header_result = "((mach_msg_return_t + header_rights) \<times> ipc_kernel) option"

definition dealloc_if_none ::
  "ipc_space_t \<Rightarrow> mach_port_t \<Rightarrow> ipc_entry_t \<Rightarrow> ipc_kernel \<Rightarrow> ipc_kernel option" where
  "dealloc_if_none space name entry st =
     (if IE_BITS_TYPE (ie_bits (get_entry st space entry)) = MACH_PORT_TYPE_NONE
      then ipc_entry_dealloc st space name entry else Some st)"

text \<open>The space stays locked, but ports may die: \<open>between\<close> is what happens after the first right was copied in.\<close>

definition copyin_same_name ::
  "(ipc_kernel \<Rightarrow> ipc_kernel) \<Rightarrow> ipc_space_t \<Rightarrow> mach_port_t \<Rightarrow> mach_msg_type_name_t \<Rightarrow> mach_msg_type_name_t
     \<Rightarrow> ipc_kernel \<Rightarrow> header_result" where
  "copyin_same_name between space name dest_type reply_type st =
     (case ipc_entry_lookup st space name of
        (None, st) \<Rightarrow> Some (Inl MACH_SEND_INVALID_DEST, st)
      | (Some entry, st) \<Rightarrow> do {
          ok \<leftarrow> ipc_right_copyin_check space name entry reply_type st;
          if \<not> ok then Some (Inl MACH_SEND_INVALID_REPLY, st)
          else if dest_type = MACH_MSG_TYPE_MOVE_SEND_ONCE \<or> reply_type = MACH_MSG_TYPE_MOVE_SEND_ONCE then
            Some (Inl MACH_SEND_INVALID_DEST, st)
          else if dest_type = MACH_MSG_TYPE_MAKE_SEND \<or> dest_type = MACH_MSG_TYPE_MAKE_SEND_ONCE \<or>
                  reply_type = MACH_MSG_TYPE_MAKE_SEND \<or> reply_type = MACH_MSG_TYPE_MAKE_SEND_ONCE then do {
            (r, st) \<leftarrow> ipc_right_copyin space name entry dest_type False st;
            case r of
              Inl kr \<Rightarrow> Some (Inl MACH_SEND_INVALID_DEST, st)
            | Inr (dest_port, dest_soright) \<Rightarrow> do {
                (r, st) \<leftarrow> ipc_right_copyin space name entry reply_type True (between st);
                case r of
                  Inl kr \<Rightarrow> None
                | Inr (reply_port, reply_soright) \<Rightarrow> Some (Inr (dest_port, reply_port, dest_soright, reply_soright), st)
              }
          }
          else if dest_type = MACH_MSG_TYPE_COPY_SEND \<and> reply_type = MACH_MSG_TYPE_COPY_SEND then do {
            (r, st) \<leftarrow> ipc_right_copyin space name entry dest_type False st;
            case r of
              Inl kr \<Rightarrow> Some (Inl MACH_SEND_INVALID_DEST, st)
            | Inr (dest_port, dest_soright) \<Rightarrow>
                let (reply_port, st) = ipc_port_copy_send dest_port (between st)
                in Some (Inr (dest_port, reply_port, dest_soright, IP_NULL), st)
          }
          else if dest_type = MACH_MSG_TYPE_MOVE_SEND \<and> reply_type = MACH_MSG_TYPE_MOVE_SEND then do {
            (r, st) \<leftarrow> ipc_right_copyin_two space name entry st;
            case r of
              Inl kr \<Rightarrow> Some (Inl MACH_SEND_INVALID_DEST, st)
            | Inr (dest_port, dest_soright) \<Rightarrow> do {
                st \<leftarrow> dealloc_if_none space name entry st;
                Some (Inr (dest_port, dest_port, dest_soright, IP_NULL), st)
              }
          }
          else do {
            (r, st) \<leftarrow> ipc_right_copyin space name entry MACH_MSG_TYPE_MOVE_SEND False st;
            case r of
              Inl kr \<Rightarrow> Some (Inl MACH_SEND_INVALID_DEST, st)
            | Inr (dest_port, soright) \<Rightarrow> do {
                st \<leftarrow> dealloc_if_none space name entry st;
                let (reply_port, st) = ipc_port_copy_send dest_port (between st);
                Some (Inr (if dest_type = MACH_MSG_TYPE_MOVE_SEND then (dest_port, reply_port, soright, IP_NULL)
                           else (dest_port, reply_port, IP_NULL, soright)), st)
              }
          }
        })"

definition copyin_no_reply ::
  "ipc_space_t \<Rightarrow> mach_port_t \<Rightarrow> mach_port_t \<Rightarrow> mach_msg_type_name_t \<Rightarrow> ipc_kernel \<Rightarrow> header_result" where
  "copyin_no_reply space dest_name reply_name dest_type st =
     (case ipc_entry_lookup st space dest_name of
        (None, st) \<Rightarrow> Some (Inl MACH_SEND_INVALID_DEST, st)
      | (Some entry, st) \<Rightarrow> do {
          (r, st) \<leftarrow> ipc_right_copyin space dest_name entry dest_type False st;
          case r of
            Inl kr \<Rightarrow> Some (Inl MACH_SEND_INVALID_DEST, st)
          | Inr (dest_port, dest_soright) \<Rightarrow> do {
              st \<leftarrow> dealloc_if_none space dest_name entry st;
              Some (Inr (dest_port, reply_name, dest_soright, IP_NULL), st)
            }
        })"

text \<open>
  Both rights have names of their own. If the destination died before a reply port that was found to be
  dead, the copyins are undone: \<open>after\<close> is what happens until the two deaths are compared.
\<close>

definition copyin_undo_both ::
  "ipc_space_t \<Rightarrow> mach_port_t \<times> ipc_entry_t \<times> mach_msg_type_name_t \<times> ipc_object_t \<times> ipc_port_t
     \<Rightarrow> mach_port_t \<times> ipc_entry_t \<times> mach_msg_type_name_t \<times> ipc_object_t \<times> ipc_port_t \<Rightarrow> ipc_kernel \<Rightarrow> ipc_kernel option" where
  "copyin_undo_both space dest reply st =
     (case (dest, reply) of
        ((dest_name, dest_entry, dest_type, dest_port, dest_soright), (reply_name, reply_entry, reply_type, reply_port, reply_soright)) \<Rightarrow> do {
          st \<leftarrow> ipc_right_copyin_undo space dest_name dest_entry dest_type dest_port dest_soright st;
          st \<leftarrow> ipc_right_copyin_undo space reply_name reply_entry reply_type reply_port reply_soright st;
          Some (if dest_soright \<noteq> IP_NULL then emit (Notify_dead_name dest_soright dest_name) st else st)
        })"

definition copyin_two_names ::
  "(ipc_kernel \<Rightarrow> ipc_kernel) \<Rightarrow> (ipc_kernel \<Rightarrow> ipc_kernel) \<Rightarrow> ipc_space_t \<Rightarrow> mach_port_t \<Rightarrow> mach_port_t
     \<Rightarrow> mach_msg_type_name_t \<Rightarrow> mach_msg_type_name_t \<Rightarrow> ipc_kernel \<Rightarrow> header_result" where
  "copyin_two_names between after space dest_name reply_name dest_type reply_type st =
     (case ipc_entry_lookup st space dest_name of
        (None, st) \<Rightarrow> Some (Inl MACH_SEND_INVALID_DEST, st)
      | (Some dest_entry, st) \<Rightarrow>
     (case ipc_entry_lookup st space reply_name of
        (None, st) \<Rightarrow> Some (Inl MACH_SEND_INVALID_REPLY, st)
      | (Some reply_entry, st) \<Rightarrow> do {
          ok \<leftarrow> ipc_right_copyin_check space reply_name reply_entry reply_type st;
          if \<not> ok then Some (Inl MACH_SEND_INVALID_REPLY, st)
          else do {
            (r, st) \<leftarrow> ipc_right_copyin space dest_name dest_entry dest_type False st;
            case r of
              Inl kr \<Rightarrow> Some (Inl MACH_SEND_INVALID_DEST, st)
            | Inr (dest_port, dest_soright) \<Rightarrow> do {
                let st = between st;
                let saved_reply = ie_object (get_entry st space reply_entry);
                let st = (if saved_reply \<noteq> IP_NULL then ip_reference saved_reply st else st);
                let release = (\<lambda>st. if saved_reply \<noteq> IP_NULL then ip_release saved_reply st else st);
                (r, st) \<leftarrow> ipc_right_copyin space reply_name reply_entry reply_type True st;
                case r of
                  Inl kr \<Rightarrow> do {
                    st \<leftarrow> dealloc_if_none space dest_name dest_entry st;
                    Some (Inr (dest_port, IO_DEAD, dest_soright, IP_NULL), release st)
                  }
                | Inr (reply_port, reply_soright) \<Rightarrow> do {
                    let st = after st;
                    let must_undo =
                      (saved_reply \<noteq> IP_NULL \<and> reply_port = IO_DEAD \<and> \<not> ip_active (st_port st dest_port) \<and>
                       IP_TIMESTAMP_ORDER (ip_timestamp (st_port st dest_port)) (ip_timestamp (st_port st saved_reply)));
                    if must_undo then do {
                      st \<leftarrow> copyin_undo_both space (dest_name, dest_entry, dest_type, dest_port, dest_soright)
                               (reply_name, reply_entry, reply_type, reply_port, reply_soright) st;
                      Some (Inl MACH_SEND_INVALID_DEST, release st)
                    }
                    else do {
                      st \<leftarrow> dealloc_if_none space reply_name reply_entry st;
                      st \<leftarrow> dealloc_if_none space dest_name dest_entry st;
                      Some (Inr (dest_port, reply_port, dest_soright, reply_soright), release st)
                    }
                  }
              }
          }
        }))"

text \<open>With \<^verbatim>\<open>MACH_SEND_CANCEL\<close> the notification about the destination is not sent to the port named.\<close>

definition copyin_finish ::
  "mach_msg_header \<Rightarrow> mach_port_t \<Rightarrow> ipc_port_t \<Rightarrow> header_rights \<Rightarrow> ipc_kernel
     \<Rightarrow> ((mach_msg_return_t + mach_msg_header) \<times> ipc_kernel) option" where
  "copyin_finish msg notify notify_port rights st =
     (case rights of (dest_port, reply_port, dest_soright, reply_soright) \<Rightarrow> do {
        let mbits = hdr_bits msg AND NOT MACH_MSGH_BITS_CIRCULAR;
        let (dest_soright, st) =
          (if notify \<noteq> MACH_PORT_NULL \<and> dest_soright = notify_port
           then (IP_NULL, ipc_port_release_sonce dest_soright st) else (dest_soright, st));
        let st = notify_port_deleted dest_soright (hdr_remote_port msg) st;
        let st = notify_port_deleted reply_soright (hdr_local_port msg) st;
        dest_type \<leftarrow> ipc_object_copyin_type (MACH_MSGH_BITS_REMOTE mbits);
        reply_type \<leftarrow> ipc_object_copyin_type (MACH_MSGH_BITS_LOCAL mbits);
        Some (Inr \<lparr>hdr_bits = MACH_MSGH_BITS_OTHER mbits OR MACH_MSGH_BITS dest_type reply_type,
                   hdr_remote_port = dest_port, hdr_local_port = reply_port\<rparr>, st)
      })"

definition copyin_header_general ::
  "(ipc_kernel \<Rightarrow> ipc_kernel) \<Rightarrow> (ipc_kernel \<Rightarrow> ipc_kernel) \<Rightarrow> mach_msg_header \<Rightarrow> ipc_space_t \<Rightarrow> mach_port_t \<Rightarrow> ipc_kernel
     \<Rightarrow> ((mach_msg_return_t + mach_msg_header) \<times> ipc_kernel) option" where
  "copyin_header_general between after msg space notify st =
     (let mbits = hdr_bits msg AND NOT MACH_MSGH_BITS_CIRCULAR;
          dest_name = hdr_remote_port msg;
          reply_name = hdr_local_port msg;
          dest_type = MACH_MSGH_BITS_REMOTE mbits;
          reply_type = MACH_MSGH_BITS_LOCAL mbits
      in if \<not> MACH_MSG_TYPE_PORT_ANY_SEND dest_type then Some (Inl MACH_SEND_INVALID_HEADER, st)
         else if (if reply_type = 0 then reply_name \<noteq> MACH_PORT_NULL else \<not> MACH_MSG_TYPE_PORT_ANY_SEND reply_type)
         then Some (Inl MACH_SEND_INVALID_HEADER, st)
         else if \<not> is_active (st_space st space) then Some (Inl MACH_SEND_INVALID_DEST, st)
         else
           let (notify_entry, st) = (if notify \<noteq> MACH_PORT_NULL then ipc_entry_lookup st space notify else (None, st));
               notify_ok = (case notify_entry of None \<Rightarrow> False
                            | Some e \<Rightarrow> ie_bits (get_entry st space e) AND MACH_PORT_TYPE_RECEIVE \<noteq> 0);
               notify_port = (case notify_entry of None \<Rightarrow> IP_NULL | Some e \<Rightarrow> ie_object (get_entry st space e))
           in if notify \<noteq> MACH_PORT_NULL \<and> \<not> notify_ok then Some (Inl MACH_SEND_INVALID_NOTIFY, st)
              else do {
                (r, st) \<leftarrow>
                  (if dest_name = reply_name then copyin_same_name between space dest_name dest_type reply_type st
                   else if \<not> MACH_PORT_VALID reply_name then copyin_no_reply space dest_name reply_name dest_type st
                   else copyin_two_names between after space dest_name reply_name dest_type reply_type st);
                case r of
                  Inl mr \<Rightarrow> Some (Inl mr, st)
                | Inr rights \<Rightarrow> copyin_finish msg notify notify_port rights st
              })"

section \<open>The whole routine\<close>

definition ipc_kmsg_copyin_header ::
  "bool \<Rightarrow> (ipc_kernel \<Rightarrow> ipc_kernel) \<Rightarrow> (ipc_kernel \<Rightarrow> ipc_kernel) \<Rightarrow> mach_msg_header \<Rightarrow> ipc_space_t \<Rightarrow> mach_port_t \<Rightarrow> ipc_kernel
     \<Rightarrow> ((mach_msg_return_t + mach_msg_header) \<times> ipc_kernel) option" where
  "ipc_kmsg_copyin_header lock_try between after msg space notify st =
     (let mbits = hdr_bits msg AND NOT MACH_MSGH_BITS_CIRCULAR;
          dest_name = hdr_remote_port msg;
          reply_name = hdr_local_port msg;
          ports = MACH_MSGH_BITS_PORTS mbits;
          general = copyin_header_general between after msg space notify st;
          done = (\<lambda>dest_type reply_type dest_port reply_port st.
            Some (Inr \<lparr>hdr_bits = MACH_MSGH_BITS_OTHER mbits OR MACH_MSGH_BITS dest_type reply_type,
                       hdr_remote_port = dest_port, hdr_local_port = reply_port\<rparr>, st))
      in if notify \<noteq> MACH_PORT_NULL then general
         else if ports = MACH_MSGH_BITS MACH_MSG_TYPE_COPY_SEND 0 then
           if reply_name \<noteq> MACH_PORT_NULL then general
           else (case copyin_async space dest_name st of
                   None \<Rightarrow> general
                 | Some (dest_port, st) \<Rightarrow> done MACH_MSG_TYPE_PORT_SEND 0 dest_port reply_name st)
         else if ports = MACH_MSGH_BITS MACH_MSG_TYPE_COPY_SEND MACH_MSG_TYPE_MAKE_SEND_ONCE then
           (case copyin_request lock_try space dest_name reply_name st of
              None \<Rightarrow> general
            | Some (dest_port, reply_port, st) \<Rightarrow>
                done MACH_MSG_TYPE_PORT_SEND MACH_MSG_TYPE_PORT_SEND_ONCE dest_port reply_port st)
         else if ports = MACH_MSGH_BITS MACH_MSG_TYPE_MOVE_SEND_ONCE 0 then
           if reply_name \<noteq> MACH_PORT_NULL then general
           else (case copyin_reply space dest_name st of
                   None \<Rightarrow> general
                 | Some (dest_port, st) \<Rightarrow> done MACH_MSG_TYPE_PORT_SEND_ONCE 0 dest_port reply_name st)
         else general)"

end
