(* ===== verification/MsgFacts.thy ===== *)
theory MsgFacts
  imports MsgHeader PortSpace
begin

text \<open>
  The code for the common kinds of message does what the general code does: on a space that is in order it
  gives the same header, the same rights and the same state of the kernel.
\<close>

unbundle bit_operations_syntax

section \<open>Entries found in the table\<close>

lemma ports_bits:
  "MACH_MSGH_BITS_REMOTE b = MACH_MSGH_BITS_PORTS b AND 0xff"
  "MACH_MSGH_BITS_LOCAL b = drop_bit 8 (MACH_MSGH_BITS_PORTS b AND 0xff00)"
  by (simp_all add: MACH_MSGH_BITS_REMOTE_def MACH_MSGH_BITS_LOCAL_def MACH_MSGH_BITS_PORTS_def and.assoc)

lemma fast_found:
  assumes ok: "rights_ok st space" and f: "fast_lookup care want space name st = Some i"
    and w: "care AND want = want" "want AND IE_BITS_TYPE_MASK = want" "want \<noteq> 0"
  obtains r where "i = MACH_PORT_INDEX name" "0 < i" "i < length (is_table (st_space st space))" "MACH_PORT_VALID name"
    and "ipc_entry_lookup st space name = (Some (Table i), st)"
    and "right_of (ie_bits (is_table (st_space st space) ! i)) = Some r" "ie_bits (is_table (st_space st space) ! i) AND want = want"
    and "ie_bits (is_table (st_space st space) ! i) AND IE_BITS_COLLISION = 0"
    and "space_rights st space name = Some (r, ie_object (is_table (st_space st space) ! i))"
proof -
  let ?t = "is_table (st_space st space)"
  have i: "i = MACH_PORT_INDEX name" "i < length ?t" "ie_bits (?t ! i) AND care = want"
    using f by (auto simp: fast_lookup_def Let_def MACH_PORT_GEN_def split: if_splits)
  have b: "ie_bits (?t ! i) AND want = want" using i(3) w(1) by (metis and.assoc and.idem)
  have "ie_bits (?t ! i) AND want = (ie_bits (?t ! i) AND IE_BITS_TYPE_MASK) AND want"
    using w(2) by (simp only: and.assoc and.commute [of IE_BITS_TYPE_MASK])
  then have t: "IE_BITS_TYPE (ie_bits (?t ! i)) \<noteq> 0" using b w(3) by (auto simp: IE_BITS_TYPE_def)
  obtain fl where tok: "table_ok (st_space st space) fl {}"
    using ok by (auto simp: rights_ok_def at_rest_def space_settled_def space_ok_def)
  have z: "i \<noteq> 0" using t table_ok_type_zero [OF tok] by (metis)
  have v: "MACH_PORT_VALID name"
    using i(1,2) z index_dead index_zero [of name] table_okD(2) [OF tok] by (auto simp: MACH_PORT_VALID_def)
  have c: "space_caps st space name = Some (ie_bits (?t ! i), ie_object (?t ! i), ie_request (?t ! i))"
    using caps_in_table [of name st space] i(1,2) t by (simp add: denoted_def)
  obtain r where r: "right_of (ie_bits (?t ! i)) = Some r" "space_rights st space name = Some (r, ie_object (?t ! i))"
    by (rule caps_rights [OF _ c]) (use ok in \<open>simp_all add: rights_ok_def\<close>)
  have l: "ipc_entry_lookup st space name = (Some (Table i), st)"
    using i(1,2) t by (simp add: ipc_entry_lookup_def Let_def IE_BITS_GEN_def MACH_PORT_GEN_def)
  have "ie_bits (?t ! i) AND IE_BITS_COLLISION = 0" using tok i(2) by (simp add: table_ok_def)
  then show thesis using that [of r] i(1,2) z v l r b by auto
qed

section \<open>Each kind of message\<close>

lemma copy_send_alive:
  assumes r: "right_of (ie_bits (get_entry st space entry)) = Some r" and b: "ie_bits (get_entry st space entry) AND MACH_PORT_TYPE_SEND = MACH_PORT_TYPE_SEND"
    and a: "ip_active (st_port st (ie_object (get_entry st space entry)))"
  defines "p \<equiv> ie_object (get_entry st space entry)"
  shows "ipc_right_copyin space name entry MACH_MSG_TYPE_COPY_SEND deadok st =
    Some (Inr (p, IP_NULL), ip_reference p (upd_port p (\<lambda>p. p\<lparr>ip_srights := ip_srights p + 1\<rparr>) st))"
proof -
  note t = right_tests [OF r]
  have "send_urefs r \<noteq> None" using t(1) b by auto
  then have "\<not> is_dead_name r" by (cases r) auto
  then show ?thesis using t(1,4,5) \<open>send_urefs r \<noteq> None\<close> a
    by (simp add: ipc_right_copyin_def copyin_send_rights_def copyin_copy_send_def ipc_right_check_def p_def Let_def)
qed

lemma async_general:
  assumes ok: "rights_ok st space" and c: "copyin_async space dest_name st = Some (p, st')"
  shows "MACH_PORT_VALID dest_name"
    "copyin_no_reply space dest_name reply_name MACH_MSG_TYPE_COPY_SEND st = Some (Inr (p, reply_name, IP_NULL, IP_NULL), st')"
proof -
  let ?t = "is_table (st_space st space)"
  obtain i where f: "fast_lookup MACH_PORT_TYPE_SEND MACH_PORT_TYPE_SEND space dest_name st = Some i"
    and p: "p = ie_object (?t ! i)" "ip_active (st_port st p)" "st' = ip_reference p (upd_port p (\<lambda>p. p\<lparr>ip_srights := ip_srights p + 1\<rparr>) st)"
    using c by (auto simp: copyin_async_def Let_def split: if_splits option.splits)
  obtain r where v: "MACH_PORT_VALID dest_name" and l: "ipc_entry_lookup st space dest_name = (Some (Table i), st)"
    and r: "right_of (ie_bits (?t ! i)) = Some r" and b: "ie_bits (?t ! i) AND MACH_PORT_TYPE_SEND = MACH_PORT_TYPE_SEND"
    by (rule fast_found [OF ok f]) simp_all
  show "MACH_PORT_VALID dest_name" by (rule v)
  have "ipc_right_copyin space dest_name (Table i) MACH_MSG_TYPE_COPY_SEND False st = Some (Inr (p, IP_NULL), st')"
    using copy_send_alive [of st space "Table i" r dest_name False] r b p by simp
  moreover have "IE_BITS_TYPE (ie_bits (get_entry st' space (Table i))) \<noteq> MACH_PORT_TYPE_NONE"
    using right_of_bits [OF r] by (simp add: p(3) ip_reference_def)
  ultimately show "copyin_no_reply space dest_name reply_name MACH_MSG_TYPE_COPY_SEND st = Some (Inr (p, reply_name, IP_NULL, IP_NULL), st')"
    by (simp add: copyin_no_reply_def l dealloc_if_none_def)
qed

lemma once_cleared:
  assumes "IE_BITS_TYPE b = MACH_PORT_TYPE_SEND_ONCE"
  shows "IE_BITS_TYPE (b AND NOT MACH_PORT_TYPE_SEND_ONCE) = MACH_PORT_TYPE_NONE"
proof -
  have "IE_BITS_TYPE (b AND NOT MACH_PORT_TYPE_SEND_ONCE) = IE_BITS_TYPE b AND NOT MACH_PORT_TYPE_SEND_ONCE"
    unfolding IE_BITS_TYPE_def by (simp only: and.assoc and.commute [of "NOT MACH_PORT_TYPE_SEND_ONCE"])
  then show ?thesis using assms by simp
qed

lemma update_again: "i \<noteq> j \<Longrightarrow> xs[i := a, j := b, i := c] = xs[i := c, j := b]"
  by (metis list_update_overwrite list_update_swap)

lemma entry_fields: "(e :: ipc_entry)\<lparr>ie_request := n, ie_bits := b, ie_object := x\<rparr> = e\<lparr>ie_object := x, ie_bits := b, ie_request := n\<rparr>"
  by simp

lemma reply_general:
  assumes ok: "rights_ok st space" and c: "copyin_reply space dest_name st = Some (p, st')"
  shows "MACH_PORT_VALID dest_name"
    "copyin_no_reply space dest_name reply_name MACH_MSG_TYPE_MOVE_SEND_ONCE st = Some (Inr (p, reply_name, IP_NULL, IP_NULL), st')"
proof -
  let ?t = "is_table (st_space st space)"
  obtain i where f: "fast_lookup (IE_BITS_COLLISION OR MACH_PORT_TYPE_SEND_ONCE) MACH_PORT_TYPE_SEND_ONCE space dest_name st = Some i"
    and p: "p = ie_object (?t ! i)" "ip_active (st_port st p)" "ie_request (?t ! i) = 0"
    and st': "st' = set_table space (let table = ?t[i := (?t ! i)\<lparr>ie_request := ie_next (?t ! 0)\<rparr>];
                      table = table[0 := (table ! 0)\<lparr>ie_request := i\<rparr>]
                  in table[i := (table ! i)\<lparr>ie_bits := MACH_PORT_GEN dest_name, ie_object := IO_NULL\<rparr>]) st"
    using c by (auto simp: copyin_reply_def Let_def split: if_splits option.splits)
  obtain r where i: "i = MACH_PORT_INDEX dest_name" "0 < i" "i < length ?t" and v: "MACH_PORT_VALID dest_name"
    and l: "ipc_entry_lookup st space dest_name = (Some (Table i), st)"
    and r: "right_of (ie_bits (?t ! i)) = Some r" and b: "ie_bits (?t ! i) AND MACH_PORT_TYPE_SEND_ONCE = MACH_PORT_TYPE_SEND_ONCE"
    and col: "ie_bits (?t ! i) AND IE_BITS_COLLISION = 0"
    by (rule fast_found [OF ok f]) simp_all
  show "MACH_PORT_VALID dest_name" by (rule v)
  have ty: "IE_BITS_TYPE (ie_bits (?t ! i)) = MACH_PORT_TYPE_SEND_ONCE"
    using right_tests(2) [OF r] b type_of_bits [OF r] by simp
  let ?u = "upd_entry space (Table i) (\<lambda>e. e\<lparr>ie_object := IO_NULL, ie_bits := ie_bits (?t ! i) AND NOT MACH_PORT_TYPE_SEND_ONCE\<rparr>) st"
  have "ipc_right_copyin space dest_name (Table i) MACH_MSG_TYPE_MOVE_SEND_ONCE False st = Some (Inr (p, IP_NULL), ?u)"
    using p by (simp add: ipc_right_copyin_def copyin_send_rights_def copyin_move_send_once_def ipc_right_check_def
        ipc_right_dncancel_macro_def type_tests [OF ty] Let_def)
  moreover have "IE_BITS_TYPE (ie_bits (get_entry ?u space (Table i))) = MACH_PORT_TYPE_NONE"
    using once_cleared [OF ty] i by simp
  moreover have "ipc_entry_dealloc ?u space dest_name (Table i) = Some st'"
  proof -
    have "ie_bits (get_entry ?u space (Table i)) AND IE_BITS_COLLISION = 0"
      using i(3) col by (simp add: and.assoc and.left_commute [of _ "NOT _"] and.commute [of _ "NOT _"])
    then have "ipc_entry_dealloc ?u space dest_name (Table i) = Some (dealloc_free ?u space i)"
      using i by (simp add: ipc_entry_dealloc_def in_table_def)
    also have "dealloc_free ?u space i = st'"
      using i by (simp add: dealloc_free_def st' Let_def set_table_def upd_space_def update_again entry_fields MACH_PORT_GEN_def)
    finally show ?thesis .
  qed
  ultimately show "copyin_no_reply space dest_name reply_name MACH_MSG_TYPE_MOVE_SEND_ONCE st = Some (Inr (p, reply_name, IP_NULL, IP_NULL), st')"
    by (simp add: copyin_no_reply_def l dealloc_if_none_def del: upd_entry.simps get_entry.simps)
qed

lemma request_general:
  assumes ok: "rights_ok st space" and c: "copyin_request lock_try space dest_name reply_name st = Some (p, q, st')"
  shows "MACH_PORT_VALID dest_name \<and> MACH_PORT_VALID reply_name"
    "dest_name = reply_name \<Longrightarrow> copyin_same_name id space dest_name MACH_MSG_TYPE_COPY_SEND MACH_MSG_TYPE_MAKE_SEND_ONCE st
       = Some (Inr (p, q, IP_NULL, IP_NULL), st')"
    "dest_name \<noteq> reply_name \<Longrightarrow> copyin_two_names id id space dest_name reply_name MACH_MSG_TYPE_COPY_SEND MACH_MSG_TYPE_MAKE_SEND_ONCE st
       = Some (Inr (p, q, IP_NULL, IP_NULL), st')"
proof -
  let ?t = "is_table (st_space st space)"
  define s1 where "s1 = ip_reference p (upd_port p (\<lambda>p. p\<lparr>ip_srights := ip_srights p + 1\<rparr>) st)"
  obtain i j where f: "fast_lookup MACH_PORT_TYPE_SEND MACH_PORT_TYPE_SEND space dest_name st = Some i"
      "fast_lookup MACH_PORT_TYPE_RECEIVE MACH_PORT_TYPE_RECEIVE space reply_name st = Some j"
    and p: "p = ie_object (?t ! i)" "ip_active (st_port st p)" "q = ie_object (?t ! j)"
    and st': "st' = ip_reference q (upd_port q (\<lambda>p. p\<lparr>ip_sorights := ip_sorights p + 1\<rparr>) s1)"
    using c by (auto simp: copyin_request_def Let_def s1_def split: if_splits option.splits)
  obtain r where i: "i = MACH_PORT_INDEX dest_name" and v: "MACH_PORT_VALID dest_name" and l: "ipc_entry_lookup st space dest_name = (Some (Table i), st)"
    and r: "right_of (ie_bits (?t ! i)) = Some r" and b: "ie_bits (?t ! i) AND MACH_PORT_TYPE_SEND = MACH_PORT_TYPE_SEND"
    by (rule fast_found [OF ok f(1)]) simp_all
  obtain r' where j: "j = MACH_PORT_INDEX reply_name" and v': "MACH_PORT_VALID reply_name" and l': "ipc_entry_lookup st space reply_name = (Some (Table j), st)"
    and r': "right_of (ie_bits (?t ! j)) = Some r'" and b': "ie_bits (?t ! j) AND MACH_PORT_TYPE_RECEIVE = MACH_PORT_TYPE_RECEIVE"
    by (rule fast_found [OF ok f(2)]) simp_all
  show "MACH_PORT_VALID dest_name \<and> MACH_PORT_VALID reply_name" using v v' by simp
  have sp: "st_space s1 = st_space st" "ip_active (st_port s1 p)" using p(2) by (simp_all add: s1_def ip_reference_def)
  have dest: "ipc_right_copyin space dest_name (Table i) MACH_MSG_TYPE_COPY_SEND False st = Some (Inr (p, IP_NULL), s1)"
    using copy_send_alive [of st space "Table i" r dest_name False] r b p by (simp add: s1_def)
  have check: "ipc_right_copyin_check space reply_name (Table j) MACH_MSG_TYPE_MAKE_SEND_ONCE st = Some True"
    using b' by (simp add: ipc_right_copyin_check_def Let_def)
  have reply: "ipc_right_copyin space reply_name (Table j) MACH_MSG_TYPE_MAKE_SEND_ONCE True s =
      Some (Inr (q, IP_NULL), ip_reference q (upd_port q (\<lambda>p. p\<lparr>ip_sorights := ip_sorights p + 1\<rparr>) s))"
    if "st_space s = st_space st" for s
    using b' p(3) that by (simp add: ipc_right_copyin_def copyin_make_send_once_def Let_def)
  show "copyin_same_name id space dest_name MACH_MSG_TYPE_COPY_SEND MACH_MSG_TYPE_MAKE_SEND_ONCE st = Some (Inr (p, q, IP_NULL, IP_NULL), st')"
    if "dest_name = reply_name"
    using that i j l check dest reply [OF sp(1)] st' by (simp add: copyin_same_name_def)
  have same: "ip_release q (ip_reference q (upd_port q (\<lambda>p. p\<lparr>ip_sorights := ip_sorights p + 1\<rparr>) (ip_reference q s1))) = st'"
    unfolding st' by (simp add: ip_release_def ip_reference_def upd_port_def comp_def)
  have types: "IE_BITS_TYPE (ie_bits (?t ! i)) \<noteq> MACH_PORT_TYPE_NONE" "IE_BITS_TYPE (ie_bits (?t ! j)) \<noteq> MACH_PORT_TYPE_NONE"
    using right_of_bits [OF r] right_of_bits [OF r'] by simp_all
  show "copyin_two_names id id space dest_name reply_name MACH_MSG_TYPE_COPY_SEND MACH_MSG_TYPE_MAKE_SEND_ONCE st = Some (Inr (p, q, IP_NULL, IP_NULL), st')"
    if "dest_name \<noteq> reply_name"
  proof -
    define s2 where "s2 = (if q \<noteq> IP_NULL then ip_reference q s1 else s1)"
    define s3 where "s3 = ip_reference q (upd_port q (\<lambda>p. p\<lparr>ip_sorights := ip_sorights p + 1\<rparr>) s2)"
    have s2: "st_space s2 = st_space st" using sp by (simp add: s2_def ip_reference_def)
    have s3: "st_space s3 = st_space st" "ip_active (st_port s3 p)" using sp by (auto simp: s3_def s2_def ip_reference_def)
    note facts = l l' check dest reply [OF s2, folded s3_def] s3 types p(3) [symmetric] sp(1)
    show ?thesis
    proof (cases "q = IP_NULL")
      case True
      then have "s2 = s1" "s3 = st'" by (simp_all add: s2_def s3_def st')
      then show ?thesis using facts True by (simp add: copyin_two_names_def dealloc_if_none_def Let_def)
    next
      case False
      then have "ip_reference q s1 = s2" "ip_release q s3 = st'" using same by (simp_all add: s2_def s3_def)
      then show ?thesis using facts False by (simp add: copyin_two_names_def dealloc_if_none_def Let_def)
    qed
  qed
qed

section \<open>The whole header\<close>

lemma finish_quiet:
  assumes "ipc_object_copyin_type (MACH_MSGH_BITS_REMOTE (hdr_bits msg AND NOT MACH_MSGH_BITS_CIRCULAR)) = Some t"
    and "ipc_object_copyin_type (MACH_MSGH_BITS_LOCAL (hdr_bits msg AND NOT MACH_MSGH_BITS_CIRCULAR)) = Some u"
  shows "copyin_finish msg MACH_PORT_NULL n (p, q, IP_NULL, IP_NULL) st =
    Some (Inr \<lparr>hdr_bits = MACH_MSGH_BITS_OTHER (hdr_bits msg AND NOT MACH_MSGH_BITS_CIRCULAR) OR MACH_MSGH_BITS t u,
               hdr_remote_port = p, hdr_local_port = q\<rparr>, st)"
  using assms by (simp add: copyin_finish_def notify_port_deleted_def)

lemma common_types:
  "MACH_MSGH_BITS_PORTS b = MACH_MSGH_BITS MACH_MSG_TYPE_COPY_SEND 0 \<Longrightarrow>
     MACH_MSGH_BITS_REMOTE b = MACH_MSG_TYPE_COPY_SEND \<and> MACH_MSGH_BITS_LOCAL b = 0"
  "MACH_MSGH_BITS_PORTS b = MACH_MSGH_BITS MACH_MSG_TYPE_MOVE_SEND_ONCE 0 \<Longrightarrow>
     MACH_MSGH_BITS_REMOTE b = MACH_MSG_TYPE_MOVE_SEND_ONCE \<and> MACH_MSGH_BITS_LOCAL b = 0"
  "MACH_MSGH_BITS_PORTS b = MACH_MSGH_BITS MACH_MSG_TYPE_COPY_SEND MACH_MSG_TYPE_MAKE_SEND_ONCE \<Longrightarrow>
     MACH_MSGH_BITS_REMOTE b = MACH_MSG_TYPE_COPY_SEND \<and> MACH_MSGH_BITS_LOCAL b = MACH_MSG_TYPE_MAKE_SEND_ONCE"
  by (simp_all add: ports_bits MACH_MSGH_BITS_def)

lemma general_no_reply:
  assumes "rights_ok st space" "MACH_PORT_VALID (hdr_remote_port msg)" "hdr_local_port msg = MACH_PORT_NULL"
    and "MACH_MSGH_BITS_REMOTE (hdr_bits msg AND NOT MACH_MSGH_BITS_CIRCULAR) = t" "MACH_MSG_TYPE_PORT_ANY_SEND t"
    and "MACH_MSGH_BITS_LOCAL (hdr_bits msg AND NOT MACH_MSGH_BITS_CIRCULAR) = 0" "ipc_object_copyin_type t = Some u"
    and "copyin_no_reply space (hdr_remote_port msg) MACH_PORT_NULL t st = Some (Inr (p, MACH_PORT_NULL, IP_NULL, IP_NULL), st')"
  shows "copyin_header_general id id msg space MACH_PORT_NULL st =
    Some (Inr \<lparr>hdr_bits = MACH_MSGH_BITS_OTHER (hdr_bits msg AND NOT MACH_MSGH_BITS_CIRCULAR) OR MACH_MSGH_BITS u 0,
               hdr_remote_port = p, hdr_local_port = MACH_PORT_NULL\<rparr>, st')"
proof -
  have "is_active (st_space st space)" using assms(1) by (simp add: rights_ok_def at_rest_def)
  moreover have "hdr_remote_port msg \<noteq> MACH_PORT_NULL" "\<not> MACH_PORT_VALID MACH_PORT_NULL" using assms(2) by (auto simp: MACH_PORT_VALID_def)
  ultimately show ?thesis using assms finish_quiet [of msg u 0]
    by (simp add: copyin_header_general_def Let_def ipc_object_copyin_type_def)
qed

lemma general_request:
  assumes ok: "rights_ok st space"
    and b: "MACH_MSGH_BITS_PORTS (hdr_bits msg AND NOT MACH_MSGH_BITS_CIRCULAR) = MACH_MSGH_BITS MACH_MSG_TYPE_COPY_SEND MACH_MSG_TYPE_MAKE_SEND_ONCE"
    and c: "copyin_request lock_try space (hdr_remote_port msg) (hdr_local_port msg) st = Some (p, q, st')"
  shows "copyin_header_general id id msg space MACH_PORT_NULL st =
    Some (Inr \<lparr>hdr_bits = MACH_MSGH_BITS_OTHER (hdr_bits msg AND NOT MACH_MSGH_BITS_CIRCULAR) OR
                 MACH_MSGH_BITS MACH_MSG_TYPE_PORT_SEND MACH_MSG_TYPE_PORT_SEND_ONCE,
               hdr_remote_port = p, hdr_local_port = q\<rparr>, st')"
proof -
  have "is_active (st_space st space)" using ok by (simp add: rights_ok_def at_rest_def)
  then show ?thesis
    using request_general [OF ok c] common_types(3) [OF b] finish_quiet [of msg MACH_MSG_TYPE_PORT_SEND MACH_MSG_TYPE_PORT_SEND_ONCE]
    by (cases "hdr_remote_port msg = hdr_local_port msg")
      (simp_all add: copyin_header_general_def Let_def MACH_MSG_TYPE_PORT_ANY_SEND_def ipc_object_copyin_type_def)
qed

text \<open>A space with a send-once right for a live port.\<close>

definition once_kernel :: ipc_kernel where
  "once_kernel = upd_port 0x2000 (\<lambda>p. p\<lparr>ip_active := True, ip_sorights := 1\<rparr>) (right_kernel 0x40001 0x2000 0)"

lemma once_kernel_ok: "rights_ok once_kernel 0x1000"
proof -
  have h: "holds (right_kernel 0x40001 0x2000 0) 0x1000 1 (Table 1) 0x40001 0x2000 0"
    and c: "space_caps (right_kernel 0x40001 0x2000 0) 0x1000 = [1 \<mapsto> (0x40001, 0x2000, 0)]"
    by (rule right_kernel_holds; simp add: IE_BITS_TYPE_def)+
  have "life (right_kernel 0x40001 0x2000 0) 0x1000 = life first_kernel 0x1000" unfolding right_kernel_def by (simp only: upd_entry_life)
  then have rest: "at_rest (right_kernel 0x40001 0x2000 0) 0x1000" using h first_kernel_fresh by (auto simp: at_rest_def holds_def life_def fresh_entry_def)
  have part: "space_part once_kernel = space_part (right_kernel 0x40001 0x2000 0)" by (simp add: once_kernel_def)
  have caps: "space_caps once_kernel 0x1000 = [1 \<mapsto> (0x40001, 0x2000, 0)]" using c caps_cong [OF part, of "0x1000"] by (simp only:)
  have r: "right_of 0x40001 = Some Send_once_right" by (simp add: right_of_def IE_BITS_TYPE_def IE_BITS_UREFS_def)
  have "at_rest once_kernel 0x1000" using rest rest_cong [OF part, of "0x1000"] by (simp only:)
  moreover have "well_typed once_kernel 0x1000" using caps r by (simp add: well_typed_def)
  moreover have "space_rights once_kernel 0x1000 = [1 \<mapsto> (Send_once_right, 0x2000)]" using caps r by (auto simp: space_rights_def fun_eq_iff)
  ultimately show ?thesis by (simp add: rights_ok_def)
qed

text \<open>
  C6. The three kinds of message that have code of their own are not treated differently: for every header, on a
  space that is in order and with no other processor at work, the whole routine gives the same result, the
  same header and the same state of the kernel, down to every entry, count and notification, as the general
  code alone. Whether the reply port could be locked at once makes no difference.
\<close>

theorem copyin_header_exact:
  assumes "rights_ok st space"
  shows "ipc_kmsg_copyin_header lock_try id id msg space notify st = copyin_header_general id id msg space notify st"
proof -
  let ?b = "hdr_bits msg AND NOT MACH_MSGH_BITS_CIRCULAR"
  have send: "MACH_MSG_TYPE_PORT_ANY_SEND MACH_MSG_TYPE_COPY_SEND" "MACH_MSG_TYPE_PORT_ANY_SEND MACH_MSG_TYPE_MOVE_SEND_ONCE"
    by (simp_all add: MACH_MSG_TYPE_PORT_ANY_SEND_def)
  have types: "ipc_object_copyin_type MACH_MSG_TYPE_COPY_SEND = Some MACH_MSG_TYPE_PORT_SEND"
    "ipc_object_copyin_type MACH_MSG_TYPE_MOVE_SEND_ONCE = Some MACH_MSG_TYPE_PORT_SEND_ONCE"
    by (simp_all add: ipc_object_copyin_type_def)
  have a: "copyin_header_general id id msg space MACH_PORT_NULL st = Some (Inr \<lparr>hdr_bits = MACH_MSGH_BITS_OTHER ?b OR MACH_MSGH_BITS MACH_MSG_TYPE_PORT_SEND 0,
        hdr_remote_port = p, hdr_local_port = MACH_PORT_NULL\<rparr>, st')"
    if "MACH_MSGH_BITS_PORTS ?b = MACH_MSGH_BITS MACH_MSG_TYPE_COPY_SEND 0" "hdr_local_port msg = MACH_PORT_NULL" "copyin_async space (hdr_remote_port msg) st = Some (p, st')" for p st'
    using general_no_reply [OF assms async_general(1) [OF assms that(3)] that(2) _ send(1) _ types(1) async_general(2) [OF assms that(3)]]
      common_types(1) [OF that(1)] by blast
  have r: "copyin_header_general id id msg space MACH_PORT_NULL st = Some (Inr \<lparr>hdr_bits = MACH_MSGH_BITS_OTHER ?b OR MACH_MSGH_BITS MACH_MSG_TYPE_PORT_SEND_ONCE 0,
        hdr_remote_port = p, hdr_local_port = MACH_PORT_NULL\<rparr>, st')"
    if "MACH_MSGH_BITS_PORTS ?b = MACH_MSGH_BITS MACH_MSG_TYPE_MOVE_SEND_ONCE 0" "hdr_local_port msg = MACH_PORT_NULL" "copyin_reply space (hdr_remote_port msg) st = Some (p, st')" for p st'
    using general_no_reply [OF assms reply_general(1) [OF assms that(3)] that(2) _ send(2) _ types(2) reply_general(2) [OF assms that(3)]]
      common_types(2) [OF that(1)] by blast
  show ?thesis
    unfolding ipc_kmsg_copyin_header_def Let_def using a r general_request [OF assms, of msg lock_try]
    by (auto split: option.split)
qed

theorem copyin_header_exact_witness:
  "\<exists>st'. copyin_header_general id id \<lparr>hdr_bits = 18, hdr_remote_port = 1, hdr_local_port = 0\<rparr> 0x1000 MACH_PORT_NULL once_kernel
     = Some (Inr \<lparr>hdr_bits = 18, hdr_remote_port = 0x2000, hdr_local_port = 0\<rparr>, st')"
proof -
  let ?m = "\<lparr>hdr_bits = 18, hdr_remote_port = 1, hdr_local_port = 0\<rparr>"
  obtain st' where "copyin_reply 0x1000 1 once_kernel = Some (0x2000, st')"
    by (simp add: copyin_reply_def fast_lookup_def once_kernel_def right_kernel_def first_kernel_def ipc_entry_get_def one_space_def
        entries_sizes_small Let_def MACH_PORT_INDEX_def MACH_PORT_GEN_def new_table_def)
  then have "ipc_kmsg_copyin_header True id id ?m 0x1000 MACH_PORT_NULL once_kernel
      = Some (Inr \<lparr>hdr_bits = 18, hdr_remote_port = 0x2000, hdr_local_port = 0\<rparr>, st')"
    by (simp add: ipc_kmsg_copyin_header_def MACH_MSGH_BITS_def MACH_MSGH_BITS_PORTS_def MACH_MSGH_BITS_OTHER_def MACH_PORT_NULL_def)
  then show ?thesis using copyin_header_exact [OF once_kernel_ok, of True ?m MACH_PORT_NULL] by auto
qed

end
