(* ===== verification/Spec2Isabelle.thy ===== *)
theory Spec2Isabelle
  imports IpcTable HashSize Circularity QueueFacts PsetFacts OldRights QueueRings LockFacts MsgFacts
begin

text \<open>
  The capability layer of the Mach 4 kernel, modelled and verified.

  \<^bold>\<open>The program.\<close> Tasks of a Mach kernel name ports by small integers. A \<^verbatim>\<open>space\<close> holds the capabilities of a
  task: a table for small names, a splay tree for large ones, and a reverse hash table that finds the name
  of a send right from its port. Ports hold queues of messages and the tables of those who want to know of
  their death; port sets collect the messages of several ports. The calls of \<^verbatim>\<open>mach_port.c\<close> are what a task
  sees of all this. The sources are under \<^verbatim>\<open>src/kernel/generic/kernel/ipc\<close> (called \<^verbatim>\<open>ipc\<close> here), with the queues of
  \<^verbatim>\<open>kern/queue.[ch]\<close>, the locks of \<^verbatim>\<open>kern/lock.c\<close> and the headers under \<^verbatim>\<open>src/kernel/generic/include/mach\<close>. The configuration is the one of the
  repository: \<^verbatim>\<open>MACH_IPC_COMPAT\<close> is on; \<^verbatim>\<open>NORMA_IPC\<close>, \<^verbatim>\<open>MACH_KDB\<close>, \<^verbatim>\<open>MACH_ASSERT\<close> and \<^verbatim>\<open>PORT_GENERATIONS\<close> are off.

  \<^bold>\<open>How code becomes definitions.\<close> Names, pointers, flag words and counters that may wrap around are 32-bit
  words; indices, lengths and counts are natural numbers. The state of the kernel is one record, \<^verbatim>\<open>ipc_kernel\<close>,
  with the spaces, ports, port sets, messages and waiting threads as maps from addresses, and every routine
  takes the state and returns it updated, with the name the code has. Return codes are values of a sum type.
  A notification sent, a thread woken up and a message destroyed are events of the state, in order. What the
  code reads from elsewhere is a parameter: memory from an allocator is an optional value, and where the code
  unlocks a space or blocks, what other threads do meanwhile is a function on the state. \<^verbatim>\<open>None\<close> stands for a
  loop that does not end, a panic, or an access outside of an array. The locking in the IPC code is not modelled: each routine is
  atomic between the windows that are parameters.

  \<^bold>\<open>Shared theories.\<close> \<^verbatim>\<open>Prelude\<close> has the machine types, return codes and lemmas on lists, words and search
  trees. \<^verbatim>\<open>Capability\<close> has the names and the packed words of entries (\<^verbatim>\<open>mach/port.h\<close>, \<^verbatim>\<open>ipc/port.h\<close>, \<^verbatim>\<open>ipc/ipc_entry.h\<close>).
  \<^verbatim>\<open>Probing\<close> is the theory of linear probing, \<^verbatim>\<open>KernelState\<close> the rules that read an updated state.

  \<^bold>\<open>Large names\<close> (\<^verbatim>\<open>ipc/ipc_splay.c\<close>). \<^verbatim>\<open>Splay\<close> and \<^verbatim>\<open>SplayTraverse\<close> model every operation, the traversal by pointer
  inversion included; \<^verbatim>\<open>NameTree\<close> states the contract of such a tree as the locale \<^verbatim>\<open>name_tree\<close> and shows that the
  code meets it: lookups, insertions and deletions are those of an ordered map, a split and a join undo each
  other, and a traversal with deletions ends and visits each entry once.

  \<^bold>\<open>Tables\<close> (\<^verbatim>\<open>ipc/ipc_table.c\<close>, \<^verbatim>\<open>ipc/ipc_hash.c\<close>). \<^verbatim>\<open>IpcTable\<close> computes the arrays of sizes to which tables grow and
  shows the shape that \<^verbatim>\<open>ipc_table.h\<close> demands (locale \<^verbatim>\<open>growth_sizes\<close>). \<^verbatim>\<open>ReverseTable\<close> is the contract of a table from
  objects to entries. \<^verbatim>\<open>LocalHash\<close> (open addressing in the table of a space, with deletion by moving entries
  back) and \<^verbatim>\<open>IpcSpace\<close> (the global table of chains) both meet it; \<^verbatim>\<open>HashFacts\<close> puts the two together. \<^verbatim>\<open>HashSize\<close> has
  the power-of-two sizes of the global tables (\<^verbatim>\<open>ipc_hash_init\<close>, \<^verbatim>\<open>ipc_marequest_init\<close>).

  \<^bold>\<open>Entries of a space\<close> (\<^verbatim>\<open>ipc/ipc_entry.c\<close>, \<^verbatim>\<open>ipc/ipc_space.c\<close>). \<^verbatim>\<open>IpcSpace\<close> and \<^verbatim>\<open>IpcEntry\<close> are the model. \<^verbatim>\<open>FreeList\<close> is the
  list of free entries threaded through the table, \<^verbatim>\<open>EntryFacts\<close> the invariant of a space and its meaning as a
  finite map from names to capabilities; \<^verbatim>\<open>GrowFacts\<close> and \<^verbatim>\<open>SpaceFacts\<close> show that growing the table, moving entries
  from the tree into it and rebuilding the hash table change no capability, that a lookup gives what the name
  denotes, and that an allocation gives a name that denoted nothing.

  \<^bold>\<open>Ports, port sets and messages\<close> (\<^verbatim>\<open>ipc/ipc_port.c\<close>, \<^verbatim>\<open>ipc/ipc_pset.c\<close>, \<^verbatim>\<open>ipc/ipc_mqueue.c\<close>). \<^verbatim>\<open>IpcMqueue\<close>, \<^verbatim>\<open>IpcPort\<close> and
  \<^verbatim>\<open>IpcMessage\<close> are the model. \<^verbatim>\<open>PortFacts\<close> has timestamps, dead-name requests (locale \<^verbatim>\<open>request_table\<close>) and the counting
  of senders; \<^verbatim>\<open>Circularity\<close> the check that no port can be sent into itself; \<^verbatim>\<open>QueueFacts\<close> the order of messages, the
  queue limit and blocked senders; \<^verbatim>\<open>PsetFacts\<close> the moving of messages between a port and a set. \<^verbatim>\<open>Queues\<close> models
  the linked queues below them, of messages (\<^verbatim>\<open>ipc/ipc_kmsg.[ch]\<close>), threads (\<^verbatim>\<open>ipc/ipc_thread.[ch]\<close>) and in general
  (\<^verbatim>\<open>kern/queue.[ch]\<close>), pointer by pointer; \<^verbatim>\<open>QueueRings\<close> shows that they are lists (locale \<^verbatim>\<open>first_queue\<close>).

  \<^bold>\<open>Rights\<close> (\<^verbatim>\<open>ipc/ipc_right.c\<close>, \<^verbatim>\<open>ipc/ipc_object.c\<close>, \<^verbatim>\<open>ipc/ipc_marequest.c\<close>). \<^verbatim>\<open>IpcMarequest\<close>, \<^verbatim>\<open>IpcRight\<close>, \<^verbatim>\<open>IpcCopy\<close> and \<^verbatim>\<open>IpcObject\<close>
  are the model. \<^verbatim>\<open>RightBits\<close> is the arithmetic of the word that packs the kind of a right and its count.
  \<^verbatim>\<open>NamedEntries\<close> and \<^verbatim>\<open>RightFacts\<close> give the abstract account: what right a name denotes, and what the code for
  one right leaves alone. \<^verbatim>\<open>DeltaFacts\<close> shows this of every branch of \<^verbatim>\<open>ipc_right_delta\<close>.

  \<^bold>\<open>The calls of a task\<close> (\<^verbatim>\<open>ipc/mach_port.c\<close>). \<^verbatim>\<open>MachPort\<close> and \<^verbatim>\<open>PortCompat\<close> are the model of the new and of the old
  interface. \<^verbatim>\<open>PortCalls\<close> shows that the calls on one name implement operations on abstract rights (locale
  \<^verbatim>\<open>name_operation\<close>), \<^verbatim>\<open>PortAlloc\<close> and \<^verbatim>\<open>PortInfo\<close> that allocation and queries do, \<^verbatim>\<open>PortNames\<close> that the list of names is
  exact. \<^verbatim>\<open>PortSpace\<close> puts a space through any sequence of calls from its creation on. \<^verbatim>\<open>OldRights\<close> shows three
  places where the code or its comments go wrong.

  \<^bold>\<open>Headers of messages\<close> (\<^verbatim>\<open>ipc/ipc_kmsg.c\<close>). \<^verbatim>\<open>MsgHeader\<close> models \<^verbatim>\<open>ipc_kmsg_copyin_header\<close>, which turns the two names in
  the header of a message into ports with rights: the code for three common kinds of message, which reads
  the table of the space directly, and the general code, which treats both rights as one. \<^verbatim>\<open>MsgFacts\<close> shows that
  the former gives exactly what the latter gives on every space that \<^verbatim>\<open>PortSpace\<close> shows a task can have.

  \<^bold>\<open>Locks\<close> (\<^verbatim>\<open>kern/lock.c\<close>). \<^verbatim>\<open>Locks\<close> models the locks for readers and writers, a routine as the steps between two
  points at which it gives up the interlock, and any number of threads that use one lock as a step
  relation. \<^verbatim>\<open>LockFacts\<close> shows that writers are alone and that no wakeup is lost, for every interleaving.

  \<^bold>\<open>Termination and bounds.\<close> Loops over lists are recursion on them. The chase through ports in transit is a
  partial function, and shown to return when these form no circle. The loops in \<^verbatim>\<open>ipc_entry_alloc\<close>,
  \<^verbatim>\<open>ipc_entry_alloc_name\<close> and \<^verbatim>\<open>ipc_object_copyout\<close> repeat after a window in which the space was unlocked; they recurse
  on the list of windows and give \<^verbatim>\<open>None\<close> when it is too short; the growth of a table never needs more windows than
  there are sizes of tables, as the theorem on growing tables shows. Rounding up to a power of two has 32 rounds,
  one for each bit of the mask. Masks and probes of the hash tables go round at most once.

  \<^bold>\<open>Not modelled.\<close> Locks and reference counts taken only to hold an object while it is locked; the copying of
  message bodies between address spaces and of headers to a receiver (the rest of \<^verbatim>\<open>ipc/ipc_kmsg.c\<close>) and the traps of \<^verbatim>\<open>ipc/mach_msg.c\<close>, \<^verbatim>\<open>ipc/fipc.c\<close>
  and \<^verbatim>\<open>ipc/mach_rpc.c\<close>, which work on raw memory and on the scheduler; \<^verbatim>\<open>ipc/ipc_notify.c\<close>, whose messages are events
  here; \<^verbatim>\<open>ipc/mach_debug.c\<close> and the routines that count buckets for it; the calls on activations that exist only
  with migrating threads. The rest of the kernel (\<^verbatim>\<open>kern\<close>, \<^verbatim>\<open>vm\<close>, devices, debugger), the interface generator, the
  libraries, the bootstrap task and the Lites server lie outside of the capability layer.
\<close>

end
